(* ===== verification/Prelude.thy ===== *)
theory Prelude
  imports
    Main
    "HOL-Library.Word"
    "HOL-Library.Signed_Division"
begin

section \<open>Shared types, byte-level helpers and automation\<close>

text \<open>
  The types and the small library every component theory uses: fixed-width unsigned
  integers as words, \<open>int64_t\<close> as \<open>int\<close> with the two's complement wrap written out where
  a value can leave the range, little-endian byte encodings, \<open>memcpy\<close> at an offset and
  reading a slice of a byte array, and the named collections of facts the component
  theories feed.
\<close>

subsection \<open>Collections\<close>

named_theorems step_defs \<open>definitions of the operations of a component\<close>
named_theorems inv_intros \<open>preservation facts of component invariants\<close>
named_theorems byte_simps \<open>reading and writing byte arrays\<close>

subsection \<open>Machine integers\<close>

type_synonym u8 = "8 word"
type_synonym u16 = "16 word"
type_synonym u32 = "32 word"
type_synonym u64 = "64 word"

text \<open>\<open>int64_t\<close> arithmetic is on \<open>int\<close>; \<open>i64\<close> is the value a 64-bit register keeps.\<close>

definition i64 :: "int \<Rightarrow> int" where
  "i64 x = signed_take_bit 63 x"

definition in_i64 :: "int \<Rightarrow> bool" where
  "in_i64 x \<longleftrightarrow> - (2 ^ 63) \<le> x \<and> x < 2 ^ 63"

lemma i64_id: "in_i64 x \<Longrightarrow> i64 x = x"
  by (simp add: i64_def in_i64_def signed_take_bit_int_eq_self)

lemma in_i64_i64 [simp]: "in_i64 (i64 x)"
  unfolding in_i64_def i64_def
  using signed_take_bit_int_greater_eq_minus_exp [of 63 x] signed_take_bit_int_less_exp [of 63 x]
  by simp

text \<open>C's integer division truncates towards zero: \<open>sdiv\<close> and \<open>smod\<close> of the library.\<close>

lemma sdiv_nonneg: "0 \<le> a \<Longrightarrow> 0 < b \<Longrightarrow> a sdiv b = a div (b::int)"
  by (simp add: signed_divide_int_def sgn_if)

lemma smod_nonneg: "0 \<le> a \<Longrightarrow> 0 < b \<Longrightarrow> a smod b = a mod (b::int)"
  by (cases "a = 0") (simp_all add: signed_modulo_int_def sgn_if)

lemma sdiv2_bounds: "\<bar>2 * (a sdiv 2) - a\<bar> \<le> (1::int)"
  by (simp add: signed_divide_int_def sgn_if) presburger

lemma sdiv2_double [simp]: "(2 * a) sdiv 2 = (a::int)"
  by (simp add: signed_divide_int_def sgn_if abs_mult)

subsection \<open>Byte arrays\<close>

text \<open>Little-endian bytes of a number, and the number of a byte list.\<close>

primrec le_bytes :: "nat \<Rightarrow> nat \<Rightarrow> u8 list" where
  "le_bytes 0 x = []"
| "le_bytes (Suc n) x = word_of_nat (x mod 256) # le_bytes n (x div 256)"

primrec of_le :: "u8 list \<Rightarrow> nat" where
  "of_le [] = 0"
| "of_le (b # bs) = unat b + 256 * of_le bs"

lemma length_le_bytes [simp]: "length (le_bytes n x) = n"
  by (induction n arbitrary: x) simp_all

lemma unat_byte [simp]: "unat (word_of_nat (x mod 256) :: u8) = x mod 256"
  by (simp add: unat_of_nat)

lemma of_le_le_bytes: "of_le (le_bytes n x) = x mod 256 ^ n"
  by (induction n arbitrary: x) (simp_all add: mod_mult2_eq)

definition word_le :: "nat \<Rightarrow> 'a::len word \<Rightarrow> u8 list" where
  "word_le n w = le_bytes n (unat w)"

definition le_word :: "u8 list \<Rightarrow> 'a::len word" where
  "le_word bs = word_of_nat (of_le bs)"

lemma length_word_le [simp]: "length (word_le n w) = n"
  by (simp add: word_le_def)

lemma le_word_word_le:
  fixes w :: "'a::len word"
  assumes "LENGTH('a) \<le> 8 * n"
  shows "le_word (word_le n w) = w"
proof -
  have "unat w < 2 ^ LENGTH('a)" by (rule unsigned_less)
  also have "\<dots> \<le> (256::nat) ^ n"
    using assms power_increasing [of "LENGTH('a)" "8 * n" "2::nat"] by (simp add: power_mult)
  finally have "unat w mod 256 ^ n = unat w" by simp
  then show ?thesis
    by (simp add: le_word_def word_le_def of_le_le_bytes)
qed

text \<open>
  \<open>slice k n xs\<close> is the \<open>n\<close> bytes at offset \<open>k\<close>; \<open>memcpy_at k src dst\<close> is the array after
  \<open>memcpy(dst + k, src, length src)\<close>.
\<close>

definition slice :: "nat \<Rightarrow> nat \<Rightarrow> 'a list \<Rightarrow> 'a list" where
  "slice k n xs = take n (drop k xs)"

definition memcpy_at :: "nat \<Rightarrow> 'a list \<Rightarrow> 'a list \<Rightarrow> 'a list" where
  "memcpy_at k src dst = take k dst @ src @ drop (k + length src) dst"

lemma length_slice [simp]: "length (slice k n xs) = min n (length xs - k)"
  by (simp add: slice_def)

lemma length_memcpy_at [simp, byte_simps]:
  "k + length src \<le> length dst \<Longrightarrow> length (memcpy_at k src dst) = length dst"
  by (simp add: memcpy_at_def)

lemma slice_memcpy_same [byte_simps]:
  "k \<le> length dst \<Longrightarrow> n = length src \<Longrightarrow> slice k n (memcpy_at k src dst) = src"
  by (simp add: slice_def memcpy_at_def)

lemma slice_memcpy_before [byte_simps]:
  "j + n \<le> k \<Longrightarrow> k \<le> length dst \<Longrightarrow> slice j n (memcpy_at k src dst) = slice j n dst"
proof -
  assume a: "j + n \<le> k" "k \<le> length dst"
  have "slice j n (memcpy_at k src dst) = take n (drop j (take k dst))"
    using a by (simp add: slice_def memcpy_at_def min_absorb2)
  also have "\<dots> = slice j n dst"
    using a by (simp add: slice_def drop_take min_absorb1)
  finally show ?thesis .
qed

lemma slice_memcpy_after [byte_simps]:
  "k + length src \<le> j \<Longrightarrow> k \<le> length dst \<Longrightarrow> slice j n (memcpy_at k src dst) = slice j n dst"
  by (simp add: slice_def memcpy_at_def)

lemma slice_slice: "j + m \<le> n \<Longrightarrow> slice j m (slice k n xs) = slice (k + j) m xs"
  by (simp add: slice_def drop_take add.commute)

lemma slice_memcpy_inside [byte_simps]:
  "k \<le> j \<Longrightarrow> j + n \<le> k + length src \<Longrightarrow> k \<le> length dst \<Longrightarrow>
     slice j n (memcpy_at k src dst) = slice (j - k) n src"
  by (simp add: slice_def memcpy_at_def)

lemma slice_list_update [byte_simps]:
  "i < k \<or> k + n \<le> i \<Longrightarrow> slice k n (p[i := b]) = slice k n p"
  by (auto simp: slice_def list_eq_iff_nth_eq nth_list_update)

lemma slice_take [byte_simps]: "k + n \<le> m \<Longrightarrow> slice k n (take m xs) = slice k n xs"
  by (simp add: slice_def drop_take)

lemma slice_append_left [byte_simps]:
  "k + n \<le> length xs \<Longrightarrow> slice k n (xs @ ys) = slice k n xs"
  by (simp add: slice_def)

lemma nth_memcpy_at:
  "k + length src \<le> length dst \<Longrightarrow> i < length dst \<Longrightarrow>
     memcpy_at k src dst ! i = (if k \<le> i \<and> i < k + length src then src ! (i - k) else dst ! i)"
  by (auto simp: memcpy_at_def nth_append min_def)

subsection \<open>Strictly increasing lists\<close>

lemma sorted_wrt_less_last:
  fixes xs :: "'a::linorder list"
  shows "sorted_wrt (<) xs \<Longrightarrow> x \<in> set xs \<Longrightarrow> x \<le> last xs"
proof (induction xs)
  case (Cons a xs)
  then show ?case by (cases "xs = []") (auto simp: less_imp_le)
qed simp

subsection \<open>Association lists kept in a vector\<close>

text \<open>
  \<open>std::find_if\<close> followed by an update in place changes the first match only; with at most
  one match that is the map below.
\<close>

primrec update_first :: "('a \<Rightarrow> bool) \<Rightarrow> ('a \<Rightarrow> 'a) \<Rightarrow> 'a list \<Rightarrow> 'a list" where
  "update_first p f [] = []"
| "update_first p f (x # xs) = (if p x then f x # xs else x # update_first p f xs)"

lemma length_update_first [simp]: "length (update_first p f xs) = length xs"
  by (induction xs) simp_all

lemma update_first_id: "\<forall>x\<in>set xs. \<not> p x \<Longrightarrow> update_first p f xs = xs"
  by (induction xs) simp_all

lemma map_update_first:
  "(\<And>x. p x \<Longrightarrow> g (f x) = g x) \<Longrightarrow> map g (update_first p f xs) = map g xs"
  by (induction xs) simp_all

lemma set_update_first_subset: "set (update_first p f xs) \<subseteq> set xs \<union> f ` {x \<in> set xs. p x}"
  by (induction xs) auto

subsection \<open>Counting and sums over updated lists\<close>

text \<open>\<open>cnt\<close> is an integer, so that equations between counters stay linear.\<close>

definition cnt :: "('a \<Rightarrow> bool) \<Rightarrow> 'a list \<Rightarrow> int" where
  "cnt P xs = int (length (filter P xs))"

lemma cnt_update [simp]:
  "i < length xs \<Longrightarrow> cnt P (xs[i := x]) = cnt P xs - of_bool (P (xs ! i)) + of_bool (P x)"
proof (induction xs arbitrary: i)
  case (Cons y ys)
  then show ?case by (cases i) (auto simp: cnt_def)
qed simp

lemma cnt_nonneg [simp]: "0 \<le> cnt P xs"
  by (simp add: cnt_def)

lemma cnt_pos: "i < length xs \<Longrightarrow> P (xs ! i) \<Longrightarrow> 1 \<le> cnt P xs"
  by (auto simp: cnt_def Suc_le_eq filter_empty_conv)

lemma cnt_replicate [simp]: "\<not> P x \<Longrightarrow> cnt P (replicate n x) = 0"
  by (simp add: cnt_def)

lemma cnt_Cons [simp]: "cnt P (x # xs) = of_bool (P x) + cnt P xs"
  by (simp add: cnt_def)

lemma cnt_ex: "0 < cnt P xs \<Longrightarrow> \<exists>i < length xs. P (xs ! i)"
  by (auto simp: cnt_def filter_empty_conv in_set_conv_nth)

lemma mod_neq_within:
  assumes "q < (m::nat)" and "m < q + k"
  shows "q mod k \<noteq> m mod k"
proof
  assume "q mod k = m mod k"
  then have "k dvd m - q" using assms(1) mod_eq_dvd_iff_nat [of q m k] by simp
  then have "k \<le> m - q" using assms(1) by (auto dest: dvd_imp_le)
  then show False using assms by linarith
qed

lemma cnt_zeroI: "(\<And>i. i < length xs \<Longrightarrow> \<not> P (xs ! i)) \<Longrightarrow> cnt P xs = 0"
proof -
  assume "\<And>i. i < length xs \<Longrightarrow> \<not> P (xs ! i)"
  then have "\<not> 0 < cnt P xs" using cnt_ex by blast
  then show "cnt P xs = 0" using cnt_nonneg [of P xs] by linarith
qed

lemma sum_list_swap:
  "i < length xs \<Longrightarrow> sum_list (map f (xs[i := x])) = sum_list (map f xs) - f (xs ! i) + (f x :: int)"
proof (induction xs arbitrary: i)
  case (Cons y ys)
  then show ?case by (cases i) simp_all
qed simp

lemma sum_swap:
  fixes n i :: nat
  assumes "i < n" and "\<And>j. j < n \<Longrightarrow> j \<noteq> i \<Longrightarrow> g' j = (g j :: int)"
  shows "sum g' {..<n} = sum g {..<n} - g i + g' i"
proof -
  have "sum h {..<n} = h i + sum h ({..<n} - {i})" for h :: "nat \<Rightarrow> int"
    using assms(1) by (simp add: sum.remove)
  moreover have "sum g' ({..<n} - {i}) = sum g ({..<n} - {i})" by (rule sum.cong) (use assms(2) in auto)
  ultimately show ?thesis by simp
qed

lemma cnt_le_length: "cnt P xs \<le> int (length xs)"
  by (simp add: cnt_def)

end
