(* ===== verification/Clock.thy ===== *)
theory Clock
  imports Prelude
begin

section \<open>Time: the clock, timed waits and periodic threads\<close>

text \<open>
  \<open>src/core/clock.h\<close>, \<open>src/core/posix_semaphore.h\<close> and \<open>src/core/periodic_thread.h\<close>.
  Clock readings are arguments, so every theorem holds for a clock that jumps; the
  compare-and-swap loop of \<open>monotonic_stamp\<close> is a step relation over any number of threads.
\<close>

subsection \<open>\<open>now_ns\<close>\<close>

record timespec =
  tv_sec :: int
  tv_nsec :: int

definition timespec_ok :: "timespec \<Rightarrow> bool" where
  "timespec_ok ts \<longleftrightarrow> 0 \<le> tv_nsec ts \<and> tv_nsec ts < 1000000000"

definition now_ns :: "timespec \<Rightarrow> int" where
  "now_ns ts = i64 (tv_sec ts * 1000000000 + tv_nsec ts)"

subsection \<open>\<open>monotonic_stamp\<close> by one thread\<close>

definition stamp_of :: "int \<Rightarrow> int \<Rightarrow> int" where
  "stamp_of now prev = (if now > prev then now else prev + 1)"

definition monotonic_stamp :: "int \<Rightarrow> int \<Rightarrow> int \<times> int" where
  "monotonic_stamp now lst = (let ts = stamp_of now lst in (ts, ts))"

primrec stamps :: "int \<Rightarrow> int list \<Rightarrow> int list" where
  "stamps lst [] = []"
| "stamps lst (now # nows) =
     (let (ts, lst') = monotonic_stamp now lst in ts # stamps lst' nows)"

lemma stamp_of_greater: "prev < stamp_of now prev"
  by (simp add: stamp_of_def)

lemma stamp_of_ge_now: "now \<le> stamp_of now prev"
  by (simp add: stamp_of_def)

lemma stamps_greater: "t \<in> set (stamps l nows) \<Longrightarrow> l < t"
proof (induction nows arbitrary: l)
  case (Cons now nows)
  then show ?case
    using stamp_of_greater [of l now]
    by (fastforce simp: monotonic_stamp_def Let_def)
qed simp

lemma stamps_eq_Nil [simp]: "stamps l nows = [] \<longleftrightarrow> nows = []"
  by (cases nows) (simp_all add: monotonic_stamp_def Let_def)

lemma stamps_increasing: "sorted_wrt (<) (stamps l nows)"
  by (induction nows arbitrary: l)
     (auto simp: monotonic_stamp_def Let_def dest: stamps_greater)

subsection \<open>\<open>monotonic_stamp\<close> by concurrent threads\<close>

text \<open>
  A thread reads the clock, loads \<open>last\<close>, computes \<open>ts\<close> and tries
  \<open>compare_exchange_weak(prev, ts)\<close>: success stores \<open>ts\<close>; failure (another thread moved
  \<open>last\<close>, or the weak form failed spuriously) reloads \<open>prev\<close> and repeats. The field
  \<open>issued\<close> is a ghost log of the successful exchanges as (thread, clock reading, stamp).
\<close>

datatype stamp_pc = Idle | Read int | Loaded int int | Done int

record stamp_sys =
  last_stamp :: int
  pcs :: "nat \<Rightarrow> stamp_pc"
  issued :: "(nat \<times> int \<times> int) list"

definition stamp_init :: stamp_sys where
  "stamp_init = \<lparr>last_stamp = 0, pcs = (\<lambda>_. Idle), issued = []\<rparr>"

inductive stamp_step :: "stamp_sys \<Rightarrow> stamp_sys \<Rightarrow> bool" where
  read_clock: "pcs s i = Idle \<Longrightarrow> stamp_step s (s\<lparr>pcs := (pcs s)(i := Read now)\<rparr>)"
| load: "pcs s i = Read now \<Longrightarrow>
     stamp_step s (s\<lparr>pcs := (pcs s)(i := Loaded now (last_stamp s))\<rparr>)"
| cas_ok: "pcs s i = Loaded now prev \<Longrightarrow> prev = last_stamp s \<Longrightarrow>
     stamp_step s (s\<lparr>last_stamp := stamp_of now prev,
       pcs := (pcs s)(i := Done (stamp_of now prev)),
       issued := issued s @ [(i, now, stamp_of now prev)]\<rparr>)"
| cas_fail: "pcs s i = Loaded now prev \<Longrightarrow>
     stamp_step s (s\<lparr>pcs := (pcs s)(i := Loaded now (last_stamp s))\<rparr>)"
| return: "pcs s i = Done ts \<Longrightarrow> stamp_step s (s\<lparr>pcs := (pcs s)(i := Idle)\<rparr>)"

inductive stamp_reachable :: "stamp_sys \<Rightarrow> bool" where
  stamp_start: "stamp_reachable stamp_init"
| stamp_next: "stamp_reachable s \<Longrightarrow> stamp_step s t \<Longrightarrow> stamp_reachable t"

abbreviation issued_stamps :: "stamp_sys \<Rightarrow> int list" where
  "issued_stamps s \<equiv> map (\<lambda>(i, now, ts). ts) (issued s)"

abbreviation issued_nows :: "stamp_sys \<Rightarrow> int list" where
  "issued_nows s \<equiv> map (\<lambda>(i, now, ts). now) (issued s)"

text \<open>
  The log is a run of the one-thread routine: whatever the interleaving, the successful
  exchanges in their order behave as calls made one after the other.
\<close>

definition stamp_inv :: "stamp_sys \<Rightarrow> bool" where
  "stamp_inv s \<longleftrightarrow> issued_stamps s = stamps 0 (issued_nows s)
     \<and> last_stamp s = last (0 # issued_stamps s)
     \<and> (\<forall>i ts. pcs s i = Done ts \<longrightarrow> ts \<in> set (issued_stamps s))"

lemma stamps_append:
  "stamps l (xs @ [now]) = stamps l xs @ [stamp_of now (last (l # stamps l xs))]"
  by (induction xs arbitrary: l) (simp_all add: monotonic_stamp_def Let_def)

lemma stamp_inv_init: "stamp_inv stamp_init"
  by (simp add: stamp_inv_def stamp_init_def)

lemma stamp_inv_step: "stamp_step s t \<Longrightarrow> stamp_inv s \<Longrightarrow> stamp_inv t"
proof (induction rule: stamp_step.induct)
  case (cas_ok s i now prev)
  have eq: "issued_stamps s = stamps 0 (issued_nows s)"
    and lst: "last_stamp s = last (0 # issued_stamps s)"
    and fin: "\<And>j ts. pcs s j = Done ts \<Longrightarrow> ts \<in> set (issued_stamps s)"
    using cas_ok.prems by (auto simp only: stamp_inv_def)
  have prev: "prev = last (0 # stamps 0 (issued_nows s))"
    using cas_ok.hyps(2) lst eq by simp
  show ?case
    unfolding stamp_inv_def
    using eq by (auto simp: prev stamps_append simp del: set_map split: if_splits dest: fin)
qed (auto simp: stamp_inv_def simp del: set_map)

lemma stamp_reachable_inv: "stamp_reachable s \<Longrightarrow> stamp_inv s"
  by (induction rule: stamp_reachable.induct) (auto intro: stamp_inv_init stamp_inv_step)

text \<open>C33. Stamps handed out by concurrent calls never repeat and grow in the order of
  their exchanges, whatever the clock does (a backwards jump by the time
  synchronisation included), and the interleaving is equivalent to sequential calls.\<close>

theorem concurrent_stamps_unique:
  assumes "stamp_reachable s"
  shows "issued_stamps s = stamps 0 (issued_nows s)
     \<and> sorted_wrt (<) (issued_stamps s) \<and> distinct (issued_stamps s)
     \<and> (\<forall>t \<in> set (issued_stamps s). t \<le> last_stamp s)"
proof -
  have eq: "issued_stamps s = stamps 0 (issued_nows s)"
    and last: "last_stamp s = last (0 # issued_stamps s)"
    using stamp_reachable_inv [OF assms] by (auto simp: stamp_inv_def)
  have sorted: "sorted_wrt (<) (issued_stamps s)"
    unfolding eq by (rule stamps_increasing)
  have "t \<le> last_stamp s" if "t \<in> set (issued_stamps s)" for t
  proof -
    have "last_stamp s = List.last (issued_stamps s)"
      using that last by (metis last_ConsR list.set_cases neq_Nil_conv)
    then show ?thesis using sorted_wrt_less_last [OF sorted that] by simp
  qed
  with eq sorted show ?thesis
    using strict_sorted_iff by blast
qed

text \<open>A run: thread 0 reads 100 and stamps, then the clock is set back and thread 1 reads 50.\<close>

lemma concurrent_stamps_unique_witness:
  "\<exists>s. stamp_reachable s \<and> issued s = [(0, 100, 100), (1, 50, 101)]
     \<and> distinct (issued_stamps s)"
proof -
  let ?a = "stamp_init\<lparr>pcs := (pcs stamp_init)(0 := Read 100)\<rparr>"
  let ?b = "?a\<lparr>pcs := (pcs ?a)(0 := Loaded 100 (last_stamp ?a))\<rparr>"
  let ?c = "?b\<lparr>last_stamp := stamp_of 100 0, pcs := (pcs ?b)(0 := Done (stamp_of 100 0)),
              issued := issued ?b @ [(0, 100, stamp_of 100 0)]\<rparr>"
  let ?d = "?c\<lparr>pcs := (pcs ?c)(1 := Read 50)\<rparr>"
  let ?e = "?d\<lparr>pcs := (pcs ?d)(1 := Loaded 50 (last_stamp ?d))\<rparr>"
  let ?f = "?e\<lparr>last_stamp := stamp_of 50 100, pcs := (pcs ?e)(1 := Done (stamp_of 50 100)),
              issued := issued ?e @ [(1, 50, stamp_of 50 100)]\<rparr>"
  note defs = stamp_init_def stamp_of_def
  have "stamp_reachable ?a" by (rule stamp_next [OF stamp_start read_clock]) (simp add: defs)
  then have "stamp_reachable ?b" by (rule stamp_next [OF _ load]) (simp add: defs)
  then have "stamp_reachable ?c" by (rule stamp_next [OF _ cas_ok]) (simp_all add: defs)
  then have "stamp_reachable ?d" by (rule stamp_next [OF _ read_clock]) (simp add: defs)
  then have "stamp_reachable ?e" by (rule stamp_next [OF _ load]) (simp add: defs)
  then have f: "stamp_reachable ?f" by (rule stamp_next [OF _ cas_ok]) (simp_all add: defs)
  have "issued ?f = [(0, 100, 100), (1, 50, 101)]" by (simp add: defs)
  with f concurrent_stamps_unique [OF f] show ?thesis by blast
qed

subsection \<open>\<open>Semaphore::p_for\<close>\<close>

text \<open>
  The absolute deadline handed to \<open>sem_timedwait\<close>, and the retry loop around it: the results
  the call returns, in order, are the argument; \<open>None\<close> is a wait that has not ended.
\<close>

definition p_for_deadline :: "timespec \<Rightarrow> int \<Rightarrow> timespec" where
  "p_for_deadline ts timeout_ms =
     (let s = tv_sec ts + timeout_ms sdiv 1000;
          n = tv_nsec ts + (timeout_ms smod 1000) * 1000000
      in if n \<ge> 1000000000 then \<lparr>tv_sec = s + 1, tv_nsec = n - 1000000000\<rparr>
         else \<lparr>tv_sec = s, tv_nsec = n\<rparr>)"

datatype wait_result = Acquired | Interrupted | Timed_out

primrec p_for_loop :: "wait_result list \<Rightarrow> bool option" where
  "p_for_loop [] = None"
| "p_for_loop (r # rs) =
     (case r of Acquired \<Rightarrow> Some True | Interrupted \<Rightarrow> p_for_loop rs | Timed_out \<Rightarrow> Some False)"

lemma p_for_loop_interrupted [simp]:
  "p_for_loop (replicate n Interrupted @ rs) = p_for_loop rs"
  by (induction n) simp_all

text \<open>The deadline of a timed wait is a valid time (nanoseconds below one second)
  exactly \<open>timeout_ms\<close> after the reading it started from.\<close>

theorem p_for_deadline_exact:
  assumes "timespec_ok ts" and "0 \<le> timeout_ms"
  shows "timespec_ok (p_for_deadline ts timeout_ms)
     \<and> tv_sec (p_for_deadline ts timeout_ms) * 1000000000 + tv_nsec (p_for_deadline ts timeout_ms)
       = tv_sec ts * 1000000000 + tv_nsec ts + timeout_ms * 1000000"
proof -
  have "timeout_ms div 1000 * 1000000000 + timeout_ms mod 1000 * 1000000 = timeout_ms * 1000000"
    using div_mult_mod_eq [of timeout_ms 1000] by linarith
  moreover have "0 \<le> timeout_ms mod 1000" "timeout_ms mod 1000 < 1000" by simp_all
  ultimately show ?thesis
    using assms
    by (auto simp: timespec_ok_def p_for_deadline_def Let_def sdiv_nonneg smod_nonneg)
qed

lemma p_for_deadline_exact_witness:
  "timespec_ok (p_for_deadline \<lparr>tv_sec = 7, tv_nsec = 900000000\<rparr> 1250)
     \<and> p_for_deadline \<lparr>tv_sec = 7, tv_nsec = 900000000\<rparr> 1250 = \<lparr>tv_sec = 9, tv_nsec = 150000000\<rparr>"
  using p_for_deadline_exact [of "\<lparr>tv_sec = 7, tv_nsec = 900000000\<rparr>" 1250]
  by (simp add: timespec_ok_def p_for_deadline_def sdiv_nonneg smod_nonneg)

subsection \<open>\<open>Periodic_Thread\<close>\<close>

text \<open>
  One turn of \<open>loop\<close> after the job returned at time \<open>now\<close>: the next absolute deadline. The
  period is read again in each turn (\<open>set_period\<close>). Times are in nanoseconds, periods in
  microseconds.
\<close>

text \<open>
  \<open>chrono_ns\<close> is \<open>std::chrono::microseconds(period)\<close> of a \<open>uint64_t\<close> period, brought to the
  nanoseconds of \<open>steady_clock\<close>: both durations count in \<open>int64_t\<close>.
\<close>

definition chrono_ns :: "int \<Rightarrow> int" where
  "chrono_ns period_us = i64 (i64 period_us * 1000)"

definition next_deadline :: "int \<Rightarrow> int \<Rightarrow> int \<Rightarrow> int" where
  "next_deadline nxt now period_us =
     (let n = i64 (nxt + chrono_ns period_us)
      in if n < now then i64 (now + chrono_ns period_us) else n)"

primrec deadlines :: "int \<Rightarrow> (int \<times> int) list \<Rightarrow> int list" where
  "deadlines nxt [] = []"
| "deadlines nxt (turn # turns) =
     (let d = next_deadline nxt (fst turn) (snd turn) in d # deadlines d turns)"

text \<open>
  The inner loop: sleep in slices of at most 50 ms until the deadline or until \<open>stop\<close> clears
  the flag; \<open>late t\<close> is how much longer than asked the sleep begun at \<open>t\<close> took. The result is
  the time at which the loop ends.
\<close>

function wait_until :: "(int \<Rightarrow> bool) \<Rightarrow> (int \<Rightarrow> nat) \<Rightarrow> int \<Rightarrow> int \<Rightarrow> int" where
  "wait_until running late now nxt =
     (if running now \<and> now < nxt
      then wait_until running late (now + min (nxt - now) 50000000 + int (late now)) nxt
      else now)"
  by pat_completeness auto
termination
  by (relation "measure (\<lambda>(running, late, now, nxt). nat (nxt - now))") auto

declare wait_until.simps [simp del]

text \<open>Periods below \<open>2^52\<close> us (142 years) are what they say; the nanoseconds fit.\<close>

lemma chrono_ns_small: "0 \<le> p \<Longrightarrow> p < 2 ^ 52 \<Longrightarrow> chrono_ns p = p * 1000"
  by (simp add: chrono_ns_def i64_id in_i64_def)

lemma next_deadline_small:
  assumes "0 \<le> p" "p < 2 ^ 52" "0 \<le> nxt" "nxt < 2 ^ 62" "0 \<le> now" "now < 2 ^ 62"
  shows "next_deadline nxt now p = (if nxt + p * 1000 < now then now + p * 1000 else nxt + p * 1000)"
  using assms by (simp add: next_deadline_def chrono_ns_small Let_def i64_id in_i64_def)

lemma next_deadline_on_time:
  assumes "0 \<le> p" "p < 2 ^ 52" "0 \<le> nxt" "nxt < 2 ^ 62" "now \<le> nxt + p * 1000"
  shows "next_deadline nxt now p = nxt + p * 1000"
  using assms by (simp add: next_deadline_def chrono_ns_small Let_def i64_id in_i64_def)

text \<open>A period from \<open>2^63\<close> on is a negative duration: the deadline is in the past.\<close>

lemma huge_period_negative:
  assumes "2 ^ 63 \<le> p" "p < 2 ^ 64" "2 ^ 64 - p < 2 ^ 52"
  shows "chrono_ns p = (p - 2 ^ 64) * 1000"
proof -
  have "i64 p = p - 2 ^ 64"
  proof -
    have e: "p + 9223372036854775808 = (p - 9223372036854775808) + 18446744073709551616" by simp
    have "(p + 9223372036854775808) mod 18446744073709551616 = p - 9223372036854775808"
      unfolding e mod_add_self2 using assms(1,2) by (intro mod_pos_pos_trivial) simp_all
    then show ?thesis by (simp add: i64_def signed_take_bit_eq_take_bit_shift take_bit_eq_mod add.commute)
  qed
  then show ?thesis using assms by (simp add: chrono_ns_def i64_id in_i64_def)
qed

lemma huge_period_passed:
  assumes "2 ^ 63 \<le> p" "p < 2 ^ 64" "2 ^ 64 - p < 2 ^ 52" and "0 \<le> nxt" "nxt \<le> now" "now < 2 ^ 62"
  shows "next_deadline nxt now p < now"
  using assms huge_period_negative [OF assms(1-3)] by (simp add: next_deadline_def Let_def i64_id in_i64_def)

text \<open>A periodic thread whose jobs end before their deadlines runs at fixed instants:
  the k-th deadline is the start plus k periods, so neither the time the jobs take nor late
  wake-ups accumulate.\<close>

theorem periodic_no_drift:
  assumes "\<forall>i < length nows. nows ! i \<le> start + (int i + 1) * (period_us * 1000)"
    and "0 \<le> period_us" and "period_us < 2 ^ 52" and "0 \<le> start" and "start + int (length nows) * (period_us * 1000) < 2 ^ 62"
  shows "deadlines start (map (\<lambda>now. (now, period_us)) nows)
     = map (\<lambda>i. start + (int i + 1) * (period_us * 1000)) [0..<length nows]"
  using assms
proof (induction nows arbitrary: start)
  case (Cons now nows)
  let ?d = "start + period_us * 1000"
  have "now \<le> ?d" using Cons.prems(1) by force
  have p: "0 \<le> period_us * 1000" using Cons.prems(2) by simp
  have n: "0 \<le> int (length nows) * (period_us * 1000)" using p by (intro mult_nonneg_nonneg) simp_all
  have "start + (int (length nows) * (period_us * 1000) + period_us * 1000) < 2 ^ 62"
    using Cons.prems(5) by (simp add: algebra_simps)
  then have r: "start < 2 ^ 62" "?d + int (length nows) * (period_us * 1000) < 2 ^ 62" using n p by linarith+
  have d: "next_deadline start now period_us = ?d"
    by (rule next_deadline_on_time [OF Cons.prems(2-4) r(1) \<open>now \<le> ?d\<close>])
  have "\<forall>i < length nows. nows ! i \<le> ?d + (int i + 1) * (period_us * 1000)"
    using Cons.prems(1) by (fastforce simp: algebra_simps)
  from Cons.IH [OF this Cons.prems(2,3) _ r(2)] Cons.prems(4) p d show ?case
    by (simp add: map_upt_Suc algebra_simps del: upt_Suc)
qed simp

lemma periodic_no_drift_witness:
  "deadlines 0 [(100, 500000), (600000000, 500000), (1400000000, 500000)]
     = [500000000, 1000000000, 1500000000]"
proof -
  have "\<forall>i < length [100, 600000000, 1400000000 :: int].
      [100, 600000000, 1400000000] ! i \<le> 0 + (int i + 1) * (500000 * 1000)"
    by (simp add: All_less_Suc2 nth_Cons')
  from periodic_no_drift [OF this] show ?thesis
    by (simp add: upt_rec)
qed

text \<open>A periodic thread never waits past its deadline by more than one late wake-up, and
  \<open>stop()\<close> ends the wait at most one 50 ms slice (and one late wake-up) after the flag is
  cleared.\<close>

theorem wait_until_bounds:
  assumes "\<forall>t. late t \<le> m" and "\<forall>t \<ge> stopped. \<not> running t" and "now \<le> stopped" and "now \<le> nxt"
  shows "wait_until running late now nxt \<le> min nxt (stopped + 50000000) + int m"
  using assms(1,2,3,4)
proof (induction running late now nxt rule: wait_until.induct)
  case (1 running late now nxt)
  let ?t = "now + min (nxt - now) 50000000 + int (late now)"
  have m: "late now \<le> m" using "1.prems"(1) by blast
  show ?case
  proof (cases "running now \<and> now < nxt")
    case False
    then show ?thesis using "1.prems"(3,4) by (subst wait_until.simps) auto
  next
    case True
    then have unfold: "wait_until running late now nxt = wait_until running late ?t nxt"
      by (subst wait_until.simps) simp
    have "now < stopped" using True "1.prems"(2,3) by (metis le_less order_refl)
    then have bound: "?t \<le> min nxt (stopped + 50000000) + int m" using m by linarith
    show ?thesis
    proof (cases "?t \<le> stopped \<and> ?t \<le> nxt")
      case again: True
      show ?thesis unfolding unfold
        using "1.IH" [OF True "1.prems"(1,2)] again by blast
    next
      case False
      then have "\<not> (running ?t \<and> ?t < nxt)"
        using "1.prems"(2) by (metis linorder_linear not_le)
      then have "wait_until running late ?t nxt = ?t"
        by (subst wait_until.simps) (simp only: if_False)
      with unfold bound show ?thesis by simp
    qed
  qed
qed

lemma wait_until_bounds_witness:
  "wait_until (\<lambda>t. t < 60000000) (\<lambda>_. 1000) 0 500000000 \<le> 110001000"
  using wait_until_bounds [of "\<lambda>_. 1000" 1000 60000000 "\<lambda>t. t < 60000000" 0 500000000]
  by simp

end
