(* ===== verification/Semaphore.thy ===== *)
theory Semaphore
  imports Clock
begin

section \<open>The semaphore\<close>

text \<open>
  \<open>Semaphore\<close> of \<open>src/core/posix_semaphore.h\<close>, the class behind the queues of the observers. A state is
  the value of the \<open>sem_t\<close>; a call of \<open>p\<close> that would block is not enabled (\<open>None\<close>), and a timed wait
  comes with what \<open>sem_timedwait\<close> answered. Calls of several threads are a sequence, in the
  order in which they take effect.
\<close>

definition SEM_VALUE_MAX :: nat where "SEM_VALUE_MAX = 2147483647"

definition semaphore_new :: "nat \<Rightarrow> nat" where
  "semaphore_new initial = initial"

definition semaphore_p :: "nat \<Rightarrow> nat option" where
  "semaphore_p c = (if c = 0 then None else Some (c - 1))"

text \<open>\<open>sem_post\<close> fails at the largest value; \<open>v\<close> does not look at the result.\<close>

definition semaphore_v :: "nat \<Rightarrow> nat" where
  "semaphore_v c = (if c < SEM_VALUE_MAX then c + 1 else c)"

text \<open>\<open>p_for\<close>: the answers of \<open>sem_timedwait\<close> up to the one that ends the loop; it can only
  have acquired what was there.\<close>

definition semaphore_p_for :: "wait_result list \<Rightarrow> nat \<Rightarrow> (bool \<times> nat) option" where
  "semaphore_p_for rs c =
     (case p_for_loop rs of
        None \<Rightarrow> None
      | Some True \<Rightarrow> map_option (Pair True) (semaphore_p c)
      | Some False \<Rightarrow> Some (False, c))"

datatype semaphore_call = Wait | Timed_Wait "wait_result list" | Post

definition semaphore_step :: "semaphore_call \<Rightarrow> nat \<Rightarrow> nat option" where
  "semaphore_step call c =
     (case call of Wait \<Rightarrow> semaphore_p c | Timed_Wait rs \<Rightarrow> map_option snd (semaphore_p_for rs c) | Post \<Rightarrow> Some (semaphore_v c))"

primrec semaphore_run :: "semaphore_call list \<Rightarrow> nat \<Rightarrow> nat option" where
  "semaphore_run [] c = Some c"
| "semaphore_run (call # calls) c =
     (case semaphore_step call c of None \<Rightarrow> None | Some c' \<Rightarrow> semaphore_run calls c')"

text \<open>The calls that took a token.\<close>

definition takes :: "semaphore_call \<Rightarrow> bool" where
  "takes call = (case call of Wait \<Rightarrow> True | Timed_Wait rs \<Rightarrow> p_for_loop rs = Some True | Post \<Rightarrow> False)"

definition count_of :: "(semaphore_call \<Rightarrow> bool) \<Rightarrow> semaphore_call list \<Rightarrow> nat" where
  "count_of f calls = length (filter f calls)"

lemma semaphore_step_counts:
  assumes "semaphore_step call c = Some c'" and "c < SEM_VALUE_MAX"
  shows "c' + of_bool (takes call) = c + of_bool (call = Post)"
  using assms
  by (cases call) (auto simp: semaphore_step_def takes_def semaphore_p_def semaphore_v_def semaphore_p_for_def split: if_splits option.splits bool.splits)

text \<open>No token is lost or made up: as long as the value stays below the limit of the system, the value
  and the tokens taken are the initial value and the calls of \<open>v\<close>.\<close>

theorem semaphore_conserves:
  assumes "semaphore_run calls c = Some c'" and "c + count_of (\<lambda>x. x = Post) calls \<le> SEM_VALUE_MAX"
  shows "c' + count_of takes calls = c + count_of (\<lambda>x. x = Post) calls"
  using assms
proof (induction calls arbitrary: c)
  case (Cons call calls)
  then obtain c1 where c1: "semaphore_step call c = Some c1" "semaphore_run calls c1 = Some c'"
    by (auto split: option.splits)
  have s: "c1 + of_bool (takes call) = c + of_bool (call = Post)"
  proof (cases "c < SEM_VALUE_MAX")
    case False
    then have "call \<noteq> Post" using Cons.prems(2) by (auto simp: count_of_def)
    then show ?thesis using c1(1)
      by (cases call) (auto simp: semaphore_step_def takes_def semaphore_p_def semaphore_p_for_def split: if_splits option.splits bool.splits)
  qed (rule semaphore_step_counts [OF c1(1)])
  then have "c1 + count_of (\<lambda>x. x = Post) calls \<le> SEM_VALUE_MAX" using Cons.prems(2) by (auto simp: count_of_def split: if_splits)
  from Cons.IH [OF c1(2) this] s show ?case by (auto simp: count_of_def split: if_splits)
qed (simp add: count_of_def)

text \<open>A blocked \<open>p\<close> goes on after the next \<open>v\<close>.\<close>

lemma semaphore_wakes: "semaphore_p c = None \<Longrightarrow> semaphore_p (semaphore_v c) = Some 0"
  by (auto simp: semaphore_p_def semaphore_v_def SEM_VALUE_MAX_def split: if_splits)

lemma semaphore_conserves_witness:
  "count_of takes [Post, Post, Wait, Timed_Wait [Interrupted, Acquired], Timed_Wait [Timed_out]] = 2"
proof -
  let ?calls = "[Post, Post, Wait, Timed_Wait [Interrupted, Acquired], Timed_Wait [Timed_out]]"
  have "semaphore_run ?calls (semaphore_new 0) = Some 0"
    by (simp add: semaphore_step_def semaphore_p_def semaphore_v_def semaphore_p_for_def semaphore_new_def SEM_VALUE_MAX_def)
  from semaphore_conserves [OF this] show ?thesis by (simp add: count_of_def semaphore_new_def SEM_VALUE_MAX_def)
qed

end
