(* ===== verification/Periodic.thy ===== *)
theory Periodic
  imports Clock
begin

section \<open>A periodic thread, its period and its end\<close>

text \<open>
  \<open>Periodic_Thread\<close> of \<open>src/core/periodic_thread.h\<close> as a step function: the thread's program counter,
  the two atomics \<open>_period_us\<close> and \<open>_running\<close> that other threads set at any moment
  (\<open>set_period\<close>, \<open>stop\<close>), and the clock, which every step of the thread reads. \<open>Clock\<close> has the
  arithmetic of one turn; here turns, changes of the period and the stop interleave.
\<close>

subsection \<open>The loop\<close>

text \<open>
  At the head of the outer loop, about to call the job, after the job, at the head of the inner loop,
  in \<open>sleep_for\<close> (with the instant at which it may end), returned.
\<close>

datatype periodic_pc =
    Head
  | Calling
  | Called
  | Waiting
  | Sleeping int
  | Returned

record periodic =
  pt_pc :: periodic_pc
  pt_period_us :: u64
  pt_running :: bool
  pt_next :: int
  pt_now :: int
  pt_jobs :: "int list"
  pt_periods :: "u64 list"

text \<open>
  \<open>pt_now\<close> is the last reading of \<open>steady_clock\<close>, which never goes back; \<open>pt_jobs\<close> are the instants at
  which the job was called and \<open>pt_periods\<close> the periods read after it (ghosts). A turn of the thread
  comes with the clock: \<open>now\<close>, and the second reading \<open>now'\<close> in the inner loop.
\<close>

datatype periodic_label =
    Turn int int
  | Set_Period u64
  | Stop

definition SLICE_NS :: int where "SLICE_NS = 50000000"

definition periodic_turn :: "int \<Rightarrow> int \<Rightarrow> periodic \<Rightarrow> periodic option" where
  "periodic_turn now now' s =
     (if pt_now s \<le> now \<and> now \<le> now' then
        (case pt_pc s of
           Head \<Rightarrow> Some (s\<lparr>pt_pc := (if pt_running s then Calling else Returned), pt_now := now\<rparr>)
         | Calling \<Rightarrow> Some (s\<lparr>pt_pc := Called, pt_jobs := pt_jobs s @ [now], pt_now := now\<rparr>)
         | Called \<Rightarrow> Some (s\<lparr>pt_pc := Waiting, pt_next := next_deadline (pt_next s) now (uint (pt_period_us s)),
                             pt_periods := pt_periods s @ [pt_period_us s], pt_now := now\<rparr>)
         | Waiting \<Rightarrow>
             (if pt_running s \<and> now < pt_next s
              then Some (s\<lparr>pt_pc := Sleeping (now' + min (pt_next s - now') SLICE_NS), pt_now := now'\<rparr>)
              else Some (s\<lparr>pt_pc := Head, pt_now := now\<rparr>))
         | Sleeping t \<Rightarrow> (if t \<le> now then Some (s\<lparr>pt_pc := Waiting, pt_now := now\<rparr>) else None)
         | Returned \<Rightarrow> None)
      else None)"

definition periodic_step :: "periodic_label \<Rightarrow> periodic \<Rightarrow> periodic option" where
  "periodic_step l s =
     (case l of
        Turn now now' \<Rightarrow> periodic_turn now now' s
      | Set_Period p \<Rightarrow> Some (s\<lparr>pt_period_us := p\<rparr>)
      | Stop \<Rightarrow> Some (s\<lparr>pt_running := False\<rparr>))"

primrec periodic_run :: "periodic_label list \<Rightarrow> periodic \<Rightarrow> periodic option" where
  "periodic_run [] s = Some s"
| "periodic_run (l # ls) s = (case periodic_step l s of None \<Rightarrow> None | Some s' \<Rightarrow> periodic_run ls s')"

text \<open>\<open>auto next = clock::now()\<close> at the start of \<open>loop\<close>.\<close>

definition periodic_start :: "int \<Rightarrow> u64 \<Rightarrow> periodic" where
  "periodic_start now p = \<lparr>pt_pc = Head, pt_period_us = p, pt_running = True, pt_next = now, pt_now = now,
     pt_jobs = [], pt_periods = []\<rparr>"

lemma periodic_run_append:
  "periodic_run (xs @ ys) s = (case periodic_run xs s of None \<Rightarrow> None | Some s' \<Rightarrow> periodic_run ys s')"
  by (induction xs arbitrary: s) (auto split: option.splits)

lemma periodic_cases:
  assumes "periodic_step l s = Some s'"
  obtains (set) p where "l = Set_Period p" "s' = s\<lparr>pt_period_us := p\<rparr>"
  | (stop) "l = Stop" "s' = s\<lparr>pt_running := False\<rparr>"
  | (head) now where "pt_pc s = Head" "pt_now s \<le> now" "s' = s\<lparr>pt_pc := (if pt_running s then Calling else Returned), pt_now := now\<rparr>"
  | (job) now where "pt_pc s = Calling" "pt_now s \<le> now" "s' = s\<lparr>pt_pc := Called, pt_jobs := pt_jobs s @ [now], pt_now := now\<rparr>"
  | (deadline) now where "pt_pc s = Called" "pt_now s \<le> now"
      "s' = s\<lparr>pt_pc := Waiting, pt_next := next_deadline (pt_next s) now (uint (pt_period_us s)),
              pt_periods := pt_periods s @ [pt_period_us s], pt_now := now\<rparr>"
  | (sleep) now now' where "pt_pc s = Waiting" "pt_now s \<le> now" "now \<le> now'" "pt_running s" "now < pt_next s"
      "s' = s\<lparr>pt_pc := Sleeping (now' + min (pt_next s - now') SLICE_NS), pt_now := now'\<rparr>"
  | (over) now where "pt_pc s = Waiting" "pt_now s \<le> now" "pt_running s \<longrightarrow> pt_next s \<le> now" "s' = s\<lparr>pt_pc := Head, pt_now := now\<rparr>"
  | (wake) now t where "pt_pc s = Sleeping t" "pt_now s \<le> now" "t \<le> now" "s' = s\<lparr>pt_pc := Waiting, pt_now := now\<rparr>"
proof (cases l)
  case (Turn now now')
  then have t: "pt_now s \<le> now" "now \<le> now'" using assms by (auto simp: periodic_step_def periodic_turn_def split: if_splits)
  show ?thesis
  proof (cases "pt_pc s")
    case Waiting
    then show ?thesis using assms Turn t sleep [of now now'] over [of now]
      by (auto simp: periodic_step_def periodic_turn_def split: if_splits)
  next
    case (Sleeping u)
    then show ?thesis using assms Turn t wake [of u now] by (auto simp: periodic_step_def periodic_turn_def split: if_splits)
  qed (use assms Turn t head job deadline in \<open>simp_all add: periodic_step_def periodic_turn_def\<close>)
qed (use assms set stop in \<open>simp_all add: periodic_step_def\<close>)

subsection \<open>The rate\<close>

text \<open>
  \<open>q\<close> is a lower bound, in microseconds, of every period the thread is given; periods stay below
  \<open>2^52\<close> us and the steady clock below \<open>2^62\<close> ns (both over 140 years), so the \<open>int64_t\<close> durations
  of \<open>std::chrono\<close> do not wrap.
\<close>

definition periods_from :: "int \<Rightarrow> periodic_label \<Rightarrow> bool" where
  "periods_from q l = (case l of Set_Period p \<Rightarrow> q \<le> uint p \<and> uint p < 2 ^ 52
     | Turn _ now' \<Rightarrow> now' < 2 ^ 62 | Stop \<Rightarrow> True)"

definition due :: "periodic \<Rightarrow> bool" where
  "due s \<longleftrightarrow> (pt_pc s = Head \<and> pt_running s \<or> pt_pc s = Calling \<or> pt_pc s = Called \<longrightarrow> pt_next s \<le> pt_now s)"

definition paced :: "int \<Rightarrow> int \<Rightarrow> periodic \<Rightarrow> bool" where
  "paced start q s \<longleftrightarrow> q \<le> uint (pt_period_us s) \<and> uint (pt_period_us s) < 2 ^ 52 \<and> due s
     \<and> 0 \<le> pt_next s \<and> 0 \<le> pt_now s
     \<and> start + int (length (pt_jobs s) - of_bool (pt_pc s = Called)) * (q * 1000) \<le> pt_next s
     \<and> (pt_pc s = Called \<longrightarrow> pt_jobs s \<noteq> [])
     \<and> (\<forall>k < length (pt_jobs s). start + int k * (q * 1000) \<le> pt_jobs s ! k)"

lemma next_deadline_ge:
  assumes "0 \<le> q" "q \<le> p" "p < 2 ^ 52" "0 \<le> nxt" "nxt \<le> now" "now < 2 ^ 62"
  shows "nxt + q * 1000 \<le> next_deadline nxt now p" "nxt \<le> next_deadline nxt now p" "0 \<le> next_deadline nxt now p"
proof -
  have "next_deadline nxt now p = (if nxt + p * 1000 < now then now + p * 1000 else nxt + p * 1000)"
    by (rule next_deadline_small) (use assms in linarith)+
  then show "nxt + q * 1000 \<le> next_deadline nxt now p" "nxt \<le> next_deadline nxt now p" "0 \<le> next_deadline nxt now p"
    using assms by auto
qed

lemma called_turn:
  assumes "periodic_step l s = Some s'" and "pt_pc s = Called" and "pt_pc s' = Waiting" and "periods_from q l"
  shows "pt_now s' < 2 ^ 62"
  using assms by (cases l) (auto simp: periodic_step_def periodic_turn_def periods_from_def split: if_splits)

lemma paced_step:
  assumes inv: "paced start q s" and st: "periodic_step l s = Some s'" and q: "0 \<le> q" "periods_from q l"
  shows "paced start q s'"
  using st
proof (cases rule: periodic_cases)
  case (job now)
  then have "pt_next s \<le> now" using inv by (simp add: paced_def due_def)
  then have "start + int (length (pt_jobs s)) * (q * 1000) \<le> now" using inv job(1) by (simp add: paced_def)
  then show ?thesis using inv job by (auto simp: paced_def due_def nth_append less_Suc_eq)
next
  case (deadline now)
  have small: "now < 2 ^ 62" using called_turn [OF st deadline(1) _ q(2)] deadline(3) by simp
  have j: "pt_jobs s \<noteq> []" "q \<le> uint (pt_period_us s)" "uint (pt_period_us s) < 2 ^ 52" "0 \<le> pt_next s" "pt_next s \<le> now"
    using inv deadline(1,2) by (simp_all add: paced_def due_def)
  note d = next_deadline_ge [OF q(1) j(2-5) small]
  have e: "int (length (pt_jobs s)) = int (length (pt_jobs s) - Suc 0) + 1" using j(1) by (cases "pt_jobs s") simp_all
  have "start + int (length (pt_jobs s) - Suc 0) * (q * 1000) \<le> pt_next s" using inv deadline(1) by (simp add: paced_def)
  then have "start + int (length (pt_jobs s)) * (q * 1000) \<le> next_deadline (pt_next s) now (uint (pt_period_us s))"
    unfolding e using d(1) by (simp add: distrib_right)
  then show ?thesis using inv deadline d(3) by (simp add: paced_def due_def)
qed (use inv q(2) in \<open>auto simp: paced_def due_def periods_from_def\<close>)

lemma paced_run:
  "periodic_run ls s = Some s' \<Longrightarrow> paced start q s \<Longrightarrow> 0 \<le> q \<Longrightarrow> \<forall>l \<in> set ls. periods_from q l \<Longrightarrow> paced start q s'"
  by (induction ls arbitrary: s) (auto split: option.splits intro: paced_step)

lemma paced_start: "q \<le> uint p \<Longrightarrow> uint p < 2 ^ 52 \<Longrightarrow> 0 \<le> now \<Longrightarrow> paced now q (periodic_start now p)"
  by (simp add: paced_def due_def periodic_start_def)

text \<open>C37. However its period is changed and whenever it is stopped, a periodic thread whose periods are all at
  least \<open>q\<close> and less than \<open>2^52\<close> microseconds (on a steady clock below \<open>2^62\<close> ns) calls its job for the
  (k+1)-th time no earlier than \<open>k\<close> times \<open>q\<close> after it was started: a sender thread never answers more
  often than its shortest period allows. For a period of \<open>2^64 - 1\<close> the sentence is false,
  \<open>huge_period_spins\<close>.\<close>

theorem periodic_rate:
  assumes "periodic_run ls (periodic_start now p) = Some s" and "0 \<le> q" and "q \<le> uint p" and "uint p < 2 ^ 52"
    and "0 \<le> now" and "\<forall>l \<in> set ls. periods_from q l" and "k < length (pt_jobs s)"
  shows "now + int k * (q * 1000) \<le> pt_jobs s ! k"
  using paced_run [OF assms(1) paced_start [OF assms(3-5)] assms(2,6)] assms(7) by (simp add: paced_def)

text \<open>The period comes unchecked from an interest. One of \<open>2^64 - 1\<close> us becomes a duration of -1 us, the next
  deadline has passed when it is computed, and the thread calls its job again without any wait.\<close>

theorem huge_period_spins:
  assumes "pt_pc s = Called" and "pt_period_us s = - 1" and "pt_running s" and "0 \<le> pt_next s" and "pt_next s \<le> pt_now s"
    and "pt_now s < 2 ^ 62"
  shows "\<exists>s'. periodic_run (replicate 4 (Turn (pt_now s) (pt_now s))) s = Some s' \<and> pt_pc s' = Called
    \<and> pt_now s' = pt_now s \<and> pt_jobs s' = pt_jobs s @ [pt_now s]"
proof -
  have "uint (pt_period_us s) = 2 ^ 64 - 1" by (simp add: assms(2) unsigned_minus_1_eq_mask mask_eq_exp_minus_1)
  then have "next_deadline (pt_next s) (pt_now s) (uint (pt_period_us s)) < pt_now s"
    using huge_period_passed [of "2 ^ 64 - 1" "pt_next s" "pt_now s"] assms(4-6) by simp
  then show ?thesis using assms(1,3) by (simp add: numeral_nat periodic_step_def periodic_turn_def)
qed

lemma huge_period_spins_witness:
  "\<exists>s s'. periodic_run [Turn 5 5, Turn 5 5] (periodic_start 5 (- 1)) = Some s
     \<and> periodic_run (replicate 4 (Turn 5 5)) s = Some s' \<and> pt_jobs s' = [5, 5]"
proof -
  obtain s where s: "periodic_run [Turn 5 5, Turn 5 5] (periodic_start 5 (- 1)) = Some s" "pt_pc s = Called"
    "pt_period_us s = - 1" "pt_running s" "pt_next s = 5" "pt_now s = 5" "pt_jobs s = [5]"
    by (simp add: periodic_start_def periodic_step_def periodic_turn_def)
  from huge_period_spins [OF s(2-4)] s show ?thesis by auto
qed

subsection \<open>Changing the period\<close>

definition in_wait :: "periodic \<Rightarrow> bool" where
  "in_wait s \<longleftrightarrow> pt_pc s = Waiting \<or> (\<exists>t. pt_pc s = Sleeping t)"

text \<open>Until the next job the deadline stays; the job is called when it has come.\<close>

definition awaits :: "periodic \<Rightarrow> periodic \<Rightarrow> bool" where
  "awaits s0 s \<longleftrightarrow> (pt_jobs s = pt_jobs s0 \<and> pt_next s = pt_next s0 \<and> pt_pc s \<noteq> Called \<and> due s)
     \<or> (length (pt_jobs s0) < length (pt_jobs s) \<and> pt_next s0 \<le> pt_jobs s ! length (pt_jobs s0))"

lemma awaits_step:
  assumes "awaits s0 s" and "periodic_step l s = Some s'"
  shows "awaits s0 s'"
  using assms(2)
  by (cases rule: periodic_cases) (use assms(1) in \<open>auto simp: awaits_def due_def nth_append\<close>)

lemma awaits_run: "periodic_run ls s = Some s' \<Longrightarrow> awaits s0 s \<Longrightarrow> awaits s0 s'"
  by (induction ls arbitrary: s) (auto split: option.splits intro: awaits_step)

text \<open>A thread that is waiting does not take a new period into account: whatever \<open>set_period\<close> is told in
  the meantime, the next call of the job comes only after the deadline that was computed from the
  period before.\<close>

theorem set_period_waits:
  assumes "in_wait s" and "periodic_run ls s = Some s'" and "length (pt_jobs s) < length (pt_jobs s')"
  shows "pt_next s \<le> pt_jobs s' ! length (pt_jobs s)"
proof -
  have "awaits s s" using assms(1) by (auto simp: awaits_def in_wait_def due_def)
  from awaits_run [OF assms(2) this] assms(3) show ?thesis by (auto simp: awaits_def)
qed

subsection \<open>Stopping\<close>










subsection \<open>A concrete thread\<close>

text \<open>
  A sender thread with a period of 10 s answers once and goes to sleep; the period becomes 1 ms after
  0.1 s, and the second answer still comes 10 s after the first.
\<close>

definition long_wait :: "periodic_label list" where
  "long_wait = [Turn 0 0, Turn 0 0, Turn 0 0, Turn 0 0, Turn 100000000 100000000, Set_Period 1000,
     Turn 100000000 9960000000, Turn 10000000000 10000000000, Turn 10000000000 10000000000,
     Turn 10000000000 10000000000, Turn 10000000000 10000000000]"

lemma long_wait_jobs:
  "\<exists>s s'. periodic_run (take 5 long_wait) (periodic_start 0 10000000) = Some s \<and> in_wait s \<and> pt_next s = 10000000000
     \<and> pt_jobs s = [0] \<and> periodic_run (drop 5 long_wait) s = Some s' \<and> pt_jobs s' = [0, 10000000000]"
  by (simp add: long_wait_def periodic_start_def periodic_step_def periodic_turn_def next_deadline_small in_wait_def SLICE_NS_def)

lemma set_period_waits_witness:
  "\<exists>s s'. periodic_run (take 5 long_wait) (periodic_start 0 10000000) = Some s
     \<and> periodic_run (drop 5 long_wait) s = Some s' \<and> pt_jobs s = [0] \<and> 10000000000 \<le> pt_jobs s' ! 1"
proof -
  obtain s s' where s: "periodic_run (take 5 long_wait) (periodic_start 0 10000000) = Some s" "in_wait s" "pt_next s = 10000000000"
    "pt_jobs s = [0]" "periodic_run (drop 5 long_wait) s = Some s'" "pt_jobs s' = [0, 10000000000]"
    using long_wait_jobs by blast
  from set_period_waits [OF s(2,5)] s show ?thesis by auto
qed

lemma periodic_rate_witness:
  "\<exists>s. periodic_run long_wait (periodic_start 0 10000000) = Some s \<and> 1000000 \<le> pt_jobs s ! 1"
proof -
  obtain s s' where s: "periodic_run (take 5 long_wait) (periodic_start 0 10000000) = Some s"
    "periodic_run (drop 5 long_wait) s = Some s'" "pt_jobs s' = [0, 10000000000]"
    using long_wait_jobs by blast
  have "periodic_run (take 5 long_wait @ drop 5 long_wait) (periodic_start 0 10000000) = Some s'"
    using s(1,2) by (simp only: periodic_run_append option.case)
  then have r: "periodic_run long_wait (periodic_start 0 10000000) = Some s'" by (simp only: append_take_drop_id)
  have q: "\<forall>l \<in> set long_wait. periods_from 1000 l" by (simp add: long_wait_def periods_from_def)
  from periodic_rate [OF r _ _ _ _ q, of 1] r s(3) show ?thesis by (intro exI [of _ s']) simp
qed


end
