(* ===== verification/Observers.thy ===== *)
theory Observers
  imports Prelude
begin

section \<open>Observer and observed\<close>

text \<open>
  \<open>src/core/observers/conditional_data_observer.h\<close> (NIC to Protocol, by EtherType) and
  \<open>src/core/observers/concurrent_observer.h\<close> (Protocol to Communicator by port, Communicator
  to SmartData by condition). An observed object keeps a vector of (observer, condition)
  entries; \<open>notify\<close> copies the vector under the lock and calls \<open>update\<close> on the copy. The
  callback is a state transformer of the whole program, since an \<open>update\<close> may attach and
  detach. The queue with its semaphore is a step relation over producers and consumers.
\<close>

subsection \<open>The interface\<close>

text \<open>
  What every observed class promises: \<open>targets c r\<close> are the observers \<open>notify\<close> reaches for
  condition \<open>c\<close>, in order.
\<close>

locale observed =
  fixes attach :: "'o \<Rightarrow> 'c \<Rightarrow> 'r \<Rightarrow> 'r"
    and detach :: "'o \<Rightarrow> 'c \<Rightarrow> 'r \<Rightarrow> 'r"
    and targets :: "'c \<Rightarrow> 'r \<Rightarrow> 'o list"
  assumes targets_attach:
      "targets c (attach ob c' r) = (if c' = c then targets c r @ [ob] else targets c r)"
    and targets_detach:
      "targets c (detach ob c' r)
         = (if c' = c then filter (\<lambda>x. x \<noteq> ob) (targets c r) else targets c r)"
begin

lemma detach_silences: "ob \<notin> set (targets c (detach ob c r))"
  by (simp add: targets_detach)

lemma attach_reaches: "ob \<in> set (targets c (attach ob c r))"
  by (simp add: targets_attach)

lemma detach_attach:
  "ob \<notin> set (targets c r) \<Longrightarrow> targets c (detach ob c (attach ob c r)) = targets c r"
  by (auto simp: targets_attach targets_detach filter_id_conv)

lemma other_condition:
  "c' \<noteq> c \<Longrightarrow> targets c (attach ob c' r) = targets c r"
  "c' \<noteq> c \<Longrightarrow> targets c (detach ob c' r) = targets c r"
  by (simp_all add: targets_attach targets_detach)

lemma attach_twice:
  "count_list (targets c (attach ob c (attach ob c r))) ob = count_list (targets c r) ob + 2"
  by (simp add: targets_attach)

end

subsection \<open>\<open>Conditionally_Data_Observed\<close>\<close>

type_synonym ('o, 'c) observers = "('o \<times> 'c) list"

text \<open>The loop over the copied vector, shared by the two classes.\<close>

primrec notify_loop ::
  "('o \<Rightarrow> 'c \<Rightarrow> 'd \<Rightarrow> 's \<Rightarrow> 's) \<Rightarrow> 'c \<Rightarrow> 'd \<Rightarrow> ('o, 'c) observers \<Rightarrow> bool \<times> 's \<Rightarrow> bool \<times> 's"
where
  "notify_loop update c d [] acc = acc"
| "notify_loop update c d (e # es) acc =
     notify_loop update c d es
       (if snd e = c then (True, update (fst e) c d (snd acc)) else acc)"

definition cdo_attach :: "'o \<Rightarrow> 'c \<Rightarrow> ('o, 'c) observers \<Rightarrow> ('o, 'c) observers" where
  "cdo_attach ob c r = r @ [(ob, c)]"

definition cdo_detach :: "'o \<Rightarrow> 'c \<Rightarrow> ('o, 'c) observers \<Rightarrow> ('o, 'c) observers" where
  "cdo_detach ob c r = filter (\<lambda>e. \<not> (fst e = ob \<and> snd e = c)) r"

definition cdo_notify ::
  "('s \<Rightarrow> ('o, 'c) observers) \<Rightarrow> ('o \<Rightarrow> 'c \<Rightarrow> 'd \<Rightarrow> 's \<Rightarrow> 's) \<Rightarrow> 'c \<Rightarrow> 'd \<Rightarrow> 's \<Rightarrow> bool \<times> 's"
where
  "cdo_notify observers update c d s =
     (let snapshot = observers s in notify_loop update c d snapshot (False, s))"

subsection \<open>\<open>Concurrent_Observed\<close>\<close>

definition co_attach :: "'o \<Rightarrow> 'c \<Rightarrow> ('o, 'c) observers \<Rightarrow> ('o, 'c) observers" where
  "co_attach ob c r = r @ [(ob, c)]"

definition co_detach :: "'o \<Rightarrow> 'c \<Rightarrow> ('o, 'c) observers \<Rightarrow> ('o, 'c) observers" where
  "co_detach ob c r = filter (\<lambda>e. \<not> (fst e = ob \<and> snd e = c)) r"

definition co_notify ::
  "('s \<Rightarrow> ('o, 'c) observers) \<Rightarrow> ('o \<Rightarrow> 'c \<Rightarrow> 'd \<Rightarrow> 's \<Rightarrow> 's) \<Rightarrow> 'c \<Rightarrow> 'd \<Rightarrow> 's \<Rightarrow> bool \<times> 's"
where
  "co_notify observers update c d s =
     (let snapshot = observers s in notify_loop update c d snapshot (False, s))"

primrec has_observer :: "'c \<Rightarrow> ('o, 'c) observers \<Rightarrow> bool" where
  "has_observer c [] = False"
| "has_observer c (e # es) = (if snd e = c then True else has_observer c es)"

definition targets_of :: "'c \<Rightarrow> ('o, 'c) observers \<Rightarrow> 'o list" where
  "targets_of c r = map fst (filter (\<lambda>e. snd e = c) r)"

lemma targets_of_simps [simp]:
  "targets_of c [] = []"
  "targets_of c (e # r) = (if snd e = c then fst e # targets_of c r else targets_of c r)"
  "targets_of c (r @ r') = targets_of c r @ targets_of c r'"
  by (simp_all add: targets_of_def)

lemma targets_of_filter:
  "targets_of c (filter (\<lambda>e. \<not> (fst e = ob \<and> snd e = c')) r)
     = (if c' = c then filter (\<lambda>x. x \<noteq> ob) (targets_of c r) else targets_of c r)"
  by (induction r) auto

interpretation cdo: observed cdo_attach cdo_detach targets_of
  by unfold_locales (simp add: cdo_attach_def, simp only: cdo_detach_def targets_of_filter)

interpretation co: observed co_attach co_detach targets_of
  by unfold_locales (simp add: co_attach_def, simp only: co_detach_def targets_of_filter)

lemma notify_loop_targets:
  "notify_loop update c d es (n, s)
     = (n \<or> targets_of c es \<noteq> [], fold (\<lambda>ob. update ob c d) (targets_of c es) s)"
  by (induction es arbitrary: n s) auto

lemma cdo_notify_targets:
  "cdo_notify observers update c d s
     = (targets_of c (observers s) \<noteq> [],
        fold (\<lambda>ob. update ob c d) (targets_of c (observers s)) s)"
  by (simp add: cdo_notify_def notify_loop_targets Let_def)

lemma co_notify_targets:
  "co_notify observers update c d s
     = (targets_of c (observers s) \<noteq> [],
        fold (\<lambda>ob. update ob c d) (targets_of c (observers s)) s)"
  by (simp add: co_notify_def notify_loop_targets Let_def)

lemma has_observer_targets: "has_observer c r \<longleftrightarrow> targets_of c r \<noteq> []"
  by (induction r) auto

text \<open>\<open>notify\<close> calls \<open>update\<close> once per entry attached for the condition, in the order of
  attachment, even when the callbacks themselves attach or detach, and answers whether
  there was one; after \<open>detach\<close> the observer is not called for that condition.\<close>

theorem notify_reaches_snapshot:
  "co_notify observers update c d s
     = (has_observer c (observers s),
        fold (\<lambda>ob. update ob c d) (targets_of c (observers s)) s)
   \<and> ob \<notin> set (targets_of c (co_detach ob c (observers s)))
   \<and> targets_of c (co_attach ob c (observers s)) = targets_of c (observers s) @ [ob]"
  by (simp add: co_notify_targets has_observer_targets co.detach_silences co.targets_attach)

subsection \<open>\<open>Concurrent_Observer\<close>: the queue with its semaphore\<close>

record 'd observer_queue =
  q_sem :: nat
  q_data :: "'d list"

definition co_update :: "'d \<Rightarrow> 'd observer_queue \<Rightarrow> 'd observer_queue" where
  "co_update d q = q\<lparr>q_data := q_data q @ [d], q_sem := q_sem q + 1\<rparr>"

text \<open>
  \<open>updated(timeout_ms)\<close> alone on the queue: \<open>None\<close> when the call blocks for ever, otherwise
  what it returns (\<open>None\<close> for \<open>nullptr\<close>) and the queue after it.
\<close>

definition co_updated :: "int \<Rightarrow> 'd observer_queue \<Rightarrow> ('d option \<times> 'd observer_queue) option" where
  "co_updated timeout_ms q =
     (if q_sem q = 0 then (if timeout_ms < 0 then None else Some (None, q))
      else let q' = q\<lparr>q_sem := q_sem q - 1\<rparr> in
        case q_data q' of
          [] \<Rightarrow> Some (None, q')
        | d # ds \<Rightarrow> Some (Some d, q'\<lparr>q_data := ds\<rparr>))"

definition queue_ok :: "'d observer_queue \<Rightarrow> bool" where
  "queue_ok q \<longleftrightarrow> q_sem q = length (q_data q)"

lemma queue_ok_update [inv_intros]: "queue_ok q \<Longrightarrow> queue_ok (co_update d q)"
  by (simp add: queue_ok_def co_update_def)

lemma queue_ok_updated [inv_intros]:
  "queue_ok q \<Longrightarrow> co_updated t q = Some (r, q') \<Longrightarrow> queue_ok q'"
  by (auto simp: queue_ok_def co_updated_def Let_def split: if_splits list.splits)

lemma co_updated_head:
  "queue_ok q \<Longrightarrow> q_data q = d # ds \<Longrightarrow>
     co_updated t q = Some (Some d, q\<lparr>q_sem := length ds, q_data := ds\<rparr>)"
  by (simp add: queue_ok_def co_updated_def)

lemma co_updated_empty:
  "queue_ok q \<Longrightarrow> q_data q = [] \<Longrightarrow> 0 \<le> t \<Longrightarrow> co_updated t q = Some (None, q)"
  by (simp add: queue_ok_def co_updated_def)

subsection \<open>Producers and consumers interleaved\<close>

text \<open>
  \<open>update\<close> pushes and posts the semaphore while it holds the mutex (\<open>push\<close>, \<open>post\<close>); a
  consumer in \<open>updated\<close> first gets through the semaphore (\<open>wait_ok\<close>; \<open>passed\<close> counts those
  between the semaphore and the mutex), then takes the mutex and pops (\<open>pop\<close>, or
  \<open>pop_empty\<close>, which would return \<open>nullptr\<close>); \<open>expire\<close> is a timed wait that gives up. The
  fields \<open>pushed\<close>, \<open>popped\<close> and \<open>nulls\<close> are ghosts: what went in, what came out, and how
  many consumers found nothing after the semaphore let them through.
\<close>

record 'd queue_sys =
  sem :: nat
  queue :: "'d list"
  posting :: bool
  passed :: nat
  pushed :: "'d list"
  popped :: "'d list"
  nulls :: nat

definition queue_init :: "'d queue_sys" where
  "queue_init = \<lparr>sem = 0, queue = [], posting = False, passed = 0, pushed = [], popped = [],
     nulls = 0\<rparr>"

inductive queue_step :: "'d queue_sys \<Rightarrow> 'd queue_sys \<Rightarrow> bool" where
  push: "\<not> posting s \<Longrightarrow>
     queue_step s (s\<lparr>queue := queue s @ [d], pushed := pushed s @ [d], posting := True\<rparr>)"
| post: "posting s \<Longrightarrow> queue_step s (s\<lparr>sem := sem s + 1, posting := False\<rparr>)"
| wait_ok: "sem s > 0 \<Longrightarrow> queue_step s (s\<lparr>sem := sem s - 1, passed := passed s + 1\<rparr>)"
| expire: "queue_step s s"
| pop: "passed s > 0 \<Longrightarrow> \<not> posting s \<Longrightarrow> queue s = d # ds \<Longrightarrow>
     queue_step s (s\<lparr>passed := passed s - 1, queue := ds, popped := popped s @ [d]\<rparr>)"
| pop_empty: "passed s > 0 \<Longrightarrow> \<not> posting s \<Longrightarrow> queue s = [] \<Longrightarrow>
     queue_step s (s\<lparr>passed := passed s - 1, nulls := nulls s + 1\<rparr>)"

inductive_simps queue_step_iff: "queue_step s t"

inductive queue_reachable :: "'d queue_sys \<Rightarrow> bool" where
  queue_start: "queue_reachable queue_init"
| queue_next: "queue_reachable s \<Longrightarrow> queue_step s t \<Longrightarrow> queue_reachable t"

definition queue_inv :: "'d queue_sys \<Rightarrow> bool" where
  "queue_inv s \<longleftrightarrow> length (queue s) = sem s + passed s + (if posting s then 1 else 0)
     \<and> pushed s = popped s @ queue s \<and> nulls s = 0"

lemma queue_inv_step: "queue_step s t \<Longrightarrow> queue_inv s \<Longrightarrow> queue_inv t"
  by (induction rule: queue_step.induct) (auto simp: queue_inv_def)

lemma queue_reachable_inv: "queue_reachable s \<Longrightarrow> queue_inv s"
proof (induction rule: queue_reachable.induct)
  case queue_start
  show ?case by (simp add: queue_inv_def queue_init_def)
next
  case (queue_next s t)
  then show ?case by (blast intro: queue_inv_step)
qed

text \<open>With any number of producers and consumers, the messages come out in the order
  they went in, none lost and none twice, and a consumer that gets through the semaphore
  always finds one: \<open>updated\<close> returns \<open>nullptr\<close> only when its timeout expires.\<close>

theorem queue_fifo_no_null:
  assumes "queue_reachable s"
  shows "pushed s = popped s @ queue s \<and> nulls s = 0
     \<and> (passed s > 0 \<longrightarrow> queue s \<noteq> [])
     \<and> sem s + passed s \<le> length (queue s)"
  using queue_reachable_inv [OF assms] by (auto simp: queue_inv_def)

lemma queue_fifo_no_null_witness:
  "\<exists>s. queue_reachable s \<and> pushed s = [7, 8 :: nat] \<and> popped s = [7] \<and> nulls s = 0"
proof -
  let ?a = "(queue_init :: nat queue_sys)\<lparr>queue := [7], pushed := [7], posting := True\<rparr>"
  let ?b = "?a\<lparr>sem := 1, posting := False\<rparr>"
  let ?c = "?b\<lparr>sem := 0, passed := 1\<rparr>"
  let ?d = "?c\<lparr>passed := 0, queue := [], popped := [7]\<rparr>"
  let ?e = "?d\<lparr>queue := [8], pushed := [7, 8], posting := True\<rparr>"
  have "queue_step queue_init ?a" "queue_step ?a ?b" "queue_step ?b ?c" "queue_step ?c ?d"
    "queue_step ?d ?e"
    by (auto simp: queue_init_def queue_step_iff)
  then have "queue_reachable ?e" by (meson queue_start queue_next)
  from queue_fifo_no_null [OF this] this show ?thesis by force
qed

end
