(* ===== verification/Notify_Race.thy ===== *)
theory Notify_Race
  imports Observers
begin

section \<open>Notification from several threads\<close>

text \<open>
  \<open>src/core/observers/concurrent_observer.h\<close> (and \<open>conditional_data_observer.h\<close>, the same code): the
  vector of entries belongs to a mutex, but \<open>notify\<close> holds it only while it copies the vector and
  calls the observers of the copy after it let go. Here \<open>attach\<close>, \<open>detach\<close>, the end of an
  observer's life and the notifications of several threads interleave: one step per critical
  section and per \<open>update\<close>. What a notification calls, and what \<open>detach\<close> guarantees to an
  object about to be deleted (\<open>~SmartData\<close>, \<open>~Communicator\<close>, \<open>~Protocol\<close> detach first), are theorems.
\<close>

subsection \<open>The steps\<close>

text \<open>A thread in \<open>notify(c, d)\<close>: before the lock, or with its snapshot, the iterator and \<open>notified\<close>.\<close>

datatype ('o, 'c, 'd) notifier =
    Resting
  | Locking 'c 'd
  | Looping 'c 'd "('o, 'c) observers" nat bool

text \<open>
  \<open>nr_freed\<close> are the observers whose destructor has returned; the last three fields are ghosts: the
  calls of \<open>update\<close> each thread made, the notifications each finished (condition, datum, snapshot,
  what \<open>notify\<close> returned), and the observers that were called after their destructor had returned.
\<close>

record ('o, 'c, 'd) notify_sys =
  nr_list :: "('o, 'c) observers"
  nr_threads :: "('o, 'c, 'd) notifier list"
  nr_freed :: "'o list"
  nr_calls :: "('o \<times> 'c \<times> 'd) list list"
  nr_done :: "('c \<times> 'd \<times> ('o, 'c) observers \<times> bool) list list"
  nr_dangling :: "'o list"

datatype ('o, 'c, 'd) notify_label =
    Attaching 'o 'c
  | Detaching 'o 'c
  | Freeing 'o
  | Notifying nat 'c 'd
  | Advancing nat

text \<open>The body of the loop of \<open>notify\<close>, and its end.\<close>

definition notify_advance :: "nat \<Rightarrow> ('o, 'c, 'd) notify_sys \<Rightarrow> ('o, 'c, 'd) notify_sys option" where
  "notify_advance t s =
     (case nr_threads s ! t of
        Resting \<Rightarrow> None
      | Locking c d \<Rightarrow> Some (s\<lparr>nr_threads := (nr_threads s)[t := Looping c d (nr_list s) 0 False]\<rparr>)
      | Looping c d snapshot k notified \<Rightarrow>
          (if k < length snapshot then
             (let (ob, c') = snapshot ! k in
              if c' = c then
                Some (s\<lparr>nr_threads := (nr_threads s)[t := Looping c d snapshot (k + 1) True],
                        nr_calls := (nr_calls s)[t := nr_calls s ! t @ [(ob, c, d)]],
                        nr_dangling := nr_dangling s @ (if ob \<in> set (nr_freed s) then [ob] else [])\<rparr>)
              else Some (s\<lparr>nr_threads := (nr_threads s)[t := Looping c d snapshot (k + 1) notified]\<rparr>))
           else Some (s\<lparr>nr_threads := (nr_threads s)[t := Resting],
                        nr_done := (nr_done s)[t := nr_done s ! t @ [(c, d, snapshot, notified)]]\<rparr>)))"

definition notify_step :: "('o, 'c, 'd) notify_label \<Rightarrow> ('o, 'c, 'd) notify_sys \<Rightarrow> ('o, 'c, 'd) notify_sys option" where
  "notify_step l s =
     (case l of
        Attaching ob c \<Rightarrow> Some (s\<lparr>nr_list := co_attach ob c (nr_list s)\<rparr>)
      | Detaching ob c \<Rightarrow> Some (s\<lparr>nr_list := co_detach ob c (nr_list s)\<rparr>)
      | Freeing ob \<Rightarrow> Some (s\<lparr>nr_freed := ob # nr_freed s\<rparr>)
      | Notifying t c d \<Rightarrow>
          (if t < length (nr_threads s) \<and> nr_threads s ! t = Resting
           then Some (s\<lparr>nr_threads := (nr_threads s)[t := Locking c d]\<rparr>) else None)
      | Advancing t \<Rightarrow> (if t < length (nr_threads s) then notify_advance t s else None))"

primrec notify_run :: "('o, 'c, 'd) notify_label list \<Rightarrow> ('o, 'c, 'd) notify_sys \<Rightarrow> ('o, 'c, 'd) notify_sys option" where
  "notify_run [] s = Some s"
| "notify_run (l # ls) s = (case notify_step l s of None \<Rightarrow> None | Some s' \<Rightarrow> notify_run ls s')"

definition notify_start :: "('o, 'c) observers \<Rightarrow> nat \<Rightarrow> ('o, 'c, 'd) notify_sys" where
  "notify_start r n = \<lparr>nr_list = r, nr_threads = replicate n Resting, nr_freed = [], nr_calls = replicate n [],
     nr_done = replicate n [], nr_dangling = []\<rparr>"

lemma notify_run_append:
  "notify_run (xs @ ys) s = (case notify_run xs s of None \<Rightarrow> None | Some s' \<Rightarrow> notify_run ys s')"
  by (induction xs arbitrary: s) (auto split: option.splits)

text \<open>One step of a thread, in the four cases of the code.\<close>

lemma notify_advance_cases:
  assumes "notify_advance t s = Some s'"
  obtains (lock) c d where "nr_threads s ! t = Locking c d"
      "s' = s\<lparr>nr_threads := (nr_threads s)[t := Looping c d (nr_list s) 0 False]\<rparr>"
  | (call) c d snap k n ob where "nr_threads s ! t = Looping c d snap k n" "k < length snap" "snap ! k = (ob, c)"
      "s' = s\<lparr>nr_threads := (nr_threads s)[t := Looping c d snap (k + 1) True],
         nr_calls := (nr_calls s)[t := nr_calls s ! t @ [(ob, c, d)]],
         nr_dangling := nr_dangling s @ (if ob \<in> set (nr_freed s) then [ob] else [])\<rparr>"
  | (skip) c d snap k n ob c' where "nr_threads s ! t = Looping c d snap k n" "k < length snap" "snap ! k = (ob, c')" "c' \<noteq> c"
      "s' = s\<lparr>nr_threads := (nr_threads s)[t := Looping c d snap (k + 1) n]\<rparr>"
  | (finish) c d snap k n where "nr_threads s ! t = Looping c d snap k n" "length snap \<le> k"
      "s' = s\<lparr>nr_threads := (nr_threads s)[t := Resting],
         nr_done := (nr_done s)[t := nr_done s ! t @ [(c, d, snap, n)]]\<rparr>"
proof (cases "nr_threads s ! t")
  case Resting
  then show ?thesis using assms by (simp add: notify_advance_def)
next
  case (Locking c d)
  then show ?thesis using assms lock by (simp add: notify_advance_def)
next
  case (Looping c d snap k n)
  obtain ob c' where e: "snap ! k = (ob, c')" by (cases "snap ! k")
  show ?thesis
  proof (cases "k < length snap")
    case True
    show ?thesis
    proof (cases "c' = c")
      case True
      then show ?thesis using assms Looping e \<open>k < length snap\<close> call [of c d snap k n ob] by (simp add: notify_advance_def)
    next
      case False
      then show ?thesis using assms Looping e \<open>k < length snap\<close> skip [of c d snap k n ob c'] by (simp add: notify_advance_def)
    qed
  next
    case False
    then show ?thesis using assms Looping finish [of c d snap k n] by (simp add: notify_advance_def)
  qed
qed

subsection \<open>What a notification does\<close>

text \<open>The calls of a notification that got to entry \<open>k\<close> of its snapshot.\<close>

definition calls_for :: "'c \<Rightarrow> 'd \<Rightarrow> ('o, 'c) observers \<Rightarrow> ('o \<times> 'c \<times> 'd) list" where
  "calls_for c d r = map (\<lambda>ob. (ob, c, d)) (targets_of c r)"

primrec thread_calls :: "('o, 'c, 'd) notifier \<Rightarrow> ('o \<times> 'c \<times> 'd) list" where
  "thread_calls Resting = []"
| "thread_calls (Locking c d) = []"
| "thread_calls (Looping c d snap k n) = calls_for c d (take k snap)"

primrec thread_ok :: "('o, 'c, 'd) notifier \<Rightarrow> bool" where
  "thread_ok Resting = True"
| "thread_ok (Locking c d) = True"
| "thread_ok (Looping c d snap k n) = (k \<le> length snap \<and> (n \<longleftrightarrow> has_observer c (take k snap)))"

definition thread_inv ::
  "('o, 'c, 'd) notifier \<Rightarrow> ('o \<times> 'c \<times> 'd) list \<Rightarrow> ('c \<times> 'd \<times> ('o, 'c) observers \<times> bool) list \<Rightarrow> bool"
where
  "thread_inv pc calls finished \<longleftrightarrow> thread_ok pc
     \<and> calls = concat (map (\<lambda>(c, d, snap, n). calls_for c d snap) finished) @ thread_calls pc
     \<and> (\<forall>(c, d, snap, n) \<in> set finished. n = has_observer c snap)"

definition notify_inv :: "('o, 'c, 'd) notify_sys \<Rightarrow> bool" where
  "notify_inv s \<longleftrightarrow> length (nr_calls s) = length (nr_threads s) \<and> length (nr_done s) = length (nr_threads s)
     \<and> (\<forall>t < length (nr_threads s). thread_inv (nr_threads s ! t) (nr_calls s ! t) (nr_done s ! t))"

lemma take_calls:
  assumes "k < length snap" "snap ! k = (ob, c')"
  shows "calls_for c d (take (Suc k) snap) = calls_for c d (take k snap) @ (if c' = c then [(ob, c, d)] else [])"
    and "has_observer c (take (Suc k) snap) \<longleftrightarrow> has_observer c (take k snap) \<or> c' = c"
  using assms by (simp_all add: take_Suc_conv_app_nth calls_for_def has_observer_targets)

lemma notify_inv_advance:
  assumes inv: "notify_inv s" and t: "t < length (nr_threads s)" and st: "notify_advance t s = Some s'"
  shows "notify_inv s'"
proof -
  have th: "thread_inv (nr_threads s ! t) (nr_calls s ! t) (nr_done s ! t)" using inv t by (simp add: notify_inv_def)
  from st show ?thesis
  proof (cases rule: notify_advance_cases)
    case (lock c d)
    have "thread_inv (Looping c d (nr_list s) 0 False) (nr_calls s ! t) (nr_done s ! t)"
      using th lock(1) by (simp add: thread_inv_def calls_for_def)
    then show ?thesis using inv t lock(2) by (auto simp: notify_inv_def nth_list_update)
  next
    case (call c d snap k n ob)
    have "thread_inv (Looping c d snap (k + 1) True) (nr_calls s ! t @ [(ob, c, d)]) (nr_done s ! t)"
      using th call(1,2) by (simp add: thread_inv_def take_calls [OF call(2,3)])
    then show ?thesis using inv t call(4) by (auto simp: notify_inv_def nth_list_update)
  next
    case (skip c d snap k n ob c')
    have "thread_inv (Looping c d snap (k + 1) n) (nr_calls s ! t) (nr_done s ! t)"
      using th skip(1,2,4) by (simp add: thread_inv_def take_calls [OF skip(2,3)])
    then show ?thesis using inv t skip(5) by (auto simp: notify_inv_def nth_list_update)
  next
    case (finish c d snap k n)
    have "thread_inv Resting (nr_calls s ! t) (nr_done s ! t @ [(c, d, snap, n)])"
      using th finish(1,2) by (simp add: thread_inv_def)
    then show ?thesis using inv t finish(3) by (auto simp: notify_inv_def nth_list_update)
  qed
qed

lemma notify_inv_step:
  assumes inv: "notify_inv s" and st: "notify_step l s = Some s'"
  shows "notify_inv s'"
proof (cases l)
  case (Notifying t c d)
  then have t: "nr_threads s ! t = Resting" "t < length (nr_threads s)"
    and s': "s' = s\<lparr>nr_threads := (nr_threads s)[t := Locking c d]\<rparr>"
    using st by (simp_all add: notify_step_def split: if_splits)
  have "thread_inv Resting (nr_calls s ! t) (nr_done s ! t)" using inv t by (metis notify_inv_def)
  then have "thread_inv (Locking c d) (nr_calls s ! t) (nr_done s ! t)" by (simp add: thread_inv_def)
  then show ?thesis using inv t(2) s' by (auto simp: notify_inv_def nth_list_update)
next
  case (Advancing t)
  then show ?thesis using st notify_inv_advance [OF inv] by (simp add: notify_step_def split: if_splits)
qed (use assms in \<open>auto simp: notify_step_def notify_inv_def\<close>)

lemma notify_inv_run: "notify_inv s \<Longrightarrow> notify_run ls s = Some s' \<Longrightarrow> notify_inv s'"
  by (induction ls arbitrary: s) (auto split: option.splits intro: notify_inv_step)

lemma notify_inv_start: "notify_inv (notify_start r n)"
  by (simp add: notify_inv_def thread_inv_def notify_start_def)

lemma threads_kept:
  assumes "notify_step l s = Some s'"
  shows "length (nr_threads s') = length (nr_threads s)"
  using assms by (cases l) (auto simp: notify_step_def split: if_splits elim: notify_advance_cases)

lemma threads_kept_run: "notify_run ls s = Some s' \<Longrightarrow> length (nr_threads s') = length (nr_threads s)"
  by (induction ls arbitrary: s) (auto simp: threads_kept split: option.splits)

text \<open>\<open>notify\<close> as one piece (\<open>co_notify\<close>), on the log of the calls it makes.\<close>

definition notify_log :: "'c \<Rightarrow> 'd \<Rightarrow> ('o, 'c) observers \<Rightarrow> bool \<times> ('o \<times> 'c \<times> 'd) list" where
  "notify_log c d r = co_notify (\<lambda>_. r) (\<lambda>ob c d log. log @ [(ob, c, d)]) c d []"

lemma fold_log: "fold (\<lambda>ob log. log @ [(ob, c, d)]) obs log = log @ map (\<lambda>ob. (ob, c, d)) obs"
  by (induction obs arbitrary: log) auto

lemma notify_log_eq: "notify_log c d r = (has_observer c r, calls_for c d r)"
  by (simp add: notify_log_def co_notify_targets has_observer_targets calls_for_def fold_log)

text \<open>C34. However attachments, detachments and the notifications of other threads interleave, a thread behaves
  as if each of its notifications ran in one piece on the entries of its snapshot: the calls it has
  made are, one notification after the other, those of \<open>co_notify\<close>, which also answered what \<open>notify\<close>
  returned; a notification under way has called the part of its snapshot behind it.\<close>

theorem notifications_exact:
  assumes "notify_run ls (notify_start r n) = Some s" and "t < n"
  shows "nr_calls s ! t = concat (map (\<lambda>(c, d, snap, notified). snd (notify_log c d snap)) (nr_done s ! t)) @ thread_calls (nr_threads s ! t)
     \<and> (\<forall>(c, d, snap, notified) \<in> set (nr_done s ! t). notified = fst (notify_log c d snap))"
proof -
  have "t < length (nr_threads s)" using threads_kept_run [OF assms(1)] assms(2) by (simp add: notify_start_def)
  then show ?thesis using notify_inv_run [OF notify_inv_start assms(1)] unfolding notify_inv_def thread_inv_def notify_log_eq fst_conv snd_conv by blast
qed

subsection \<open>What \<open>detach\<close> guarantees\<close>

text \<open>The calls of \<open>ob\<close> that notifications under way have still to make, those made, and those made too late.\<close>

primrec still_to_call :: "'o \<Rightarrow> ('o, 'c, 'd) notifier \<Rightarrow> nat" where
  "still_to_call ob Resting = 0"
| "still_to_call ob (Locking c d) = 0"
| "still_to_call ob (Looping c d snap k n) = count_list (targets_of c (drop k snap)) ob"

definition in_flight :: "'o \<Rightarrow> ('o, 'c, 'd) notify_sys \<Rightarrow> nat" where
  "in_flight ob s = sum_list (map (still_to_call ob) (nr_threads s))"

definition calls_of :: "'o \<Rightarrow> ('o, 'c, 'd) notify_sys \<Rightarrow> nat" where
  "calls_of ob s = sum_list (map (\<lambda>cs. length (filter (\<lambda>x. fst x = ob) cs)) (nr_calls s))"

definition dangling_calls :: "'o \<Rightarrow> ('o, 'c, 'd) notify_sys \<Rightarrow> nat" where
  "dangling_calls ob s = count_list (nr_dangling s) ob"

definition detached :: "'o \<Rightarrow> ('o, 'c, 'd) notify_sys \<Rightarrow> bool" where
  "detached ob s \<longleftrightarrow> ob \<notin> fst ` set (nr_list s)"

definition attaches :: "'o \<Rightarrow> ('o, 'c, 'd) notify_label \<Rightarrow> bool" where
  "attaches ob l = (case l of Attaching ob' c \<Rightarrow> ob' = ob | _ \<Rightarrow> False)"

lemma sum_list_at:
  fixes f :: "'a \<Rightarrow> nat"
  assumes "t < length xs"
  shows "sum_list (map f (xs[t := x])) + f (xs ! t) = sum_list (map f xs) + f x"
  using assms
proof (induction xs arbitrary: t)
  case (Cons a xs)
  then show ?case by (cases t) fastforce+
qed simp

lemma detached_no_targets: "ob \<notin> fst ` set r \<Longrightarrow> count_list (targets_of c r) ob = 0"
  by (induction r) auto

lemma drop_targets:
  assumes "k < length snap" "snap ! k = (ob', c')"
  shows "count_list (targets_of c (drop k snap)) ob
    = (if c' = c \<and> ob' = ob then 1 else 0) + count_list (targets_of c (drop (Suc k) snap)) ob"
  using assms by (simp add: Cons_nth_drop_Suc [symmetric])

lemma in_flight_step:
  assumes inv: "length (nr_calls s) = length (nr_threads s)" and out: "detached ob s"
    and st: "notify_step l s = Some s'" and na: "\<not> attaches ob l"
  shows "detached ob s'" "calls_of ob s' + in_flight ob s' = calls_of ob s + in_flight ob s"
    "ob \<in> set (nr_freed s) \<Longrightarrow> dangling_calls ob s' + in_flight ob s' = dangling_calls ob s + in_flight ob s"
    "set (nr_freed s) \<subseteq> set (nr_freed s')"
proof -
  have "detached ob s' \<and> calls_of ob s' + in_flight ob s' = calls_of ob s + in_flight ob s
    \<and> (ob \<in> set (nr_freed s) \<longrightarrow> dangling_calls ob s' + in_flight ob s' = dangling_calls ob s + in_flight ob s)
    \<and> set (nr_freed s) \<subseteq> set (nr_freed s')"
  proof (cases l)
    case (Notifying t c d)
    then have t: "nr_threads s ! t = Resting" "t < length (nr_threads s)"
      and s': "s' = s\<lparr>nr_threads := (nr_threads s)[t := Locking c d]\<rparr>"
      using st by (simp_all add: notify_step_def split: if_splits)
    show ?thesis using sum_list_at [OF t(2), of "still_to_call ob" "Locking c d"] t(1) out
      by (simp add: s' in_flight_def calls_of_def dangling_calls_def detached_def)
  next
    case (Advancing t)
    then have t: "t < length (nr_threads s)" and a: "notify_advance t s = Some s'"
      using st by (simp_all add: notify_step_def split: if_splits)
    note f = sum_list_at [OF t, of "still_to_call ob"]
    have tc: "t < length (nr_calls s)" using t inv by simp
    note g = sum_list_at [OF tc, of "\<lambda>cs. length (filter (\<lambda>x. fst x = ob) cs)"]
    from a show ?thesis
    proof (cases rule: notify_advance_cases)
      case (lock c d)
      have "count_list (targets_of c (nr_list s)) ob = 0" using out by (intro detached_no_targets) (simp add: detached_def)
      then show ?thesis using f [of "Looping c d (nr_list s) 0 False"] lock out
        by (simp add: in_flight_def calls_of_def dangling_calls_def detached_def)
    next
      case (call c d snap k n ob')
      show ?thesis using f [of "Looping c d snap (k + 1) True"] g [of "nr_calls s ! t @ [(ob', c, d)]"] call(1) out
          drop_targets [OF call(2,3), of c ob]
        by (auto simp: call(4) in_flight_def calls_of_def dangling_calls_def detached_def)
    next
      case (skip c d snap k n ob' c')
      show ?thesis using f [of "Looping c d snap (k + 1) n"] skip(1,4) out drop_targets [OF skip(2,3), of c ob]
        by (simp add: skip(5) in_flight_def calls_of_def dangling_calls_def detached_def)
    next
      case (finish c d snap k n)
      show ?thesis using f [of Resting] finish(1,2) out
        by (simp add: finish(3) in_flight_def calls_of_def dangling_calls_def detached_def)
    qed
  qed (use out na st in \<open>auto simp: notify_step_def in_flight_def calls_of_def dangling_calls_def detached_def attaches_def
      co_attach_def co_detach_def\<close>)
  then show "detached ob s'" "calls_of ob s' + in_flight ob s' = calls_of ob s + in_flight ob s"
    "ob \<in> set (nr_freed s) \<Longrightarrow> dangling_calls ob s' + in_flight ob s' = dangling_calls ob s + in_flight ob s"
    "set (nr_freed s) \<subseteq> set (nr_freed s')"
    by blast+
qed

lemma in_flight_run:
  assumes "notify_inv s" and "detached ob s" and "notify_run ls s = Some s'" and "\<forall>l \<in> set ls. \<not> attaches ob l"
  shows "detached ob s' \<and> calls_of ob s' + in_flight ob s' = calls_of ob s + in_flight ob s
    \<and> (ob \<in> set (nr_freed s) \<longrightarrow> dangling_calls ob s' + in_flight ob s' = dangling_calls ob s + in_flight ob s)"
  using assms
proof (induction ls arbitrary: s)
  case (Cons l ls)
  then obtain s1 where s1: "notify_step l s = Some s1" "notify_run ls s1 = Some s'" by (auto split: option.splits)
  have "length (nr_calls s) = length (nr_threads s)" using Cons.prems(1) by (simp add: notify_inv_def)
  from in_flight_step [OF this Cons.prems(2) s1(1)] Cons.IH [OF notify_inv_step [OF Cons.prems(1) s1(1)] _ s1(2)] Cons.prems(4)
  show ?case by force
qed simp

text \<open>Every notification under way comes to its end when its thread runs on.\<close>

primrec steps_left :: "nat \<Rightarrow> ('o, 'c, 'd) notifier \<Rightarrow> nat" where
  "steps_left m Resting = 0"
| "steps_left m (Locking c d) = m + 2"
| "steps_left m (Looping c d snap k n) = Suc (length snap - k)"

definition notify_measure :: "('o, 'c, 'd) notify_sys \<Rightarrow> nat" where
  "notify_measure s = sum_list (map (steps_left (length (nr_list s))) (nr_threads s))"

definition at_rest :: "('o, 'c, 'd) notify_sys \<Rightarrow> bool" where
  "at_rest s \<longleftrightarrow> (\<forall>pc \<in> set (nr_threads s). pc = Resting)"

lemma advance_enabled:
  assumes "nr_threads s ! t \<noteq> Resting"
  shows "\<exists>s'. notify_advance t s = Some s'"
  using assms by (cases "nr_threads s ! t") (auto simp: notify_advance_def Let_def split: prod.splits)

lemma advance_decreases:
  assumes t: "t < length (nr_threads s)" and a: "notify_advance t s = Some s'"
  shows "notify_measure s' < notify_measure s"
proof -
  note f = sum_list_at [OF t, of "steps_left (length (nr_list s))"]
  from a show ?thesis
  proof (cases rule: notify_advance_cases)
    case (lock c d)
    then show ?thesis using f [of "Looping c d (nr_list s) 0 False"] by (simp add: notify_measure_def)
  next
    case (call c d snap k n ob)
    then show ?thesis using f [of "Looping c d snap (k + 1) True"] by (simp add: notify_measure_def)
  next
    case (skip c d snap k n ob c')
    then show ?thesis using f [of "Looping c d snap (k + 1) n"] by (simp add: notify_measure_def)
  next
    case (finish c d snap k n)
    then show ?thesis using f [of Resting] by (simp add: notify_measure_def)
  qed
qed

lemma notifications_finish:
  "\<exists>ls s'. (\<forall>l \<in> set ls. \<exists>t. l = Advancing t) \<and> length ls \<le> notify_measure s \<and> notify_run ls s = Some s' \<and> at_rest s'"
proof (induction "notify_measure s" arbitrary: s rule: less_induct)
  case less
  show ?case
  proof (cases "at_rest s")
    case True
    then show ?thesis by (intro exI [of _ "[]"] exI [of _ s]) simp
  next
    case False
    then obtain t where t: "t < length (nr_threads s)" "nr_threads s ! t \<noteq> Resting"
      by (auto simp: at_rest_def in_set_conv_nth)
    obtain s1 where s1: "notify_advance t s = Some s1" using advance_enabled [OF t(2)] by blast
    note d = advance_decreases [OF t(1) s1]
    obtain ls s' where "\<forall>l \<in> set ls. \<exists>t. l = Advancing t" "length ls \<le> notify_measure s1" "notify_run ls s1 = Some s'" "at_rest s'"
      using less [OF d] by blast
    then show ?thesis using d t(1) s1
      by (intro exI [of _ "Advancing t # ls"] exI [of _ s']) (auto simp: notify_step_def)
  qed
qed

lemma at_rest_no_flight: "at_rest s \<Longrightarrow> in_flight ob s = 0"
  by (auto simp: at_rest_def in_flight_def sum_list_eq_0_iff)

text \<open>C35. Once an observer is detached, no notification that has still to take its snapshot calls it, but every
  entry for it in a snapshot already taken does: whatever the threads do, the calls made so far and
  those in flight add up to the same number, the threads can always run on to the end of their
  notifications, and then \<open>update\<close> was called exactly as often as entries were in flight, also
  when the observer was deleted in the meantime.\<close>

theorem detach_late_calls:
  assumes "notify_run ls0 (notify_start r n) = Some s" and "detached ob s"
    and "notify_run ls s = Some s'" and "\<forall>l \<in> set ls. \<not> attaches ob l"
  shows "calls_of ob s' + in_flight ob s' = calls_of ob s + in_flight ob s
     \<and> (\<exists>ls' s''. (\<forall>l \<in> set ls'. \<exists>t. l = Advancing t) \<and> notify_run ls' s' = Some s'' \<and> at_rest s''
          \<and> calls_of ob s'' = calls_of ob s + in_flight ob s
          \<and> (ob \<in> set (nr_freed s) \<longrightarrow> dangling_calls ob s'' = dangling_calls ob s + in_flight ob s))"
proof -
  have inv: "notify_inv s" by (rule notify_inv_run [OF notify_inv_start assms(1)])
  obtain ls' s'' where f: "\<forall>l \<in> set ls'. \<exists>t. l = Advancing t" "notify_run ls' s' = Some s''" "at_rest s''"
    using notifications_finish [of s'] by blast
  have run: "notify_run (ls @ ls') s = Some s''" using assms(3) f(2) by (simp add: notify_run_append)
  have na: "\<forall>l \<in> set (ls @ ls'). \<not> attaches ob l" using assms(4) f(1) by (auto simp: attaches_def)
  show ?thesis
    using in_flight_run [OF inv assms(2-4)] in_flight_run [OF inv assms(2) run na] f at_rest_no_flight [OF f(3), of ob]
    by (intro conjI exI [of _ ls'] exI [of _ s'']) simp_all
qed

text \<open>
  The SmartData of an actuator is deleted while the receiving thread is in \<open>Communicator::update\<close>:
  the thread has its snapshot, the main thread detaches and deletes, the thread calls \<open>update\<close>.
\<close>

definition late_run :: "(nat, nat, nat) notify_label list" where
  "late_run = [Notifying 0 1 5, Advancing 0, Detaching 7 1, Freeing 7]"

lemma late_run_result:
  "notify_run late_run (notify_start [(7, 1)] 1) = Some \<lparr>nr_list = [], nr_threads = [Looping 1 5 [(7, 1)] 0 False],
     nr_freed = [7], nr_calls = [[]], nr_done = [[]], nr_dangling = []\<rparr>"
  by (simp add: late_run_def notify_start_def notify_step_def notify_advance_def co_detach_def)

lemma detach_late_calls_witness:
  "\<exists>s ls' s''. notify_run late_run (notify_start [(7, 1)] 1) = Some s \<and> detached 7 s \<and> 7 \<in> set (nr_freed s)
     \<and> notify_run ls' s = Some s'' \<and> at_rest s'' \<and> calls_of 7 s = 0 \<and> dangling_calls 7 s'' = 1"
proof -
  let ?s = "\<lparr>nr_list = [], nr_threads = [Looping 1 5 [(7, 1)] 0 False],
     nr_freed = [7], nr_calls = [[]], nr_done = [[]], nr_dangling = []\<rparr> :: (nat, nat, nat) notify_sys"
  have d: "detached 7 ?s" "7 \<in> set (nr_freed ?s)" "in_flight 7 ?s = 1" "calls_of 7 ?s = 0" "dangling_calls 7 ?s = 0"
    by (simp_all add: detached_def in_flight_def calls_of_def dangling_calls_def)
  show ?thesis
    using detach_late_calls [OF late_run_result d(1), of "[]" ?s] d late_run_result by auto
qed

text \<open>One whole notification of two entries, one of them for the condition.\<close>

lemma notifications_exact_witness:
  "\<exists>s. notify_run [Notifying 0 1 5, Advancing 0, Advancing 0, Advancing 0, Advancing 0]
         (notify_start [(7 :: nat, 1 :: nat), (8, 2)] 1) = Some s
     \<and> nr_calls s ! 0 = [(7, 1, 5 :: nat)] \<and> nr_calls s ! 0 = snd (notify_log 1 5 [(7, 1), (8, 2)])"
proof -
  let ?s = "\<lparr>nr_list = [(7, 1), (8, 2)], nr_threads = [Resting], nr_freed = [], nr_calls = [[(7, 1, 5)]],
     nr_done = [[(1, 5, [(7, 1), (8, 2)], True)]], nr_dangling = []\<rparr> :: (nat, nat, nat) notify_sys"
  have r: "notify_run [Notifying 0 1 5, Advancing 0, Advancing 0, Advancing 0, Advancing 0]
      (notify_start [(7, 1), (8, 2)] 1) = Some ?s"
    by (simp add: notify_start_def notify_step_def notify_advance_def)
  from notifications_exact [OF r, of 0] show ?thesis using r by (intro exI [of _ ?s]) simp
qed

end
