(* ===== verification/Wire.thy ===== *)
theory Wire
  imports Prelude
begin

unbundle bit_operations_syntax

section \<open>What travels: frames, headers and payload structures, byte by byte\<close>

text \<open>
  \<open>src/network/ethernet.h\<close>, \<open>src/channel/packet_kind.h\<close>, the \<open>Header\<close> and \<open>Packet\<close> of
  \<open>src/channel/protocol.h\<close>, the payloads of \<open>src/channel/sptp_protocol.h\<close>,
  \<open>src/communication/smart_data/smart_message.h\<close>, \<open>unit.h\<close> and \<open>mac_key\<close> of
  \<open>smart_helpers.h\<close>. A frame is the array of bytes the program copies with \<open>memcpy\<close>; the
  accessors read and write at the offsets the compiler gives the fields (x86-64, little
  endian, Itanium layout: \<open>Header\<close> has size 16 and its last field ends at 14, and \<open>Packet\<close>, which
  extends it, places its data in the tail padding, at 14).
\<close>

subsection \<open>\<open>Ethernet::Address\<close>\<close>

type_synonym mac = "u8 list"

definition mac_ok :: "mac \<Rightarrow> bool" where
  "mac_ok m \<longleftrightarrow> length m = 6"

definition BROADCAST :: mac where
  "BROADCAST = [255, 255, 255, 255, 255, 255]"

definition INTERNAL :: mac where
  "INTERNAL = [0, 0, 0, 0, 0, 0]"

definition mac_bool :: "mac \<Rightarrow> bool" where
  "mac_bool m \<longleftrightarrow> list_ex (\<lambda>b. b \<noteq> 0) m"

lemma mac_ok_consts [simp]: "mac_ok BROADCAST" "mac_ok INTERNAL"
  by (simp_all add: mac_ok_def BROADCAST_def INTERNAL_def)

lemma broadcast_not_internal [simp]: "BROADCAST \<noteq> INTERNAL" "INTERNAL \<noteq> BROADCAST"
  by (simp_all add: BROADCAST_def INTERNAL_def)

lemma mac_bool_iff: "mac_ok m \<Longrightarrow> mac_bool m \<longleftrightarrow> m \<noteq> INTERNAL"
  by (auto simp: mac_ok_def mac_bool_def INTERNAL_def list_ex_iff length_Suc_conv eval_nat_numeral)

subsection \<open>\<open>Ethernet::Frame\<close>\<close>

definition MTU :: nat where "MTU = 1500"
definition HEADER_SIZE :: nat where "HEADER_SIZE = 14"
definition FRAME_SIZE :: nat where "FRAME_SIZE = HEADER_SIZE + MTU"

lemmas frame_consts = MTU_def HEADER_SIZE_def FRAME_SIZE_def

type_synonym frame = "u8 list"

definition frame_ok :: "frame \<Rightarrow> bool" where
  "frame_ok f \<longleftrightarrow> length f = FRAME_SIZE"

definition frame_dst :: "frame \<Rightarrow> mac" where
  "frame_dst f = slice 0 6 f"

definition frame_src :: "frame \<Rightarrow> mac" where
  "frame_src f = slice 6 6 f"

definition set_dst :: "mac \<Rightarrow> frame \<Rightarrow> frame" where
  "set_dst m f = memcpy_at 0 m f"

definition set_src :: "mac \<Rightarrow> frame \<Rightarrow> frame" where
  "set_src m f = memcpy_at 6 m f"

definition frame_type :: "frame \<Rightarrow> u16" where
  "frame_type f = push_bit 8 (ucast (f ! 12)) OR ucast (f ! 13)"

definition set_type :: "u16 \<Rightarrow> frame \<Rightarrow> frame" where
  "set_type p f = f[12 := ucast (drop_bit 8 p AND 255), 13 := ucast (p AND 255)]"

definition payload :: "frame \<Rightarrow> u8 list" where
  "payload f = drop HEADER_SIZE f"

definition set_payload :: "u8 list \<Rightarrow> frame \<Rightarrow> frame" where
  "set_payload p f = take HEADER_SIZE f @ p"

definition frame_size :: "nat \<Rightarrow> nat" where
  "frame_size psz = HEADER_SIZE + psz"

lemma byte_mask: "(255 :: u16) = mask 8"
  by (simp add: mask_eq_exp_minus_1)

lemma type_bytes:
  "push_bit 8 (ucast (ucast (drop_bit 8 p AND 255 :: u16) :: u8) :: u16) OR ucast (ucast (p AND 255) :: u8) = p"
  unfolding byte_mask
  by (rule bit_word_eqI) (auto simp: bit_simps not_le)

lemma frame_type_set_type: "frame_ok f \<Longrightarrow> frame_type (set_type p f) = p"
  by (simp add: frame_type_def set_type_def frame_ok_def frame_consts type_bytes)

subsection \<open>\<open>mac_key\<close>\<close>

definition mac_key :: "mac \<Rightarrow> u64" where
  "mac_key m = foldl (\<lambda>k b. push_bit 8 k OR ucast b) 0 m"

lemma no_high_bit [simp]: "8 \<le> n \<Longrightarrow> bit (b :: u8) n \<longleftrightarrow> False"
  using bit_imp_le_length [of b n] by auto

lemma mac_key_bytes:
  "ucast (drop_bit 40 (mac_key [a, b, c, d, e, f])) = a"
  "ucast (drop_bit 32 (mac_key [a, b, c, d, e, f])) = b"
  "ucast (drop_bit 24 (mac_key [a, b, c, d, e, f])) = c"
  "ucast (drop_bit 16 (mac_key [a, b, c, d, e, f])) = d"
  "ucast (drop_bit 8 (mac_key [a, b, c, d, e, f])) = e"
  "ucast (mac_key [a, b, c, d, e, f]) = f"
  by (rule bit_word_eqI, auto simp: mac_key_def bit_simps)+

theorem mac_key_inj:
  assumes "mac_ok m" and "mac_ok m'" and "mac_key m = mac_key m'"
  shows "m = m'"
proof -
  obtain a b c d e f where m: "m = [a, b, c, d, e, f]"
    using assms(1) by (auto simp: mac_ok_def length_Suc_conv eval_nat_numeral)
  obtain a' b' c' d' e' f' where m': "m' = [a', b', c', d', e', f']"
    using assms(2) by (auto simp: mac_ok_def length_Suc_conv eval_nat_numeral)
  show ?thesis
    using assms(3) mac_key_bytes [of a b c d e f] mac_key_bytes [of a' b' c' d' e' f']
    unfolding m m' by metis
qed

subsection \<open>The frame header fields do not disturb one another\<close>

lemma frame_ok_set [simp, intro]:
  "frame_ok f \<Longrightarrow> mac_ok m \<Longrightarrow> frame_ok (set_dst m f)"
  "frame_ok f \<Longrightarrow> mac_ok m \<Longrightarrow> frame_ok (set_src m f)"
  "frame_ok f \<Longrightarrow> frame_ok (set_type p f)"
  by (simp_all add: frame_ok_def set_dst_def set_src_def set_type_def mac_ok_def frame_consts)

lemma frame_ok_set_payload [simp, intro]:
  "frame_ok f \<Longrightarrow> length p = MTU \<Longrightarrow> frame_ok (set_payload p f)"
  by (simp add: frame_ok_def set_payload_def frame_consts)

lemma length_payload [simp]: "frame_ok f \<Longrightarrow> length (payload f) = MTU"
  by (simp add: frame_ok_def payload_def frame_consts)

lemma payload_set_payload [simp]: "frame_ok f \<Longrightarrow> payload (set_payload p f) = p"
  by (simp add: frame_ok_def payload_def set_payload_def frame_consts)

lemma frame_dst_set [byte_simps]:
  "frame_ok f \<Longrightarrow> mac_ok m \<Longrightarrow> frame_dst (set_dst m f) = m"
  "frame_ok f \<Longrightarrow> mac_ok m \<Longrightarrow> frame_dst (set_src m f) = frame_dst f"
  "frame_ok f \<Longrightarrow> frame_dst (set_type p f) = frame_dst f"
  "frame_ok f \<Longrightarrow> frame_dst (set_payload q f) = frame_dst f"
  by (simp_all add: frame_dst_def set_dst_def set_src_def set_type_def set_payload_def mac_ok_def
      frame_ok_def frame_consts byte_simps)

lemma frame_src_set [byte_simps]:
  "frame_ok f \<Longrightarrow> mac_ok m \<Longrightarrow> frame_src (set_src m f) = m"
  "frame_ok f \<Longrightarrow> mac_ok m \<Longrightarrow> frame_src (set_dst m f) = frame_src f"
  "frame_ok f \<Longrightarrow> frame_src (set_type p f) = frame_src f"
  "frame_ok f \<Longrightarrow> frame_src (set_payload q f) = frame_src f"
  by (simp_all add: frame_src_def set_dst_def set_src_def set_type_def set_payload_def mac_ok_def
      frame_ok_def frame_consts byte_simps)

lemma frame_type_set [byte_simps]:
  "frame_ok f \<Longrightarrow> mac_ok m \<Longrightarrow> frame_type (set_dst m f) = frame_type f"
  "frame_ok f \<Longrightarrow> mac_ok m \<Longrightarrow> frame_type (set_src m f) = frame_type f"
  "frame_ok f \<Longrightarrow> frame_type (set_payload q f) = frame_type f"
  by (simp_all add: frame_type_def set_dst_def set_src_def set_payload_def mac_ok_def
      frame_ok_def frame_consts nth_memcpy_at nth_append)

lemma payload_set [byte_simps]:
  "frame_ok f \<Longrightarrow> mac_ok m \<Longrightarrow> payload (set_dst m f) = payload f"
  "frame_ok f \<Longrightarrow> mac_ok m \<Longrightarrow> payload (set_src m f) = payload f"
  "frame_ok f \<Longrightarrow> payload (set_type p f) = payload f"
  by (simp_all add: payload_def set_dst_def set_src_def set_type_def memcpy_at_def mac_ok_def
      frame_ok_def frame_consts)

subsection \<open>\<open>Protocol::Header\<close> and \<open>Protocol::Packet\<close>\<close>

text \<open>\<open>enum class PacketKind : uint8_t\<close>; a received header may hold any byte.\<close>

datatype packet_kind = DATA | SPTP_SYNC | SPTP_REQUEST_SYNC

primrec kind_byte :: "packet_kind \<Rightarrow> u8" where
  "kind_byte DATA = 0"
| "kind_byte SPTP_SYNC = 1"
| "kind_byte SPTP_REQUEST_SYNC = 2"

lemma kind_byte_inject [simp]: "kind_byte k = kind_byte k' \<longleftrightarrow> k = k'"
  by (cases k; cases k') simp_all

definition HEADER_LEN :: nat where "HEADER_LEN = 16"  \<comment> \<open>\<open>sizeof(Header)\<close>\<close>
definition DATA_OFF :: nat where "DATA_OFF = 14"      \<comment> \<open>offset of \<open>Packet::_data\<close>\<close>

lemmas header_consts = HEADER_LEN_def DATA_OFF_def

definition hdr_timestamp :: "u8 list \<Rightarrow> int" where
  "hdr_timestamp p = sint (le_word (slice 0 8 p) :: u64)"

definition hdr_src_port :: "u8 list \<Rightarrow> u16" where
  "hdr_src_port p = le_word (slice 8 2 p)"

definition hdr_dst_port :: "u8 list \<Rightarrow> u16" where
  "hdr_dst_port p = le_word (slice 10 2 p)"

definition hdr_quadrant :: "u8 list \<Rightarrow> u8" where
  "hdr_quadrant p = p ! 12"

definition hdr_kind :: "u8 list \<Rightarrow> u8" where
  "hdr_kind p = p ! 13"

definition pkt_data :: "u8 list \<Rightarrow> u8 list" where
  "pkt_data p = drop DATA_OFF p"

definition set_timestamp :: "int \<Rightarrow> u8 list \<Rightarrow> u8 list" where
  "set_timestamp ts p = memcpy_at 0 (word_le 8 (word_of_int ts :: u64)) p"

definition set_src_port :: "u16 \<Rightarrow> u8 list \<Rightarrow> u8 list" where
  "set_src_port q p = memcpy_at 8 (word_le 2 q) p"

definition set_dst_port :: "u16 \<Rightarrow> u8 list \<Rightarrow> u8 list" where
  "set_dst_port q p = memcpy_at 10 (word_le 2 q) p"

definition set_quadrant :: "u8 \<Rightarrow> u8 list \<Rightarrow> u8 list" where
  "set_quadrant q p = p[12 := q]"

definition set_kind :: "packet_kind \<Rightarrow> u8 list \<Rightarrow> u8 list" where
  "set_kind k p = p[13 := kind_byte k]"

definition set_data :: "u8 list \<Rightarrow> u8 list \<Rightarrow> u8 list" where
  "set_data d p = memcpy_at DATA_OFF d p"

lemmas hdr_defs = hdr_timestamp_def hdr_src_port_def hdr_dst_port_def hdr_quadrant_def
  hdr_kind_def pkt_data_def

lemmas set_hdr_defs = set_timestamp_def set_src_port_def set_dst_port_def set_quadrant_def
  set_kind_def set_data_def

lemma drop_memcpy_before [byte_simps]:
  "k + length d \<le> j \<Longrightarrow> k \<le> length p \<Longrightarrow> drop j (memcpy_at k d p) = drop j p"
  by (simp add: memcpy_at_def)

lemma length_set_hdr [simp]:
  "DATA_OFF \<le> length p \<Longrightarrow> length (set_timestamp ts p) = length p"
  "DATA_OFF \<le> length p \<Longrightarrow> length (set_src_port q p) = length p"
  "DATA_OFF \<le> length p \<Longrightarrow> length (set_dst_port q p) = length p"
  "length (set_quadrant b p) = length p"
  "length (set_kind k p) = length p"
  "DATA_OFF + length d \<le> length p \<Longrightarrow> length (set_data d p) = length p"
  by (simp_all add: set_hdr_defs header_consts)

text \<open>Reading a field after writing any field: the field written, or the old value.\<close>

lemma hdr_timestamp_set [simp]:
  "DATA_OFF \<le> length p \<Longrightarrow> in_i64 ts \<Longrightarrow> hdr_timestamp (set_timestamp ts p) = ts"
  "DATA_OFF \<le> length p \<Longrightarrow> hdr_timestamp (set_src_port q p) = hdr_timestamp p"
  "DATA_OFF \<le> length p \<Longrightarrow> hdr_timestamp (set_dst_port q p) = hdr_timestamp p"
  "hdr_timestamp (set_quadrant b p) = hdr_timestamp p"
  "hdr_timestamp (set_kind k p) = hdr_timestamp p"
  "DATA_OFF \<le> length p \<Longrightarrow> hdr_timestamp (set_data d p) = hdr_timestamp p"
  by (simp_all add: hdr_defs set_hdr_defs header_consts byte_simps le_word_word_le signed_of_int
      in_i64_def signed_take_bit_int_eq_self)

lemma hdr_src_port_set [simp]:
  "DATA_OFF \<le> length p \<Longrightarrow> hdr_src_port (set_timestamp ts p) = hdr_src_port p"
  "DATA_OFF \<le> length p \<Longrightarrow> hdr_src_port (set_src_port q p) = q"
  "DATA_OFF \<le> length p \<Longrightarrow> hdr_src_port (set_dst_port q p) = hdr_src_port p"
  "hdr_src_port (set_quadrant b p) = hdr_src_port p"
  "hdr_src_port (set_kind k p) = hdr_src_port p"
  "DATA_OFF \<le> length p \<Longrightarrow> hdr_src_port (set_data d p) = hdr_src_port p"
  by (simp_all add: hdr_defs set_hdr_defs header_consts byte_simps le_word_word_le)

lemma hdr_dst_port_set [simp]:
  "DATA_OFF \<le> length p \<Longrightarrow> hdr_dst_port (set_timestamp ts p) = hdr_dst_port p"
  "DATA_OFF \<le> length p \<Longrightarrow> hdr_dst_port (set_src_port q p) = hdr_dst_port p"
  "DATA_OFF \<le> length p \<Longrightarrow> hdr_dst_port (set_dst_port q p) = q"
  "hdr_dst_port (set_quadrant b p) = hdr_dst_port p"
  "hdr_dst_port (set_kind k p) = hdr_dst_port p"
  "DATA_OFF \<le> length p \<Longrightarrow> hdr_dst_port (set_data d p) = hdr_dst_port p"
  by (simp_all add: hdr_defs set_hdr_defs header_consts byte_simps le_word_word_le)

lemma hdr_byte_set [simp]:
  "DATA_OFF + length d \<le> length p \<Longrightarrow> i < DATA_OFF \<Longrightarrow> set_data d p ! i = p ! i"
  "DATA_OFF \<le> length p \<Longrightarrow> 8 \<le> i \<Longrightarrow> i < DATA_OFF \<Longrightarrow> set_timestamp ts p ! i = p ! i"
  "DATA_OFF \<le> length p \<Longrightarrow> 12 \<le> i \<Longrightarrow> i < DATA_OFF \<Longrightarrow> set_src_port q p ! i = p ! i"
  "DATA_OFF \<le> length p \<Longrightarrow> 12 \<le> i \<Longrightarrow> i < DATA_OFF \<Longrightarrow> set_dst_port q p ! i = p ! i"
  by (simp_all add: set_hdr_defs header_consts nth_memcpy_at)

lemma hdr_quadrant_set [simp]:
  "DATA_OFF \<le> length p \<Longrightarrow> hdr_quadrant (set_timestamp ts p) = hdr_quadrant p"
  "DATA_OFF \<le> length p \<Longrightarrow> hdr_quadrant (set_src_port q p) = hdr_quadrant p"
  "DATA_OFF \<le> length p \<Longrightarrow> hdr_quadrant (set_dst_port q p) = hdr_quadrant p"
  "DATA_OFF \<le> length p \<Longrightarrow> hdr_quadrant (set_quadrant b p) = b"
  "hdr_quadrant (set_kind k p) = hdr_quadrant p"
  "DATA_OFF + length d \<le> length p \<Longrightarrow> hdr_quadrant (set_data d p) = hdr_quadrant p"
  by (simp_all add: hdr_quadrant_def header_consts) (simp_all add: set_hdr_defs)

lemma hdr_kind_set [simp]:
  "DATA_OFF \<le> length p \<Longrightarrow> hdr_kind (set_timestamp ts p) = hdr_kind p"
  "DATA_OFF \<le> length p \<Longrightarrow> hdr_kind (set_src_port q p) = hdr_kind p"
  "DATA_OFF \<le> length p \<Longrightarrow> hdr_kind (set_dst_port q p) = hdr_kind p"
  "hdr_kind (set_quadrant b p) = hdr_kind p"
  "DATA_OFF \<le> length p \<Longrightarrow> hdr_kind (set_kind k p) = kind_byte k"
  "DATA_OFF + length d \<le> length p \<Longrightarrow> hdr_kind (set_data d p) = hdr_kind p"
  by (simp_all add: hdr_kind_def header_consts) (simp_all add: set_hdr_defs)

lemma pkt_data_set [simp]:
  "DATA_OFF \<le> length p \<Longrightarrow> pkt_data (set_timestamp ts p) = pkt_data p"
  "DATA_OFF \<le> length p \<Longrightarrow> pkt_data (set_src_port q p) = pkt_data p"
  "DATA_OFF \<le> length p \<Longrightarrow> pkt_data (set_dst_port q p) = pkt_data p"
  "pkt_data (set_quadrant b p) = pkt_data p"
  "pkt_data (set_kind k p) = pkt_data p"
  "DATA_OFF + length d \<le> length p \<Longrightarrow> take (length d) (pkt_data (set_data d p)) = d"
  by (simp_all add: pkt_data_def set_hdr_defs header_consts byte_simps)
     (simp add: memcpy_at_def)

text \<open>The packet as \<open>Protocol::send_via_nic\<close> assembles it in the payload of a pool buffer.\<close>

definition fill_packet :: "u16 \<Rightarrow> u16 \<Rightarrow> packet_kind \<Rightarrow> u8 list \<Rightarrow> int \<Rightarrow> u8 list \<Rightarrow> u8 list" where
  "fill_packet src dst k d ts p =
     (let p1 = set_src_port src p;
          p2 = set_dst_port dst p1;
          p3 = set_kind k p2;
          p4 = (if d \<noteq> [] then set_data d p3 else p3)
      in set_timestamp ts p4)"

lemma set_data_Nil [simp]: "set_data [] p = p"
  by (simp add: set_data_def memcpy_at_def)

lemma fill_packet_fields:
  assumes "DATA_OFF + length d \<le> length p" and "in_i64 ts"
  shows "hdr_timestamp (fill_packet src dst k d ts p) = ts" "hdr_src_port (fill_packet src dst k d ts p) = src"
    "hdr_dst_port (fill_packet src dst k d ts p) = dst" "hdr_kind (fill_packet src dst k d ts p) = kind_byte k"
    "take (length d) (pkt_data (fill_packet src dst k d ts p)) = d"
    "hdr_quadrant (fill_packet src dst k d ts p) = hdr_quadrant p" "length (fill_packet src dst k d ts p) = length p"
  using assms by (simp_all add: fill_packet_def Let_def)

text \<open>A packet assembled in a buffer by the header setters and the data copy is read back
  exactly: timestamp, ports, kind and data; the quadrant byte is the one the buffer held
  before, since none of these writes touches it.\<close>

theorem packet_roundtrip:
  assumes "DATA_OFF + length d \<le> length p" and "in_i64 ts"
  shows "hdr_timestamp (fill_packet src dst k d ts p) = ts
     \<and> hdr_src_port (fill_packet src dst k d ts p) = src
     \<and> hdr_dst_port (fill_packet src dst k d ts p) = dst
     \<and> hdr_kind (fill_packet src dst k d ts p) = kind_byte k
     \<and> take (length d) (pkt_data (fill_packet src dst k d ts p)) = d
     \<and> hdr_quadrant (fill_packet src dst k d ts p) = hdr_quadrant p
     \<and> length (fill_packet src dst k d ts p) = length p"
  using fill_packet_fields [OF assms] by simp

lemma packet_roundtrip_witness:
  "hdr_timestamp (fill_packet 257 65535 DATA [1, 2, 3] (-5) (replicate 20 7)) = -5
   \<and> hdr_quadrant (fill_packet 257 65535 DATA [1, 2, 3] (-5) (replicate 20 7)) = 7"
  using packet_roundtrip [of "[1, 2, 3]" "replicate 20 7" "-5" 257 65535 DATA]
  by (simp add: header_consts in_i64_def hdr_quadrant_def)

subsection \<open>Fixed-size payload structures\<close>

text \<open>
  The packed structures are sent with \<open>memcpy\<close> and read with \<open>reinterpret_cast\<close> or \<open>memcpy\<close>
  from a buffer that may hold more bytes behind them. The interface: an encoding of fixed
  size whose decoder ignores what follows.
\<close>

locale wire_struct =
  fixes enc :: "'a \<Rightarrow> u8 list"
    and dec :: "u8 list \<Rightarrow> 'a"
    and size_of :: nat
  assumes enc_size: "length (enc x) = size_of"
    and dec_enc: "dec (enc x @ rest) = x"
begin

lemma dec_of_copy:
  "k + size_of \<le> length p \<Longrightarrow> dec (drop k (memcpy_at k (enc x) p)) = x"
  by (simp add: memcpy_at_def enc_size dec_enc)

lemma enc_inject: "enc x = enc y \<Longrightarrow> x = y"
  using dec_enc [of x "[]"] dec_enc [of y "[]"] by simp

lemma dec_enc_exact: "dec (enc x) = x"
  using dec_enc [of x "[]"] by simp

lemma prefix_free: "enc x @ rest = enc y @ rest' \<Longrightarrow> x = y"
  by (metis dec_enc)

end

type_synonym unit_code = u32

definition UNIT_NONE :: unit_code where "UNIT_NONE = 0"
definition GPS_POSITION :: unit_code where "GPS_POSITION = 0x00000001"
definition SPEED :: unit_code where "SPEED = 0x00000002"
definition LIDAR_DISTANCE :: unit_code where "LIDAR_DISTANCE = 0x00000003"
definition RADAR_DISTANCE :: unit_code where "RADAR_DISTANCE = 0x00000004"
definition BRAKE_PRESSURE :: unit_code where "BRAKE_PRESSURE = 0x00000010"
definition THROTTLE :: unit_code where "THROTTLE = 0x00000011"
definition STEERING_ANGLE :: unit_code where "STEERING_ANGLE = 0x00000012"
definition TEST_COUNTER :: unit_code where "TEST_COUNTER = 0x0000F001"

definition INTEREST :: u8 where "INTEREST = 0"
definition RESPONSE :: u8 where "RESPONSE = 1"

record smart_header =
  sh_kind :: u8
  sh_unit :: unit_code

definition enc_smart_header :: "smart_header \<Rightarrow> u8 list" where
  "enc_smart_header h = sh_kind h # word_le 4 (sh_unit h)"

definition dec_smart_header :: "u8 list \<Rightarrow> smart_header" where
  "dec_smart_header bs = \<lparr>sh_kind = bs ! 0, sh_unit = le_word (slice 1 4 bs)\<rparr>"

definition SMART_HEADER_LEN :: nat where "SMART_HEADER_LEN = 5"

record interest_message =
  im_header :: smart_header
  im_period_us :: u64
  im_disinterest :: u8

definition enc_interest :: "interest_message \<Rightarrow> u8 list" where
  "enc_interest m = enc_smart_header (im_header m) @ word_le 8 (im_period_us m) @ [im_disinterest m]"

definition dec_interest :: "u8 list \<Rightarrow> interest_message" where
  "dec_interest bs =
     \<lparr>im_header = dec_smart_header bs, im_period_us = le_word (slice 5 8 bs),
      im_disinterest = bs ! 13\<rparr>"

definition INTEREST_LEN :: nat where "INTEREST_LEN = 14"

text \<open>\<open>ResponseMessage<Value>\<close> for a value of 8 bytes (all four data types of \<open>data_types.h\<close>).\<close>

record response_message =
  rm_header :: smart_header
  rm_value :: u64

definition enc_response :: "response_message \<Rightarrow> u8 list" where
  "enc_response m = enc_smart_header (rm_header m) @ word_le 8 (rm_value m)"

definition dec_response :: "u8 list \<Rightarrow> response_message" where
  "dec_response bs = \<lparr>rm_header = dec_smart_header bs, rm_value = le_word (slice 5 8 bs)\<rparr>"

definition RESPONSE_LEN :: nat where "RESPONSE_LEN = 13"

text \<open>\<open>SPTP_Protocol::Request_Payload\<close> and \<open>Sync_Payload\<close>.\<close>

definition enc_request :: "u32 \<Rightarrow> u8 list" where
  "enc_request seq = word_le 4 seq"

definition dec_request :: "u8 list \<Rightarrow> u32" where
  "dec_request bs = le_word (slice 0 4 bs)"

definition REQUEST_LEN :: nat where "REQUEST_LEN = 4"

record sync_payload =
  sp_seq_id :: u32
  sp_t2_prime :: u64

definition enc_sync :: "sync_payload \<Rightarrow> u8 list" where
  "enc_sync p = word_le 4 (sp_seq_id p) @ word_le 8 (sp_t2_prime p)"

definition dec_sync :: "u8 list \<Rightarrow> sync_payload" where
  "dec_sync bs = \<lparr>sp_seq_id = le_word (slice 0 4 bs), sp_t2_prime = le_word (slice 4 8 bs)\<rparr>"

definition SYNC_LEN :: nat where "SYNC_LEN = 12"

lemmas wire_lens = SMART_HEADER_LEN_def INTEREST_LEN_def RESPONSE_LEN_def REQUEST_LEN_def SYNC_LEN_def

lemma slice_append_at:
  "k = length a \<Longrightarrow> n = length b \<Longrightarrow> slice k n (a @ b @ c) = b"
  by (simp add: slice_def)

lemma length_enc_smart_header [simp]: "length (enc_smart_header h) = 5"
  by (simp add: enc_smart_header_def)

lemma dec_smart_header_append [simp]: "dec_smart_header (enc_smart_header h @ rest) = h"
  by (simp add: dec_smart_header_def enc_smart_header_def slice_def le_word_word_le)

interpretation smart_header_wire: wire_struct enc_smart_header dec_smart_header SMART_HEADER_LEN
  by unfold_locales (simp_all add: wire_lens)

interpretation interest_wire: wire_struct enc_interest dec_interest INTEREST_LEN
  by unfold_locales
     (simp_all add: wire_lens enc_interest_def dec_interest_def slice_append_at nth_append le_word_word_le)

interpretation response_wire: wire_struct enc_response dec_response RESPONSE_LEN
  by unfold_locales
     (simp_all add: wire_lens enc_response_def dec_response_def slice_append_at le_word_word_le)

interpretation request_wire: wire_struct enc_request dec_request REQUEST_LEN
  by unfold_locales (simp_all add: wire_lens enc_request_def dec_request_def slice_def le_word_word_le)

interpretation sync_wire: wire_struct enc_sync dec_sync SYNC_LEN
  by unfold_locales
     (simp_all add: wire_lens enc_sync_def dec_sync_def slice_def le_word_word_le)

end
