(* ===== verification/Ethernet_Address.thy ===== *)
theory Ethernet_Address
  imports Wire
begin

section \<open>Ethernet addresses\<close>

text \<open>
  \<open>Ethernet::Address\<close> of \<open>src/network/ethernet.h\<close>: its constructors, comparison and the text \<open>print\<close>
  writes with \<open>%02x\<close>. Addresses are lists of six bytes everywhere in the model (\<open>mac_ok\<close>).
\<close>

definition mac_zero :: mac where
  "mac_zero = replicate 6 0"

definition mac_bytes :: "u8 \<Rightarrow> u8 \<Rightarrow> u8 \<Rightarrow> u8 \<Rightarrow> u8 \<Rightarrow> u8 \<Rightarrow> mac" where
  "mac_bytes a b c d e f = [a, b, c, d, e, f]"

definition mac_raw :: "u8 list \<Rightarrow> mac" where
  "mac_raw raw = memcpy_at 0 (take 6 raw) mac_zero"

definition mac_eq :: "mac \<Rightarrow> mac \<Rightarrow> bool" where
  "mac_eq m n \<longleftrightarrow> list_all2 (=) (take 6 m) (take 6 n)"

definition mac_neq :: "mac \<Rightarrow> mac \<Rightarrow> bool" where
  "mac_neq m n \<longleftrightarrow> \<not> mac_eq m n"

definition hex_digit :: "nat \<Rightarrow> char" where
  "hex_digit n = (if n < 10 then char_of (48 + n) else char_of (87 + n))"

definition hex_byte :: "u8 \<Rightarrow> string" where
  "hex_byte b = [hex_digit (unat b div 16), hex_digit (unat b mod 16)]"

fun mac_print :: "mac \<Rightarrow> string" where
  "mac_print [] = []"
| "mac_print [b] = hex_byte b"
| "mac_print (b # bs) = hex_byte b @ CHR 0x3A # mac_print bs"

lemma mac_eq_iff: "mac_ok m \<Longrightarrow> mac_ok n \<Longrightarrow> mac_eq m n \<longleftrightarrow> m = n"
  by (simp add: mac_eq_def mac_ok_def list.rel_eq)

lemma mac_constructors:
  "mac_ok mac_zero" "mac_ok (mac_bytes a b c d e f)" "6 \<le> length raw \<Longrightarrow> mac_raw raw = take 6 raw"
  "mac_zero = INTERNAL" "\<not> mac_bool mac_zero"
  by (simp_all add: mac_ok_def mac_zero_def mac_bytes_def mac_raw_def memcpy_at_def INTERNAL_def mac_bool_def eval_nat_numeral)

text \<open>The printed address determines the address.\<close>

lemma hex_digit_value: "n < 16 \<Longrightarrow> of_char (hex_digit n) = (if n < 10 then 48 + n else 87 + n)"
  by (simp add: hex_digit_def of_char_of take_bit_nat_eq_self)

lemma hex_digit_inj:
  assumes "a < 16" and "b < 16" and "hex_digit a = hex_digit b"
  shows "a = b"
proof -
  have "(if a < 10 then 48 + a else 87 + a) = (if b < 10 then 48 + b else 87 + b)"
    using hex_digit_value [OF assms(1)] hex_digit_value [OF assms(2)] assms(3) by metis
  then show ?thesis using assms(1,2) by (auto split: if_splits)
qed

lemma hex_byte_inj [simp]: "hex_byte a = hex_byte b \<longleftrightarrow> a = b"
proof
  assume "hex_byte a = hex_byte b"
  then have h: "hex_digit (unat a div 16) = hex_digit (unat b div 16)" "hex_digit (unat a mod 16) = hex_digit (unat b mod 16)"
    by (simp_all add: hex_byte_def)
  have small: "unat a < 256" "unat b < 256" using unsigned_less [of a] unsigned_less [of b] by simp_all
  have "unat a div 16 = unat b div 16" by (rule hex_digit_inj [OF _ _ h(1)]) (use small in auto)
  moreover have "unat a mod 16 = unat b mod 16" by (rule hex_digit_inj [OF _ _ h(2)]) auto
  ultimately have "unat a = unat b" by (metis div_mult_mod_eq)
  then show "a = b" by (simp add: unsigned_word_eqI)
qed simp

lemma mac_print_injective:
  "mac_ok m \<Longrightarrow> mac_ok n \<Longrightarrow> mac_print m = mac_print n \<longleftrightarrow> m = n"
proof -
  assume m: "mac_ok m" and n: "mac_ok n"
  have six: "\<exists>a b c d e f. x = [a, b, c, d, e, f]" if "mac_ok x" for x
    using that by (auto simp: mac_ok_def length_Suc_conv eval_nat_numeral)
  have l: "length (hex_byte x) = 2" for x by (simp add: hex_byte_def)
  show ?thesis using six [OF m] six [OF n] by (auto simp: append_eq_append_conv l)
qed

end
