(* ===== verification/Gps.thy ===== *)
theory Gps
  imports Prelude
begin

section \<open>The GPS: kernel module and userspace wrapper\<close>

text \<open>
  \<open>kernel/gps_module/gps.c\<close> (with \<open>gps_ioctl.h\<close>) and \<open>src/network/gps.h\<close>, \<open>gps.cpp\<close>. The
  module's three static variables are a record; an \<open>ioctl\<close> is a function of the record. The
  kernel's services are arguments: the jiffies counter (each reading separately), the random
  number, whether \<open>copy_to_user\<close> succeeded, what \<open>misc_register\<close> returned, \<open>HZ\<close>, and the
  macro \<open>time_before\<close>, of which \<open>time_before_spec\<close> states the documented behaviour.
\<close>

subsection \<open>State and movement\<close>

definition GPS_QUADRANTS :: nat where "GPS_QUADRANTS = 4"

record gps_state =
  quadrant :: nat
  last_change :: u64
  fixed :: bool

definition gps_neighbors :: "nat list list" where
  "gps_neighbors = [[1, 2], [0, 3], [0, 3], [1, 2]]"

definition GPS_MOVE_INTERVAL :: "nat \<Rightarrow> u64" where
  "GPS_MOVE_INTERVAL hz = 3 * word_of_nat hz"

definition time_before_spec :: "(u64 \<Rightarrow> u64 \<Rightarrow> bool) \<Rightarrow> bool" where
  "time_before_spec before \<longleftrightarrow> (\<forall>a b. before a b \<longleftrightarrow> sint (a - b) < 0)"

text \<open>\<open>jiffies\<close> is read for the test and again for the new \<open>last_change\<close>.\<close>

definition gps_advance_locked ::
  "(u64 \<Rightarrow> u64 \<Rightarrow> bool) \<Rightarrow> nat \<Rightarrow> u64 \<Rightarrow> u64 \<Rightarrow> u32 \<Rightarrow> gps_state \<Rightarrow> gps_state"
where
  "gps_advance_locked time_before hz jiffies jiffies' rnd s =
     (if fixed s then s
      else if time_before jiffies (last_change s + GPS_MOVE_INTERVAL hz) then s
      else s\<lparr>quadrant := gps_neighbors ! quadrant s ! unat (rnd mod 2),
             last_change := jiffies'\<rparr>)"

datatype gps_cmd = GPS_IOC_GET_QUADRANT | GPS_IOC_SET_FIXED | Other_cmd u32

definition EFAULT :: int where "EFAULT = 14"
definition ENOTTY :: int where "ENOTTY = 25"

record gps_env =
  e_jiffies :: u64
  e_jiffies' :: u64
  e_rnd :: u32
  e_copy_ok :: bool

text \<open>The result: what \<open>ioctl\<close> returns, the integer copied to the caller, the new state.\<close>

definition gps_ioctl ::
  "(u64 \<Rightarrow> u64 \<Rightarrow> bool) \<Rightarrow> nat \<Rightarrow> gps_env \<Rightarrow> gps_cmd \<Rightarrow> gps_state \<Rightarrow> int \<times> nat option \<times> gps_state"
where
  "gps_ioctl time_before hz e cmd s =
     (case cmd of
        GPS_IOC_GET_QUADRANT \<Rightarrow>
          let s' = gps_advance_locked time_before hz (e_jiffies e) (e_jiffies' e) (e_rnd e) s;
              q = quadrant s'
          in if \<not> e_copy_ok e then (- EFAULT, None, s') else (0, Some q, s')
      | GPS_IOC_SET_FIXED \<Rightarrow> (0, None, s\<lparr>fixed := True\<rparr>)
      | Other_cmd _ \<Rightarrow> (- ENOTTY, None, s))"

definition gps_init :: "int \<Rightarrow> u32 \<Rightarrow> u64 \<Rightarrow> int \<Rightarrow> int \<times> gps_state" where
  "gps_init initial_quadrant rnd jiffies ret =
     (let q = (if initial_quadrant \<ge> 0 \<and> initial_quadrant < int GPS_QUADRANTS
               then nat initial_quadrant else unat (rnd mod 4))
      in (ret, \<lparr>quadrant = q, last_change = jiffies, fixed = False\<rparr>))"

subsection \<open>Quadrants stay in range and moves go to a neighbour\<close>

definition gps_inv :: "gps_state \<Rightarrow> bool" where
  "gps_inv s \<longleftrightarrow> quadrant s < GPS_QUADRANTS"

text \<open>Row and column of a quadrant in the 2x2 grid of the source's comment.\<close>

definition row :: "nat \<Rightarrow> nat" where "row q = q div 2"
definition col :: "nat \<Rightarrow> nat" where "col q = q mod 2"

definition adjacent :: "nat \<Rightarrow> nat \<Rightarrow> bool" where
  "adjacent q r \<longleftrightarrow> (row q = row r) \<noteq> (col q = col r)"

lemma quadrant_cases:
  "q < GPS_QUADRANTS \<Longrightarrow> q = 0 \<or> q = 1 \<or> q = 2 \<or> q = 3"
  by (auto simp: GPS_QUADRANTS_def)

lemma mod_two_cases: "unat ((r::u32) mod 2) = 0 \<or> unat (r mod 2) = 1"
  by (simp add: unat_mod) presburger

lemma neighbor_adjacent:
  assumes "q < GPS_QUADRANTS"
  shows "gps_neighbors ! q ! unat ((r::u32) mod 2) < GPS_QUADRANTS
     \<and> adjacent q (gps_neighbors ! q ! unat (r mod 2))"
  using quadrant_cases [OF assms] mod_two_cases [of r]
  by (auto simp: gps_neighbors_def GPS_QUADRANTS_def adjacent_def row_def col_def)

text \<open>Both neighbours are possible, and every adjacent quadrant is one of them.\<close>

lemma neighbors_exact:
  assumes "q < GPS_QUADRANTS" and "r < GPS_QUADRANTS"
  shows "r \<in> set (gps_neighbors ! q) \<longleftrightarrow> adjacent q r"
  using quadrant_cases [OF assms(1)] quadrant_cases [OF assms(2)]
  by (elim disjE) (simp_all add: gps_neighbors_def adjacent_def row_def col_def)

lemma gps_advance_inv [inv_intros]:
  "gps_inv s \<Longrightarrow> gps_inv (gps_advance_locked before hz j j' rnd s)"
  by (simp add: gps_inv_def gps_advance_locked_def neighbor_adjacent)

lemma gps_ioctl_inv [inv_intros]:
  "gps_inv s \<Longrightarrow> gps_ioctl before hz e cmd s = (r, out, s') \<Longrightarrow> gps_inv s'"
  by (auto simp: gps_ioctl_def Let_def gps_inv_def split: gps_cmd.splits if_splits
      intro: gps_advance_inv [unfolded gps_inv_def])

lemma gps_init_inv: "gps_inv (snd (gps_init iq rnd j ret))"
proof -
  have "unat (rnd mod 4) < 4" by (simp add: unat_mod)
  then show ?thesis by (auto simp: gps_inv_def gps_init_def GPS_QUADRANTS_def Let_def)
qed

lemma gps_init_fixed: "\<not> fixed (snd (gps_init iq rnd j ret))"
  by (simp add: gps_init_def Let_def)

lemma gps_advance_adjacent:
  assumes "gps_inv s"
  shows "quadrant (gps_advance_locked before hz j j' rnd s) = quadrant s
     \<or> adjacent (quadrant s) (quadrant (gps_advance_locked before hz j j' rnd s))"
  using assms by (auto simp: gps_inv_def gps_advance_locked_def neighbor_adjacent)

subsection \<open>Runs of requests\<close>

text \<open>A run of \<open>ioctl\<close> calls, with the quadrants the successful reads returned.\<close>

primrec gps_run ::
  "(u64 \<Rightarrow> u64 \<Rightarrow> bool) \<Rightarrow> nat \<Rightarrow> gps_state \<Rightarrow> (gps_env \<times> gps_cmd) list \<Rightarrow> gps_state"
where
  "gps_run before hz s [] = s"
| "gps_run before hz s (c # cs) = gps_run before hz (snd (snd (gps_ioctl before hz (fst c) (snd c) s))) cs"

lemma gps_run_inv: "gps_inv s \<Longrightarrow> gps_inv (gps_run before hz s cs)"
proof (induction cs arbitrary: s)
  case (Cons c cs)
  then show ?case
    by (cases "gps_ioctl before hz (fst c) (snd c) s") (auto dest: gps_ioctl_inv)
qed simp

lemma gps_ioctl_fixed:
  "fixed s \<Longrightarrow> gps_ioctl before hz e cmd s = (r, out, s') \<Longrightarrow> fixed s' \<and> quadrant s' = quadrant s"
  by (auto simp: gps_ioctl_def gps_advance_locked_def Let_def split: gps_cmd.splits if_splits)

lemma gps_run_fixed:
  "fixed s \<Longrightarrow> fixed (gps_run before hz s cs) \<and> quadrant (gps_run before hz s cs) = quadrant s"
proof (induction cs arbitrary: s)
  case (Cons c cs)
  obtain r out s' where io: "gps_ioctl before hz (fst c) (snd c) s = (r, out, s')"
    by (cases "gps_ioctl before hz (fst c) (snd c) s")
  from gps_ioctl_fixed [OF Cons.prems io] Cons.IH [of s'] io show ?case by simp
qed simp

text \<open>After the module is loaded, any sequence of requests leaves the quadrant in 0..3;
  the next read stays or moves to a neighbour in the grid, never diagonally; once
  \<open>GPS_IOC_SET_FIXED\<close> has been issued the quadrant never changes again.\<close>

theorem gps_moves_adjacent:
  fixes before hz iq rnd j ret cs e
  defines "s \<equiv> gps_run before hz (snd (gps_init iq rnd j ret)) cs"
  defines "s' \<equiv> snd (snd (gps_ioctl before hz e GPS_IOC_GET_QUADRANT s))"
  defines "sf \<equiv> snd (snd (gps_ioctl before hz e GPS_IOC_SET_FIXED s))"
  shows "quadrant s < GPS_QUADRANTS
     \<and> (quadrant s' = quadrant s \<or> adjacent (quadrant s) (quadrant s'))
     \<and> quadrant (gps_run before hz sf cs') = quadrant s"
proof -
  have inv: "gps_inv s" unfolding s_def by (intro gps_run_inv gps_init_inv)
  have "fixed sf" "quadrant sf = quadrant s" by (simp_all add: sf_def gps_ioctl_def)
  then have "quadrant (gps_run before hz sf cs') = quadrant s" using gps_run_fixed by simp
  moreover have "quadrant s' = quadrant s \<or> adjacent (quadrant s) (quadrant s')"
    using gps_advance_adjacent [OF inv] by (simp add: s'_def gps_ioctl_def Let_def)
  ultimately show ?thesis using inv by (simp add: gps_inv_def)
qed

subsection \<open>Dwell time, across the wrap of the jiffies counter\<close>

lemma sint_diff_word_of_nat:
  assumes "nat \<bar>int a - int b\<bar> < 2 ^ 63"
  shows "sint (word_of_nat a - word_of_nat b :: u64) = int a - int b"
proof -
  have "(word_of_nat a - word_of_nat b :: u64) = word_of_int (int a - int b)" by simp
  then have "sint (word_of_nat a - word_of_nat b :: u64) = signed_take_bit 63 (int a - int b)"
    by (simp only: signed_of_int) simp
  also have "\<dots> = int a - int b" using assms by (intro signed_take_bit_int_eq_self) auto
  finally show ?thesis .
qed

text \<open>A read moves the quadrant exactly when the module is not fixed and at least three
  seconds of ticks have passed since the last change, whatever the tick counter's wrap-around
  does in between (the counter is \<open>T mod 2^64\<close>).\<close>

theorem gps_dwell_exact:
  assumes tb: "time_before_spec before"
    and last: "last_change s = word_of_nat L" and "L \<le> T" and "T - L < 2 ^ 62" and "hz < 2 ^ 60"
    and inv: "gps_inv s"
  shows "quadrant (gps_advance_locked before hz (word_of_nat T) j' rnd s) \<noteq> quadrant s
     \<longleftrightarrow> \<not> fixed s \<and> L + 3 * hz \<le> T"
proof -
  let ?s' = "gps_advance_locked before hz (word_of_nat T) j' rnd s"
  have "before (word_of_nat T) (last_change s + GPS_MOVE_INTERVAL hz)
      \<longleftrightarrow> sint (word_of_nat T - word_of_nat (L + 3 * hz) :: u64) < 0"
    using tb by (simp add: time_before_spec_def last GPS_MOVE_INTERVAL_def)
  also have "\<dots> \<longleftrightarrow> int T - int (L + 3 * hz) < 0"
    using assms(3-5) by (subst sint_diff_word_of_nat) auto
  finally have tick: "before (word_of_nat T) (last_change s + GPS_MOVE_INTERVAL hz) \<longleftrightarrow> T < L + 3 * hz"
    by auto
  have "gps_neighbors ! quadrant s ! unat (rnd mod 2) \<noteq> quadrant s"
    using neighbor_adjacent [of "quadrant s" rnd] inv by (auto simp: gps_inv_def adjacent_def)
  then show ?thesis using tick by (auto simp: gps_advance_locked_def)
qed

lemma gps_dwell_exact_witness:
  "quadrant (gps_advance_locked (\<lambda>a b. sint (a - b) < 0) 250 (word_of_nat (2 ^ 64 + 600)) 0 7
     \<lparr>quadrant = 1, last_change = word_of_nat (2 ^ 64 - 150), fixed = False\<rparr>) \<noteq> 1"
  using gps_dwell_exact [of "\<lambda>a b. sint (a - b) < 0"
      "\<lparr>quadrant = 1, last_change = word_of_nat (2 ^ 64 - 150), fixed = False\<rparr>"
      "2 ^ 64 - 150" "2 ^ 64 + 600" 250 0 7]
  by (simp add: time_before_spec_def gps_inv_def GPS_QUADRANTS_def)

subsection \<open>The wrapper \<open>GPS\<close>\<close>

definition QUADRANT_NONE :: u8 where "QUADRANT_NONE = 0xFF"

text \<open>
  The constructor keeps what \<open>open("/dev/gps")\<close> returned, \<open>fd\<close>; the destructor closes it and
  answers the descriptor it closed, if any; the ioctl's result is given.
\<close>

definition gps_open :: "int \<Rightarrow> int" where
  "gps_open ret = (let fd = -1 in let fd = ret in fd)"

definition gps_ok :: "int \<Rightarrow> bool" where
  "gps_ok fd \<longleftrightarrow> fd \<ge> 0"

definition gps_close :: "int \<Rightarrow> int \<times> int option" where
  "gps_close fd = (if fd \<ge> 0 then (-1, Some fd) else (fd, None))"

definition gps_quadrant :: "int \<Rightarrow> int \<Rightarrow> nat option \<Rightarrow> u8" where
  "gps_quadrant fd ret out =
     (if fd < 0 then QUADRANT_NONE
      else if ret < 0 then QUADRANT_NONE
      else word_of_nat (case out of None \<Rightarrow> 0 | Some q \<Rightarrow> q))"

text \<open>The state after \<open>GPS::set_fixed(fixed)\<close>.\<close>

definition gps_set_fixed ::
  "(u64 \<Rightarrow> u64 \<Rightarrow> bool) \<Rightarrow> nat \<Rightarrow> gps_env \<Rightarrow> int \<Rightarrow> bool \<Rightarrow> gps_state \<Rightarrow> gps_state"
where
  "gps_set_fixed before hz e fd fx s =
     (if \<not> fx \<or> fd < 0 then s else snd (snd (gps_ioctl before hz e GPS_IOC_SET_FIXED s)))"

text \<open>A read through the wrapper: the byte returned and the module's state.\<close>

definition gps_read ::
  "(u64 \<Rightarrow> u64 \<Rightarrow> bool) \<Rightarrow> nat \<Rightarrow> gps_env \<Rightarrow> int \<Rightarrow> gps_state \<Rightarrow> u8 \<times> gps_state"
where
  "gps_read before hz e fd s =
     (if fd < 0 then (QUADRANT_NONE, s)
      else case gps_ioctl before hz e GPS_IOC_GET_QUADRANT s of
        (ret, out, s') \<Rightarrow> (gps_quadrant fd ret out, s'))"

lemma gps_read_range:
  assumes "gps_inv s" and "gps_read before hz e fd s = (q, s')"
  shows "q = QUADRANT_NONE \<or> (unat q = quadrant s' \<and> unat q < GPS_QUADRANTS)"
proof (cases "fd < 0 \<or> \<not> e_copy_ok e")
  case True
  then show ?thesis using assms
    by (auto simp: gps_read_def gps_ioctl_def gps_quadrant_def Let_def EFAULT_def split: if_splits)
next
  case False
  let ?s' = "gps_advance_locked before hz (e_jiffies e) (e_jiffies' e) (e_rnd e) s"
  have s': "s' = ?s'" and q: "q = word_of_nat (quadrant ?s')" using False assms(2)
    by (auto simp: gps_read_def gps_ioctl_def gps_quadrant_def Let_def)
  have "quadrant ?s' < GPS_QUADRANTS" using gps_advance_inv [OF assms(1)] by (simp add: gps_inv_def)
  moreover from this have "quadrant ?s' < 2 ^ LENGTH(8)" by (simp add: GPS_QUADRANTS_def)
  ultimately show ?thesis by (simp add: q s' unat_of_nat)
qed

end
