(* ===== verification/Nic.thy ===== *)
theory Nic
  imports Wire Gps Observers
begin

section \<open>The network interface: buffer pool, send and receive paths\<close>

text \<open>
  \<open>src/network/nic.h\<close>, \<open>src/core/buffer.h\<close> and the drop rules of the engines
  (\<open>raw_socket_engine.cpp\<close>). A NIC owns 100 buffers and a stack of free indices; a buffer is
  handed out by index. The engine is a record of operations on an engine state, the template
  parameter of \<open>NIC<Engine>\<close>; the state also holds whatever else the callbacks reach.
\<close>

subsection \<open>Buffers and the pool\<close>

definition SEND_BUFFERS :: nat where "SEND_BUFFERS = 50"
definition RECEIVE_BUFFERS :: nat where "RECEIVE_BUFFERS = 50"
definition BUFFER_SIZE :: nat where "BUFFER_SIZE = SEND_BUFFERS + RECEIVE_BUFFERS"

record buffer =
  b_data :: frame
  b_size :: nat

record statistics =
  tx_packets :: u32
  rx_packets :: u32
  tx_bytes :: u32
  rx_bytes :: u32

text \<open>
  \<open>n_spatial\<close> tells whether \<open>setup_read_quadrant\<close>, \<open>setup_write_quadrant\<close> and
  \<open>setup_quadrant_change_handler\<close> were called (the raw-socket NIC) or the defaults of the
  constructor are in place (the shared-memory NIC).
\<close>

record 'o nic =
  n_address :: mac
  n_buffers :: "buffer list"
  n_free :: "nat list"
  n_stats :: statistics
  n_spatial :: bool
  n_last_quadrant :: u8
  n_observers :: "('o, u16) observers"

definition nic_init :: "mac \<Rightarrow> buffer list \<Rightarrow> 'o nic" where
  "nic_init mac bufs =
     \<lparr>n_address = mac, n_buffers = bufs, n_free = fold (#) [0..<BUFFER_SIZE] [],
      n_stats = \<lparr>tx_packets = 0, rx_packets = 0, tx_bytes = 0, rx_bytes = 0\<rparr>,
      n_spatial = False, n_last_quadrant = QUADRANT_NONE, n_observers = []\<rparr>"

definition setup_quadrant :: "'o nic \<Rightarrow> 'o nic" where
  "setup_quadrant n = n\<lparr>n_spatial := True\<rparr>"

definition alloc_buf :: "'o nic \<Rightarrow> nat option \<times> 'o nic" where
  "alloc_buf n = (case n_free n of [] \<Rightarrow> (None, n) | i # is \<Rightarrow> (Some i, n\<lparr>n_free := is\<rparr>))"

definition nic_free :: "nat \<Rightarrow> 'o nic \<Rightarrow> 'o nic" where
  "nic_free i n = n\<lparr>n_free := i # n_free n\<rparr>"

definition upd_buffer :: "nat \<Rightarrow> (buffer \<Rightarrow> buffer) \<Rightarrow> 'o nic \<Rightarrow> 'o nic" where
  "upd_buffer i g n = n\<lparr>n_buffers := (n_buffers n)[i := g (n_buffers n ! i)]\<rparr>"

definition nic_alloc :: "mac \<Rightarrow> u16 \<Rightarrow> nat \<Rightarrow> 'o nic \<Rightarrow> nat option \<times> 'o nic" where
  "nic_alloc dst prot sz n =
     (if sz > MTU then (None, n)
      else case alloc_buf n of
        (None, n') \<Rightarrow> (None, n')
      | (Some i, n') \<Rightarrow>
          (Some i, upd_buffer i (\<lambda>b. \<lparr>b_data = set_type prot (set_src (n_address n') (set_dst dst (b_data b))),
                                     b_size = sz\<rparr>) n'))"

definition nic_attach :: "'o \<Rightarrow> u16 \<Rightarrow> 'o nic \<Rightarrow> 'o nic" where
  "nic_attach ob prot n = n\<lparr>n_observers := cdo_attach ob prot (n_observers n)\<rparr>"

definition nic_detach :: "'o \<Rightarrow> u16 \<Rightarrow> 'o nic \<Rightarrow> 'o nic" where
  "nic_detach ob prot n = n\<lparr>n_observers := cdo_detach ob prot (n_observers n)\<rparr>"

text \<open>\<open>unmarshal\<close>: source, destination and at most \<open>size\<close> payload bytes of a buffer.\<close>

definition unmarshal :: "nat \<Rightarrow> nat \<Rightarrow> 'o nic \<Rightarrow> mac \<times> mac \<times> u8 list" where
  "unmarshal i sz n =
     (let b = n_buffers n ! i;
          copy = (if b_size b > sz then sz else b_size b)
      in (frame_src (b_data b), frame_dst (b_data b), take copy (payload (b_data b))))"

text \<open>The pool invariant: free indices are distinct and in range, every buffer holds a frame.\<close>

definition pool_ok :: "'o nic \<Rightarrow> bool" where
  "pool_ok n \<longleftrightarrow> length (n_buffers n) = BUFFER_SIZE \<and> mac_ok (n_address n)
     \<and> (\<forall>b \<in> set (n_buffers n). frame_ok (b_data b) \<and> b_size b \<le> MTU)
     \<and> distinct (n_free n) \<and> set (n_free n) \<subseteq> {..<BUFFER_SIZE}"

definition in_use :: "'o nic \<Rightarrow> nat set" where
  "in_use n = {..<BUFFER_SIZE} - set (n_free n)"

lemma buffer_consts: "BUFFER_SIZE = 100"
  by (simp add: BUFFER_SIZE_def SEND_BUFFERS_def RECEIVE_BUFFERS_def)

lemma fold_Cons: "fold (#) xs ys = rev xs @ ys"
  by (induction xs arbitrary: ys) simp_all

lemma pool_ok_init:
  assumes "mac_ok mac" and "length bufs = BUFFER_SIZE"
    and "\<forall>b \<in> set bufs. frame_ok (b_data b) \<and> b_size b \<le> MTU"
  shows "pool_ok (nic_init mac bufs)" and "in_use (nic_init mac bufs) = {}"
  using assms by (auto simp: pool_ok_def in_use_def nic_init_def fold_Cons)

lemma in_use_bound: "i \<in> in_use n \<Longrightarrow> i < BUFFER_SIZE"
  by (simp add: in_use_def)

lemma pool_buffer:
  "pool_ok n \<Longrightarrow> i < BUFFER_SIZE \<Longrightarrow> frame_ok (b_data (n_buffers n ! i)) \<and> b_size (n_buffers n ! i) \<le> MTU"
  by (simp add: pool_ok_def)

lemma pool_ok_upd [inv_intros]:
  assumes "pool_ok n" and "i < BUFFER_SIZE"
    and "\<And>b. frame_ok (b_data b) \<Longrightarrow> b_size b \<le> MTU \<Longrightarrow> frame_ok (b_data (g b)) \<and> b_size (g b) \<le> MTU"
  shows "pool_ok (upd_buffer i g n)"
proof -
  have "frame_ok (b_data (n_buffers n ! i)) \<and> b_size (n_buffers n ! i) \<le> MTU"
    using assms(1,2) by (rule pool_buffer)
  then show ?thesis using assms(1) assms(3) [of "n_buffers n ! i"]
    by (auto simp: pool_ok_def upd_buffer_def dest!: set_update_subset_insert [THEN subsetD])
qed

lemma in_use_upd [simp]: "in_use (upd_buffer i g n) = in_use n"
  by (simp add: in_use_def upd_buffer_def)

lemma upd_buffer_fields [simp]:
  "n_free (upd_buffer i g n) = n_free n" "n_address (upd_buffer i g n) = n_address n"
  "n_spatial (upd_buffer i g n) = n_spatial n" "n_observers (upd_buffer i g n) = n_observers n"
  "n_last_quadrant (upd_buffer i g n) = n_last_quadrant n" "n_stats (upd_buffer i g n) = n_stats n"
  by (simp_all add: upd_buffer_def)

lemma alloc_buf_Some:
  assumes "pool_ok n" and "alloc_buf n = (Some i, n')"
  shows "pool_ok n'" "i \<notin> in_use n" "i < BUFFER_SIZE" "in_use n' = insert i (in_use n)"
    "n_buffers n' = n_buffers n" "n_address n' = n_address n" "n_spatial n' = n_spatial n"
    "n_observers n' = n_observers n" "n_last_quadrant n' = n_last_quadrant n" "n_stats n' = n_stats n"
  using assms by (auto simp: alloc_buf_def pool_ok_def in_use_def split: list.splits)

lemma alloc_buf_None:
  assumes "pool_ok n"
  shows "fst (alloc_buf n) = None \<longleftrightarrow> in_use n = {..<BUFFER_SIZE}"
  using assms by (auto simp: alloc_buf_def pool_ok_def in_use_def split: list.splits)

lemma nic_free_ok:
  assumes "pool_ok n" and "i \<in> in_use n"
  shows "pool_ok (nic_free i n)" and "in_use (nic_free i n) = in_use n - {i}"
  using assms by (auto simp: nic_free_def pool_ok_def in_use_def)

lemma nic_free_fields [simp]:
  "n_buffers (nic_free i n) = n_buffers n" "n_address (nic_free i n) = n_address n"
  "n_spatial (nic_free i n) = n_spatial n" "n_observers (nic_free i n) = n_observers n"
  by (simp_all add: nic_free_def)

lemma nic_alloc_full:
  assumes pool: "pool_ok n" and dst: "mac_ok dst" and al: "nic_alloc dst prot sz n = (r, n')"
  shows "(r = None \<longleftrightarrow> sz > MTU \<or> in_use n = {..<BUFFER_SIZE}) \<and> pool_ok n'
     \<and> (\<forall>i. r = Some i \<longrightarrow>
          i \<notin> in_use n \<and> in_use n' = insert i (in_use n)
        \<and> frame_dst (b_data (n_buffers n' ! i)) = dst
        \<and> frame_src (b_data (n_buffers n' ! i)) = n_address n
        \<and> frame_type (b_data (n_buffers n' ! i)) = prot
        \<and> b_size (n_buffers n' ! i) = sz
        \<and> payload (b_data (n_buffers n' ! i)) = payload (b_data (n_buffers n ! i))
        \<and> (\<forall>j. j \<noteq> i \<longrightarrow> n_buffers n' ! j = n_buffers n ! j))"
proof (cases "sz > MTU")
  case True
  then show ?thesis using pool al by (auto simp: nic_alloc_def)
next
  case False
  obtain r' n1 where ab: "alloc_buf n = (r', n1)" by (cases "alloc_buf n")
  show ?thesis
  proof (cases r')
    case None
    have "n1 = n" using ab None by (auto simp: alloc_buf_def split: list.splits)
    then show ?thesis using pool al False ab None alloc_buf_None [OF pool]
      by (auto simp: nic_alloc_def)
  next
    case (Some i)
    note a = alloc_buf_Some [OF pool ab [unfolded Some]]
    have len: "length (n_buffers n1) = BUFFER_SIZE" using a(1) by (simp add: pool_ok_def)
    have fr: "frame_ok (b_data (n_buffers n ! i))" using pool_buffer [OF pool a(3)] by simp
    have mac: "mac_ok (n_address n)" using pool by (simp add: pool_ok_def)
    let ?g = "\<lambda>b. \<lparr>b_data = set_type prot (set_src (n_address n1) (set_dst dst (b_data b))), b_size = sz\<rparr>"
    have r: "r = Some i" and n': "n' = upd_buffer i ?g n1"
      using al False ab Some by (simp_all add: nic_alloc_def)
    have "pool_ok n'" unfolding n'
      by (rule pool_ok_upd [OF a(1,3)]) (use False mac dst a(6) in auto)
    moreover have "in_use n \<noteq> {..<BUFFER_SIZE}" using a(2,3) by auto
    moreover have "n_buffers n' ! i = ?g (n_buffers n ! i)"
      using a(3,5) len by (simp add: n' upd_buffer_def)
    moreover have "\<forall>j. j \<noteq> i \<longrightarrow> n_buffers n' ! j = n_buffers n ! j"
      using a(5) by (simp add: n' upd_buffer_def)
    ultimately show ?thesis
      using False r a(2,4,6) fr mac dst by (simp add: n' frame_type_set_type byte_simps)
  qed
qed

text \<open>\<open>alloc\<close> fails exactly for an oversized payload or an exhausted pool; otherwise it
  hands out a buffer nobody holds, with destination, source and EtherType in place, the
  payload bytes left from its previous use, and every other buffer untouched.\<close>

theorem nic_alloc_spec:
  assumes pool: "pool_ok n" and dst: "mac_ok dst" and al: "nic_alloc dst prot sz n = (r, n')"
  shows "(r = None \<longleftrightarrow> sz > MTU \<or> in_use n = {..<BUFFER_SIZE}) \<and> pool_ok n'
     \<and> (\<forall>i. r = Some i \<longrightarrow>
          i \<notin> in_use n \<and> in_use n' = insert i (in_use n)
        \<and> frame_dst (b_data (n_buffers n' ! i)) = dst
        \<and> frame_src (b_data (n_buffers n' ! i)) = n_address n
        \<and> frame_type (b_data (n_buffers n' ! i)) = prot
        \<and> b_size (n_buffers n' ! i) = sz
        \<and> payload (b_data (n_buffers n' ! i)) = payload (b_data (n_buffers n ! i))
        \<and> (\<forall>j. j \<noteq> i \<longrightarrow> n_buffers n' ! j = n_buffers n ! j))"
  using nic_alloc_full [OF assms] .

lemma nic_alloc_spec_witness:
  "\<exists>i n'. nic_alloc BROADCAST 0x8888 40
       (nic_init INTERNAL (replicate BUFFER_SIZE \<lparr>b_data = replicate FRAME_SIZE 0, b_size = 0\<rparr>) :: nat nic)
       = (Some i, n')
     \<and> frame_dst (b_data (n_buffers n' ! i)) = BROADCAST \<and> b_size (n_buffers n' ! i) = 40"
proof -
  let ?n = "nic_init INTERNAL (replicate BUFFER_SIZE \<lparr>b_data = replicate FRAME_SIZE 0, b_size = 0\<rparr>) :: nat nic"
  have ok: "pool_ok ?n" "in_use ?n = {}"
    by (rule pool_ok_init, simp_all add: frame_ok_def)+
  obtain r n' where al: "nic_alloc BROADCAST 0x8888 40 ?n = (r, n')"
    by (cases "nic_alloc BROADCAST 0x8888 40 ?n")
  have "(0::nat) \<in> {..<BUFFER_SIZE}" by (simp add: buffer_consts)
  then have "r \<noteq> None"
    using nic_alloc_spec [OF ok(1) mac_ok_consts(1) al] ok(2) by (auto simp: MTU_def)
  then show ?thesis
    using nic_alloc_spec [OF ok(1) mac_ok_consts(1) al] al by auto
qed
subsection \<open>The engine interface\<close>

text \<open>
  What \<open>NIC<Engine>\<close> calls. Both engines promise that a frame of another station that carries
  no quadrant is never dropped by location.
\<close>

record 'e engine_ops =
  eng_send :: "u8 list \<Rightarrow> 'e \<Rightarrow> int \<times> 'e"
  eng_should_drop :: "frame \<Rightarrow> mac \<Rightarrow> u8 \<Rightarrow> 'e \<Rightarrow> bool \<times> 'e"
  eng_current_quadrant :: "'e \<Rightarrow> u8 \<times> 'e"

definition detect_quadrant_change :: "u8 \<Rightarrow> 'o nic \<Rightarrow> bool \<times> 'o nic" where
  "detect_quadrant_change q n =
     (if q = QUADRANT_NONE then (False, n)
      else let prev = n_last_quadrant n
           in (prev \<noteq> QUADRANT_NONE \<and> prev \<noteq> q, n\<lparr>n_last_quadrant := q\<rparr>))"

text \<open>The two header hooks: defaults, or \<open>Protocol::read_quadrant\<close> and \<open>write_quadrant\<close>.\<close>

definition read_quadrant :: "'o nic \<Rightarrow> u8 list \<Rightarrow> u8" where
  "read_quadrant n p = (if n_spatial n then hdr_quadrant p else 0xFF)"

definition write_quadrant :: "u8 \<Rightarrow> nat \<Rightarrow> 'o nic \<Rightarrow> 'o nic" where
  "write_quadrant q i n =
     (if n_spatial n
      then upd_buffer i (\<lambda>b. b\<lparr>b_data := set_payload (set_quadrant q (payload (b_data b))) (b_data b)\<rparr>) n
      else n)"

definition count_tx :: "int \<Rightarrow> 'o nic \<Rightarrow> 'o nic" where
  "count_tx bytes n =
     (if bytes > 0
      then n\<lparr>n_stats := (n_stats n)\<lparr>tx_packets := tx_packets (n_stats n) + 1,
                                    tx_bytes := tx_bytes (n_stats n) + word_of_int bytes\<rparr>\<rparr>
      else n)"

definition count_rx :: "nat \<Rightarrow> 'o nic \<Rightarrow> 'o nic" where
  "count_rx sz n =
     n\<lparr>n_stats := (n_stats n)\<lparr>rx_packets := rx_packets (n_stats n) + 1,
                             rx_bytes := rx_bytes (n_stats n) + word_of_nat sz\<rparr>\<rparr>"

text \<open>
  \<open>send(buf)\<close>: ask the engine for the quadrant, stamp it, report a change (\<open>on_change\<close> is the
  handler, which may send through the same NIC), hand the used bytes to the engine, count and
  free the buffer.
\<close>

definition nic_send ::
  "'e engine_ops \<Rightarrow> ('o nic \<times> 'e \<Rightarrow> 'o nic \<times> 'e) \<Rightarrow> nat \<Rightarrow> 'o nic \<times> 'e \<Rightarrow> int \<times> 'o nic \<times> 'e"
where
  "nic_send ops on_change i w =
     (case w of (n, e) \<Rightarrow>
        case eng_current_quadrant ops e of (q, e1) \<Rightarrow>
          case detect_quadrant_change q (write_quadrant q i n) of (changed, n2) \<Rightarrow>
            case (if changed \<and> n_spatial n then on_change (n2, e1) else (n2, e1)) of (n3, e2) \<Rightarrow>
              let b = n_buffers n3 ! i in
              case eng_send ops (take (HEADER_SIZE + b_size b) (b_data b)) e2 of (bytes, e3) \<Rightarrow>
                (bytes, nic_free i (count_tx bytes n3), e3))"

text \<open>\<open>send(dst, prot, data, size)\<close>: allocate, copy the payload, send.\<close>

definition nic_send_data ::
  "'e engine_ops \<Rightarrow> ('o nic \<times> 'e \<Rightarrow> 'o nic \<times> 'e) \<Rightarrow> mac \<Rightarrow> u16 \<Rightarrow> u8 list \<Rightarrow> 'o nic \<times> 'e
     \<Rightarrow> int \<times> 'o nic \<times> 'e"
where
  "nic_send_data ops on_change dst prot data w =
     (case w of (n, e) \<Rightarrow>
        case nic_alloc dst prot (length data) n of
          (None, n1) \<Rightarrow> (-1, n1, e)
        | (Some i, n1) \<Rightarrow>
            nic_send ops on_change i
              (upd_buffer i (\<lambda>b. b\<lparr>b_data := memcpy_at HEADER_SIZE data (b_data b)\<rparr>) n1, e))"

definition nic_notify ::
  "('o \<Rightarrow> u16 \<Rightarrow> nat \<Rightarrow> 'o nic \<times> 'e \<Rightarrow> 'o nic \<times> 'e) \<Rightarrow> u16 \<Rightarrow> nat \<Rightarrow> 'o nic \<times> 'e \<Rightarrow> 'o nic \<times> 'e"
where
  "nic_notify update prot i w =
     (case cdo_notify (\<lambda>w. n_observers (fst w)) update prot i w of
        (notified, w') \<Rightarrow> if \<not> notified then (nic_free i (fst w'), snd w') else w')"

text \<open>
  The receive handler the constructor registers with the engine; \<open>update\<close> is the observers'
  callback (\<open>Protocol::update\<close>), which takes over the buffer.
\<close>

definition nic_on_receive ::
  "'e engine_ops \<Rightarrow> ('o \<Rightarrow> u16 \<Rightarrow> nat \<Rightarrow> 'o nic \<times> 'e \<Rightarrow> 'o nic \<times> 'e) \<Rightarrow> u8 list \<Rightarrow> 'o nic \<times> 'e
     \<Rightarrow> 'o nic \<times> 'e"
where
  "nic_on_receive ops update data w =
     (case w of (n, e) \<Rightarrow>
        case alloc_buf n of
          (None, n1) \<Rightarrow> (n1, e)
        | (Some i, n1) \<Rightarrow>
            let sz = min (length data) FRAME_SIZE;
                n2 = upd_buffer i (\<lambda>b. b\<lparr>b_data := memcpy_at 0 (take sz data) (b_data b)\<rparr>) n1;
                f = b_data (n_buffers n2 ! i)
            in if sz < HEADER_SIZE then (nic_free i n2, e)
               else case eng_should_drop ops f (n_address n2) (read_quadrant n2 (payload f)) e of
                 (True, e1) \<Rightarrow> (nic_free i n2, e1)
               | (False, e1) \<Rightarrow>
                   let n3 = upd_buffer i (\<lambda>b. b\<lparr>b_size := sz - HEADER_SIZE\<rparr>) (count_rx sz n2)
                   in nic_notify update (frame_type f) i (n3, e1))"

locale nic_engine =
  fixes ops :: "'e engine_ops"
  assumes no_quadrant_no_filter:
    "frame_src f \<noteq> m \<Longrightarrow> \<not> fst (eng_should_drop ops f m QUADRANT_NONE e)"
begin

text \<open>A NIC without quadrant hooks passes every complete frame of another station on.\<close>

lemma plain_nic_delivers:
  assumes "alloc_buf n = (Some i, n1)" and "\<not> n_spatial n1" and "HEADER_SIZE \<le> length data"
    and "length data \<le> FRAME_SIZE"
    and other: "frame_src (b_data (n_buffers (upd_buffer i
          (\<lambda>b. b\<lparr>b_data := memcpy_at 0 data (b_data b)\<rparr>) n1) ! i)) \<noteq> n_address n1"
  shows "\<exists>n3 e1. nic_on_receive ops update data (n, e) =
      nic_notify update (frame_type (b_data (n_buffers (upd_buffer i
            (\<lambda>b. b\<lparr>b_data := memcpy_at 0 data (b_data b)\<rparr>) n1) ! i))) i (n3, e1)"
proof -
  let ?n2 = "upd_buffer i (\<lambda>b. b\<lparr>b_data := memcpy_at 0 data (b_data b)\<rparr>) n1"
  let ?f = "b_data (n_buffers ?n2 ! i)"
  obtain d e1 where d: "eng_should_drop ops ?f (n_address ?n2) QUADRANT_NONE e = (d, e1)"
    by (cases "eng_should_drop ops ?f (n_address ?n2) QUADRANT_NONE e")
  have "\<not> d" using no_quadrant_no_filter [of ?f "n_address ?n2" e] other d by simp
  moreover have "read_quadrant ?n2 (payload ?f) = QUADRANT_NONE"
    using assms(2) by (simp add: read_quadrant_def QUADRANT_NONE_def)
  ultimately show ?thesis
    using assms(1,3,4) d by (auto simp: nic_on_receive_def min_def Let_def)
qed

end

subsection \<open>The raw-socket engine's rules\<close>

text \<open>
  \<open>RawSocketEngine\<close> after \<open>engine_init\<close>: the socket and interface numbers, the GPS wrapper's
  state \<open>'g\<close> (\<open>gps\<close> is its \<open>quadrant()\<close>) and the network \<open>'n\<close> behind \<open>sendto\<close>.
\<close>

record ('g, 'n) raw_engine =
  r_sockfd :: int
  r_ifindex :: nat
  r_gps :: 'g
  r_net :: 'n

definition raw_send ::
  "(u8 list \<Rightarrow> 'n \<Rightarrow> int \<times> 'n) \<Rightarrow> u8 list \<Rightarrow> ('g, 'n) raw_engine \<Rightarrow> int \<times> ('g, 'n) raw_engine"
where
  "raw_send sendto bs e =
     (if r_sockfd e < 0 \<or> r_ifindex e = 0 then (-1, e)
      else case sendto bs (r_net e) of (r, net') \<Rightarrow> (r, e\<lparr>r_net := net'\<rparr>))"

definition raw_current_quadrant ::
  "('g \<Rightarrow> u8 \<times> 'g) \<Rightarrow> ('g, 'n) raw_engine \<Rightarrow> u8 \<times> ('g, 'n) raw_engine"
where
  "raw_current_quadrant gps e = (case gps (r_gps e) of (q, g') \<Rightarrow> (q, e\<lparr>r_gps := g'\<rparr>))"

definition raw_should_drop ::
  "('g \<Rightarrow> u8 \<times> 'g) \<Rightarrow> frame \<Rightarrow> mac \<Rightarrow> u8 \<Rightarrow> ('g, 'n) raw_engine \<Rightarrow> bool \<times> ('g, 'n) raw_engine"
where
  "raw_should_drop gps f local_address origin_quadrant e =
     (if frame_src f = local_address then (True, e)
      else case raw_current_quadrant gps e of (my_quadrant, e') \<Rightarrow>
        if my_quadrant \<noteq> QUADRANT_NONE \<and> origin_quadrant \<noteq> QUADRANT_NONE
           \<and> my_quadrant \<noteq> origin_quadrant then (True, e')
        else (False, e'))"

definition raw_ops ::
  "(u8 list \<Rightarrow> 'n \<Rightarrow> int \<times> 'n) \<Rightarrow> ('g \<Rightarrow> u8 \<times> 'g) \<Rightarrow> ('g, 'n) raw_engine engine_ops"
where
  "raw_ops sendto gps =
     \<lparr>eng_send = raw_send sendto, eng_should_drop = raw_should_drop gps,
      eng_current_quadrant = raw_current_quadrant gps\<rparr>"

lemma raw_ops_simps [simp]:
  "eng_send (raw_ops sendto gps) = raw_send sendto"
  "eng_should_drop (raw_ops sendto gps) = raw_should_drop gps"
  "eng_current_quadrant (raw_ops sendto gps) = raw_current_quadrant gps"
  by (simp_all add: raw_ops_def)

interpretation raw: nic_engine "raw_ops sendto gps"
  by unfold_locales (simp add: raw_should_drop_def split: prod.splits)

subsection \<open>Sending returns the buffer\<close>

text \<open>A callback that leaves the pool as it found it (it may allocate and send, which frees).\<close>

definition keeps_pool :: "('o nic \<times> 'e \<Rightarrow> 'o nic \<times> 'e) \<Rightarrow> bool" where
  "keeps_pool h \<longleftrightarrow>
     (\<forall>n e. pool_ok n \<longrightarrow> pool_ok (fst (h (n, e))) \<and> in_use (fst (h (n, e))) = in_use n)"

lemma keeps_poolD:
  "keeps_pool h \<Longrightarrow> h (n, e) = (n', e') \<Longrightarrow> pool_ok n \<Longrightarrow> pool_ok n' \<and> in_use n' = in_use n"
  unfolding keeps_pool_def by (metis fst_conv)

lemma pool_ok_fields [simp]:
  "pool_ok (n\<lparr>n_stats := st\<rparr>) = pool_ok n" "in_use (n\<lparr>n_stats := st\<rparr>) = in_use n"
  "pool_ok (n\<lparr>n_last_quadrant := q\<rparr>) = pool_ok n" "in_use (n\<lparr>n_last_quadrant := q\<rparr>) = in_use n"
  "pool_ok (n\<lparr>n_observers := os\<rparr>) = pool_ok n" "in_use (n\<lparr>n_observers := os\<rparr>) = in_use n"
  by (simp_all add: pool_ok_def in_use_def)

lemma count_pool [simp]:
  "pool_ok (count_tx b n) = pool_ok n" "in_use (count_tx b n) = in_use n"
  "pool_ok (count_rx k n) = pool_ok n" "in_use (count_rx k n) = in_use n"
  "n_buffers (count_rx k n) = n_buffers n" "n_buffers (count_tx b n) = n_buffers n"
  "n_observers (count_rx k n) = n_observers n"
  by (simp_all add: count_tx_def count_rx_def)

lemma detect_pool:
  assumes "detect_quadrant_change q n = (c, n')"
  shows "pool_ok n' = pool_ok n" "in_use n' = in_use n" "n_buffers n' = n_buffers n"
    "n_address n' = n_address n" "n_spatial n' = n_spatial n"
  using assms by (auto simp: detect_quadrant_change_def Let_def split: if_splits)

lemma write_quadrant_pool:
  assumes "pool_ok n" and "i < BUFFER_SIZE"
  shows "pool_ok (write_quadrant q i n)" and "in_use (write_quadrant q i n) = in_use n"
proof -
  have "pool_ok (upd_buffer i (\<lambda>b. b\<lparr>b_data := set_payload (set_quadrant q (payload (b_data b))) (b_data b)\<rparr>) n)"
    using assms by (rule pool_ok_upd) auto
  then show "pool_ok (write_quadrant q i n)" using assms by (simp add: write_quadrant_def)
qed (simp add: write_quadrant_def)

lemma nic_send_pool:
  assumes pool: "pool_ok n" and i: "i \<in> in_use n" and h: "keeps_pool on_change"
    and send: "nic_send ops on_change i (n, e) = (bytes, n', e')"
  shows "pool_ok n'" and "in_use n' = in_use n - {i}"
proof -
  obtain q e1 where q: "eng_current_quadrant ops e = (q, e1)" by (cases "eng_current_quadrant ops e")
  obtain c n2 where d: "detect_quadrant_change q (write_quadrant q i n) = (c, n2)"
    by (cases "detect_quadrant_change q (write_quadrant q i n)")
  note w = write_quadrant_pool [OF pool in_use_bound [OF i], of q]
  have n2: "pool_ok n2" "in_use n2 = in_use n" using detect_pool [OF d] w by simp_all
  obtain n3 e2 where r: "(if c \<and> n_spatial n then on_change (n2, e1) else (n2, e1)) = (n3, e2)"
    by (cases "if c \<and> n_spatial n then on_change (n2, e1) else (n2, e1)")
  have n3: "pool_ok n3 \<and> in_use n3 = in_use n"
    using r n2 keeps_poolD [OF h, of n2 e1 n3 e2] by (auto split: if_splits)
  obtain bs e3 where es:
    "eng_send ops (take (HEADER_SIZE + b_size (n_buffers n3 ! i)) (b_data (n_buffers n3 ! i))) e2 = (bs, e3)"
    by (cases "eng_send ops (take (HEADER_SIZE + b_size (n_buffers n3 ! i)) (b_data (n_buffers n3 ! i))) e2")
  have "nic_send ops on_change i (n, e) = (bs, nic_free i (count_tx bs n3), e3)"
    unfolding nic_send_def by (simp only: prod.case q d r Let_def es)
  then have n': "n' = nic_free i (count_tx bs n3)" using send by simp
  then show "pool_ok n'" and "in_use n' = in_use n - {i}"
    using n3 i nic_free_ok [of "count_tx bs n3" i] by simp_all
qed

lemma nic_alloc_pool:
  assumes "pool_ok n" and "mac_ok dst" and al: "nic_alloc dst prot sz n = (r, n')"
  shows "pool_ok n'"
    and "in_use n' = (case r of None \<Rightarrow> in_use n | Some i \<Rightarrow> insert i (in_use n))"
    and "\<And>i. r = Some i \<Longrightarrow> i \<notin> in_use n \<and> i < BUFFER_SIZE \<and> sz \<le> MTU"
proof -
  have none: "n' = n" if "r = None"
    using al that by (auto simp: nic_alloc_def alloc_buf_def split: if_splits option.splits list.splits)
  note full = nic_alloc_full [OF assms]
  show "pool_ok n'" using full by blast
  show "in_use n' = (case r of None \<Rightarrow> in_use n | Some i \<Rightarrow> insert i (in_use n))"
    using full none by (cases r) auto
  show "i \<notin> in_use n \<and> i < BUFFER_SIZE \<and> sz \<le> MTU" if "r = Some i" for i
  proof -
    have "i \<in> in_use n'" using full that by blast
    then have "i < BUFFER_SIZE" by (rule in_use_bound)
    moreover have "\<not> sz > MTU" using full that by auto
    ultimately show ?thesis using full that by auto
  qed
qed

lemma memcpy_payload_ok:
  "frame_ok f \<Longrightarrow> length data \<le> MTU \<Longrightarrow> frame_ok (memcpy_at HEADER_SIZE data f)"
  by (simp add: frame_ok_def frame_consts)

text \<open>Whatever the engine answers, a send gives its buffer back: the set of buffers in
  use after \<open>send(dst, prot, data)\<close> is the one before it, so no number of sends exhausts the
  pool.\<close>

theorem nic_send_data_conserves:
  assumes "pool_ok n" and "mac_ok dst" and "keeps_pool on_change"
    and send: "nic_send_data ops on_change dst prot data (n, e) = (r, n', e')"
  shows "pool_ok n' \<and> in_use n' = in_use n"
proof -
  obtain a n1 where al: "nic_alloc dst prot (length data) n = (a, n1)"
    by (cases "nic_alloc dst prot (length data) n")
  note pool = nic_alloc_pool [OF assms(1,2) al]
  show ?thesis
  proof (cases a)
    case None
    then show ?thesis using send al pool by (simp add: nic_send_data_def)
  next
    case (Some i)
    let ?n2 = "upd_buffer i (\<lambda>b. b\<lparr>b_data := memcpy_at HEADER_SIZE data (b_data b)\<rparr>) n1"
    have i: "i \<notin> in_use n" "i < BUFFER_SIZE" "length data \<le> MTU" using pool(3) [OF Some] by auto
    have "pool_ok ?n2"
      using pool(1) i(2) by (rule pool_ok_upd) (use i(3) in \<open>simp add: memcpy_payload_ok\<close>)
    moreover have "i \<in> in_use ?n2" and "in_use ?n2 = insert i (in_use n)" using pool(2) Some by simp_all
    moreover have "nic_send ops on_change i (?n2, e) = (r, n', e')"
      using send al Some by (simp add: nic_send_data_def)
    ultimately show ?thesis using nic_send_pool [of ?n2 i on_change ops e r n' e'] assms(3) i(1) by simp
  qed
qed

definition blank_buffers :: "buffer list" where
  "blank_buffers = replicate BUFFER_SIZE \<lparr>b_data = replicate FRAME_SIZE 0, b_size = 0\<rparr>"

definition blank_nic :: "mac \<Rightarrow> 'o nic" where
  "blank_nic mac = nic_init mac blank_buffers"

lemma pool_ok_blank: "mac_ok mac \<Longrightarrow> pool_ok (blank_nic mac)" "in_use (blank_nic mac) = {}"
proof -
  have b: "length blank_buffers = BUFFER_SIZE"
    "\<forall>b \<in> set blank_buffers. frame_ok (b_data b) \<and> b_size b \<le> MTU"
    by (simp_all add: blank_buffers_def frame_ok_def)
  show "mac_ok mac \<Longrightarrow> pool_ok (blank_nic mac)" using b pool_ok_init(1) unfolding blank_nic_def by blast
  show "in_use (blank_nic mac) = {}" by (auto simp: blank_nic_def nic_init_def in_use_def fold_Cons)
qed

definition quiet_ops :: "u8 \<Rightarrow> (nat, nat) raw_engine engine_ops" where
  "quiet_ops q = raw_ops (\<lambda>bs k. (int (length bs), k + 1)) (\<lambda>g. (q, g))"

definition quiet_engine :: "(nat, nat) raw_engine" where
  "quiet_engine = \<lparr>r_sockfd = 3, r_ifindex = 2, r_gps = 0, r_net = 0\<rparr>"

lemma keeps_pool_id: "keeps_pool (\<lambda>w. w)"
  by (simp add: keeps_pool_def)

lemma nic_send_data_conserves_witness:
  "\<exists>r n' e'. nic_send_data (quiet_ops 2) (\<lambda>w. w) BROADCAST 0x8888 [1, 2, 3]
       (blank_nic INTERNAL :: nat nic, quiet_engine) = (r, n', e') \<and> in_use n' = {}"
proof -
  obtain r n' e' where s: "nic_send_data (quiet_ops 2) (\<lambda>w. w) BROADCAST 0x8888 [1, 2, 3]
       (blank_nic INTERNAL :: nat nic, quiet_engine) = (r, n', e')"
    by (metis prod_cases3)
  show ?thesis
    using nic_send_data_conserves [OF pool_ok_blank(1) [OF mac_ok_consts(2)] mac_ok_consts(1) keeps_pool_id s] s
      pool_ok_blank(2) [of INTERNAL] by metis
qed

subsection \<open>Receiving returns or hands over the buffer\<close>

text \<open>An observer that takes over the buffer it is given and frees it, once.\<close>

definition consumes :: "('o \<Rightarrow> u16 \<Rightarrow> nat \<Rightarrow> 'o nic \<times> 'e \<Rightarrow> 'o nic \<times> 'e) \<Rightarrow> bool" where
  "consumes update \<longleftrightarrow>
     (\<forall>ob prot i n e. pool_ok n \<and> i \<in> in_use n \<longrightarrow>
        pool_ok (fst (update ob prot i (n, e))) \<and> in_use (fst (update ob prot i (n, e))) = in_use n - {i})"

lemma nic_notify_conserves:
  assumes "pool_ok n" and "i \<in> in_use n" and "consumes update"
    and "length (targets_of prot (n_observers n)) \<le> 1"
  shows "pool_ok (fst (nic_notify update prot i (n, e)))
     \<and> in_use (fst (nic_notify update prot i (n, e))) = in_use n - {i}"
proof (cases "targets_of prot (n_observers n)")
  case Nil
  then show ?thesis using nic_free_ok [OF assms(1,2)]
    by (simp add: nic_notify_def cdo_notify_targets)
next
  case (Cons ob obs)
  then have "obs = []" using assms(4) by simp
  then have "nic_notify update prot i (n, e) = update ob prot i (n, e)"
    by (simp add: nic_notify_def cdo_notify_targets Cons)
  then show ?thesis using assms(1-3) unfolding consumes_def by metis
qed

lemma memcpy_frame_ok:
  "frame_ok f \<Longrightarrow> frame_ok (memcpy_at 0 (take (min k FRAME_SIZE) data) f)"
  by (simp add: frame_ok_def memcpy_at_def)

lemma received_buffer:
  fixes data
  assumes "pool_ok n" and "alloc_buf n = (Some i, n1)"
  defines "n2 \<equiv> upd_buffer i (\<lambda>b. b\<lparr>b_data := memcpy_at 0 (take (min (length data) FRAME_SIZE) data) (b_data b)\<rparr>) n1"
  shows "pool_ok n2" "in_use n2 = insert i (in_use n)" "i \<notin> in_use n" "i < BUFFER_SIZE"
    "b_data (n_buffers n2 ! i) = memcpy_at 0 (take (min (length data) FRAME_SIZE) data) (b_data (n_buffers n ! i))"
    "n_address n2 = n_address n" "n_spatial n2 = n_spatial n" "n_observers n2 = n_observers n"
    "n_stats n2 = n_stats n"
proof -
  note a = alloc_buf_Some [OF assms(1,2)]
  have len: "length (n_buffers n1) = BUFFER_SIZE" using a(1) by (simp add: pool_ok_def)
  show "pool_ok n2" unfolding n2_def using a(1,3)
    by (rule pool_ok_upd) (simp add: memcpy_frame_ok)
  show "in_use n2 = insert i (in_use n)" "i \<notin> in_use n" "i < BUFFER_SIZE"
    "n_address n2 = n_address n" "n_spatial n2 = n_spatial n" "n_observers n2 = n_observers n"
    "n_stats n2 = n_stats n"
    using a by (simp_all add: n2_def)
  show "b_data (n_buffers n2 ! i) = memcpy_at 0 (take (min (length data) FRAME_SIZE) data) (b_data (n_buffers n ! i))"
    using a(3,5) len by (simp add: n2_def upd_buffer_def)
qed

text \<open>Whatever arrives (an empty read, a truncated or oversized frame, a frame the engine
  rejects, one nobody observes, one that is delivered) no buffer is lost: with at most one
  observer per EtherType, which frees the buffer it is given, the set of buffers in use after
  the receive handler is the one before it.\<close>

theorem nic_receive_conserves:
  assumes pool: "pool_ok n" and con: "consumes update"
    and one: "\<forall>prot. length (targets_of prot (n_observers n)) \<le> 1"
  shows "pool_ok (fst (nic_on_receive ops update data (n, e)))
     \<and> in_use (fst (nic_on_receive ops update data (n, e))) = in_use n"
proof -
  obtain r n1 where ab: "alloc_buf n = (r, n1)" by (cases "alloc_buf n")
  show ?thesis
  proof (cases r)
    case None
    then have "n1 = n" using ab by (auto simp: alloc_buf_def split: list.splits)
    then show ?thesis using None ab pool by (simp add: nic_on_receive_def)
  next
    case (Some i)
    let ?sz = "min (length data) FRAME_SIZE"
    let ?n2 = "upd_buffer i (\<lambda>b. b\<lparr>b_data := memcpy_at 0 (take ?sz data) (b_data b)\<rparr>) n1"
    let ?f = "b_data (n_buffers ?n2 ! i)"
    let ?n3 = "upd_buffer i (\<lambda>b. b\<lparr>b_size := ?sz - HEADER_SIZE\<rparr>) (count_rx ?sz ?n2)"
    have n2: "pool_ok ?n2" "in_use ?n2 = insert i (in_use n)" "i \<notin> in_use n" "i < BUFFER_SIZE"
      "n_observers ?n2 = n_observers n"
      by (rule received_buffer [OF pool ab [unfolded Some]])+
    have i2: "i \<in> in_use ?n2" using n2(2) by simp
    obtain d e1 where d: "eng_should_drop ops ?f (n_address ?n2) (read_quadrant ?n2 (payload ?f)) e = (d, e1)"
      by (cases "eng_should_drop ops ?f (n_address ?n2) (read_quadrant ?n2 (payload ?f)) e")
    have "pool_ok (count_rx ?sz ?n2)" using n2(1) by simp
    then have n3: "pool_ok ?n3" using n2(4)
      by (rule pool_ok_upd) (auto simp: frame_consts)
    have i3: "i \<in> in_use ?n3" "in_use ?n3 = insert i (in_use n)" using n2(2) by simp_all
    have one3: "length (targets_of (frame_type ?f) (n_observers ?n3)) \<le> 1"
      using one n2(5) by simp
    have res: "nic_on_receive ops update data (n, e) =
        (if ?sz < HEADER_SIZE then (nic_free i ?n2, e)
         else if d then (nic_free i ?n2, e1) else nic_notify update (frame_type ?f) i (?n3, e1))"
      unfolding nic_on_receive_def by (simp only: prod.case ab Some option.case Let_def d) (simp split: bool.splits)
    show ?thesis
      unfolding res using nic_free_ok [OF n2(1) i2] n2(2,3)
        nic_notify_conserves [OF n3 i3(1) con one3, of e1] i3(2) by auto
  qed
qed

lemma nic_receive_conserves_witness:
  "in_use (fst (nic_on_receive (quiet_ops 2) (\<lambda>ob prot i (n, e). (nic_free i n, e))
      (replicate 40 1) (nic_attach 5 257 (blank_nic INTERNAL :: nat nic), quiet_engine))) = {}"
proof -
  have "consumes (\<lambda>(ob::nat) prot i (n, e::(nat, nat) raw_engine). (nic_free i n, e))"
    by (simp add: consumes_def nic_free_ok)
  moreover have "pool_ok (nic_attach 5 257 (blank_nic INTERNAL :: nat nic))"
    "in_use (nic_attach 5 257 (blank_nic INTERNAL :: nat nic)) = {}"
    using pool_ok_blank [of INTERNAL] by (simp_all add: nic_attach_def)
  moreover have "\<forall>prot. length (targets_of prot (n_observers (nic_attach 5 257 (blank_nic INTERNAL :: nat nic)))) \<le> 1"
    by (simp add: nic_attach_def cdo_attach_def blank_nic_def nic_init_def)
  ultimately show ?thesis using nic_receive_conserves by metis
qed

subsection \<open>The quadrant filter of the raw-socket NIC\<close>

text \<open>Byte of the frame that holds the header's quadrant.\<close>

abbreviation quadrant_at :: nat where
  "quadrant_at \<equiv> HEADER_SIZE + 12"

lemma take_memcpy_0: "take (length d) (memcpy_at 0 d f) = d"
  by (simp add: memcpy_at_def)

lemma hdr_quadrant_frame:
  "frame_ok f \<Longrightarrow> hdr_quadrant (payload f) = f ! quadrant_at"
  by (simp add: hdr_quadrant_def payload_def frame_ok_def frame_consts)

lemma frame_of_copy:
  assumes "frame_ok f" and "HEADER_SIZE + DATA_OFF \<le> length d" and "length d \<le> FRAME_SIZE"
  shows "frame_src (memcpy_at 0 d f) = slice 6 6 d"
    and "hdr_quadrant (payload (memcpy_at 0 d f)) = d ! quadrant_at"
    and "frame_type (memcpy_at 0 d f) = frame_type d"
    and "frame_ok (memcpy_at 0 d f)"
proof -
  show ok: "frame_ok (memcpy_at 0 d f)" using assms(1,3) by (simp add: frame_ok_def)
  show "frame_src (memcpy_at 0 d f) = slice 6 6 d"
    using assms by (simp add: frame_src_def byte_simps frame_consts header_consts)
  show "hdr_quadrant (payload (memcpy_at 0 d f)) = d ! quadrant_at"
    using ok assms by (simp add: hdr_quadrant_frame nth_memcpy_at frame_ok_def frame_consts header_consts)
  show "frame_type (memcpy_at 0 d f) = frame_type d"
    using assms by (simp add: frame_type_def nth_memcpy_at frame_ok_def frame_consts header_consts)
qed

definition other_quadrant :: "u8 \<Rightarrow> u8 \<Rightarrow> bool" where
  "other_quadrant my q \<longleftrightarrow> my \<noteq> QUADRANT_NONE \<and> q \<noteq> QUADRANT_NONE \<and> my \<noteq> q"

lemma raw_receive_cases:
  assumes pool: "pool_ok n" and ab: "alloc_buf n = (Some i, n1)" and sp: "n_spatial n"
    and len: "HEADER_SIZE + DATA_OFF \<le> length d" "length d \<le> FRAME_SIZE"
    and gps: "gps (r_gps e) = (my, g')"
  defines "n2 \<equiv> upd_buffer i (\<lambda>b. b\<lparr>b_data := memcpy_at 0 d (b_data b)\<rparr>) n1"
  shows "nic_on_receive (raw_ops sendto gps) update d (n, e) =
     (if slice 6 6 d = n_address n then (nic_free i n2, e)
      else if other_quadrant my (d ! quadrant_at) then (nic_free i n2, e\<lparr>r_gps := g'\<rparr>)
      else nic_notify update (frame_type d) i
             (upd_buffer i (\<lambda>b. b\<lparr>b_size := length d - HEADER_SIZE\<rparr>) (count_rx (length d) n2),
              e\<lparr>r_gps := g'\<rparr>))"
proof -
  have sz: "min (length d) FRAME_SIZE = length d" using len(2) by simp
  have n2: "n_address n2 = n_address n" "n_spatial n2 = n_spatial n" "i < BUFFER_SIZE"
    "b_data (n_buffers n2 ! i) = memcpy_at 0 d (b_data (n_buffers n ! i))"
    unfolding n2_def
    using received_buffer(5-7) [OF pool ab, of d] received_buffer(4) [OF pool ab] sz by simp_all
  have "frame_ok (b_data (n_buffers n ! i))" using pool_buffer [OF pool n2(3)] by simp
  note f = frame_of_copy [OF this len]
  have long: "\<not> length d < HEADER_SIZE" using len(1) by simp
  have upd: "upd_buffer i (\<lambda>b. b\<lparr>b_data := memcpy_at 0 (take (length d) d) (b_data b)\<rparr>) n1 = n2"
    by (simp add: n2_def)
  have q: "read_quadrant n2 (payload (b_data (n_buffers n2 ! i))) = d ! quadrant_at"
    using sp n2(2,4) f(2) by (simp add: read_quadrant_def)
  show ?thesis
    unfolding nic_on_receive_def prod.case ab option.case Let_def sz upd q
    using long n2(1,4) f(1,3) gps
    by (simp add: raw_should_drop_def raw_current_quadrant_def other_quadrant_def)
qed

text \<open>A frame from the network reaches the observers exactly when it is not the station's
  own echo and its sender was in the receiver's quadrant (or one of the two has no GPS); the
  buffer handed over then holds the frame byte for byte. A rejected frame changes neither the
  pool nor the counters, and no observer runs.\<close>

theorem raw_quadrant_filter:
  assumes pool: "pool_ok n" and free: "in_use n \<noteq> {..<BUFFER_SIZE}" and sp: "n_spatial n"
    and len: "HEADER_SIZE + DATA_OFF \<le> length d" "length d \<le> FRAME_SIZE"
    and gps: "gps (r_gps e) = (my, g')"
  shows "(slice 6 6 d = n_address n \<or> other_quadrant my (d ! quadrant_at) \<longrightarrow>
      (\<forall>update. \<exists>n' e'. nic_on_receive (raw_ops sendto gps) update d (n, e) = (n', e')
         \<and> pool_ok n' \<and> in_use n' = in_use n \<and> n_stats n' = n_stats n))
   \<and> (slice 6 6 d \<noteq> n_address n \<and> \<not> other_quadrant my (d ! quadrant_at) \<longrightarrow>
      (\<exists>i n3. i \<notin> in_use n \<and> i \<in> in_use n3 \<and> n_observers n3 = n_observers n
         \<and> take (length d) (b_data (n_buffers n3 ! i)) = d
         \<and> b_size (n_buffers n3 ! i) = length d - HEADER_SIZE
         \<and> (\<forall>update. nic_on_receive (raw_ops sendto gps) update d (n, e)
              = nic_notify update (frame_type d) i (n3, e\<lparr>r_gps := g'\<rparr>))))"
proof -
  obtain i n1 where ab: "alloc_buf n = (Some i, n1)"
    using alloc_buf_None [OF pool] free by (cases "alloc_buf n"; cases "fst (alloc_buf n)") auto
  let ?n2 = "upd_buffer i (\<lambda>b. b\<lparr>b_data := memcpy_at 0 d (b_data b)\<rparr>) n1"
  let ?n3 = "upd_buffer i (\<lambda>b. b\<lparr>b_size := length d - HEADER_SIZE\<rparr>) (count_rx (length d) ?n2)"
  have "take (min (length d) FRAME_SIZE) d = d" using len(2) by simp
  then have n2: "pool_ok ?n2" "in_use ?n2 = insert i (in_use n)" "i \<notin> in_use n" "i < BUFFER_SIZE"
    "b_data (n_buffers ?n2 ! i) = memcpy_at 0 d (b_data (n_buffers n ! i))"
    "n_observers ?n2 = n_observers n" "n_stats ?n2 = n_stats n"
    using received_buffer(1,2,5,8,9) [OF pool ab, of d] received_buffer(3,4) [OF pool ab] by simp_all
  have blen: "i < length (n_buffers ?n2)" using n2(1,4) by (simp add: pool_ok_def)
  have n3: "b_data (n_buffers ?n3 ! i) = memcpy_at 0 d (b_data (n_buffers n ! i))"
    "b_size (n_buffers ?n3 ! i) = length d - HEADER_SIZE"
    using blen n2(5) by (simp_all add: upd_buffer_def [of i "\<lambda>b. b\<lparr>b_size := _\<rparr>"])
  have fr: "pool_ok (nic_free i ?n2)" "in_use (nic_free i ?n2) = in_use n"
    using nic_free_ok [OF n2(1), of i] n2(2,3) by auto
  have st: "n_stats (nic_free i ?n2) = n_stats n" using n2(7) by (simp add: nic_free_def)
  note cases = raw_receive_cases [where gps = gps and e = e, OF pool ab sp len gps]
  have drop: "\<exists>n' e'. nic_on_receive (raw_ops sendto gps) update d (n, e) = (n', e')
         \<and> pool_ok n' \<and> in_use n' = in_use n \<and> n_stats n' = n_stats n"
    if "slice 6 6 d = n_address n \<or> other_quadrant my (d ! quadrant_at)" for update
    using that fr st unfolding cases [of sendto update] by (auto split: if_splits)
  have pass: "nic_on_receive (raw_ops sendto gps) update d (n, e)
      = nic_notify update (frame_type d) i (?n3, e\<lparr>r_gps := g'\<rparr>)"
    if "slice 6 6 d \<noteq> n_address n \<and> \<not> other_quadrant my (d ! quadrant_at)" for update
    using that unfolding cases [of sendto update] by simp
  have "i \<in> in_use ?n3" "n_observers ?n3 = n_observers n"
    "take (length d) (b_data (n_buffers ?n3 ! i)) = d"
    using n2(2,6) n3(1) take_memcpy_0 by simp_all
  with drop pass n2(3) n3(2) show ?thesis by blast
qed

lemma spatial_blank:
  "pool_ok (setup_quadrant (blank_nic INTERNAL))" "n_spatial (setup_quadrant (blank_nic INTERNAL))"
  "in_use (setup_quadrant (blank_nic INTERNAL)) \<noteq> {..<BUFFER_SIZE}"
  "n_address (setup_quadrant (blank_nic INTERNAL)) = INTERNAL"
proof -
  have b: "pool_ok (blank_nic INTERNAL)" "in_use (blank_nic INTERNAL) = {}"
    by (simp_all add: pool_ok_blank)
  have "(0::nat) \<in> {..<BUFFER_SIZE}" by (simp add: buffer_consts)
  then show "in_use (setup_quadrant (blank_nic INTERNAL)) \<noteq> {..<BUFFER_SIZE}"
    using b(2) by (auto simp: setup_quadrant_def in_use_def)
  show "pool_ok (setup_quadrant (blank_nic INTERNAL))"
    using b(1) by (simp add: setup_quadrant_def pool_ok_def)
qed (simp_all add: setup_quadrant_def blank_nic_def nic_init_def)

text \<open>A station in quadrant 2 ignores a frame stamped 3 and takes one stamped 2.\<close>

lemma raw_quadrant_filter_witness:
  "(\<exists>n' e'. nic_on_receive (quiet_ops 2) (\<lambda>ob prot i w. w) ((replicate 40 1)[26 := 3])
       (setup_quadrant (blank_nic INTERNAL) :: nat nic, quiet_engine) = (n', e') \<and> in_use n' = {})
   \<and> (\<exists>i n3. nic_on_receive (quiet_ops 2) (\<lambda>ob prot i w. w) ((replicate 40 1)[26 := 2])
       (setup_quadrant (blank_nic INTERNAL) :: nat nic, quiet_engine)
       = nic_notify (\<lambda>ob prot i w. w) 257 i (n3, quiet_engine)
       \<and> take 40 (b_data (n_buffers n3 ! i)) = (replicate 40 1)[26 := 2])"
proof -
  let ?n = "setup_quadrant (blank_nic INTERNAL) :: nat nic"
  have gps: "(\<lambda>g::nat. (2::u8, g)) (r_gps quiet_engine) = (2, 0)" by (simp add: quiet_engine_def)
  have src: "slice 6 6 ((replicate 40 1)[26 := b]) = replicate 6 1" for b :: u8
    by (simp add: slice_list_update) (simp add: slice_def)
  have ty: "frame_type ((replicate 40 1)[26 := b]) = 257" for b :: u8
    by (simp add: frame_type_def)
  have own: "replicate 6 1 \<noteq> n_address ?n"
    unfolding spatial_blank(4) by (simp add: INTERNAL_def eval_nat_numeral)
  have e: "quiet_engine\<lparr>r_gps := 0\<rparr> = quiet_engine" by (simp add: quiet_engine_def)
  have b0: "in_use ?n = {}" using pool_ok_blank(2) [of INTERNAL] by (simp add: setup_quadrant_def in_use_def)
  note flt = raw_quadrant_filter [where n = ?n and gps = "\<lambda>g. (2, g)" and e = quiet_engine and
      sendto = "\<lambda>bs k. (int (length bs), k + 1)", OF spatial_blank(1,3,2) _ _ gps,
      folded quiet_ops_def, unfolded src ty e b0]
  have drop: "\<exists>n' e'. nic_on_receive (quiet_ops 2) (\<lambda>ob prot i w. w) ((replicate 40 1)[26 := 3]) (?n, quiet_engine) = (n', e')
      \<and> in_use n' = {}"
    using flt [of "(replicate 40 1)[26 := 3]"]
    by (simp add: other_quadrant_def QUADRANT_NONE_def frame_consts header_consts src b0) metis
  have pass: "\<exists>i n3. nic_on_receive (quiet_ops 2) (\<lambda>ob prot i w. w) ((replicate 40 1)[26 := 2]) (?n, quiet_engine)
       = nic_notify (\<lambda>ob prot i w. w) 257 i (n3, quiet_engine)
       \<and> take 40 (b_data (n_buffers n3 ! i)) = (replicate 40 1)[26 := 2]"
    using flt [of "(replicate 40 1)[26 := 2]"] own
    by (auto simp: other_quadrant_def QUADRANT_NONE_def frame_consts header_consts src ty e)
  from drop pass show ?thesis by blast
qed

end
