(* ===== verification/Raw_Socket.thy ===== *)
theory Raw_Socket
  imports Nic
begin

section \<open>The raw-socket engine\<close>

text \<open>
  \<open>src/network/engine/raw_socket_engine.cpp\<close>: opening and closing the packet socket, and the
  receiving thread, which sleeps in \<open>sigtimedwait\<close> until SIGIO and then empties the socket. What
  the system calls answer is an argument or a label; sending and the drop rule are in \<open>Nic\<close>.
\<close>

subsection \<open>Opening and closing\<close>

text \<open>
  \<open>sock\<close>, \<open>index\<close> and \<open>bound\<close> are the answers of \<open>socket\<close>, \<open>if_nametoindex\<close> and \<open>bind\<close>; the second
  result lists the descriptors \<open>engine_init\<close> closed.
\<close>

definition raw_init ::
  "int \<Rightarrow> nat \<Rightarrow> bool \<Rightarrow> ('g, 'n) raw_engine \<Rightarrow> ('g, 'n) raw_engine \<times> int list"
where
  "raw_init sock index bound e =
     (let e1 = e\<lparr>r_sockfd := sock\<rparr> in
      if sock < 0 then (e1, [])
      else let e2 = e1\<lparr>r_ifindex := index\<rparr> in
        if index = 0 then (e2\<lparr>r_sockfd := -1\<rparr>, [sock])
        else if \<not> bound then (e2\<lparr>r_sockfd := -1, r_ifindex := 0\<rparr>, [sock])
        else (e2, []))"

definition raw_close :: "('g, 'n) raw_engine \<Rightarrow> ('g, 'n) raw_engine \<times> int list" where
  "raw_close e = (if r_sockfd e \<ge> 0 then (e\<lparr>r_sockfd := -1\<rparr>, [r_sockfd e]) else (e, []))"

text \<open>\<open>hw\<close> is the hardware address the \<open>ioctl\<close> returned, \<open>None\<close> when it or \<open>if_indextoname\<close> failed.\<close>

definition raw_get_address :: "mac option \<Rightarrow> ('g, 'n) raw_engine \<Rightarrow> mac" where
  "raw_get_address hw e =
     (if r_sockfd e < 0 \<or> r_ifindex e = 0 then replicate 6 0
      else case hw of None \<Rightarrow> replicate 6 0 | Some mac \<Rightarrow> mac)"

text \<open>Either the engine can send or every descriptor it opened is closed, once, whichever call failed.\<close>

lemma raw_init_leaks_nothing:
  "raw_init sock index bound e = (e', closed) \<Longrightarrow>
     (if r_sockfd e' < 0 then closed = (if sock < 0 then [] else [sock])
      else r_sockfd e' = sock \<and> r_ifindex e' = index \<and> index \<noteq> 0 \<and> closed = [])
     \<and> closed @ snd (raw_close e') = (if sock < 0 then [] else [sock])"
  by (auto simp: raw_init_def raw_close_def Let_def split: if_splits)

subsection \<open>The receiving thread\<close>

text \<open>
  Program points of the thread \<open>start_receiving\<close> creates: \<open>R_Start\<close> before it asked for SIGIO,
  \<open>R_Check\<close> at the outer loop test, \<open>R_Wait\<close> in \<open>sigtimedwait\<close>, \<open>R_Drain\<close> at the inner loop
  test, \<open>R_Recv\<close> before \<open>recv\<close>, \<open>R_Done\<close> after the loop.
\<close>

datatype raw_pc = R_Start | R_Check | R_Wait | R_Drain | R_Recv | R_Done

datatype sig_answer = SIGIO | SIG_EAGAIN | SIG_EINTR | SIG_ERROR

text \<open>
  \<open>rw_armed\<close>: the thread owns the socket's signal and blocks it, so that a frame arriving makes it
  pending. \<open>rw_queue\<close> is the kernel's queue of the socket, \<open>rw_sink\<close> the state of the handler.
\<close>

record 'w raw_worker =
  rw_running :: bool
  rw_armed :: bool
  rw_pending :: bool
  rw_open :: bool
  rw_queue :: "u8 list list"
  rw_pc :: raw_pc
  rw_sink :: 'w

definition raw_start :: "u8 list list \<Rightarrow> 'w \<Rightarrow> 'w raw_worker" where
  "raw_start queued w = \<lparr>rw_running = True, rw_armed = False, rw_pending = False, rw_open = True,
     rw_queue = queued, rw_pc = R_Start, rw_sink = w\<rparr>"

text \<open>The handler \<open>_on_receive\<close> may be unset; the buffer holds one Ethernet frame.\<close>

definition raw_deliver :: "(u8 list \<Rightarrow> 'w \<Rightarrow> 'w) option \<Rightarrow> u8 list \<Rightarrow> 'w \<Rightarrow> 'w" where
  "raw_deliver h bs w =
     (let n = length bs in
      case h of None \<Rightarrow> w | Some f \<Rightarrow> if n > 0 then f bs w else w)"

definition worker_step ::
  "(u8 list \<Rightarrow> 'w \<Rightarrow> 'w) option \<Rightarrow> sig_answer \<Rightarrow> 'w raw_worker \<Rightarrow> 'w raw_worker"
where
  "worker_step h ans s =
     (case rw_pc s of
        R_Start \<Rightarrow> s\<lparr>rw_armed := True, rw_pc := R_Check\<rparr>
      | R_Check \<Rightarrow> s\<lparr>rw_pc := (if rw_running s then R_Wait else R_Done)\<rparr>
      | R_Wait \<Rightarrow>
          (case ans of
             SIGIO \<Rightarrow> s\<lparr>rw_pending := False, rw_pc := R_Drain\<rparr>
           | SIG_EAGAIN \<Rightarrow> s\<lparr>rw_pc := R_Check\<rparr>
           | SIG_EINTR \<Rightarrow> s\<lparr>rw_pc := R_Check\<rparr>
           | SIG_ERROR \<Rightarrow> s\<lparr>rw_pc := R_Done\<rparr>)
      | R_Drain \<Rightarrow> s\<lparr>rw_pc := (if rw_running s then R_Recv else R_Check)\<rparr>
      | R_Recv \<Rightarrow>
          (if \<not> rw_open s then s\<lparr>rw_pc := R_Check\<rparr>
           else case rw_queue s of
             [] \<Rightarrow> s\<lparr>rw_pc := R_Check\<rparr>
           | bs # q \<Rightarrow> s\<lparr>rw_queue := q, rw_sink := raw_deliver h (take FRAME_SIZE bs) (rw_sink s),
                         rw_pc := R_Drain\<rparr>)
      | R_Done \<Rightarrow> s)"

text \<open>What \<open>sigtimedwait\<close> may answer: the signal when it is pending, a timeout when it is not.\<close>

definition sig_may :: "bool \<Rightarrow> sig_answer \<Rightarrow> bool" where
  "sig_may pending ans = (case ans of SIGIO \<Rightarrow> pending | SIG_EAGAIN \<Rightarrow> \<not> pending | SIG_EINTR \<Rightarrow> True | SIG_ERROR \<Rightarrow> True)"

text \<open>A frame arriving at the socket, a step of the thread, and the two actions of \<open>engine_close\<close>.\<close>

datatype raw_event = Arrives "u8 list" | Worker sig_answer | Stops | Closes

inductive raw_step ::
  "(u8 list \<Rightarrow> 'w \<Rightarrow> 'w) option \<Rightarrow> 'w raw_worker \<Rightarrow> raw_event \<Rightarrow> 'w raw_worker \<Rightarrow> bool"
  for h
where
  arrives: "rw_open s \<Longrightarrow> raw_step h s (Arrives bs)
     (s\<lparr>rw_queue := rw_queue s @ [bs], rw_pending := rw_pending s \<or> rw_armed s\<rparr>)"
| works: "rw_pc s = R_Wait \<longrightarrow> sig_may (rw_pending s) ans \<Longrightarrow> raw_step h s (Worker ans) (worker_step h ans s)"
| stops: "raw_step h s Stops (s\<lparr>rw_running := False\<rparr>)"
| closes: "\<not> rw_running s \<Longrightarrow> raw_step h s Closes (s\<lparr>rw_open := False, rw_queue := []\<rparr>)"

inductive_cases arrivesE: "raw_step h s (Arrives bs) s'"
inductive_cases worksE: "raw_step h s (Worker ans) s'"
inductive_cases stopsE: "raw_step h s Stops s'"
inductive_cases closesE: "raw_step h s Closes s'"

inductive raw_run ::
  "(u8 list \<Rightarrow> 'w \<Rightarrow> 'w) option \<Rightarrow> 'w raw_worker \<Rightarrow> raw_event list \<Rightarrow> 'w raw_worker \<Rightarrow> bool"
  for h s
where
  raw_refl: "raw_run h s [] s"
| raw_snoc: "raw_run h s evs s' \<Longrightarrow> raw_step h s' ev s'' \<Longrightarrow> raw_run h s (evs @ [ev]) s''"

fun arrival :: "raw_event \<Rightarrow> u8 list list" where
  "arrival (Arrives bs) = [bs]"
| "arrival _ = []"

abbreviation arrivals :: "raw_event list \<Rightarrow> u8 list list" where
  "arrivals evs \<equiv> concat (map arrival evs)"

definition handle_frames :: "(u8 list \<Rightarrow> 'w \<Rightarrow> 'w) option \<Rightarrow> u8 list list \<Rightarrow> 'w \<Rightarrow> 'w" where
  "handle_frames h fs w = fold (\<lambda>bs. raw_deliver h (take FRAME_SIZE bs)) fs w"

lemma worker_step_keeps [simp]:
  "rw_running (worker_step h ans s) = rw_running s" "rw_open (worker_step h ans s) = rw_open s"
  by (simp_all add: worker_step_def split: raw_pc.split sig_answer.split list.split)

lemma drop_nth_cons: "drop k xs = y # ys \<Longrightarrow> take (Suc k) xs = take k xs @ [y] \<and> drop (Suc k) xs = ys"
  by (metis append_eq_conv_conj append_take_drop_id drop_Suc list.sel(3) nth_via_drop take_Suc_conv_app_nth
      drop_eq_Nil list.distinct(1) not_le_imp_less tl_drop)

lemma worker_delivers:
  assumes "rw_queue s = drop k fs" and "rw_sink s = handle_frames h (take k fs) w" and "k \<le> length fs"
  shows "\<exists>k \<le> length fs. rw_queue (worker_step h ans s) = drop k fs
     \<and> rw_sink (worker_step h ans s) = handle_frames h (take k fs) w"
proof (cases "rw_pc s = R_Recv \<and> rw_open s \<and> rw_queue s \<noteq> []")
  case True
  then obtain bs q where q: "rw_queue s = bs # q" by (cases "rw_queue s") auto
  then have d: "drop k fs = bs # q" using assms(1) by simp
  then have "Suc k \<le> length fs" by (metis Suc_leI drop_eq_Nil list.distinct(1) not_le_imp_less)
  moreover have "rw_queue (worker_step h ans s) = q"
    "rw_sink (worker_step h ans s) = raw_deliver h (take FRAME_SIZE bs) (rw_sink s)"
    using True q by (simp_all add: worker_step_def)
  ultimately show ?thesis using drop_nth_cons [OF d] assms(2)
    by (intro exI [of _ "Suc k"]) (simp add: handle_frames_def)
next
  case False
  then have "rw_queue (worker_step h ans s) = rw_queue s" "rw_sink (worker_step h ans s) = rw_sink s"
    by (auto simp: worker_step_def split: raw_pc.split sig_answer.split list.split)
  then show ?thesis using assms by auto
qed

text \<open>C31. Under any interleaving of arriving frames, signals, timeouts, interruptions and the thread's
  steps, the handler has been given exactly the frames that arrived first, each once, in order
  and cut to one Ethernet frame, and the rest are still in the socket's queue.\<close>

theorem raw_receives_in_order:
  assumes "raw_run h (raw_start queued w) evs s" and "Closes \<notin> set evs"
  shows "\<exists>k \<le> length (queued @ arrivals evs).
     rw_queue s = drop k (queued @ arrivals evs)
   \<and> rw_sink s = handle_frames h (take k (queued @ arrivals evs)) w"
  using assms
proof (induction rule: raw_run.induct)
  case raw_refl
  then show ?case by (intro exI [of _ 0]) (simp add: raw_start_def handle_frames_def)
next
  case (raw_snoc evs s' ev s'')
  then obtain k where k: "k \<le> length (queued @ arrivals evs)" "rw_queue s' = drop k (queued @ arrivals evs)"
    "rw_sink s' = handle_frames h (take k (queued @ arrivals evs)) w" by auto
  from raw_snoc.hyps(2) raw_snoc.prems show ?case
  proof cases
    case (arrives bs)
    then show ?thesis using k by (intro exI [of _ k]) simp
  next
    case (works ans)
    then show ?thesis using worker_delivers [OF k(2,3,1), of ans] by simp
  next
    case stops
    then show ?thesis using k by (intro exI [of _ k]) simp
  qed simp
qed

subsection \<open>Wake-ups\<close>

text \<open>
  The states an armed, running thread goes through when nothing was queued before it was armed: a
  queued frame means a pending signal or a thread on its way to the queue.
\<close>

definition awake :: "'w raw_worker \<Rightarrow> bool" where
  "awake s \<longleftrightarrow> rw_armed s
     \<and> (rw_running s \<longrightarrow> rw_open s \<and> (rw_queue s = [] \<or> rw_pending s \<or> rw_pc s \<in> {R_Drain, R_Recv, R_Done}))"

lemma awake_step: "raw_step h s ev s' \<Longrightarrow> awake s \<Longrightarrow> rw_pc s \<noteq> R_Start \<Longrightarrow> awake s' \<and> rw_pc s' \<noteq> R_Start"
  by (erule raw_step.cases)
     (auto simp: awake_def worker_step_def sig_may_def split: raw_pc.splits sig_answer.splits list.splits)

definition raw_armed :: "'w \<Rightarrow> 'w raw_worker" where
  "raw_armed w = (raw_start [] w)\<lparr>rw_armed := True, rw_pc := R_Check\<rparr>"

text \<open>No wake-up is lost: a thread that was armed with an empty socket and sits in
  \<open>sigtimedwait\<close> with no signal pending has left no frame in the queue, so a timeout that only
  tests the running flag again loses nothing.\<close>

theorem raw_no_lost_wakeup:
  assumes "raw_run h (raw_armed w) evs s" and "rw_running s" and "rw_pc s = R_Wait" and "\<not> rw_pending s"
  shows "rw_queue s = []"
proof -
  have "awake s \<and> rw_pc s \<noteq> R_Start" using assms(1)
    by (induction rule: raw_run.induct) (auto simp: awake_def raw_armed_def raw_start_def dest: awake_step)
  then show ?thesis using assms(2-4) by (auto simp: awake_def)
qed

text \<open>Frames queued between \<open>bind\<close> and the moment the thread owns the signal get no signal of
  their own: however long the thread waits, they stay in the queue until another frame arrives.\<close>

theorem raw_early_frames_wait:
  assumes "raw_run h (raw_start queued w) evs s" and "Closes \<notin> set evs" and "arrivals evs = []"
  shows "rw_queue s = queued \<and> rw_sink s = w"
proof -
  have "rw_queue s = queued \<and> rw_sink s = w \<and> \<not> rw_pending s \<and> rw_pc s \<notin> {R_Drain, R_Recv}"
    using assms
    by (induction rule: raw_run.induct)
       (auto simp: raw_start_def worker_step_def sig_may_def elim!: raw_step.cases
          split: raw_pc.splits sig_answer.splits if_splits)
  then show ?thesis by simp
qed

lemma step_twice: "(f ^^ (2 * length (x # xs) + n)) a = (f ^^ (2 * length xs + n)) (f (f a))"
  by (simp add: funpow_swap1)

text \<open>Once the signal is there the thread empties the socket by itself: \<open>2 * n + 4\<close> of its steps
  bring it back to waiting, with the \<open>n\<close> queued frames handed to the handler.\<close>

theorem raw_worker_drains:
  assumes "rw_pc s = R_Wait" and "rw_running s" and "rw_open s"
  shows "\<exists>s'. (worker_step h SIGIO ^^ (2 * length (rw_queue s) + 4)) s = s' \<and> rw_pc s' = R_Wait
     \<and> rw_queue s' = [] \<and> rw_sink s' = handle_frames h (rw_queue s) (rw_sink s)"
proof -
  have drain: "(worker_step h SIGIO ^^ (2 * length q + 3)) t
      = t\<lparr>rw_queue := [], rw_sink := handle_frames h q (rw_sink t), rw_pc := R_Wait\<rparr>"
    if "rw_pc t = R_Drain" "rw_running t" "rw_open t" "rw_queue t = q" for q and t :: "'a raw_worker"
    using that
  proof (induction q arbitrary: t)
    case Nil
    then show ?case by (simp add: numeral_eq_Suc worker_step_def handle_frames_def)
  next
    case (Cons bs q)
    let ?t = "t\<lparr>rw_queue := q, rw_sink := raw_deliver h (take FRAME_SIZE bs) (rw_sink t)\<rparr>"
    have "worker_step h SIGIO (worker_step h SIGIO t) = ?t"
      using Cons.prems by (simp add: worker_step_def)
    then have "(worker_step h SIGIO ^^ (2 * length (bs # q) + 3)) t = (worker_step h SIGIO ^^ (2 * length q + 3)) ?t"
      by (simp only: step_twice)
    then show ?case using Cons.IH [of ?t] Cons.prems by (simp add: handle_frames_def)
  qed
  let ?t = "worker_step h SIGIO s"
  have "rw_pc ?t = R_Drain" "rw_queue ?t = rw_queue s" "rw_sink ?t = rw_sink s"
    using assms by (simp_all add: worker_step_def)
  then have "(worker_step h SIGIO ^^ (2 * length (rw_queue s) + 3)) ?t
      = ?t\<lparr>rw_queue := [], rw_sink := handle_frames h (rw_queue s) (rw_sink s), rw_pc := R_Wait\<rparr>"
    using drain [of ?t] assms by simp
  moreover have "2 * length (rw_queue s) + 4 = Suc (2 * length (rw_queue s) + 3)" by simp
  ultimately show ?thesis by (simp only: funpow_Suc_right o_apply) simp
qed

text \<open>A run: a frame arrives, the thread wakes, takes it and sleeps again.\<close>

definition demo_sink :: "(u8 list \<Rightarrow> u8 list list \<Rightarrow> u8 list list) option" where
  "demo_sink = Some (\<lambda>bs w. w @ [bs])"

definition demo_events :: "raw_event list" where
  "demo_events = [Worker SIG_EAGAIN, Arrives [1, 2], Worker SIGIO, Worker SIGIO, Worker SIGIO, Worker SIGIO,
     Worker SIGIO, Worker SIG_EAGAIN]"

lemma raw_run_Cons: "raw_step h s ev s1 \<Longrightarrow> raw_run h s1 evs s' \<Longrightarrow> raw_run h s (ev # evs) s'"
proof (rotate_tac, induction rule: raw_run.induct)
  case raw_refl
  then show ?case using raw_snoc [OF raw_run.raw_refl] by fastforce
next
  case (raw_snoc evs s' ev' s'')
  then show ?case using raw_run.raw_snoc [of h s "ev # evs" s' ev' s''] by simp
qed

lemma demo_wakeup: "raw_run demo_sink (raw_armed []) demo_events
   ((raw_armed [])\<lparr>rw_pc := R_Wait, rw_sink := [[1, 2]]\<rparr>)"
  unfolding demo_events_def
  by (rule raw_run_Cons, rule works, simp add: raw_armed_def,
      rule raw_run_Cons, rule raw_step.arrives, simp add: raw_armed_def raw_start_def worker_step_def,
      (rule raw_run_Cons, rule works, simp add: raw_armed_def raw_start_def worker_step_def sig_may_def)+)
     (simp add: raw_armed_def raw_start_def worker_step_def demo_sink_def raw_deliver_def raw_refl frame_consts)

lemma demo_wakeup_start: "raw_run demo_sink (raw_start [] []) (Worker SIG_EAGAIN # demo_events)
   ((raw_armed [])\<lparr>rw_pc := R_Wait, rw_sink := [[1, 2]]\<rparr>)"
proof -
  have "raw_step demo_sink (raw_start [] []) (Worker SIG_EAGAIN) (worker_step demo_sink SIG_EAGAIN (raw_start [] []))"
    by (rule works) (simp add: raw_start_def)
  moreover have "worker_step demo_sink SIG_EAGAIN (raw_start [] []) = raw_armed []"
    by (simp add: raw_armed_def raw_start_def worker_step_def)
  ultimately show ?thesis using demo_wakeup by (simp add: raw_run_Cons)
qed

lemma raw_receives_in_order_witness:
  "\<exists>k \<le> 1. [] = drop k [[1, 2 :: u8]] \<and> [[1, 2]] = handle_frames demo_sink (take k [[1, 2]]) []"
  using raw_receives_in_order [OF demo_wakeup_start] by (simp add: demo_events_def raw_armed_def raw_start_def)

lemma raw_no_lost_wakeup_witness: "rw_queue ((raw_armed [])\<lparr>rw_pc := R_Wait, rw_sink := [[1, 2 :: u8]]\<rparr>) = []"
  by (rule raw_no_lost_wakeup [OF demo_wakeup]) (simp_all add: raw_armed_def raw_start_def)

lemma raw_early_frames_wait_witness:
  "rw_queue (worker_step demo_sink SIG_EAGAIN (raw_start [[7]] [])) = [[7]]"
proof -
  have "raw_step demo_sink (raw_start [[7]] []) (Worker SIG_EAGAIN) (worker_step demo_sink SIG_EAGAIN (raw_start [[7]] []))"
    by (rule works) (simp add: raw_start_def)
  then have "raw_run demo_sink (raw_start [[7]] []) ([] @ [Worker SIG_EAGAIN])
      (worker_step demo_sink SIG_EAGAIN (raw_start [[7]] []))"
    by (rule raw_snoc [OF raw_refl])
  from raw_early_frames_wait [OF this] show ?thesis by simp
qed

lemma raw_worker_drains_witness:
  "\<exists>s'. (worker_step demo_sink SIGIO ^^ 6) ((raw_armed [])\<lparr>rw_pc := R_Wait, rw_pending := True, rw_queue := [[5]]\<rparr>) = s'
     \<and> rw_queue s' = [] \<and> rw_sink s' = [[5]]"
  using raw_worker_drains [of "(raw_armed [])\<lparr>rw_pc := R_Wait, rw_pending := True, rw_queue := [[5]]\<rparr>" demo_sink]
  by (simp add: raw_armed_def raw_start_def handle_frames_def raw_deliver_def demo_sink_def frame_consts)

end
