(* ===== verification/Shm_Ring.thy ===== *)
theory Shm_Ring
  imports Nic
begin

section \<open>The shared-memory bus of a vehicle\<close>

text \<open>
  \<open>src/network/engine/shm_region.h\<close> and \<open>shared_memory_engine.{h,cpp}\<close>: a ring of 100 slots in
  a System V segment, guarded by one mutex semaphore, a counting semaphore of empty slots and
  one counter of pending messages per registered reader. The first part has the region and the
  operations that set it up and tear it down; the second the critical sections of
  \<open>write_slot\<close> and \<open>read_slot\<close>; the third runs writer and reader threads of all processes
  against each other, one semaphore operation at a time.
\<close>

subsection \<open>The region\<close>

definition MAGIC :: u32 where "MAGIC = 0x534F3232"
definition INVALID_SLOT :: u16 where "INVALID_SLOT = 0xFFFF"
definition GATEWAY_SLOT :: u16 where "GATEWAY_SLOT = 0"
definition GATEWAY_WRITER :: u16 where "GATEWAY_WRITER = 0xFFFE"
definition MAX_COMPONENTS :: nat where "MAX_COMPONENTS = 100"
definition SLOT_COUNT :: nat where "SLOT_COUNT = 100"

definition DELIVER_TO_COMPONENTS :: u16 where "DELIVER_TO_COMPONENTS = 0x0001"
definition DELIVER_TO_GATEWAY :: u16 where "DELIVER_TO_GATEWAY = 0x0002"

record component_entry =
  c_port :: u16
  c_slot :: u16
  c_active :: u8
  c_read_seq :: nat

record broadcast_slot =
  bs_writer :: u16
  bs_flags :: u16
  bs_size :: nat
  bs_frame :: "u8 list"

record region =
  magic :: u32
  component_count :: nat
  gateway_active :: u8
  components :: "component_entry list"
  next_write_seq :: nat
  slots :: "broadcast_slot list"

text \<open>Sequence numbers are \<open>uint64_t\<close>: naturals with the wrap-around written out.\<close>

definition seq_succ :: "nat \<Rightarrow> nat" where
  "seq_succ q = (q + 1) mod 2 ^ 64"

definition upd_component :: "nat \<Rightarrow> (component_entry \<Rightarrow> component_entry) \<Rightarrow> region \<Rightarrow> region" where
  "upd_component i g r = r\<lparr>components := (components r)[i := g (components r ! i)]\<rparr>"

text \<open>\<open>memset(region, 0, sizeof(Region))\<close>\<close>

definition zero_component :: component_entry where
  "zero_component = \<lparr>c_port = 0, c_slot = 0, c_active = 0, c_read_seq = 0\<rparr>"

definition zero_slot :: broadcast_slot where
  "zero_slot = \<lparr>bs_writer = 0, bs_flags = 0, bs_size = 0, bs_frame = replicate FRAME_SIZE 0\<rparr>"

definition zero_region :: region where
  "zero_region = \<lparr>magic = 0, component_count = 0, gateway_active = 0,
     components = replicate MAX_COMPONENTS zero_component, next_write_seq = 0,
     slots = replicate SLOT_COUNT zero_slot\<rparr>"

subsection \<open>Semaphores\<close>

definition SEM_RING_MUTEX :: nat where "SEM_RING_MUTEX = 0"
definition SEM_RING_EMPTY :: nat where "SEM_RING_EMPTY = 1"
definition SEM_PENDING_BASE :: nat where "SEM_PENDING_BASE = 2"

definition pending_sem_index :: "nat \<Rightarrow> nat" where
  "pending_sem_index i = SEM_PENDING_BASE + i"

definition semaphore_count :: "nat \<Rightarrow> nat" where
  "semaphore_count registered_slots = SEM_PENDING_BASE + registered_slots"

text \<open>\<open>None\<close>: the caller blocks (an interrupted \<open>semop\<close> is retried by the loop of \<open>sem_wait\<close>).\<close>

definition sem_wait :: "nat \<Rightarrow> nat list \<Rightarrow> nat list option" where
  "sem_wait k sems = (if 0 < sems ! k then Some (sems[k := sems ! k - 1]) else None)"

definition sem_post :: "nat \<Rightarrow> nat list \<Rightarrow> nat list" where
  "sem_post k sems = sems[k := sems ! k + 1]"

subsection \<open>Creating and destroying the bus\<close>

text \<open>
  What the four system calls of \<open>create\<close> answered, and the identifiers removed with
  \<open>IPC_RMID\<close>.
\<close>

record ipc_answers =
  a_shmget :: int
  a_semget :: int
  a_shmat :: bool
  a_setall :: bool

datatype ipc_id = Shm int | Sem int

record ipc_context =
  shmid :: int
  semid :: int

definition init_region :: "u16 list \<Rightarrow> nat \<Rightarrow> region" where
  "init_region ports count =
     (let registered = count + 1 in
      zero_region\<lparr>magic := MAGIC, component_count := registered,
        components :=
          map (\<lambda>i. if 1 \<le> i \<and> i < registered
                   then zero_component\<lparr>c_port := ports ! (i - 1), c_slot := word_of_nat i\<rparr>
                   else zero_component) [0..<MAX_COMPONENTS]\<rparr>)"

definition create ::
  "ipc_answers \<Rightarrow> u16 list option \<Rightarrow> nat
     \<Rightarrow> ipc_context \<times> (region \<times> nat list) option \<times> ipc_id list"
where
  "create a ports count =
     (if count \<ge> MAX_COMPONENTS \<or> (count > 0 \<and> ports = None)
      then (\<lparr>shmid = -1, semid = -1\<rparr>, None, [])
      else if a_shmget a < 0 then (\<lparr>shmid = a_shmget a, semid = -1\<rparr>, None, [])
      else if a_semget a < 0 then (\<lparr>shmid = -1, semid = a_semget a\<rparr>, None, [Shm (a_shmget a)])
      else if \<not> a_shmat a
      then (\<lparr>shmid = -1, semid = -1\<rparr>, None, [Sem (a_semget a), Shm (a_shmget a)])
      else let region = init_region (case ports of None \<Rightarrow> [] | Some ps \<Rightarrow> ps) count;
               values = [1, SLOT_COUNT] @ replicate (count + 1) 0
           in if \<not> a_setall a
              then (\<lparr>shmid = -1, semid = -1\<rparr>, None, [Sem (a_semget a), Shm (a_shmget a)])
              else (\<lparr>shmid = a_shmget a, semid = a_semget a\<rparr>, Some (region, values), []))"

definition destroy :: "ipc_context \<Rightarrow> ipc_id list" where
  "destroy c = (if semid c \<ge> 0 then [Sem (semid c)] else [])
             @ (if shmid c \<ge> 0 then [Shm (shmid c)] else [])"

definition obtained :: "ipc_answers \<Rightarrow> ipc_id set" where
  "obtained a = (if a_shmget a < 0 then {} else if a_semget a < 0 then {Shm (a_shmget a)}
                 else {Shm (a_shmget a), Sem (a_semget a)})"

text \<open>Whatever system call of \<open>create\<close> fails, no segment and no semaphore set is
  left behind: each one obtained is removed by \<open>create\<close> or removed once by \<open>destroy\<close> of the
  returned context; and a bus exists exactly when the context is valid.\<close>

theorem create_leaks_nothing:
  assumes "create a ports n = (c, bus, removed)"
    and "n < MAX_COMPONENTS" and "n > 0 \<longrightarrow> ports \<noteq> None"
  shows "set removed \<union> set (destroy c) = obtained a \<and> distinct (removed @ destroy c)
    \<and> (bus \<noteq> None \<longleftrightarrow> shmid c \<ge> 0 \<and> semid c \<ge> 0)
    \<and> (\<forall>r sems. bus = Some (r, sems) \<longrightarrow>
           component_count r = n + 1 \<and> length sems = semaphore_count (n + 1)
         \<and> sems ! SEM_RING_MUTEX = 1 \<and> sems ! SEM_RING_EMPTY = SLOT_COUNT
         \<and> (\<forall>i < n + 1. sems ! pending_sem_index i = 0))"
  using assms
  by (auto simp: create_def destroy_def obtained_def Let_def init_region_def semaphore_count_def
        SEM_RING_MUTEX_def SEM_RING_EMPTY_def SEM_PENDING_BASE_def pending_sem_index_def
        nth_append nth_Cons split: if_splits nat.splits)

lemma create_leaks_nothing_witness:
  "\<exists>c bus removed. create \<lparr>a_shmget = 7, a_semget = 9, a_shmat = True, a_setall = False\<rparr> (Some [5, 6]) 2
       = (c, bus, removed)
     \<and> set removed = {Shm 7, Sem 9}"
proof -
  let ?a = "\<lparr>a_shmget = 7, a_semget = 9, a_shmat = True, a_setall = False\<rparr>"
  obtain c bus removed where e: "create ?a (Some [5, 6]) 2 = (c, bus, removed)"
    by (cases "create ?a (Some [5, 6]) 2") auto
  have "destroy c = []" using e by (auto simp: create_def MAX_COMPONENTS_def destroy_def)
  moreover have "set removed \<union> set (destroy c) = obtained ?a"
    using create_leaks_nothing [OF e] by (simp add: MAX_COMPONENTS_def)
  ultimately show ?thesis using e by (auto simp: obtained_def)
qed


subsection \<open>Joining and leaving the bus\<close>

record configuration =
  cf_context :: ipc_context
  cf_slot :: nat
  cf_port :: u16

text \<open>The static \<open>_configuration\<close> with its ready flag is a \<open>configuration option\<close>.\<close>

definition is_gateway_process :: "configuration option \<Rightarrow> bool" where
  "is_gateway_process c = (case c of None \<Rightarrow> False | Some cf \<Rightarrow> cf_slot cf = unat GATEWAY_SLOT)"

record shm_engine =
  se_context :: ipc_context
  se_attached :: bool
  se_slot :: nat
  se_port :: u16
  se_gateway :: bool
  se_running :: bool

definition new_engine :: shm_engine where
  "new_engine = \<lparr>se_context = \<lparr>shmid = -1, semid = -1\<rparr>, se_attached = False,
     se_slot = unat INVALID_SLOT, se_port = 0, se_gateway = False, se_running = False\<rparr>"

text \<open>The critical section of \<open>engine_init\<close> on the region.\<close>

definition register_reader :: "nat \<Rightarrow> region \<Rightarrow> region" where
  "register_reader slot r =
     (let r1 = (if slot = unat GATEWAY_SLOT then r\<lparr>gateway_active := 1\<rparr> else r) in
      if slot < component_count r
      then upd_component slot (\<lambda>c. c\<lparr>c_active := 1, c_read_seq := next_write_seq r1\<rparr>) r1
      else r1)"

text \<open>
  \<open>attached\<close> is what \<open>shmat\<close> answered, \<open>locked\<close> what \<open>sem_wait\<close> on the mutex answered.
  \<open>attach_region\<close> returns whether the segment is a bus; a foreign one is detached again.
\<close>

definition detach_region :: "shm_engine \<Rightarrow> shm_engine" where
  "detach_region e = (if se_attached e then e\<lparr>se_attached := False\<rparr> else e)"

definition attach_region :: "bool \<Rightarrow> region \<Rightarrow> shm_engine \<Rightarrow> bool \<times> shm_engine" where
  "attach_region attached r e =
     (if \<not> attached then (False, e)
      else let e1 = e\<lparr>se_attached := True\<rparr> in
        if magic r \<noteq> MAGIC then (False, detach_region e1) else (True, e1))"

definition engine_init ::
  "bool \<Rightarrow> bool \<Rightarrow> configuration option \<Rightarrow> shm_engine \<times> region \<Rightarrow> shm_engine \<times> region"
where
  "engine_init attached locked conf w =
     (case (conf, w) of
        (None, _) \<Rightarrow> w
      | (Some cf, (e, r)) \<Rightarrow>
          let e1 = e\<lparr>se_context := cf_context cf, se_slot := cf_slot cf, se_port := cf_port cf,
                     se_gateway := (cf_slot cf = unat GATEWAY_SLOT)\<rparr>
          in case attach_region attached r e1 of (ok, e2) \<Rightarrow>
             if \<not> ok then (e2, r)
             else if \<not> locked then (detach_region e2, r)
             else (e2, register_reader (cf_slot cf) r))"

definition start_receiving :: "shm_engine \<Rightarrow> shm_engine" where
  "start_receiving e = (if \<not> se_attached e then e else e\<lparr>se_running := True\<rparr>)"

text \<open>The critical section of \<open>engine_close\<close>, after the worker was joined.\<close>

definition deregister_reader :: "shm_engine \<Rightarrow> region \<Rightarrow> region" where
  "deregister_reader e r =
     (if se_gateway e then r\<lparr>gateway_active := 0\<rparr>
      else if se_slot e < component_count r then upd_component (se_slot e) (\<lambda>c. c\<lparr>c_active := 0\<rparr>) r
      else r)"

definition engine_close :: "bool \<Rightarrow> shm_engine \<times> region \<Rightarrow> shm_engine \<times> region" where
  "engine_close locked w =
     (case w of (e, r) \<Rightarrow>
        (detach_region (e\<lparr>se_running := False\<rparr>),
         if se_attached e \<and> locked then deregister_reader e r else r))"

text \<open>A process that joined takes part from the next frame on and owns its own entry only;
  a slot number outside the table changes no entry; leaving clears the active flag and
  keeps every read position.\<close>

lemma join_touches_own_entry:
  "\<forall>i. i \<noteq> cf_slot cf \<longrightarrow>
     components (snd (engine_init True True (Some cf) (e, r))) ! i = components r ! i"
  "magic r = MAGIC \<Longrightarrow> cf_slot cf < component_count r \<Longrightarrow> component_count r \<le> length (components r)
   \<Longrightarrow> c_read_seq (components (snd (engine_init True True (Some cf) (e, r))) ! cf_slot cf)
         = next_write_seq r"
  "\<forall>i. c_read_seq (components (snd (engine_close locked (e, r))) ! i) = c_read_seq (components r ! i)"
proof -
  show "\<forall>i. i \<noteq> cf_slot cf \<longrightarrow>
     components (snd (engine_init True True (Some cf) (e, r))) ! i = components r ! i"
    by (auto simp: engine_init_def attach_region_def register_reader_def upd_component_def Let_def)
  show "c_read_seq (components (snd (engine_init True True (Some cf) (e, r))) ! cf_slot cf)
         = next_write_seq r"
    if "magic r = MAGIC" "cf_slot cf < component_count r" "component_count r \<le> length (components r)"
    using that by (auto simp: engine_init_def attach_region_def register_reader_def upd_component_def Let_def)
  show "\<forall>i. c_read_seq (components (snd (engine_close locked (e, r))) ! i) = c_read_seq (components r ! i)"
  proof
    fix i
    show "c_read_seq (components (snd (engine_close locked (e, r))) ! i) = c_read_seq (components r ! i)"
      by (cases "se_slot e < length (components r)"; cases "i = se_slot e")
         (auto simp: engine_close_def deregister_reader_def upd_component_def list_update_beyond)
  qed
qed

text \<open>
  \<open>engine_init\<close> of a new engine leaves it attached exactly when it was configured, the segment is a
  bus and the mutex was granted; otherwise the region is untouched. \<open>engine_close\<close> always detaches.
\<close>

lemma engine_init_attached:
  "se_attached (fst (engine_init attached locked conf (new_engine, r)))
     \<longleftrightarrow> conf \<noteq> None \<and> attached \<and> magic r = MAGIC \<and> locked"
  "\<not> se_attached (fst (engine_init attached locked conf (new_engine, r)))
     \<Longrightarrow> snd (engine_init attached locked conf (new_engine, r)) = r"
  "\<not> se_attached (fst (engine_close locked (e, r)))"
  by (auto simp: engine_init_def attach_region_def detach_region_def engine_close_def new_engine_def Let_def split: option.splits)

subsection \<open>The critical sections of write and read\<close>

definition wants_slot :: "nat \<Rightarrow> broadcast_slot \<Rightarrow> bool" where
  "wants_slot slot s =
     ((slot = unat GATEWAY_SLOT \<and> bs_flags s AND DELIVER_TO_GATEWAY \<noteq> 0)
      \<or> (bs_flags s AND DELIVER_TO_COMPONENTS \<noteq> 0 \<and> bs_writer s \<noteq> word_of_nat slot))"

text \<open>Who writes, and with which flags (\<open>engine_send\<close>); \<open>None\<close> is the error return -1.\<close>

definition send_request :: "bool \<Rightarrow> nat \<Rightarrow> u8 list option \<Rightarrow> (u8 list \<times> u16 \<times> u16) option" where
  "send_request attached slot fr =
     (case fr of
        None \<Rightarrow> None
      | Some bs \<Rightarrow>
          if \<not> attached \<or> length bs = 0 then None
          else if slot = unat GATEWAY_SLOT then Some (bs, GATEWAY_WRITER, DELIVER_TO_COMPONENTS)
          else Some (bs, word_of_nat slot, DELIVER_TO_COMPONENTS OR DELIVER_TO_GATEWAY))"

text \<open>\<open>write_slot\<close> between the two semaphores and the posts.\<close>

definition write_body :: "u8 list \<Rightarrow> u16 \<Rightarrow> u16 \<Rightarrow> region \<Rightarrow> region" where
  "write_body bs writer flags r =
     (let seq = next_write_seq r;
          k = seq mod SLOT_COUNT;
          fsz = (if length bs \<le> FRAME_SIZE then length bs else FRAME_SIZE)
      in r\<lparr>next_write_seq := seq_succ seq,
           slots := (slots r)[k := \<lparr>bs_writer = writer, bs_flags = flags, bs_size = fsz,
                                    bs_frame = memcpy_at 0 (take fsz bs) (bs_frame (slots r ! k))\<rparr>]\<rparr>)"

definition least_read_seq_not_me :: "nat \<Rightarrow> region \<Rightarrow> nat" where
  "least_read_seq_not_me slot r =
     fold (\<lambda>i m. if i = slot then m else min m (c_read_seq (components r ! i)))
       [0..<component_count r] (2 ^ 64 - 1)"

text \<open>\<open>read_slot\<close> inside the mutex: the bytes to deliver, if any, and whether the slot is free now.\<close>

definition read_body :: "nat \<Rightarrow> nat \<Rightarrow> region \<Rightarrow> u8 list option \<times> bool \<times> region" where
  "read_body slot sz r =
     (let seq = c_read_seq (components r ! slot);
          r1 = upd_component slot (\<lambda>c. c\<lparr>c_read_seq := seq_succ seq\<rparr>) r;
          s = slots r1 ! (seq mod SLOT_COUNT);
          copy = (if bs_size s \<le> sz then bs_size s else sz)
      in (if wants_slot slot s then Some (take copy (bs_frame s)) else None,
          c_read_seq (components r1 ! slot) \<le> least_read_seq_not_me slot r1,
          r1))"


subsection \<open>The engine as the NIC sees it\<close>

text \<open>
  The parameter \<open>bus\<close> is \<open>write_slot\<close> on the state \<open>'r\<close> of the ring: bytes, writer, flags. The
  theory \<open>Shm_Bus\<close> models it step by step. The engine has no GPS and never drops.
\<close>

record 'r shm_port =
  sp_attached :: bool
  sp_slot :: nat
  sp_ring :: 'r

definition shm_send ::
  "(u8 list \<Rightarrow> u16 \<Rightarrow> u16 \<Rightarrow> 'r \<Rightarrow> int \<times> 'r) \<Rightarrow> u8 list \<Rightarrow> 'r shm_port \<Rightarrow> int \<times> 'r shm_port"
where
  "shm_send bus bs e =
     (case send_request (sp_attached e) (sp_slot e) (Some bs) of
        None \<Rightarrow> (-1, e)
      | Some (fr, wr, fl) \<Rightarrow> (case bus fr wr fl (sp_ring e) of (n, r') \<Rightarrow> (n, e\<lparr>sp_ring := r'\<rparr>)))"

definition shm_should_drop :: "frame \<Rightarrow> mac \<Rightarrow> u8 \<Rightarrow> 'r shm_port \<Rightarrow> bool \<times> 'r shm_port" where
  "shm_should_drop f local origin e = (False, e)"

definition shm_current_quadrant :: "'r shm_port \<Rightarrow> u8 \<times> 'r shm_port" where
  "shm_current_quadrant e = (QUADRANT_NONE, e)"

definition shm_ops :: "(u8 list \<Rightarrow> u16 \<Rightarrow> u16 \<Rightarrow> 'r \<Rightarrow> int \<times> 'r) \<Rightarrow> 'r shm_port engine_ops" where
  "shm_ops bus = \<lparr>eng_send = shm_send bus, eng_should_drop = shm_should_drop,
                  eng_current_quadrant = shm_current_quadrant\<rparr>"

lemma shm_ops_simps [simp]:
  "eng_send (shm_ops bus) = shm_send bus"
  "eng_should_drop (shm_ops bus) f m q e = (False, e)"
  "eng_current_quadrant (shm_ops bus) e = (QUADRANT_NONE, e)"
  by (simp_all add: shm_ops_def shm_should_drop_def shm_current_quadrant_def)

interpretation shm: nic_engine "shm_ops bus"
  by unfold_locales simp

definition shm_address :: mac where
  "shm_address = replicate 6 0"

end
