(* ===== verification/Shm_Bus.thy ===== *)
theory Shm_Bus
  imports Shm_Ring
begin

section \<open>Writers and readers on the shared-memory bus\<close>

text \<open>
  The threads of all processes of a vehicle on one ring: \<open>write_slot\<close> and \<open>read_slot\<close> of
  \<open>shared_memory_engine.cpp\<close> as program counters, one semaphore operation or one critical
  section per step, in any interleaving. Writer threads are numbered; reader \<open>i\<close> is the worker
  thread of the process in slot \<open>i\<close> (slot 0 is the gateway). The bus starts as \<open>create\<close> leaves it,
  and each process joins it once, at any moment. \<open>bus_history\<close> and \<open>bus_delivered\<close>
  record what was written and what each reader's receive callback was given, \<open>bus_late\<close> which
  processes joined after a frame had been written.
\<close>

subsection \<open>Program counters and state\<close>

datatype wpc =
    WIdle
  | WEmpty "u8 list" u16 u16   \<comment> \<open>before \<open>sem_wait(SEM_RING_EMPTY)\<close>\<close>
  | WMutex "u8 list" u16 u16   \<comment> \<open>before \<open>sem_wait(SEM_RING_MUTEX)\<close>\<close>
  | WIn "u8 list" u16 u16      \<comment> \<open>holds the mutex\<close>
  | WPost nat                  \<comment> \<open>holds the mutex, posts the pending counters in order\<close>

datatype rpc =
    RNew                           \<comment> \<open>before \<open>engine_init\<close>: the process has not joined\<close>
  | RHead                          \<comment> \<open>\<open>while (_running_receiver)\<close>\<close>
  | RWait                          \<comment> \<open>before \<open>sem_wait(pending)\<close>\<close>
  | RGot                           \<comment> \<open>before \<open>if (!_running_receiver) return -1\<close>\<close>
  | RGo                            \<comment> \<open>before \<open>sem_wait(SEM_RING_MUTEX)\<close>\<close>
  | RIn                            \<comment> \<open>holds the mutex\<close>
  | ROut "u8 list option" bool     \<comment> \<open>holds the mutex, critical section done\<close>
  | RPost "u8 list option" bool    \<comment> \<open>mutex released\<close>
  | RStop bool                     \<comment> \<open>thread over; the flag: a pending token was consumed\<close>

record bus =
  bus_region :: region
  bus_sems :: "nat list"
  bus_writers :: "wpc list"
  bus_readers :: "rpc list"
  bus_running :: "bool list"
  bus_woken :: "bool list"
  bus_late :: "bool list"
  bus_history :: "broadcast_slot list"
  bus_delivered :: "u8 list list list"

definition writer_step :: "nat \<Rightarrow> bus \<Rightarrow> bus option" where
  "writer_step w b =
     (case bus_writers b ! w of
        WIdle \<Rightarrow> None
      | WEmpty bs wr fl \<Rightarrow>
          map_option (\<lambda>s. b\<lparr>bus_sems := s, bus_writers := (bus_writers b)[w := WMutex bs wr fl]\<rparr>)
            (sem_wait SEM_RING_EMPTY (bus_sems b))
      | WMutex bs wr fl \<Rightarrow>
          map_option (\<lambda>s. b\<lparr>bus_sems := s, bus_writers := (bus_writers b)[w := WIn bs wr fl]\<rparr>)
            (sem_wait SEM_RING_MUTEX (bus_sems b))
      | WIn bs wr fl \<Rightarrow>
          Some (b\<lparr>bus_region := write_body bs wr fl (bus_region b),
                  bus_writers := (bus_writers b)[w := WPost 0],
                  bus_history := bus_history b @
                    [\<lparr>bs_writer = wr, bs_flags = fl, bs_size = min (length bs) FRAME_SIZE,
                      bs_frame = take FRAME_SIZE bs\<rparr>]\<rparr>)
      | WPost i \<Rightarrow>
          (if i < component_count (bus_region b)
           then Some (b\<lparr>bus_sems := sem_post (pending_sem_index i) (bus_sems b),
                        bus_writers := (bus_writers b)[w := WPost (i + 1)]\<rparr>)
           else Some (b\<lparr>bus_sems := sem_post SEM_RING_MUTEX (bus_sems b),
                        bus_writers := (bus_writers b)[w := WIdle]\<rparr>)))"

definition to_reader :: "nat \<Rightarrow> rpc \<Rightarrow> bus \<Rightarrow> bus" where
  "to_reader i pc b = b\<lparr>bus_readers := (bus_readers b)[i := pc]\<rparr>"

definition reader_step :: "nat \<Rightarrow> bus \<Rightarrow> bus option" where
  "reader_step i b =
     (case bus_readers b ! i of
        RNew \<Rightarrow> None
      | RHead \<Rightarrow> Some (to_reader i (if bus_running b ! i then RWait else RStop False) b)
      | RWait \<Rightarrow>
          map_option (\<lambda>s. to_reader i RGot (b\<lparr>bus_sems := s\<rparr>))
            (sem_wait (pending_sem_index i) (bus_sems b))
      | RGot \<Rightarrow> Some (to_reader i (if bus_running b ! i then RGo else RStop True) b)
      | RGo \<Rightarrow>
          map_option (\<lambda>s. to_reader i RIn (b\<lparr>bus_sems := s\<rparr>)) (sem_wait SEM_RING_MUTEX (bus_sems b))
      | RIn \<Rightarrow>
          (case read_body i FRAME_SIZE (bus_region b) of
             (d, freed, r) \<Rightarrow> Some (to_reader i (ROut d freed) (b\<lparr>bus_region := r\<rparr>)))
      | ROut d freed \<Rightarrow>
          Some (to_reader i (RPost d freed) (b\<lparr>bus_sems := sem_post SEM_RING_MUTEX (bus_sems b)\<rparr>))
      | RPost d freed \<Rightarrow>
          (let b1 = (if freed then b\<lparr>bus_sems := sem_post SEM_RING_EMPTY (bus_sems b)\<rparr> else b) in
           case d of
             None \<Rightarrow> Some (to_reader i RWait b1)
           | Some bs \<Rightarrow>
               Some (to_reader i RHead
                 (b1\<lparr>bus_delivered := (bus_delivered b)[i := bus_delivered b ! i @ [bs]]\<rparr>)))
      | RStop _ \<Rightarrow> None)"

text \<open>
  \<open>Send w slot bytes\<close>: thread \<open>w\<close> of the process in \<open>slot\<close> enters \<open>engine_send\<close>. \<open>Close\<close> and
  \<open>Wake\<close> are the first two statements of \<open>engine_close\<close>; \<open>Join\<close> is the critical section of
  \<open>engine_init\<close> (the mutex must be free) and the start of the worker thread.
\<close>

datatype label =
    Send nat nat "u8 list"
  | Writer nat
  | Reader nat
  | Close nat
  | Wake nat
  | Join nat

definition bus_step :: "label \<Rightarrow> bus \<Rightarrow> bus option" where
  "bus_step l b =
     (case l of
        Send w slot bs \<Rightarrow>
          (if w < length (bus_writers b) \<and> bus_writers b ! w = WIdle
           then case send_request True slot (Some bs) of
                  None \<Rightarrow> Some b
                | Some (fr, wr, fl) \<Rightarrow> Some (b\<lparr>bus_writers := (bus_writers b)[w := WEmpty fr wr fl]\<rparr>)
           else None)
      | Writer w \<Rightarrow> (if w < length (bus_writers b) then writer_step w b else None)
      | Reader i \<Rightarrow> (if i < length (bus_readers b) then reader_step i b else None)
      | Close i \<Rightarrow>
          (if i < length (bus_readers b) then Some (b\<lparr>bus_running := (bus_running b)[i := False]\<rparr>) else None)
      | Wake i \<Rightarrow>
          (if i < length (bus_readers b) \<and> \<not> bus_running b ! i \<and> \<not> bus_woken b ! i
           then Some (b\<lparr>bus_sems := sem_post (pending_sem_index i) (bus_sems b),
                        bus_woken := (bus_woken b)[i := True]\<rparr>)
           else None)
      | Join i \<Rightarrow>
          (if i < length (bus_readers b) \<and> bus_readers b ! i = RNew \<and> 0 < bus_sems b ! SEM_RING_MUTEX
           then Some (b\<lparr>bus_region := register_reader i (bus_region b),
                        bus_readers := (bus_readers b)[i := RHead],
                        bus_late := (bus_late b)[i := next_write_seq (bus_region b) \<noteq> 0]\<rparr>)
           else None))"

primrec bus_run :: "label list \<Rightarrow> bus \<Rightarrow> bus option" where
  "bus_run [] b = Some b"
| "bus_run (l # ls) b = (case bus_step l b of None \<Rightarrow> None | Some b' \<Rightarrow> bus_run ls b')"

text \<open>The bus as \<open>create\<close> leaves it: a zeroed ring, no process registered, no thread started.\<close>

definition bus_start :: "u16 list \<Rightarrow> nat \<Rightarrow> bus" where
  "bus_start ports writers =
     (let n = length ports + 1 in
      \<lparr>bus_region = init_region ports (length ports),
       bus_sems = [1, SLOT_COUNT] @ replicate n 0,
       bus_writers = replicate writers WIdle, bus_readers = replicate n RNew,
       bus_running = replicate n True, bus_woken = replicate n False, bus_late = replicate n False,
       bus_history = [], bus_delivered = replicate n []\<rparr>)"

subsection \<open>The invariant\<close>

text \<open>
  \<open>mutex_ok\<close>: one token between the semaphore and the critical sections. \<open>pending_ok\<close>: a
  reader's counter is what it has not read, less what a writer has still to post.
  \<open>empty_ok\<close>: free slots, plus tokens on their way, plus unread frames make up the ring, or fall
  short of it once a process has joined late. What concerns a reader holds unless it was late.
\<close>

abbreviation nreaders :: "bus \<Rightarrow> nat" where
  "nreaders b \<equiv> length (bus_readers b)"

abbreviation next_seq :: "bus \<Rightarrow> nat" where
  "next_seq b \<equiv> next_write_seq (bus_region b)"

abbreviation rseq :: "bus \<Rightarrow> nat \<Rightarrow> nat" where
  "rseq b i \<equiv> c_read_seq (components (bus_region b) ! i)"

definition low :: "nat \<Rightarrow> region \<Rightarrow> nat" where
  "low n r = Min ((\<lambda>i. c_read_seq (components r ! i)) ` {..<n})"

fun wcs :: "wpc \<Rightarrow> bool" where
  "wcs (WIn _ _ _) = True" | "wcs (WPost _) = True" | "wcs _ = False"

fun holds_empty :: "wpc \<Rightarrow> bool" where
  "holds_empty (WMutex _ _ _) = True" | "holds_empty (WIn _ _ _) = True" | "holds_empty _ = False"

fun behind :: "nat \<Rightarrow> wpc \<Rightarrow> bool" where
  "behind i (WPost k) = (k \<le> i)" | "behind i _ = False"

fun rcs :: "rpc \<Rightarrow> bool" where
  "rcs RIn = True" | "rcs (ROut _ _) = True" | "rcs _ = False"

fun owes_empty :: "rpc \<Rightarrow> bool" where
  "owes_empty (ROut _ f) = f" | "owes_empty (RPost _ f) = f" | "owes_empty _ = False"

fun got :: "rpc \<Rightarrow> bool" where
  "got RGot = True" | "got RGo = True" | "got RIn = True" | "got (RStop t) = t" | "got _ = False"

fun committed :: "rpc \<Rightarrow> bool" where
  "committed RGo = True" | "committed RIn = True" | "committed _ = False"

fun carried :: "rpc \<Rightarrow> u8 list list" where
  "carried (ROut (Some d) _) = [d]" | "carried (RPost (Some d) _) = [d]" | "carried _ = []"

definition shape_ok :: "bus \<Rightarrow> bool" where
  "shape_ok b \<longleftrightarrow> 0 < nreaders b \<and> nreaders b \<le> MAX_COMPONENTS
     \<and> component_count (bus_region b) = nreaders b
     \<and> length (components (bus_region b)) = MAX_COMPONENTS
     \<and> length (slots (bus_region b)) = SLOT_COUNT
     \<and> (\<forall>s \<in> set (slots (bus_region b)). length (bs_frame s) = FRAME_SIZE)
     \<and> length (bus_sems b) = nreaders b + 2
     \<and> length (bus_running b) = nreaders b \<and> length (bus_woken b) = nreaders b
     \<and> length (bus_late b) = nreaders b
     \<and> length (bus_delivered b) = nreaders b"

definition mutex_ok :: "bus \<Rightarrow> bool" where
  "mutex_ok b \<longleftrightarrow> int (bus_sems b ! 0) + cnt wcs (bus_writers b) + cnt rcs (bus_readers b) = 1"

definition on_time :: "nat \<Rightarrow> bus \<Rightarrow> bool" where
  "on_time i b \<longleftrightarrow> i < nreaders b \<and> \<not> bus_late b ! i"

definition all_on_time :: "bus \<Rightarrow> bool" where
  "all_on_time b \<longleftrightarrow> (\<forall>i < nreaders b. \<not> bus_late b ! i)"

definition pending_ok :: "bus \<Rightarrow> bool" where
  "pending_ok b \<longleftrightarrow> (\<forall>i. on_time i b \<longrightarrow>
     int (bus_sems b ! (i + 2)) + of_bool (got (bus_readers b ! i)) + cnt (behind i) (bus_writers b)
       = int (next_seq b) - int (rseq b i) + of_bool (bus_woken b ! i))"

definition empty_tokens :: "bus \<Rightarrow> int" where
  "empty_tokens b = int (bus_sems b ! 1) + cnt holds_empty (bus_writers b) + cnt owes_empty (bus_readers b)
     + int (next_seq b) - int (low (nreaders b) (bus_region b))"

definition empty_ok :: "bus \<Rightarrow> bool" where
  "empty_ok b \<longleftrightarrow> empty_tokens b \<le> int SLOT_COUNT \<and> (all_on_time b \<longrightarrow> empty_tokens b = int SLOT_COUNT)"

definition order_ok :: "bus \<Rightarrow> bool" where
  "order_ok b \<longleftrightarrow> (\<forall>i < nreaders b.
       (bus_woken b ! i \<longrightarrow> \<not> bus_running b ! i) \<and> (bus_readers b ! i = RNew \<longrightarrow> \<not> bus_late b ! i))
     \<and> (\<forall>i. on_time i b \<longrightarrow> rseq b i \<le> next_seq b
     \<and> (committed (bus_readers b ! i) \<longrightarrow> rseq b i < next_seq b))"

definition slot_holds :: "broadcast_slot \<Rightarrow> broadcast_slot \<Rightarrow> bool" where
  "slot_holds s h \<longleftrightarrow> bs_writer s = bs_writer h \<and> bs_flags s = bs_flags h \<and> bs_size s = bs_size h
     \<and> take (bs_size s) (bs_frame s) = bs_frame h \<and> bs_size h \<le> FRAME_SIZE"

definition ring_ok :: "bus \<Rightarrow> bool" where
  "ring_ok b \<longleftrightarrow> next_seq b = length (bus_history b) \<and> (\<forall>i. on_time i b \<longrightarrow> (\<forall>q. rseq b i \<le> q \<and> q < next_seq b \<longrightarrow>
     slot_holds (slots (bus_region b) ! (q mod SLOT_COUNT)) (bus_history b ! q)))"

definition delivered_ok :: "bus \<Rightarrow> bool" where
  "delivered_ok b \<longleftrightarrow> (\<forall>i. on_time i b \<longrightarrow>
     bus_delivered b ! i @ carried (bus_readers b ! i)
       = map bs_frame (filter (wants_slot i) (take (rseq b i) (bus_history b))))"

definition bus_inv :: "bus \<Rightarrow> bool" where
  "bus_inv b \<longleftrightarrow> shape_ok b \<and> mutex_ok b \<and> pending_ok b \<and> empty_ok b \<and> order_ok b
     \<and> ring_ok b \<and> delivered_ok b"

lemmas sem_simps = SEM_RING_MUTEX_def SEM_RING_EMPTY_def SEM_PENDING_BASE_def pending_sem_index_def
  sem_wait_def sem_post_def

lemma low_le: "i < n \<Longrightarrow> low n r \<le> c_read_seq (components r ! i)"
  by (auto simp: low_def)

lemma low_ex: "0 < n \<Longrightarrow> \<exists>i < n. c_read_seq (components r ! i) = low n r"
proof -
  assume "0 < n"
  then have "low n r \<in> (\<lambda>i. c_read_seq (components r ! i)) ` {..<n}"
    unfolding low_def by (intro Min_in) auto
  then show ?thesis by auto
qed

lemma low_eqI: "0 < n \<Longrightarrow> (\<exists>i < n. c_read_seq (components r ! i) = m)
   \<Longrightarrow> (\<And>i. i < n \<Longrightarrow> m \<le> c_read_seq (components r ! i)) \<Longrightarrow> low n r = m"
  unfolding low_def by (rule Min_eqI) auto

lemma least_not_me:
  "(m \<le> least_read_seq_not_me slot r) =
     (m \<le> 2 ^ 64 - 1 \<and> (\<forall>i < component_count r. i \<noteq> slot \<longrightarrow> m \<le> c_read_seq (components r ! i)))"
proof -
  have "(m \<le> fold (\<lambda>i m. if i = slot then m else min m (c_read_seq (components r ! i))) xs k)
      = (m \<le> k \<and> (\<forall>i \<in> set xs. i \<noteq> slot \<longrightarrow> m \<le> c_read_seq (components r ! i)))" for xs k
    by (induction xs arbitrary: k) auto
  then show ?thesis by (auto simp: least_read_seq_not_me_def)
qed

text \<open>Advancing one reader moves the lowest position exactly when the code says the slot is free.\<close>

lemma low_advance:
  assumes i: "i < n" and n: "n = component_count r" "n \<le> length (components r)"
    and big: "c_read_seq (components r ! i) + 1 < 2 ^ 64"
    and r1: "r1 = upd_component i (\<lambda>c. c\<lparr>c_read_seq := seq_succ (c_read_seq (components r ! i))\<rparr>) r"
  shows "low n r1 = low n r + of_bool (c_read_seq (components r1 ! i) \<le> least_read_seq_not_me i r1)"
proof -
  let ?f = "\<lambda>j. c_read_seq (components r ! j)"
  have up: "c_read_seq (components r1 ! j) = (if j = i then ?f i + 1 else ?f j)" if "j < n" for j
    using that i n big by (simp add: r1 upd_component_def seq_succ_def nth_list_update)
  have cc: "component_count r1 = n" using n by (simp add: r1 upd_component_def)
  obtain k where k: "k < n" "?f k = low n r" using low_ex [of n r] i by auto
  have le: "low n r \<le> ?f j" if "j < n" for j using low_le [OF that] .
  have c: "(c_read_seq (components r1 ! i) \<le> least_read_seq_not_me i r1)
      = (\<forall>j < n. j \<noteq> i \<longrightarrow> ?f i + 1 \<le> ?f j)"
    unfolding least_not_me cc using up i big by auto
  show ?thesis
  proof (cases "\<forall>j < n. j \<noteq> i \<longrightarrow> ?f i + 1 \<le> ?f j")
    case True
    then have m: "low n r = ?f i" using k le [OF i] by fastforce
    have "low n r1 = ?f i + 1"
    proof (rule low_eqI)
      show "\<exists>j < n. c_read_seq (components r1 ! j) = ?f i + 1" using up i by auto
      show "?f i + 1 \<le> c_read_seq (components r1 ! j)" if "j < n" for j using up [OF that] True that by auto
    qed (use i in simp)
    then show ?thesis using c True m by simp
  next
    case False
    then obtain j where j: "j < n" "j \<noteq> i" "?f j \<le> ?f i" by auto
    have "low n r1 = low n r"
    proof (rule low_eqI)
      show "\<exists>j < n. c_read_seq (components r1 ! j) = low n r"
      proof (cases "k = i")
        case True
        then have "?f j = low n r" using j k le [OF j(1)] by simp
        then show ?thesis using up [OF j(1)] j by auto
      next
        case False
        then show ?thesis using up k by auto
      qed
      show "low n r \<le> c_read_seq (components r1 ! j)" if "j < n" for j
        using up [OF that] le [OF that] by auto
    qed (use i in simp)
    then show ?thesis using c False by simp
  qed
qed


lemma on_time_kept [simp]:
  "on_time i (b\<lparr>bus_region := r\<rparr>) = on_time i b" "on_time i (b\<lparr>bus_sems := s\<rparr>) = on_time i b"
  "on_time i (b\<lparr>bus_writers := ws\<rparr>) = on_time i b" "on_time i (b\<lparr>bus_running := bs\<rparr>) = on_time i b"
  "on_time i (b\<lparr>bus_woken := bs\<rparr>) = on_time i b" "on_time i (b\<lparr>bus_history := hs\<rparr>) = on_time i b"
  "on_time i (b\<lparr>bus_delivered := ds\<rparr>) = on_time i b"
  "length rs = nreaders b \<Longrightarrow> on_time i (b\<lparr>bus_readers := rs\<rparr>) = on_time i b"
  by (simp_all add: on_time_def)

lemma all_on_time_kept [simp]:
  "all_on_time (b\<lparr>bus_region := r\<rparr>) = all_on_time b" "all_on_time (b\<lparr>bus_sems := s\<rparr>) = all_on_time b"
  "all_on_time (b\<lparr>bus_writers := ws\<rparr>) = all_on_time b" "all_on_time (b\<lparr>bus_running := bs\<rparr>) = all_on_time b"
  "all_on_time (b\<lparr>bus_woken := bs\<rparr>) = all_on_time b" "all_on_time (b\<lparr>bus_history := hs\<rparr>) = all_on_time b"
  "all_on_time (b\<lparr>bus_delivered := ds\<rparr>) = all_on_time b"
  "length rs = nreaders b \<Longrightarrow> all_on_time (b\<lparr>bus_readers := rs\<rparr>) = all_on_time b"
  by (simp_all add: all_on_time_def)

lemma on_time_reader: "on_time i b \<Longrightarrow> i < nreaders b"
  by (simp add: on_time_def)

lemma untouched [simp]:
  "order_ok (b\<lparr>bus_sems := s\<rparr>) = order_ok b" "order_ok (b\<lparr>bus_writers := ws\<rparr>) = order_ok b"
  "ring_ok (b\<lparr>bus_sems := s\<rparr>) = ring_ok b" "ring_ok (b\<lparr>bus_writers := ws\<rparr>) = ring_ok b"
  "ring_ok (b\<lparr>bus_running := rs\<rparr>) = ring_ok b" "ring_ok (b\<lparr>bus_woken := rs\<rparr>) = ring_ok b"
  "ring_ok (b\<lparr>bus_delivered := ds\<rparr>) = ring_ok b"
  "delivered_ok (b\<lparr>bus_sems := s\<rparr>) = delivered_ok b"
  "delivered_ok (b\<lparr>bus_writers := ws\<rparr>) = delivered_ok b"
  "delivered_ok (b\<lparr>bus_running := rs\<rparr>) = delivered_ok b"
  "delivered_ok (b\<lparr>bus_woken := rs\<rparr>) = delivered_ok b"
  "shape_ok (b\<lparr>bus_writers := ws\<rparr>) = shape_ok b"
  "length s = length (bus_sems b) \<Longrightarrow> shape_ok (b\<lparr>bus_sems := s\<rparr>) = shape_ok b"
  by (simp_all add: order_ok_def ring_ok_def delivered_ok_def shape_ok_def)

lemma shape_sems: "shape_ok b \<Longrightarrow> length (bus_sems b) = nreaders b + 2"
  and shape_count: "shape_ok b \<Longrightarrow> component_count (bus_region b) = nreaders b"
  and shape_pos: "shape_ok b \<Longrightarrow> 0 < nreaders b"
  by (simp_all add: shape_ok_def)

lemma pending_at: "bus_inv b \<Longrightarrow> on_time i b \<Longrightarrow>
     int (bus_sems b ! (i + 2)) + of_bool (got (bus_readers b ! i)) + cnt (behind i) (bus_writers b)
       = int (next_seq b) - int (rseq b i) + of_bool (bus_woken b ! i)"
  by (simp add: bus_inv_def pending_ok_def)

lemma empty_same: "bus_inv b \<Longrightarrow> empty_tokens b' = empty_tokens b \<Longrightarrow> all_on_time b' = all_on_time b \<Longrightarrow> empty_ok b'"
  by (simp add: bus_inv_def empty_ok_def)

lemmas counters = mutex_ok_def pending_ok_def empty_ok_def empty_tokens_def

lemma wpost_updates:
  assumes w: "w < length (bus_writers b)" and pc: "bus_writers b ! w = WPost k"
    and inv: "bus_inv b" and st: "writer_step w b = Some b'"
  shows "bus_inv b'"
proof (cases "k < component_count (bus_region b)")
  case True
  have sh: "shape_ok b" using inv by (simp add: bus_inv_def)
  have b': "b' = b\<lparr>bus_sems := sem_post (pending_sem_index k) (bus_sems b),
                   bus_writers := (bus_writers b)[w := WPost (k + 1)]\<rparr>"
    using st pc True by (simp add: writer_step_def)
  have k: "k < nreaders b" using True sh by (simp add: shape_ok_def)
  have "pending_ok b'" unfolding pending_ok_def
  proof (intro allI impI)
    fix i assume "on_time i b'"
    then have o: "on_time i b" by (simp add: b')
    then have i: "i < nreaders b" by (simp add: on_time_def)
    consider "i = k" | "i < k" | "k < i" by linarith
    then show "int (bus_sems b' ! (i + 2)) + of_bool (got (bus_readers b' ! i)) + cnt (behind i) (bus_writers b')
       = int (next_seq b') - int (rseq b' i) + of_bool (bus_woken b' ! i)"
      by cases (use pending_at [OF inv o] i w pc shape_sems [OF sh] in \<open>simp_all add: b' sem_simps\<close>)
  qed
  then show ?thesis
    using inv k w pc shape_sems [OF sh] by (simp add: bus_inv_def counters b' sem_simps)
next
  case False
  have sh: "shape_ok b" using inv by (simp add: bus_inv_def)
  have b': "b' = b\<lparr>bus_sems := sem_post SEM_RING_MUTEX (bus_sems b),
                   bus_writers := (bus_writers b)[w := WIdle]\<rparr>"
    using st pc False by (simp add: writer_step_def)
  have "\<not> k < nreaders b" using False sh by (simp add: shape_ok_def)
  then have nb: "\<not> k \<le> i" if "on_time i b" for i using on_time_reader [OF that] by simp
  have "pending_ok b'" unfolding pending_ok_def
  proof (intro allI impI)
    fix i assume "on_time i b'"
    then have o: "on_time i b" by (simp add: b')
    show "int (bus_sems b' ! (i + 2)) + of_bool (got (bus_readers b' ! i)) + cnt (behind i) (bus_writers b')
       = int (next_seq b') - int (rseq b' i) + of_bool (bus_woken b' ! i)"
      using pending_at [OF inv o] nb [OF o] w pc shape_sems [OF sh] by (simp add: b' sem_simps)
  qed
  then show ?thesis
    using inv w pc shape_sems [OF sh]
    by (simp add: bus_inv_def mutex_ok_def empty_ok_def empty_tokens_def b' sem_simps)
qed

lemma wwait_updates:
  assumes w: "w < length (bus_writers b)"
    and pc: "bus_writers b ! w = WEmpty bs wr fl \<or> bus_writers b ! w = WMutex bs wr fl"
    and inv: "bus_inv b" and st: "writer_step w b = Some b'"
  shows "bus_inv b'"
proof -
  have sh: "shape_ok b" using inv by (simp add: bus_inv_def)
  consider "bus_writers b ! w = WEmpty bs wr fl" | "bus_writers b ! w = WMutex bs wr fl" using pc by blast
  then show ?thesis
  proof cases
    case 1
    then have e: "0 < bus_sems b ! 1" and b': "b' = b\<lparr>bus_sems := (bus_sems b)[1 := bus_sems b ! 1 - 1],
        bus_writers := (bus_writers b)[w := WMutex bs wr fl]\<rparr>"
      using st by (auto simp: writer_step_def sem_simps split: if_splits)
    then show ?thesis
      using inv w 1 shape_sems [OF sh] by (simp add: bus_inv_def counters b' of_nat_diff)
  next
    case 2
    then have e: "0 < bus_sems b ! 0" and b': "b' = b\<lparr>bus_sems := (bus_sems b)[0 := bus_sems b ! 0 - 1],
        bus_writers := (bus_writers b)[w := WIn bs wr fl]\<rparr>"
      using st by (auto simp: writer_step_def sem_simps split: if_splits)
    then show ?thesis
      using inv w 2 shape_sems [OF sh] by (simp add: bus_inv_def counters b' of_nat_diff)
  qed
qed


lemma window:
  assumes "bus_inv b" and "i < nreaders b"
  shows "int (bus_sems b ! 1) + cnt holds_empty (bus_writers b) + cnt owes_empty (bus_readers b)
       + int (next_seq b) \<le> int SLOT_COUNT + int (rseq b i)"
proof -
  have "empty_tokens b \<le> int SLOT_COUNT" using assms(1) by (simp add: bus_inv_def empty_ok_def)
  then show ?thesis using low_le [OF assms(2), of "bus_region b"] unfolding empty_tokens_def by linarith
qed

lemma win_updates:
  assumes w: "w < length (bus_writers b)" and pc: "bus_writers b ! w = WIn bs wr fl"
    and inv: "bus_inv b" and st: "writer_step w b = Some b'" and small: "next_seq b + 1 < 2 ^ 64"
  shows "bus_inv b'"
proof -
  define h where "h = \<lparr>bs_writer = wr, bs_flags = fl, bs_size = min (length bs) FRAME_SIZE,
                      bs_frame = take FRAME_SIZE bs\<rparr>"
  define r where "r = write_body bs wr fl (bus_region b)"
  have b': "b' = b\<lparr>bus_region := r, bus_writers := (bus_writers b)[w := WPost 0],
                   bus_history := bus_history b @ [h]\<rparr>"
    using st pc by (simp add: writer_step_def h_def r_def)
  have sh: "shape_ok b" and hist: "next_seq b = length (bus_history b)"
    and old: "\<forall>i. on_time i b \<longrightarrow> (\<forall>q. rseq b i \<le> q \<and> q < next_seq b \<longrightarrow>
          slot_holds (slots (bus_region b) ! (q mod SLOT_COUNT)) (bus_history b ! q))"
    using inv by (simp_all add: bus_inv_def ring_ok_def)
  have ord: "\<forall>i. on_time i b \<longrightarrow> rseq b i \<le> next_seq b" using inv by (simp add: bus_inv_def order_ok_def)
  let ?k = "next_seq b mod SLOT_COUNT"
  have k: "?k < length (slots (bus_region b))" using sh by (simp add: shape_ok_def SLOT_COUNT_def)
  have fr: "length (bs_frame (slots (bus_region b) ! ?k)) = FRAME_SIZE"
    using sh nth_mem [OF k] by (simp add: shape_ok_def)
  have r: "components r = components (bus_region b)" "component_count r = component_count (bus_region b)"
    "next_write_seq r = next_seq b + 1" "length (slots r) = length (slots (bus_region b))"
    "\<And>j. j \<noteq> ?k \<Longrightarrow> slots r ! j = slots (bus_region b) ! j"
    using small by (simp_all add: r_def write_body_def Let_def seq_succ_def)
  have slot: "slot_holds (slots r ! ?k) h" and frk: "length (bs_frame (slots r ! ?k)) = FRAME_SIZE"
    using k fr by (auto simp: r_def write_body_def Let_def slot_holds_def h_def memcpy_at_def)
  have frs: "\<forall>s \<in> set (slots r). length (bs_frame s) = FRAME_SIZE"
  proof
    fix s assume "s \<in> set (slots r)"
    then obtain j where "j < length (slots r)" "s = slots r ! j" by (auto simp: in_set_conv_nth)
    then show "length (bs_frame s) = FRAME_SIZE"
      using frk r(4) r(5) [of j] sh nth_mem [of j "slots (bus_region b)"] by (cases "j = ?k") (auto simp: shape_ok_def)
  qed
  have shape: "shape_ok b'" using sh frs r by (simp add: shape_ok_def b')
  have low: "low n r = low n (bus_region b)" for n by (simp add: low_def r(1))
  have "mutex_ok b'" using inv w pc by (simp add: bus_inv_def mutex_ok_def b')
  moreover have "empty_ok b'"
    by (rule empty_same [OF inv]) (use w pc in \<open>simp_all add: empty_tokens_def b' r low\<close>)
  ultimately have cs: "mutex_ok b'" "empty_ok b'" by simp_all
  have pend: "pending_ok b'" unfolding pending_ok_def
  proof (intro allI impI)
    fix i assume "on_time i b'"
    then have o: "on_time i b" by (simp add: b')
    then have i: "i < nreaders b" by (simp add: on_time_def)
    show "int (bus_sems b' ! (i + 2)) + of_bool (got (bus_readers b' ! i)) + cnt (behind i) (bus_writers b')
       = int (next_seq b') - int (rseq b' i) + of_bool (bus_woken b' ! i)"
      using pending_at [OF inv o] i w pc by (simp add: b' r)
  qed
  have "order_ok b'" using inv by (auto simp: bus_inv_def order_ok_def b' r)
  moreover have "delivered_ok b'" using inv ord hist by (simp add: bus_inv_def delivered_ok_def b' r)
  moreover have "ring_ok b'" unfolding ring_ok_def
  proof (intro conjI allI impI)
    show "next_seq b' = length (bus_history b')" using hist by (simp add: b' r)
    fix i q assume i': "on_time i b'" and q: "rseq b' i \<le> q \<and> q < next_seq b'"
    have o: "on_time i b" using i' by (simp add: b')
    then have i: "i < nreaders b" by (rule on_time_reader)
    have win: "next_seq b < rseq b i + SLOT_COUNT"
    proof -
      have "1 \<le> cnt holds_empty (bus_writers b)" by (rule cnt_pos [OF w]) (simp add: pc)
      then show ?thesis using window [OF inv i] cnt_nonneg [of owes_empty "bus_readers b"] by linarith
    qed
    show "slot_holds (slots (bus_region b') ! (q mod SLOT_COUNT)) (bus_history b' ! q)"
    proof (cases "q = next_seq b")
      case True
      then show ?thesis using slot hist by (simp add: b')
    next
      case False
      then have qn: "q < next_seq b" using q by (simp add: b' r)
      then have "q mod SLOT_COUNT \<noteq> ?k" using q win by (intro mod_neq_within) (simp_all add: b' r)
      then show ?thesis using old o q qn hist r(5) by (simp add: b' r(1) nth_append)
    qed
  qed
  ultimately show ?thesis using shape cs pend by (simp add: bus_inv_def)
qed

lemma writer_step_inv:
  assumes w: "w < length (bus_writers b)" and inv: "bus_inv b" and st: "writer_step w b = Some b'"
    and small: "next_seq b + 1 < 2 ^ 64"
  shows "bus_inv b'"
proof (cases "bus_writers b ! w")
  case WIdle
  then show ?thesis using st by (simp add: writer_step_def)
next
  case (WEmpty bs wr fl)
  then show ?thesis using wwait_updates [OF w _ inv st] by blast
next
  case (WMutex bs wr fl)
  then show ?thesis using wwait_updates [OF w _ inv st] by blast
next
  case (WIn bs wr fl)
  then show ?thesis by (rule win_updates [OF w _ inv st small])
next
  case (WPost k)
  then show ?thesis by (rule wpost_updates [OF w _ inv st])
qed


lemma reader_update:
  assumes inv: "bus_inv b" and i: "i < nreaders b"
    and len: "length s = length (bus_sems b)" "length ds = nreaders b"
    and carry: "ds ! i @ carried pc = bus_delivered b ! i @ carried (bus_readers b ! i)"
      "\<And>j. j \<noteq> i \<Longrightarrow> ds ! j = bus_delivered b ! j"
    and com: "committed pc \<Longrightarrow> on_time i b \<Longrightarrow> rseq b i < next_seq b" and new: "pc \<noteq> RNew"
    and mtx: "int (s ! 0) + of_bool (rcs pc) = int (bus_sems b ! 0) + of_bool (rcs (bus_readers b ! i))"
    and emp: "int (s ! 1) + of_bool (owes_empty pc)
                = int (bus_sems b ! 1) + of_bool (owes_empty (bus_readers b ! i))"
    and own: "int (s ! (i + 2)) + of_bool (got pc)
                = int (bus_sems b ! (i + 2)) + of_bool (got (bus_readers b ! i))"
    and others: "\<And>j. j \<noteq> i \<Longrightarrow> s ! (j + 2) = bus_sems b ! (j + 2)"
  shows "bus_inv (to_reader i pc (b\<lparr>bus_sems := s, bus_delivered := ds\<rparr>))" (is "bus_inv ?b")
proof -
  have sh: "shape_ok ?b" using inv len by (simp add: bus_inv_def shape_ok_def to_reader_def)
  have "mutex_ok ?b" using inv i mtx by (simp add: bus_inv_def mutex_ok_def to_reader_def)
  moreover have "empty_ok ?b"
    by (rule empty_same [OF inv]) (use i emp in \<open>simp_all add: empty_tokens_def to_reader_def\<close>)
  moreover have "pending_ok ?b" unfolding pending_ok_def
  proof (intro allI impI)
    fix j assume "on_time j ?b"
    then have o: "on_time j b" by (simp add: to_reader_def)
    then have j: "j < nreaders b" by (simp add: on_time_def)
    show "int (bus_sems ?b ! (j + 2)) + of_bool (got (bus_readers ?b ! j)) + cnt (behind j) (bus_writers ?b)
       = int (next_seq ?b) - int (rseq ?b j) + of_bool (bus_woken ?b ! j)"
      using pending_at [OF inv o] i own others [of j] by (cases "j = i") (simp_all add: to_reader_def)
  qed
  moreover have "order_ok ?b"
    using inv i com new by (auto simp: bus_inv_def order_ok_def to_reader_def nth_list_update)
  moreover have "ring_ok ?b" using inv by (simp add: bus_inv_def ring_ok_def to_reader_def)
  moreover have "delivered_ok ?b" unfolding delivered_ok_def
  proof (intro allI impI)
    fix j assume "on_time j ?b"
    then have o: "on_time j b" by (simp add: to_reader_def)
    then have j: "j < nreaders b" by (simp add: on_time_def)
    have d: "bus_delivered b ! j @ carried (bus_readers b ! j)
       = map bs_frame (filter (wants_slot j) (take (rseq b j) (bus_history b)))"
      using inv o by (simp add: bus_inv_def delivered_ok_def)
    show "bus_delivered ?b ! j @ carried (bus_readers ?b ! j)
       = map bs_frame (filter (wants_slot j) (take (rseq ?b j) (bus_history ?b)))"
      using d carry(1) carry(2) [of j] i by (cases "j = i") (simp_all add: to_reader_def)
  qed
  ultimately show ?thesis using sh by (simp add: bus_inv_def)
qed

lemma to_reader_plain: "to_reader i pc b = to_reader i pc (b\<lparr>bus_sems := bus_sems b, bus_delivered := bus_delivered b\<rparr>)"
  "to_reader i pc (b\<lparr>bus_sems := s\<rparr>) = to_reader i pc (b\<lparr>bus_sems := s, bus_delivered := bus_delivered b\<rparr>)"
  "to_reader i pc (b\<lparr>bus_delivered := ds\<rparr>) = to_reader i pc (b\<lparr>bus_sems := bus_sems b, bus_delivered := ds\<rparr>)"
  by simp_all

lemma got_means_more:
  assumes "bus_inv b" "on_time i b" "bus_readers b ! i = RGot" "bus_running b ! i"
  shows "rseq b i < next_seq b"
proof -
  have "\<not> bus_woken b ! i" using assms by (auto simp: bus_inv_def order_ok_def on_time_def)
  then have "int (bus_sems b ! (i + 2)) + 1 + cnt (behind i) (bus_writers b) = int (next_seq b) - int (rseq b i)"
    using pending_at [OF assms(1,2)] assms(3) by simp
  then show ?thesis using cnt_nonneg [of "behind i" "bus_writers b"] by linarith
qed

lemma shape_delivered: "shape_ok b \<Longrightarrow> length (bus_delivered b) = nreaders b"
  by (simp add: shape_ok_def)

lemma reader_light:
  assumes i: "i < nreaders b" and inv: "bus_inv b" and st: "reader_step i b = Some b'"
    and pc: "bus_readers b ! i \<noteq> RIn"
  shows "bus_inv b'"
proof -
  have sh: "shape_ok b" using inv by (simp add: bus_inv_def)
  show ?thesis
  proof (cases "bus_readers b ! i")
    case RNew
    then show ?thesis using st by (simp add: reader_step_def)
  next
    case RHead
    then have b': "b' = to_reader i (if bus_running b ! i then RWait else RStop False) b"
      using st by (simp add: reader_step_def)
    show ?thesis unfolding b'
      by (subst to_reader_plain(1), rule reader_update [OF inv i])
         (use RHead shape_delivered [OF sh] in \<open>auto split: if_splits\<close>)
  next
    case RWait
    then have p: "0 < bus_sems b ! (i + 2)"
      and b': "b' = to_reader i RGot (b\<lparr>bus_sems := (bus_sems b)[i + 2 := bus_sems b ! (i + 2) - 1]\<rparr>)"
      using st by (auto simp: reader_step_def sem_simps split: if_splits)
    show ?thesis unfolding b'
      by (subst to_reader_plain(2), rule reader_update [OF inv i])
         (use RWait p i shape_delivered [OF sh] shape_sems [OF sh] in \<open>auto simp: of_nat_diff\<close>)
  next
    case RGot
    then have b': "b' = to_reader i (if bus_running b ! i then RGo else RStop True) b"
      using st by (simp add: reader_step_def)
    show ?thesis unfolding b'
      by (subst to_reader_plain(1), rule reader_update [OF inv i])
         (use RGot got_means_more [OF inv _ RGot] shape_delivered [OF sh] in \<open>auto split: if_splits\<close>)
  next
    case RGo
    then have p: "0 < bus_sems b ! 0"
      and b': "b' = to_reader i RIn (b\<lparr>bus_sems := (bus_sems b)[0 := bus_sems b ! 0 - 1]\<rparr>)"
      using st by (auto simp: reader_step_def sem_simps split: if_splits)
    have "on_time i b \<Longrightarrow> rseq b i < next_seq b" using inv RGo by (auto simp: bus_inv_def order_ok_def)
    then show ?thesis unfolding b'
      by (subst to_reader_plain(2), intro reader_update [OF inv i])
         (use RGo p i shape_delivered [OF sh] shape_sems [OF sh] in \<open>auto simp: of_nat_diff\<close>)
  next
    case RIn
    then show ?thesis using pc by simp
  next
    case (ROut d f)
    then have b': "b' = to_reader i (RPost d f) (b\<lparr>bus_sems := (bus_sems b)[0 := bus_sems b ! 0 + 1]\<rparr>)"
      using st by (simp add: reader_step_def sem_simps)
    have "carried (RPost d f) = carried (ROut d f)" by (cases d) simp_all
    then show ?thesis unfolding b'
      by (subst to_reader_plain(2), intro reader_update [OF inv i])
         (use ROut i shape_delivered [OF sh] shape_sems [OF sh] in \<open>auto\<close>)
  next
    case (RPost d f)
    define s where "s = (if f then (bus_sems b)[1 := bus_sems b ! 1 + 1] else bus_sems b)"
    have len: "length s = length (bus_sems b)" and s: "s ! 0 = bus_sems b ! 0"
      "\<And>j. s ! (j + 2) = bus_sems b ! (j + 2)" "int (s ! 1) = int (bus_sems b ! 1) + of_bool f"
      using shape_sems [OF sh] by (simp_all add: s_def)
    show ?thesis
    proof (cases d)
      case None
      then have b': "b' = to_reader i RWait (b\<lparr>bus_sems := s\<rparr>)"
        using st RPost by (cases f) (auto simp: reader_step_def sem_simps s_def)
      show ?thesis unfolding b'
        by (subst to_reader_plain(2), rule reader_update [OF inv i])
           (use RPost None s len shape_delivered [OF sh] in auto)
    next
      case (Some bs)
      then have b': "b' = to_reader i RHead (b\<lparr>bus_sems := s,
            bus_delivered := (bus_delivered b)[i := bus_delivered b ! i @ [bs]]\<rparr>)"
        using st RPost by (cases f) (auto simp: reader_step_def sem_simps s_def Let_def)
      show ?thesis unfolding b'
        by (rule reader_update [OF inv i]) (use RPost Some s len i shape_delivered [OF sh] in auto)
    qed
  next
    case (RStop t)
    then show ?thesis using st by (simp add: reader_step_def)
  qed
qed


lemma read_body_delivers:
  assumes "slot_holds (slots r ! (c_read_seq (components r ! i) mod SLOT_COUNT)) h"
  shows "fst (read_body i FRAME_SIZE r) = (if wants_slot i h then Some (bs_frame h) else None)"
proof -
  let ?s = "slots r ! (c_read_seq (components r ! i) mod SLOT_COUNT)"
  have "wants_slot i ?s = wants_slot i h" using assms by (simp add: slot_holds_def wants_slot_def)
  moreover have "bs_size ?s \<le> FRAME_SIZE" "take (bs_size ?s) (bs_frame ?s) = bs_frame h"
    using assms unfolding slot_holds_def by metis+
  ultimately show ?thesis by (simp add: read_body_def Let_def upd_component_def)
qed

text \<open>\<open>within k\<close> keeps the sequence numbers, a late reader's included, away from their wrap-around.\<close>

definition within :: "nat \<Rightarrow> bus \<Rightarrow> bool" where
  "within k b \<longleftrightarrow> next_seq b \<le> k \<and> (\<forall>i < nreaders b. rseq b i \<le> k)"

lemma rin_updates:
  assumes i: "i < nreaders b" and inv: "bus_inv b" and st: "reader_step i b = Some b'"
    and pc: "bus_readers b ! i = RIn" and k: "within k b" "k + 1 < 2 ^ 64"
  shows "bus_inv b'"
proof -
  have sh: "shape_ok b" using inv by (simp add: bus_inv_def)
  have lt: "rseq b i < next_seq b" if "on_time i b" using inv that pc by (auto simp: bus_inv_def order_ok_def)
  have big: "rseq b i + 1 < 2 ^ 64" using k i unfolding within_def by (meson add_le_mono1 le_less_trans)
  have hist: "next_seq b = length (bus_history b)" using inv by (simp add: bus_inv_def ring_ok_def)
  define h where "h = bus_history b ! rseq b i"
  have holds: "slot_holds (slots (bus_region b) ! (rseq b i mod SLOT_COUNT)) h" if "on_time i b"
    using inv that lt by (simp add: bus_inv_def ring_ok_def h_def)
  define r where "r = upd_component i (\<lambda>c. c\<lparr>c_read_seq := seq_succ (rseq b i)\<rparr>) (bus_region b)"
  define d where "d = fst (read_body i FRAME_SIZE (bus_region b))"
  define freed where "freed = (c_read_seq (components r ! i) \<le> least_read_seq_not_me i r)"
  have d: "d = (if wants_slot i h then Some (bs_frame h) else None)" if "on_time i b"
    using read_body_delivers [OF holds [OF that]] by (simp add: d_def)
  have rb: "read_body i FRAME_SIZE (bus_region b) = (d, freed, r)"
    by (simp add: read_body_def Let_def d_def freed_def r_def)
  have b': "b' = to_reader i (ROut d freed) (b\<lparr>bus_region := r\<rparr>)"
    using st pc rb by (simp add: reader_step_def)
  have n: "component_count (bus_region b) = nreaders b" "nreaders b \<le> length (components (bus_region b))"
    using sh by (simp_all add: shape_ok_def)
  have low: "low (nreaders b) r = low (nreaders b) (bus_region b) + of_bool freed"
    unfolding freed_def by (rule low_advance [OF i n(1) [symmetric] n(2) big r_def])
  have r: "component_count r = component_count (bus_region b)" "slots r = slots (bus_region b)"
    "next_write_seq r = next_seq b" "length (components r) = length (components (bus_region b))"
    by (simp_all add: r_def upd_component_def)
  have rs: "c_read_seq (components r ! j) = (if j = i then rseq b i + 1 else rseq b j)" if "j < nreaders b" for j
    using that i n(2) big by (simp add: r_def upd_component_def seq_succ_def nth_list_update)
  have shape: "shape_ok b'" using sh by (simp add: shape_ok_def b' to_reader_def r)
  have "mutex_ok b'" using inv i pc by (simp add: bus_inv_def mutex_ok_def b' to_reader_def)
  moreover have "empty_ok b'"
    by (rule empty_same [OF inv]) (use i pc low in \<open>simp_all add: empty_tokens_def b' to_reader_def r\<close>)
  ultimately have ctr: "mutex_ok b'" "empty_ok b'" by simp_all
  have pend: "pending_ok b'" unfolding pending_ok_def
  proof (intro allI impI)
    fix j assume "on_time j b'"
    then have o: "on_time j b" by (simp add: b' to_reader_def)
    then have j: "j < nreaders b" by (simp add: on_time_def)
    show "int (bus_sems b' ! (j + 2)) + of_bool (got (bus_readers b' ! j)) + cnt (behind j) (bus_writers b')
       = int (next_seq b') - int (rseq b' j) + of_bool (bus_woken b' ! j)"
      using pending_at [OF inv o] rs [OF j] pc i by (cases "j = i") (simp_all add: b' to_reader_def r)
  qed
  have ord: "order_ok b'"
    using inv i lt rs on_time_reader [of _ b]
    by (auto simp: bus_inv_def order_ok_def b' to_reader_def r nth_list_update)
  have ring: "ring_ok b'"
    using inv i rs hist on_time_reader [of _ b] by (auto simp: bus_inv_def ring_ok_def b' to_reader_def r)
  have del: "delivered_ok b'" unfolding delivered_ok_def
  proof (intro allI impI)
    fix j assume "on_time j b'"
    then have o: "on_time j b" by (simp add: b' to_reader_def)
    then have j: "j < nreaders b" by (simp add: on_time_def)
    have old: "bus_delivered b ! j @ carried (bus_readers b ! j)
       = map bs_frame (filter (wants_slot j) (take (rseq b j) (bus_history b)))"
      using inv o by (simp add: bus_inv_def delivered_ok_def)
    have "take (rseq b i + 1) (bus_history b) = take (rseq b i) (bus_history b) @ [h]" if "on_time i b"
      using lt [OF that] hist by (simp add: h_def take_Suc_conv_app_nth)
    then show "bus_delivered b' ! j @ carried (bus_readers b' ! j)
       = map bs_frame (filter (wants_slot j) (take (rseq b' j) (bus_history b')))"
      using old rs [OF j] pc i o d by (cases "j = i") (simp_all add: b' to_reader_def)
  qed
  show ?thesis using shape ctr pend ord ring del by (simp add: bus_inv_def)
qed

text \<open>A process that joins: nobody else is affected; a late one gives up its unread slots for good.\<close>

lemma join_updates:
  assumes inv: "bus_inv b" and st: "bus_step (Join i) b = Some b'"
  shows "bus_inv b'"
proof -
  define r where "r = register_reader i (bus_region b)"
  define late where "late = (bus_late b)[i := next_seq b \<noteq> 0]"
  have i: "i < nreaders b" and new: "bus_readers b ! i = RNew"
    and b': "b' = b\<lparr>bus_region := r, bus_readers := (bus_readers b)[i := RHead], bus_late := late\<rparr>"
    using st by (auto simp: bus_step_def r_def late_def split: if_splits)
  have sh: "shape_ok b" using inv by (simp add: bus_inv_def)
  have cs: "i < component_count (bus_region b)" "i < length (components (bus_region b))" "length (bus_late b) = nreaders b"
    using sh i by (simp_all add: shape_ok_def)
  have o: "on_time i b" using inv i new by (auto simp: bus_inv_def order_ok_def on_time_def)
  have le: "rseq b i \<le> next_seq b" using inv o by (auto simp: bus_inv_def order_ok_def)
  have r: "component_count r = component_count (bus_region b)" "slots r = slots (bus_region b)"
    "next_write_seq r = next_seq b" "length (components r) = length (components (bus_region b))"
    "\<And>j. c_read_seq (components r ! j) = (if j = i then next_seq b else rseq b j)"
    using cs by (simp_all add: r_def register_reader_def upd_component_def Let_def nth_list_update)
  have ot: "on_time j b' \<Longrightarrow> on_time j b \<and> rseq b' j = rseq b j" for j
    using o le cs by (cases "j = i") (auto simp: on_time_def b' late_def r)
  have rd: "bus_readers b' ! j = (if j = i then RHead else bus_readers b ! j)" for j
    using i by (simp add: b' nth_list_update)
  have pcs: "got (bus_readers b' ! j) = got (bus_readers b ! j)"
    "committed (bus_readers b' ! j) = committed (bus_readers b ! j)"
    "carried (bus_readers b' ! j) = carried (bus_readers b ! j)" for j
    unfolding rd using new by simp_all
  have f: "bus_sems b' = bus_sems b" "bus_writers b' = bus_writers b" "bus_woken b' = bus_woken b"
    "bus_running b' = bus_running b" "bus_history b' = bus_history b" "bus_delivered b' = bus_delivered b"
    "next_seq b' = next_seq b" "slots (bus_region b') = slots (bus_region b)" "bus_late b' = late"
    by (simp_all add: b' r)
  have cnts: "cnt rcs (bus_readers b') = cnt rcs (bus_readers b)"
    "cnt owes_empty (bus_readers b') = cnt owes_empty (bus_readers b)"
    using i new by (simp_all add: b')
  have holds: "slot_holds (slots (bus_region b) ! (q mod SLOT_COUNT)) (bus_history b ! q)"
    if "on_time j b" "rseq b j \<le> q" "q < next_seq b" for j q
    using inv that by (simp add: bus_inv_def ring_ok_def)
  have low: "low (nreaders b) (bus_region b) \<le> low (nreaders b) r"
    using low_ex [of "nreaders b" r] low_le [of _ "nreaders b" "bus_region b"] le i r(5)
    by (metis gr_implies_not0 le_trans neq0_conv)
  have same: "all_on_time b' \<Longrightarrow> all_on_time b \<and> low (nreaders b) r = low (nreaders b) (bus_region b)"
  proof -
    assume a: "all_on_time b'"
    then have ab: "all_on_time b" using o cs by (auto simp: all_on_time_def b' late_def nth_list_update on_time_def split: if_splits)
    have z: "next_seq b = 0" using a i cs by (auto simp: all_on_time_def b' late_def)
    have "rseq b i = next_seq b" using le z by simp
    then have "c_read_seq (components r ! j) = rseq b j" for j using r(5) by simp
    then show ?thesis using ab by (simp add: low_def)
  qed
  have "empty_ok b'"
    using inv low same cnts unfolding bus_inv_def empty_ok_def empty_tokens_def by (auto simp: b' r)
  moreover have "mutex_ok b'" using inv cnts by (simp add: bus_inv_def mutex_ok_def b')
  moreover have "pending_ok b'" unfolding pending_ok_def
  proof (intro allI impI)
    fix j assume "on_time j b'"
    note o = ot [OF this]
    show "int (bus_sems b' ! (j + 2)) + of_bool (got (bus_readers b' ! j)) + cnt (behind j) (bus_writers b')
       = int (next_seq b') - int (rseq b' j) + of_bool (bus_woken b' ! j)"
      using pending_at [OF inv conjunct1 [OF o]] conjunct2 [OF o] unfolding pcs by (simp add: f)
  qed
  moreover have "order_ok b'" unfolding order_ok_def
  proof (intro conjI allI impI)
    fix j assume j: "j < nreaders b'"
    have j: "j < nreaders b" using j by (simp add: b')
    show "bus_woken b' ! j \<Longrightarrow> \<not> bus_running b' ! j"
      using inv j by (simp add: bus_inv_def order_ok_def f)
    show "bus_readers b' ! j = RNew \<Longrightarrow> \<not> bus_late b' ! j"
      using inv j cs by (auto simp: bus_inv_def order_ok_def rd f late_def split: if_splits)
  next
    fix j assume "on_time j b'"
    note o = ot [OF this]
    then have k: "rseq b j \<le> next_seq b" "committed (bus_readers b ! j) \<longrightarrow> rseq b j < next_seq b"
      using inv by (auto simp: bus_inv_def order_ok_def)
    show "rseq b' j \<le> next_seq b'" using o k(1) by (simp add: f)
    show "committed (bus_readers b' ! j) \<Longrightarrow> rseq b' j < next_seq b'" using o k(2) unfolding pcs by (simp add: f)
  qed
  moreover have "ring_ok b'" unfolding ring_ok_def
  proof (intro conjI allI impI)
    show "next_seq b' = length (bus_history b')" using inv by (simp add: bus_inv_def ring_ok_def f)
    fix j q assume "on_time j b'" and q: "rseq b' j \<le> q \<and> q < next_seq b'"
    note o = ot [OF this(1)]
    show "slot_holds (slots (bus_region b') ! (q mod SLOT_COUNT)) (bus_history b' ! q)"
      using holds [OF conjunct1 [OF o]] o q by (simp add: f)
  qed
  moreover have "delivered_ok b'" unfolding delivered_ok_def
  proof (intro allI impI)
    fix j assume "on_time j b'"
    note o = ot [OF this]
    then have "bus_delivered b ! j @ carried (bus_readers b ! j)
       = map bs_frame (filter (wants_slot j) (take (rseq b j) (bus_history b)))"
      using inv by (simp add: bus_inv_def delivered_ok_def)
    then show "bus_delivered b' ! j @ carried (bus_readers b' ! j)
       = map bs_frame (filter (wants_slot j) (take (rseq b' j) (bus_history b')))"
      using o unfolding pcs by (simp add: f)
  qed
  moreover have "shape_ok b'" using sh by (simp add: shape_ok_def b' r late_def)
  ultimately show ?thesis by (simp add: bus_inv_def)
qed

lemma bus_step_inv:
  assumes inv: "bus_inv b" and st: "bus_step l b = Some b'"
    and k: "within k b" "k + 1 < 2 ^ 64"
  shows "bus_inv b'"
proof (cases l)
  case (Send w slot bs)
  then have w: "w < length (bus_writers b)" "bus_writers b ! w = WIdle"
    and b': "b' = b \<or> (\<exists>fr wr fl. b' = b\<lparr>bus_writers := (bus_writers b)[w := WEmpty fr wr fl]\<rparr>)"
    using st by (auto simp: bus_step_def split: if_splits option.splits)
  have "bus_inv (b\<lparr>bus_writers := (bus_writers b)[w := WEmpty fr wr fl]\<rparr>)" for fr wr fl
    using inv w by (simp add: bus_inv_def counters)
  then show ?thesis using b' inv by auto
next
  case (Writer w)
  then show ?thesis using writer_step_inv [OF _ inv] k st by (auto simp: bus_step_def within_def split: if_splits)
next
  case (Reader i)
  then have "i < nreaders b" "reader_step i b = Some b'" using st by (auto simp: bus_step_def split: if_splits)
  then show ?thesis using rin_updates [OF _ inv _ _ k] reader_light [OF _ inv] by blast
next
  case (Close i)
  then have i: "i < nreaders b" and b': "b' = b\<lparr>bus_running := (bus_running b)[i := False]\<rparr>"
    using st by (auto simp: bus_step_def split: if_splits)
  have "length (bus_running b) = nreaders b" using inv by (simp add: bus_inv_def shape_ok_def)
  then have "order_ok b'" using inv i by (auto simp: bus_inv_def order_ok_def b' nth_list_update)
  then show ?thesis using inv by (simp add: bus_inv_def counters shape_ok_def b')
next
  case (Wake i)
  then have i: "i < nreaders b" and n: "\<not> bus_running b ! i" "\<not> bus_woken b ! i"
    and b': "b' = b\<lparr>bus_sems := (bus_sems b)[i + 2 := bus_sems b ! (i + 2) + 1],
                     bus_woken := (bus_woken b)[i := True]\<rparr>"
    using st by (auto simp: bus_step_def sem_simps split: if_splits)
  have sh: "shape_ok b" using inv by (simp add: bus_inv_def)
  have lw: "length (bus_woken b) = nreaders b" using sh by (simp add: shape_ok_def)
  have "order_ok b'" using inv i n lw by (auto simp: bus_inv_def order_ok_def b' nth_list_update)
  moreover have "pending_ok b'" unfolding pending_ok_def
  proof (intro allI impI)
    fix j assume "on_time j b'"
    then have o: "on_time j b" by (simp add: b')
    then have j: "j < nreaders b" by (simp add: on_time_def)
    show "int (bus_sems b' ! (j + 2)) + of_bool (got (bus_readers b' ! j)) + cnt (behind j) (bus_writers b')
       = int (next_seq b') - int (rseq b' j) + of_bool (bus_woken b' ! j)"
      using pending_at [OF inv o] i n lw shape_sems [OF sh]
      by (cases "j = i") (simp_all add: b')
  qed
  moreover have "empty_ok b'"
    by (rule empty_same [OF inv]) (use shape_sems [OF sh] in \<open>simp_all add: empty_tokens_def b'\<close>)
  ultimately show ?thesis using inv shape_sems [OF sh]
    by (simp add: bus_inv_def mutex_ok_def shape_ok_def b' ring_ok_def delivered_ok_def)
next
  case (Join i)
  then show ?thesis using join_updates [OF inv] st by blast
qed

lemma writer_step_next:
  "writer_step w b = Some b' \<Longrightarrow> next_seq b' \<le> next_seq b + 1"
  by (auto simp: writer_step_def write_body_def seq_succ_def Let_def sem_wait_def sem_post_def
        split: wpc.splits if_splits)

lemma reader_step_next:
  "reader_step i b = Some b' \<Longrightarrow> next_seq b' = next_seq b"
  by (auto simp: reader_step_def to_reader_def read_body_def Let_def upd_component_def sem_wait_def
        split: rpc.splits if_splits option.splits)

lemma bus_step_next: "bus_step l b = Some b' \<Longrightarrow> next_seq b' \<le> next_seq b + 1"
  by (auto simp: bus_step_def register_reader_def upd_component_def Let_def
        dest: writer_step_next reader_step_next split: label.splits if_splits option.splits)

lemma readers_kept:
  "bus_step l b = Some b' \<Longrightarrow> nreaders b' = nreaders b"
  by (auto simp: bus_step_def writer_step_def reader_step_def to_reader_def Let_def
      split: label.splits if_splits option.splits wpc.splits rpc.splits prod.splits)

lemma nth_update: "xs[i := x] ! j = (if i = j \<and> i < length xs then x else xs ! j)"
  by (cases "i = j") (simp_all add: list_update_beyond not_less)

lemma bus_step_rseq:
  assumes "bus_step l b = Some b'"
  shows "rseq b' i \<le> max (rseq b i + 1) (next_seq b)"
  using assms
  by (auto simp: bus_step_def writer_step_def reader_step_def to_reader_def read_body_def write_body_def
      upd_component_def register_reader_def seq_succ_def Let_def nth_update
      split: label.splits if_splits option.splits wpc.splits rpc.splits prod.splits)

lemma within_step: "within k b \<Longrightarrow> bus_step l b = Some b' \<Longrightarrow> within (Suc k) b'"
  unfolding within_def using bus_step_next [of l b b'] bus_step_rseq [of l b b'] readers_kept [of l b b']
  by (smt (verit) Suc_eq_plus1 add_le_mono1 le_Suc_eq le_trans max_def)

lemma bus_run_inv:
  assumes "bus_inv b" and "bus_run ls b = Some b'" and "within k b" and "k + length ls < 2 ^ 64"
  shows "bus_inv b'"
  using assms
proof (induction ls arbitrary: b k)
  case (Cons l ls)
  obtain b1 where st: "bus_step l b = Some b1" and run: "bus_run ls b1 = Some b'"
    using Cons.prems(2) by (auto split: option.splits)
  have "bus_inv b1" by (rule bus_step_inv [OF Cons.prems(1) st Cons.prems(3)]) (use Cons.prems(4) in simp)
  then show ?case
    by (rule Cons.IH [OF _ run within_step [OF Cons.prems(3) st]]) (use Cons.prems(4) in simp)
qed simp


lemma bus_start_inv:
  assumes "length ports < MAX_COMPONENTS"
  shows "bus_inv (bus_start ports m)" "within 0 (bus_start ports m)"
proof -
  let ?n = "length ports + 1"
  define r where "r = init_region ports (length ports)"
  have r: "component_count r = ?n" "length (components r) = MAX_COMPONENTS" "next_write_seq r = 0"
    "slots r = replicate SLOT_COUNT zero_slot" "\<And>i. i < MAX_COMPONENTS \<Longrightarrow> c_read_seq (components r ! i) = 0"
    by (simp_all add: r_def init_region_def zero_region_def zero_component_def Let_def)
  define b where "b = bus_start ports m"
  have b: "bus_region b = r" "bus_sems b = [1, SLOT_COUNT] @ replicate ?n 0"
    "bus_writers b = replicate m WIdle" "bus_readers b = replicate ?n RNew"
    "bus_running b = replicate ?n True" "bus_woken b = replicate ?n False" "bus_late b = replicate ?n False"
    "bus_history b = []" "bus_delivered b = replicate ?n []"
    by (simp_all add: b_def bus_start_def Let_def r_def)
  have rs: "rseq b i = 0" if "i < ?n" for i using r(5) that assms by (simp add: b)
  have ot: "on_time i b = (i < ?n)" for i by (auto simp: on_time_def b nth_Cons')
  have "low ?n r = 0" by (rule low_eqI) (use rs in \<open>auto simp: b\<close>)
  then have "empty_ok b" using r(3) by (simp add: empty_ok_def empty_tokens_def b)
  moreover have "pending_ok b"
    using rs r(3) by (auto simp: pending_ok_def ot b nth_Cons')
  moreover have "shape_ok b" using assms r by (auto simp: shape_ok_def b zero_slot_def)
  moreover have "mutex_ok b" by (simp add: mutex_ok_def b)
  moreover have "order_ok b" using rs r(3) by (auto simp: order_ok_def ot b nth_Cons')
  moreover have "ring_ok b" using rs r(3) by (simp add: ring_ok_def b)
  moreover have "delivered_ok b" using rs by (auto simp: delivered_ok_def ot b nth_Cons')
  ultimately show "bus_inv (bus_start ports m)" by (simp add: bus_inv_def b_def)
  show "within 0 (bus_start ports m)" using rs r(3) by (simp add: within_def b [unfolded b_def] b_def)
qed

lemma bus_reached_inv:
  assumes "bus_run ls (bus_start ports m) = Some b" and "length ports < MAX_COMPONENTS"
    and "length ls < 2 ^ 63"
  shows "bus_inv b"
  by (rule bus_run_inv [OF bus_start_inv(1) [OF assms(2)] assms(1) bus_start_inv(2) [OF assms(2)]])
    (use assms(3) in simp)

lemma run_readers_kept:
  "bus_run ls b = Some b' \<Longrightarrow> nreaders b' = nreaders b"
  by (induction ls arbitrary: b) (auto dest: readers_kept split: option.splits)


lemma run_append: "bus_run (xs @ ys) b = (case bus_run xs b of None \<Rightarrow> None | Some b1 \<Rightarrow> bus_run ys b1)"
  by (induction xs arbitrary: b) (auto split: option.splits)

subsection \<open>Safety\<close>

text \<open>Both processes of a vehicle with one component join, then the component sends a frame.\<close>

definition demo_run :: "label list" where
  "demo_run = [Join 0, Join 1, Send 0 1 [7, 8, 9], Writer 0, Writer 0, Writer 0, Writer 0, Writer 0, Writer 0,
               Reader 0, Reader 0, Reader 0, Reader 0, Reader 0, Reader 0, Reader 0]"

lemma start_region:
  assumes "length ports < MAX_COMPONENTS"
  shows "component_count (bus_region (bus_start ports m)) = length ports + 1"
    "slots (bus_region (bus_start ports m)) = replicate SLOT_COUNT zero_slot"
    "next_seq (bus_start ports m) = 0"
    "length (components (bus_region (bus_start ports m))) = MAX_COMPONENTS"
    "i < MAX_COMPONENTS \<Longrightarrow> rseq (bus_start ports m) i = 0"
  by (simp_all add: bus_start_def Let_def init_region_def zero_region_def zero_component_def)

lemma demo_start:
  obtains r where "bus_run [Join 0, Join 1] (bus_start [5] m) = Some \<lparr>bus_region = r,
     bus_sems = [1, 100, 0, 0], bus_writers = replicate m WIdle,
     bus_readers = [RHead, RHead], bus_running = [True, True], bus_woken = [False, False],
     bus_late = [False, False], bus_history = [], bus_delivered = [[], []]\<rparr>"
    "component_count r = 2" "next_write_seq r = 0" "length (slots r) = 100"
    "\<And>k. k < 100 \<Longrightarrow> bs_frame (slots r ! k) = replicate FRAME_SIZE 0 \<and> bs_flags (slots r ! k) = 0"
    "length (components r) = 100" "\<And>i. i < 2 \<Longrightarrow> c_read_seq (components r ! i) = 0"
proof
  define r0 where "r0 = bus_region (bus_start [5] m)"
  let ?r = "register_reader 1 (register_reader 0 r0)"
  have s: "bus_start [5] m = \<lparr>bus_region = r0,
     bus_sems = [1, 100, 0, 0], bus_writers = replicate m WIdle,
     bus_readers = [RNew, RNew], bus_running = [True, True], bus_woken = [False, False],
     bus_late = [False, False], bus_history = [], bus_delivered = [[], []]\<rparr>"
    by (simp add: r0_def bus_start_def Let_def numeral_2_eq_2 SLOT_COUNT_def)
  have r0: "component_count r0 = 2" "next_write_seq r0 = 0" "slots r0 = replicate SLOT_COUNT zero_slot"
    "length (components r0) = 100" "\<And>i. i < 100 \<Longrightarrow> c_read_seq (components r0 ! i) = 0"
    using start_region(1-4) [of "[5]" m] start_region(5) [of "[5]" _ m] by (simp_all add: r0_def MAX_COMPONENTS_def)
  show "bus_run [Join 0, Join 1] (bus_start [5] m) = Some \<lparr>bus_region = ?r,
     bus_sems = [1, 100, 0, 0], bus_writers = replicate m WIdle,
     bus_readers = [RHead, RHead], bus_running = [True, True], bus_woken = [False, False],
     bus_late = [False, False], bus_history = [], bus_delivered = [[], []]\<rparr>"
    by (subst s) (use r0 in \<open>simp add: bus_step_def SEM_RING_MUTEX_def register_reader_def upd_component_def Let_def\<close>)
  show "component_count ?r = 2" "next_write_seq ?r = 0" "length (slots ?r) = 100" "length (components ?r) = 100"
    "\<And>k. k < 100 \<Longrightarrow> bs_frame (slots ?r ! k) = replicate FRAME_SIZE 0 \<and> bs_flags (slots ?r ! k) = 0"
    "\<And>i. i < 2 \<Longrightarrow> c_read_seq (components ?r ! i) = 0"
    using r0 by (auto simp: register_reader_def upd_component_def Let_def nth_update SLOT_COUNT_def zero_slot_def)
qed

lemmas run_simps = bus_step_def send_request_def writer_step_def reader_step_def to_reader_def
  sem_simps GATEWAY_SLOT_def SLOT_COUNT_def FRAME_SIZE_def HEADER_SIZE_def MTU_def nth_Cons'
  write_body_def read_body_def wants_slot_def upd_component_def seq_succ_def Let_def
  DELIVER_TO_COMPONENTS_def DELIVER_TO_GATEWAY_def memcpy_at_def least_read_seq_not_me_def
  upt_conv_Cons

lemma demo_result: "\<exists>b. bus_run demo_run (bus_start [5] 1) = Some b
   \<and> bus_writers b = [WIdle] \<and> bus_delivered b = [[[7, 8, 9]], []] \<and> bus_late b = [False, False]"
proof (rule demo_start [of 1])
  fix r assume r: "bus_run [Join 0, Join 1] (bus_start [5] 1) = Some \<lparr>bus_region = r,
     bus_sems = [1, 100, 0, 0], bus_writers = replicate 1 WIdle,
     bus_readers = [RHead, RHead], bus_running = [True, True], bus_woken = [False, False],
     bus_late = [False, False], bus_history = [], bus_delivered = [[], []]\<rparr>"
    "component_count r = 2" "next_write_seq r = 0" "length (slots r) = 100"
    "\<And>k. k < 100 \<Longrightarrow> bs_frame (slots r ! k) = replicate FRAME_SIZE 0 \<and> bs_flags (slots r ! k) = 0"
    "length (components r) = 100" "\<And>i. i < 2 \<Longrightarrow> c_read_seq (components r ! i) = 0"
  have d: "demo_run = [Join 0, Join 1] @ drop 2 demo_run" by (simp add: demo_run_def)
  show ?thesis by (subst d, simp only: run_append r(1) option.case) (simp add: demo_run_def run_simps r(2-))
qed

text \<open>C29. On a bus as \<open>create\<close> leaves it, whose processes join when they like, in every interleaving of
  any number of writers with the readers (fewer than \<open>2^63\<close> steps): at most one thread is in a critical
  section; and for every reader that has not joined late, that is after a frame was written: it never
  falls more than 100 frames behind, every slot it has yet to read still holds its frame, however late
  other processes join, and the empty counter stays within the ring (so it does while one such reader
  exists).\<close>

theorem bus_window:
  assumes run: "bus_run ls (bus_start ports m) = Some b" and "length ports < MAX_COMPONENTS"
    and "length ls < 2 ^ 63"
  shows "length (filter wcs (bus_writers b)) + length (filter rcs (bus_readers b)) \<le> 1
    \<and> (\<forall>i. on_time i b \<longrightarrow> bus_sems b ! SEM_RING_EMPTY \<le> SLOT_COUNT
         \<and> rseq b i \<le> next_seq b \<and> next_seq b \<le> rseq b i + SLOT_COUNT
         \<and> (\<forall>q. rseq b i \<le> q \<and> q < next_seq b \<longrightarrow>
              slot_holds (slots (bus_region b) ! (q mod SLOT_COUNT)) (bus_history b ! q)))"
proof -
  have inv: "bus_inv b" by (rule bus_reached_inv [OF assms])
  have a: "length (filter wcs (bus_writers b)) + length (filter rcs (bus_readers b)) \<le> 1"
    using inv by (simp add: bus_inv_def mutex_ok_def cnt_def)
  have n: "0 \<le> cnt holds_empty (bus_writers b)" "0 \<le> cnt owes_empty (bus_readers b)" by simp_all
  have w: "rseq b i \<le> next_seq b \<and> next_seq b \<le> rseq b i + SLOT_COUNT \<and> bus_sems b ! SEM_RING_EMPTY \<le> SLOT_COUNT"
    if o: "on_time i b" for i
  proof -
    have 1: "rseq b i \<le> next_seq b" using inv o by (simp add: bus_inv_def order_ok_def)
    note win = window [OF inv on_time_reader [OF o]]
    have "int (next_seq b) \<le> int SLOT_COUNT + int (rseq b i)" using win n by linarith
    moreover have "int (bus_sems b ! 1) \<le> int SLOT_COUNT" using win n 1 by linarith
    ultimately show ?thesis using 1 by (simp add: SEM_RING_EMPTY_def)
  qed
  have "\<forall>i. on_time i b \<longrightarrow> (\<forall>q. rseq b i \<le> q \<and> q < next_seq b \<longrightarrow>
              slot_holds (slots (bus_region b) ! (q mod SLOT_COUNT)) (bus_history b ! q))"
    using inv by (simp add: bus_inv_def ring_ok_def)
  then show ?thesis using a w by blast
qed

lemma bus_window_witness:
  "\<exists>b. bus_run demo_run (bus_start [5] 1) = Some b \<and> next_seq b \<le> rseq b 1 + SLOT_COUNT"
proof -
  obtain b where b: "bus_run demo_run (bus_start [5] 1) = Some b" "bus_late b = [False, False]" using demo_result by blast
  have "nreaders b = 2" using run_readers_kept [OF b(1)] by (simp add: bus_start_def Let_def)
  then have "on_time 1 b" using b(2) by (simp add: on_time_def)
  then have "next_seq b \<le> rseq b 1 + SLOT_COUNT"
    using bus_window [OF b(1)] by (auto simp: MAX_COMPONENTS_def demo_run_def)
  then show ?thesis using b by blast
qed

text \<open>C1. A process that joins the bus before the first frame is written (\<open>on_time\<close>) gets its stream: in
  every interleaving of writers, readers, other processes joining at any moment and readers closing
  (fewer than \<open>2^63\<close> steps), its callback is given the frames meant for it, all of them up to its read
  position, each once, unaltered and in the order they were written. A process that joins after a
  frame was written has no such guarantee: see \<open>late_join_overruns\<close>.\<close>

theorem bus_delivers_in_order:
  assumes run: "bus_run ls (bus_start ports m) = Some b" and "length ports < MAX_COMPONENTS"
    and "length ls < 2 ^ 63" and "on_time i b"
  shows "bus_delivered b ! i @ carried (bus_readers b ! i)
       = map bs_frame (filter (wants_slot i) (take (rseq b i) (bus_history b)))"
  using bus_reached_inv [OF assms(1-3)] assms(4) by (simp add: bus_inv_def delivered_ok_def)

lemma bus_delivers_in_order_witness:
  "\<exists>b. bus_run demo_run (bus_start [5] 1) = Some b
     \<and> map bs_frame (filter (wants_slot 0) (take (rseq b 0) (bus_history b))) = [7, 8, 9] # carried (bus_readers b ! 0)"
proof -
  obtain b where b: "bus_run demo_run (bus_start [5] 1) = Some b" "bus_delivered b = [[[7, 8, 9]], []]"
    "bus_late b = [False, False]" using demo_result by blast
  have n: "nreaders b = 2" using run_readers_kept [OF b(1)] by (simp add: bus_start_def Let_def)
  have "bus_delivered b ! 0 @ carried (bus_readers b ! 0)
      = map bs_frame (filter (wants_slot 0) (take (rseq b 0) (bus_history b)))"
    by (rule bus_delivers_in_order [OF b(1)]) (simp_all add: n b(3) on_time_def MAX_COMPONENTS_def demo_run_def)
  then show ?thesis using b by simp
qed


definition sent_slot :: "nat \<Rightarrow> u8 list \<Rightarrow> broadcast_slot option" where
  "sent_slot slot bs = (case send_request True slot (Some bs) of None \<Rightarrow> None
     | Some (fr, wr, fl) \<Rightarrow> Some \<lparr>bs_writer = wr, bs_flags = fl, bs_size = length fr, bs_frame = fr\<rparr>)"

text \<open>A component's frame reaches every reader but the component itself; a frame the
  gateway injects reaches every reader, the gateway's own included.\<close>

theorem delivery_table:
  assumes "sent_slot s bs = Some x" and "s < MAX_COMPONENTS" and "i < MAX_COMPONENTS"
  shows "wants_slot i x \<longleftrightarrow> s = 0 \<or> i \<noteq> s"
proof -
  have inj: "(word_of_nat s :: u16) = word_of_nat i \<longleftrightarrow> s = i" 
    using assms(2,3) by (simp add: MAX_COMPONENTS_def word_of_nat_eq_iff take_bit_eq_mod)
  have small: "(0xFFFE :: u16) \<noteq> word_of_nat i"
  proof
    assume "(0xFFFE :: u16) = word_of_nat i"
    then have "unat (0xFFFE :: u16) = unat (word_of_nat i :: u16)" by simp
    then show False using assms(3) by (simp add: MAX_COMPONENTS_def unat_of_nat)
  qed
  show ?thesis using assms(1) inj small
    by (auto simp: sent_slot_def send_request_def wants_slot_def GATEWAY_SLOT_def GATEWAY_WRITER_def
        DELIVER_TO_COMPONENTS_def DELIVER_TO_GATEWAY_def split: if_splits)
qed

lemma delivery_table_witness:
  "\<exists>x. sent_slot 0 [1] = Some x \<and> wants_slot 0 x"
proof -
  obtain x where x: "sent_slot 0 [1] = Some x" by (simp add: sent_slot_def send_request_def GATEWAY_SLOT_def)
  then have "wants_slot 0 x = (0 = (0::nat) \<or> (0::nat) \<noteq> 0)"
    by (rule delivery_table) (simp_all add: MAX_COMPONENTS_def)
  then show ?thesis using x by simp
qed

lemma rseq_kept:
  assumes "bus_step l b = Some b'" and "l \<noteq> Reader i" and "l \<noteq> Join i"
  shows "rseq b' i = rseq b i"
  using assms
  by (auto simp: bus_step_def writer_step_def reader_step_def to_reader_def read_body_def write_body_def
      upd_component_def register_reader_def Let_def
      split: label.splits if_splits option.splits wpc.splits rpc.splits prod.splits)

lemma run_rseq_kept:
  "bus_run ls b = Some b' \<Longrightarrow> \<forall>l \<in> set ls. l \<noteq> Reader i \<and> l \<noteq> Join i \<Longrightarrow> rseq b' i = rseq b i"
proof (induction ls arbitrary: b)
  case (Cons l ls)
  then show ?case using rseq_kept by (auto split: option.splits)
qed simp

text \<open>A reader that does not run (closed, dead or never started) stops the whole bus: while it takes
  no step, at most 100 frames are written past its read position.\<close>

theorem stopped_reader_blocks_writers:
  assumes run: "bus_run ls (bus_start ports m) = Some b" and "bus_run ls' b = Some b'"
    and "length ports < MAX_COMPONENTS" and "length (ls @ ls') < 2 ^ 63" and "i < nreaders b"
    and "\<forall>l \<in> set ls'. l \<noteq> Reader i \<and> l \<noteq> Join i"
  shows "length (bus_history b') \<le> rseq b i + SLOT_COUNT"
proof -
  have "bus_run (ls @ ls') (bus_start ports m) = Some b'" using assms(1,2) by (simp add: run_append)
  then have inv: "bus_inv b'" by (rule bus_reached_inv [OF _ assms(3,4)])
  have i: "i < nreaders b'" using assms(5) run_readers_kept [OF assms(2)] by simp
  have "rseq b' i = rseq b i" using run_rseq_kept [OF assms(2)] assms(6) by blast
  moreover have "int (next_seq b') \<le> int SLOT_COUNT + int (rseq b' i)"
    using window [OF inv i] cnt_nonneg [of holds_empty "bus_writers b'"] cnt_nonneg [of owes_empty "bus_readers b'"]
    by linarith
  ultimately show ?thesis using inv by (simp add: bus_inv_def ring_ok_def)
qed

lemma stopped_reader_blocks_writers_witness:
  "\<exists>b. bus_run demo_run (bus_start [5] 1) = Some b \<and> length (bus_history b) \<le> 0 + SLOT_COUNT"
proof -
  obtain b where b: "bus_run demo_run (bus_start [5] 1) = Some b" using demo_result by blast
  define b1 where "b1 = the (bus_run [Join 0, Join 1] (bus_start [5] 1))"
  obtain r where s: "bus_run [Join 0, Join 1] (bus_start [5] 1) = Some b1" "rseq b1 1 = 0" "nreaders b1 = 2"
    by (rule demo_start [of 1]) (simp add: b1_def)
  have "demo_run = [Join 0, Join 1] @ drop 2 demo_run" by (simp add: demo_run_def)
  then have "bus_run (drop 2 demo_run) b1 = Some b" using b s(1) run_append [of "[Join 0, Join 1]" "drop 2 demo_run"]
    by (simp del: bus_run.simps)
  then have "length (bus_history b) \<le> rseq b1 1 + SLOT_COUNT"
    by (rule stopped_reader_blocks_writers [OF s(1)])
      (simp_all add: s MAX_COMPONENTS_def demo_run_def)
  then show ?thesis using b s(2) by auto
qed

text \<open>\<open>engine_init\<close> of a process that joins after a frame was written leaves the pending
  token of that frame in place: its reader runs past the last written frame.\<close>

theorem late_join_overruns:
  "\<exists>b. bus_run ([Join 0, Send 0 0 [7], Writer 0, Writer 0, Writer 0, Writer 0, Writer 0, Writer 0, Join 1,
                 Reader 1, Reader 1, Reader 1, Reader 1, Reader 1, Reader 1]) (bus_start [5] 1) = Some b
     \<and> rseq b 1 = next_seq b + 1 \<and> bus_delivered b ! 1 = []"
proof -
  define r where "r = bus_region (bus_start [5] 1)"
  have s: "bus_start [5] 1 = \<lparr>bus_region = r,
     bus_sems = [1, 100, 0, 0], bus_writers = [WIdle],
     bus_readers = [RNew, RNew], bus_running = [True, True], bus_woken = [False, False],
     bus_late = [False, False], bus_history = [], bus_delivered = [[], []]\<rparr>"
    by (simp add: r_def bus_start_def Let_def numeral_2_eq_2 SLOT_COUNT_def)
  have r: "component_count r = 2" "next_write_seq r = 0" "slots r = replicate 100 zero_slot"
    "length (components r) = 100" "\<And>i. i < 100 \<Longrightarrow> c_read_seq (components r ! i) = 0"
    using start_region(1-4) [of "[5]" 1] start_region(5) [of "[5]" _ 1] by (simp_all add: r_def MAX_COMPONENTS_def SLOT_COUNT_def)
  show ?thesis unfolding s
    by (simp add: run_simps register_reader_def r zero_slot_def)
qed

end
