(* ===== verification/Shm_Progress.thy ===== *)
theory Shm_Progress
  imports Shm_Bus
begin

section \<open>Progress on the shared-memory bus\<close>

text \<open>
  With every process joined before the first frame and every reader running, the threads of \<open>Shm_Bus\<close> cannot get stuck: a potential falls
  with every step a thread takes, and a bus without an enabled step has written and delivered
  everything. \<open>room\<close> keeps the 64-bit sequence numbers away from their wrap-around.
\<close>

subsection \<open>A bus that cannot move is drained\<close>

definition reader_on :: "nat \<Rightarrow> bus \<Rightarrow> bool" where
  "reader_on i b \<longleftrightarrow> bus_running b ! i \<and> bus_readers b ! i \<noteq> RNew \<and> (\<forall>t. bus_readers b ! i \<noteq> RStop t)"

definition all_running :: "bus \<Rightarrow> bool" where
  "all_running b \<longleftrightarrow> (\<forall>i < nreaders b. reader_on i b)"

definition internal :: "label \<Rightarrow> bool" where
  "internal l = (case l of Writer _ \<Rightarrow> True | Reader _ \<Rightarrow> True | _ \<Rightarrow> False)"

definition quiet :: "bus \<Rightarrow> bool" where
  "quiet b \<longleftrightarrow> (\<forall>l. internal l \<longrightarrow> bus_step l b = None)"

lemma quiet_reader:
  assumes "quiet b" "i < nreaders b"
  shows "bus_readers b ! i = RWait \<and> bus_sems b ! (i + 2) = 0 \<or> bus_readers b ! i = RGo \<and> bus_sems b ! 0 = 0
       \<or> bus_readers b ! i = RNew \<or> (\<exists>t. bus_readers b ! i = RStop t)"
proof -
  have "bus_step (Reader i) b = None" using assms(1) by (simp add: quiet_def internal_def)
  then have "reader_step i b = None" using assms(2) by (simp add: bus_step_def)
  then show ?thesis
    by (auto simp: reader_step_def sem_simps Let_def split: rpc.splits if_splits option.splits prod.splits)
qed

lemma quiet_writer:
  assumes "quiet b" "w < length (bus_writers b)"
  shows "bus_writers b ! w = WIdle \<or> holds_empty (bus_writers b ! w) \<and> \<not> wcs (bus_writers b ! w) \<and> bus_sems b ! 0 = 0
       \<or> (\<exists>fr wr fl. bus_writers b ! w = WEmpty fr wr fl) \<and> bus_sems b ! 1 = 0"
proof -
  have "bus_step (Writer w) b = None" using assms(1) by (simp add: quiet_def internal_def)
  then have "writer_step w b = None" using assms(2) by (simp add: bus_step_def)
  then show ?thesis
    by (auto simp: writer_step_def sem_simps split: wpc.splits if_splits)
qed

lemma behind_wcs: "behind i w \<Longrightarrow> wcs w" by (cases w) simp_all

lemma quiet_rest:
  assumes q: "quiet b" and inv: "bus_inv b"
  shows "cnt wcs (bus_writers b) = 0" "cnt rcs (bus_readers b) = 0" "cnt owes_empty (bus_readers b) = 0"
    "cnt (behind i) (bus_writers b) = 0" "cnt holds_empty (bus_writers b) = 0" "bus_sems b ! 0 = 1"
proof -
  have nr: "\<not> rcs (bus_readers b ! i)" "\<not> owes_empty (bus_readers b ! i)" if "i < nreaders b" for i
    using quiet_reader [OF q that] by auto
  have nw: "\<not> wcs (bus_writers b ! w)" if "w < length (bus_writers b)" for w
    using quiet_writer [OF q that] by auto
  show zero: "cnt wcs (bus_writers b) = 0" "cnt rcs (bus_readers b) = 0" "cnt owes_empty (bus_readers b) = 0"
    by (rule cnt_zeroI; use nr nw in blast)+
  show "cnt (behind i) (bus_writers b) = 0"
    by (rule cnt_zeroI) (use nw behind_wcs in blast)
  show free: "bus_sems b ! 0 = 1" using inv zero by (simp add: bus_inv_def mutex_ok_def)
  show "cnt holds_empty (bus_writers b) = 0"
    by (rule cnt_zeroI) (use quiet_writer [OF q] free in fastforce)
qed

text \<open>A running reader that joined on time has read everything when the bus cannot move.\<close>

lemma quiet_read:
  assumes q: "quiet b" and inv: "bus_inv b" and o: "on_time i b" and on: "reader_on i b"
  shows "bus_readers b ! i = RWait \<and> rseq b i = next_seq b"
proof -
  note z = quiet_rest [OF q inv]
  have i: "i < nreaders b" by (rule on_time_reader [OF o])
  have w: "bus_readers b ! i = RWait" "bus_sems b ! (i + 2) = 0"
    using quiet_reader [OF q i] z(6) on by (auto simp: reader_on_def)
  have "\<not> bus_woken b ! i" using inv on i by (auto simp: bus_inv_def order_ok_def reader_on_def)
  then show ?thesis using pending_at [OF inv o] w z(4) by simp
qed

text \<open>A bus that cannot move is drained.\<close>

lemma quiet_drained:
  assumes q: "quiet b" and inv: "bus_inv b" and run: "all_running b" and ot: "all_on_time b"
  shows "(\<forall>w < length (bus_writers b). bus_writers b ! w = WIdle)
       \<and> (\<forall>i < nreaders b. bus_readers b ! i = RWait \<and> rseq b i = next_seq b)"
proof -
  note z = quiet_rest [OF q inv]
  have rd: "bus_readers b ! i = RWait \<and> rseq b i = next_seq b" if i: "i < nreaders b" for i
    by (rule quiet_read [OF q inv]) (use i run ot in \<open>simp_all add: on_time_def all_on_time_def all_running_def\<close>)
  have sh: "shape_ok b" using inv by (simp add: bus_inv_def)
  have "low (nreaders b) (bus_region b) = next_seq b"
    by (rule low_eqI) (use shape_pos [OF sh] rd in auto)
  then have "bus_sems b ! 1 = SLOT_COUNT"
    using inv z ot by (simp add: bus_inv_def empty_ok_def empty_tokens_def)
  then have "bus_writers b ! w = WIdle" if "w < length (bus_writers b)" for w
    using quiet_writer [OF q that] z(6) by (auto simp: SLOT_COUNT_def)
  then show ?thesis using rd by blast
qed

fun wpot :: "nat \<Rightarrow> wpc \<Rightarrow> int" where
  "wpot n WIdle = 0"
| "wpot n (WPost k) = int (n - k) + 1"
| "wpot n (WIn _ _ _) = 8 * int n + 2"
| "wpot n (WMutex _ _ _) = 8 * int n + 3"
| "wpot n (WEmpty _ _ _) = 8 * int n + 4"

fun rpot :: "rpc \<Rightarrow> int" where
  "rpot RIn = -3" | "rpot RGo = -2" | "rpot RGot = -1" | "rpot RWait = 0" | "rpot RHead = 1" | "rpot RNew = 2"
| "rpot (RPost _ _) = 2" | "rpot (ROut _ _) = 3" | "rpot (RStop _) = 0"

definition potential :: "bus \<Rightarrow> int" where
  "potential b = sum_list (map (wpot (nreaders b)) (bus_writers b))
     + (\<Sum>i < nreaders b. 7 * (int (next_seq b) - int (rseq b i)) + rpot (bus_readers b ! i))"

lemma writer_pot:
  assumes w: "w < length (bus_writers b)" and inv: "bus_inv b" and st: "writer_step w b = Some b'"
    and small: "next_seq b + 1 < 2 ^ 64"
  shows "potential b' < potential b"
proof (cases "bus_writers b ! w")
  case WIdle
  then show ?thesis using st by (simp add: writer_step_def)
next
  case (WEmpty bs wr fl)
  then show ?thesis using st w
    by (auto simp: writer_step_def sem_simps potential_def sum_list_swap split: if_splits)
next
  case (WMutex bs wr fl)
  then show ?thesis using st w
    by (auto simp: writer_step_def sem_simps potential_def sum_list_swap split: if_splits)
next
  case (WIn bs wr fl)
  have "(\<Sum>i < nreaders b. 7 * (1 + int (next_seq b) - int (rseq b i)) + rpot (bus_readers b ! i))
      = (\<Sum>i < nreaders b. 7 + (7 * (int (next_seq b) - int (rseq b i)) + rpot (bus_readers b ! i)))"
    by (rule sum.cong) auto
  then have "(\<Sum>i < nreaders b. 7 * (1 + int (next_seq b) - int (rseq b i)) + rpot (bus_readers b ! i))
      = 7 * int (nreaders b) + (\<Sum>i < nreaders b. 7 * (int (next_seq b) - int (rseq b i)) + rpot (bus_readers b ! i))"
    by (simp add: sum.distrib)
  then show ?thesis using st w WIn small
    by (auto simp: writer_step_def potential_def sum_list_swap write_body_def Let_def seq_succ_def)
next
  case (WPost k)
  have "component_count (bus_region b) = nreaders b" using inv by (simp add: bus_inv_def shape_ok_def)
  then show ?thesis using st w WPost
    by (auto simp: writer_step_def sem_simps potential_def sum_list_swap split: if_splits)
qed

lemma reader_pot:
  assumes i: "i < nreaders b" and inv: "bus_inv b" and run: "all_running b" and ot: "all_on_time b"
    and st: "reader_step i b = Some b'" and small: "next_seq b + 1 < 2 ^ 64"
  shows "potential b' < potential b"
proof -
  have r: "bus_running b ! i" using run i by (simp add: all_running_def reader_on_def)
  have o: "on_time i b" using ot i by (simp add: on_time_def all_on_time_def)
  have light: ?thesis if "bus_region b' = bus_region b" "bus_writers b' = bus_writers b"
      "bus_readers b' = (bus_readers b)[i := pc]" "rpot pc < rpot (bus_readers b ! i)" for pc
  proof -
    let ?g = "\<lambda>b j. 7 * (int (next_seq b) - int (rseq b j)) + rpot (bus_readers b ! j)"
    have "sum (?g b') {..<nreaders b} = sum (?g b) {..<nreaders b} - ?g b i + ?g b' i"
      by (rule sum_swap [OF i]) (simp add: that)
    then show ?thesis using that i by (simp add: potential_def)
  qed
  show ?thesis
  proof (cases "bus_readers b ! i")
    case RIn
    obtain d f r where rb: "read_body i FRAME_SIZE (bus_region b) = (d, f, r)" by (cases "read_body i FRAME_SIZE (bus_region b)")
    have b': "b' = to_reader i (ROut d f) (b\<lparr>bus_region := r\<rparr>)" using st RIn rb by (simp add: reader_step_def)
    have r: "r = upd_component i (\<lambda>c. c\<lparr>c_read_seq := seq_succ (rseq b i)\<rparr>) (bus_region b)"
      using rb by (simp add: read_body_def Let_def)
    have n: "nreaders b \<le> length (components (bus_region b))" using inv by (simp add: bus_inv_def shape_ok_def)
    have lt: "rseq b i < next_seq b" using inv o RIn by (auto simp: bus_inv_def order_ok_def)
    let ?g = "\<lambda>b j. 7 * (int (next_seq b) - int (rseq b j)) + rpot (bus_readers b ! j)"
    have "sum (?g b') {..<nreaders b} = sum (?g b) {..<nreaders b} - ?g b i + ?g b' i"
      by (rule sum_swap [OF i]) (simp add: b' to_reader_def r upd_component_def)
    moreover have "?g b' i = ?g b i - 1"
      using i n lt small RIn by (simp add: b' to_reader_def r upd_component_def seq_succ_def)
    moreover have "bus_writers b' = bus_writers b" "nreaders b' = nreaders b" by (simp_all add: b' to_reader_def)
    ultimately show ?thesis by (simp add: potential_def)
  qed (use st r light in \<open>auto simp: reader_step_def to_reader_def sem_simps Let_def split: if_splits option.splits\<close>)
qed

lemma internal_pot:
  assumes "internal l" "bus_inv b" "all_running b" "all_on_time b" "bus_step l b = Some b'" "next_seq b + 1 < 2 ^ 64"
  shows "potential b' < potential b"
  using assms writer_pot [OF _ assms(2)] reader_pot [OF _ assms(2,3,4)]
  by (auto simp: internal_def bus_step_def split: label.splits if_splits)

lemma pot_nonneg:
  assumes inv: "bus_inv b" and run: "all_running b" and ot: "all_on_time b"
  shows "0 \<le> potential b"
proof -
  have "0 \<le> wpot n w" for n w by (cases w) simp_all
  then have "0 \<le> sum_list (map (wpot (nreaders b)) (bus_writers b))" by (auto intro!: sum_list_nonneg)
  moreover have g: "0 \<le> 7 * (int (next_seq b) - int (rseq b i)) + rpot (bus_readers b ! i)" if i: "i < nreaders b" for i
  proof -
    have o: "on_time i b" using ot i by (simp add: on_time_def all_on_time_def)
    have "rseq b i \<le> next_seq b" "committed (bus_readers b ! i) \<longrightarrow> rseq b i < next_seq b"
      using inv o by (auto simp: bus_inv_def order_ok_def)
    moreover have "bus_readers b ! i = RGot \<longrightarrow> rseq b i < next_seq b"
      using got_means_more [OF inv o] run i by (simp add: all_running_def reader_on_def)
    ultimately show ?thesis by (cases "bus_readers b ! i") auto
  qed
  have "0 \<le> (\<Sum>i < nreaders b. 7 * (int (next_seq b) - int (rseq b i)) + rpot (bus_readers b ! i))"
    by (intro sum_nonneg g) simp
  ultimately show ?thesis by (simp add: potential_def)
qed

lemma internal_running:
  assumes "internal l" "all_running b" "bus_step l b = Some b'"
  shows "all_running b'"
  using assms
  by (auto simp: internal_def bus_step_def all_running_def reader_on_def writer_step_def reader_step_def to_reader_def
      Let_def nth_list_update split: label.splits if_splits option.splits wpc.splits rpc.splits prod.splits)

lemma internal_late:
  assumes "internal l" "bus_step l b = Some b'"
  shows "all_on_time b' = all_on_time b"
proof -
  have "bus_late b' = bus_late b"
    using assms by (auto simp: internal_def bus_step_def writer_step_def reader_step_def to_reader_def Let_def
      split: label.splits if_splits option.splits wpc.splits rpc.splits prod.splits)
  then show ?thesis using readers_kept [OF assms(2)] by (simp add: all_on_time_def)
qed

lemma on_time_within: "bus_inv b \<Longrightarrow> all_on_time b \<Longrightarrow> within (next_seq b) b"
  by (auto simp: within_def bus_inv_def order_ok_def on_time_def all_on_time_def)

fun waiting :: "wpc \<Rightarrow> bool" where
  "waiting WIdle = False" | "waiting (WPost _) = False" | "waiting _ = True"

definition room :: "bus \<Rightarrow> bool" where
  "room b \<longleftrightarrow> int (next_seq b) + cnt waiting (bus_writers b) + 1 < 2 ^ 64"

lemma internal_room:
  assumes "internal l" "room b" "bus_step l b = Some b'"
  shows "room b'"
proof (cases l)
  case (Writer w)
  then have w: "w < length (bus_writers b)" "writer_step w b = Some b'"
    using assms(3) by (auto simp: bus_step_def split: if_splits)
  have small: "int (seq_succ (next_seq b)) \<le> int (next_seq b) + 1" by (simp add: seq_succ_def)
  show ?thesis
  proof (cases "bus_writers b ! w")
    case (WIn bs wr fl)
    then have "cnt waiting (bus_writers b') = cnt waiting (bus_writers b) - 1"
      "next_seq b' = seq_succ (next_seq b)"
      using w by (auto simp: writer_step_def write_body_def Let_def)
    then show ?thesis using assms(2) small unfolding room_def by linarith
  qed (use w assms(2) in \<open>auto simp: writer_step_def room_def sem_wait_def sem_post_def split: if_splits\<close>)
next
  case (Reader i)
  then have r: "reader_step i b = Some b'" using assms(3) by (auto simp: bus_step_def split: if_splits)
  then have "bus_writers b' = bus_writers b"
    by (auto simp: reader_step_def to_reader_def Let_def split: rpc.splits if_splits option.splits prod.splits)
  then show ?thesis using assms(2) reader_step_next [OF r] by (simp add: room_def)
qed (use assms(1) in \<open>simp_all add: internal_def\<close>)

lemma room_small: "room b \<Longrightarrow> next_seq b + 1 < 2 ^ 64"
proof -
  assume "room b"
  then have "int (next_seq b) + 1 < 2 ^ 64"
    using cnt_nonneg [of waiting "bus_writers b"] unfolding room_def by linarith
  then show ?thesis by simp
qed

lemma internal_keeps:
  assumes l: "internal l" and inv: "bus_inv b" and run: "all_running b" and ot: "all_on_time b" and room: "room b"
    and st: "bus_step l b = Some b'"
  shows "bus_inv b' \<and> all_running b' \<and> all_on_time b' \<and> room b' \<and> potential b' < potential b"
  using bus_step_inv [OF inv st on_time_within [OF inv ot] room_small [OF room]] internal_running [OF l run st]
    internal_late [OF l st] ot internal_room [OF l room st] internal_pot [OF l inv run ot st room_small [OF room]] by blast

lemma internal_bounded:
  assumes "bus_inv b" and "all_running b" and "all_on_time b" and "room b"
    and "\<forall>l \<in> set ls. internal l" and "bus_run ls b = Some b'"
  shows "int (length ls) \<le> potential b"
  using assms
proof (induction ls arbitrary: b)
  case Nil
  then show ?case by (simp add: pot_nonneg)
next
  case (Cons l ls)
  obtain b1 where st: "bus_step l b = Some b1" and run: "bus_run ls b1 = Some b'"
    using Cons.prems(6) by (auto split: option.splits)
  have k: "bus_inv b1 \<and> all_running b1 \<and> all_on_time b1 \<and> room b1 \<and> potential b1 < potential b"
    by (rule internal_keeps [OF _ Cons.prems(1-4) st]) (use Cons.prems(5) in simp)
  have "int (length ls) \<le> potential b1" by (rule Cons.IH) (use k Cons.prems(5) run in simp_all)
  then show ?case using k by simp
qed

lemma drain_exists:
  assumes "bus_inv b" and "all_running b" and "all_on_time b" and "room b"
  shows "\<exists>ls b'. (\<forall>l \<in> set ls. internal l) \<and> bus_run ls b = Some b' \<and> quiet b' \<and> bus_inv b' \<and> all_running b' \<and> all_on_time b'"
  using assms
proof (induction "nat (potential b)" arbitrary: b rule: less_induct)
  case less
  show ?case
  proof (cases "quiet b")
    case True
    have "bus_run [] b = Some b" by simp
    then show ?thesis using True less.prems(1,2,3) by (intro exI [of _ "[]"] exI [of _ b]) simp
  next
    case False
    then obtain l b1 where l: "internal l" and st: "bus_step l b = Some b1" by (auto simp: quiet_def)
    note k = internal_keeps [OF l less.prems st]
    then have "nat (potential b1) < nat (potential b)" using pot_nonneg [of b1] by simp
    then obtain ls b' where "\<forall>l \<in> set ls. internal l" "bus_run ls b1 = Some b'" "quiet b'" "bus_inv b'" "all_running b'" "all_on_time b'"
      using less.hyps [of b1] k by blast
    then show ?thesis using l st by (intro exI [of _ "l # ls"] exI [of _ b']) simp
  qed
qed

lemma step_writers: "bus_step l b = Some b' \<Longrightarrow> length (bus_writers b') = length (bus_writers b)"
  by (auto simp: bus_step_def writer_step_def reader_step_def to_reader_def Let_def
      split: label.splits if_splits option.splits wpc.splits rpc.splits prod.splits)

lemma run_counts:
  "bus_run ls b = Some b' \<Longrightarrow>
     length (bus_writers b') = length (bus_writers b) \<and> next_seq b' \<le> next_seq b + length ls"
  by (induction ls arbitrary: b) (force dest: step_writers bus_step_next split: option.splits)+

lemma start_next: "length ports < MAX_COMPONENTS \<Longrightarrow> next_seq (bus_start ports m) = 0"
  by (rule start_region(3))

lemma reached_room:
  assumes "bus_run ls (bus_start ports m) = Some b" and "length ports < MAX_COMPONENTS"
    and "length ls < 2 ^ 63" and "m < 2 ^ 62"
  shows "room b"
proof -
  have 1: "length (bus_writers b) = m" "next_seq b \<le> length ls"
    using run_counts [OF assms(1)] start_next [OF assms(2), of m] by (simp_all add: bus_start_def Let_def)
  have 2: "int (next_seq b) < 2 ^ 63" "int m < 2 ^ 62" using 1(2) assms(3,4) by simp_all
  have "cnt waiting (bus_writers b) \<le> int m" using cnt_le_length 1(1) by metis
  then show ?thesis using 2 unfolding room_def by simp
qed


text \<open>C4. Neither deadlock nor livelock, under three conditions: every process joined the bus before the first
  frame was written, every reader is joined, running and not stopped, and receive callbacks return (a
  reader always takes its next step; one that joins a sender thread does not, \<open>join_never_ends\<close>). From
  any state so reached the threads take boundedly many steps without a new \<open>engine_send\<close>, and reach a
  state where every \<open>engine_send\<close> has returned and each reader was given every frame meant for it.\<close>

theorem bus_drains:
  assumes run: "bus_run ls (bus_start ports m) = Some b" and "length ports < MAX_COMPONENTS"
    and "length ls < 2 ^ 63" and "m < 2 ^ 62" and "all_running b" and "all_on_time b"
  shows "(\<forall>ls' b'. (\<forall>l \<in> set ls'. internal l) \<and> bus_run ls' b = Some b' \<longrightarrow> int (length ls') \<le> potential b)
    \<and> (\<exists>ls' b'. (\<forall>l \<in> set ls'. internal l) \<and> bus_run ls' b = Some b'
       \<and> (\<forall>w < length (bus_writers b'). bus_writers b' ! w = WIdle)
       \<and> (\<forall>i < nreaders b'. bus_delivered b' ! i = map bs_frame (filter (wants_slot i) (bus_history b'))))"
proof -
  have inv: "bus_inv b" by (rule bus_reached_inv [OF assms(1-3)])
  have room: "room b" by (rule reached_room [OF assms(1,2,3,4)])
  have bnd: "\<forall>ls' b'. (\<forall>l \<in> set ls'. internal l) \<and> bus_run ls' b = Some b' \<longrightarrow> int (length ls') \<le> potential b"
    using internal_bounded [OF inv assms(5,6) room] by blast
  obtain ls' b' where d: "\<forall>l \<in> set ls'. internal l" "bus_run ls' b = Some b'" "quiet b'" "bus_inv b'" "all_running b'"
    "all_on_time b'"
    using drain_exists [OF inv assms(5,6) room] by blast
  note q = quiet_drained [OF d(3-6)]
  have "bus_delivered b' ! i = map bs_frame (filter (wants_slot i) (bus_history b'))" if i: "i < nreaders b'" for i
  proof -
    have o: "on_time i b'" using d(6) i by (simp add: on_time_def all_on_time_def)
    have "rseq b' i = length (bus_history b')" using q i d(4) by (simp add: bus_inv_def ring_ok_def)
    moreover have "bus_delivered b' ! i @ carried (bus_readers b' ! i)
       = map bs_frame (filter (wants_slot i) (take (rseq b' i) (bus_history b')))"
      using d(4) o by (simp add: bus_inv_def delivered_ok_def)
    ultimately show ?thesis using q i by simp
  qed
  then show ?thesis using bnd d(1,2) q by blast
qed

lemma bus_drains_witness:
  "\<exists>ls b. bus_run ([Join 0, Join 1, Send 0 1 [7]] @ ls) (bus_start [5] 1) = Some b \<and> bus_writers b ! 0 = WIdle"
proof -
  define b0 where "b0 = the (bus_run [Join 0, Join 1] (bus_start [5] 1))"
  define b1 where "b1 = b0\<lparr>bus_writers := [WEmpty [7] 1 (DELIVER_TO_COMPONENTS OR DELIVER_TO_GATEWAY)]\<rparr>"
  have s: "bus_run [Join 0, Join 1] (bus_start [5] 1) = Some b0" "bus_writers b0 = [WIdle]"
    "bus_readers b0 = [RHead, RHead]" "bus_running b0 = [True, True]" "bus_late b0 = [False, False]"
    by (rule demo_start [of 1], simp add: b0_def)+
  have r: "bus_run ([Join 0, Join 1] @ [Send 0 1 [7]]) (bus_start [5] 1) = Some b1"
    unfolding run_append s(1) by (simp add: s b1_def bus_step_def send_request_def GATEWAY_SLOT_def)
  have "all_running b1" "all_on_time b1"
    by (auto simp: all_running_def reader_on_def all_on_time_def b1_def s nth_Cons')
  then obtain ls' b' where d: "bus_run ls' b1 = Some b'" "\<forall>w < length (bus_writers b'). bus_writers b' ! w = WIdle"
    using bus_drains [OF r] by (auto simp: MAX_COMPONENTS_def)
  have "length (bus_writers b') = 1" using run_counts [OF d(1)] by (simp add: b1_def)
  moreover have "bus_run (([Join 0, Join 1] @ [Send 0 1 [7]]) @ ls') (bus_start [5] 1) = Some b'"
    using r d(1) by (simp only: run_append option.case)
  ultimately show ?thesis using d(2) by (intro exI [of _ ls'] exI [of _ b']) simp
qed

end
