(* ===== verification/Sender_Join.thy ===== *)
theory Sender_Join
  imports Shm_Bus
begin

section \<open>A reader that waits for a sender thread\<close>

text \<open>
  The thread that reads the ring runs \<open>SmartData::update\<close>, and with it \<open>Binding_Cache\<close>
  (\<open>src/communication/smart_data/binding_cache.h\<close>): a disinterest, a change of quadrant or the last
  expiry erases a \<open>Periodic_Thread\<close> from \<open>_threads\<close>, whose destructor joins the thread
  (\<open>src/core/periodic_thread.h\<close>, \<open>stop\<close>). That thread may be inside \<open>write_slot\<close>
  (\<open>src/network/engine/shared_memory_engine.cpp\<close>), waiting for a free slot that only the reader it
  is keeping waiting can provide.
\<close>

subsection \<open>The join\<close>

text \<open>
  Reader \<open>i\<close> is in \<open>_thread.join()\<close> of the thread that writes as \<open>w\<close>: it takes no step until
  \<open>w\<close> is out of \<open>write_slot\<close>; everything else runs as before.
\<close>

definition joining_step :: "nat \<Rightarrow> nat \<Rightarrow> label \<Rightarrow> bus \<Rightarrow> bus option" where
  "joining_step i w l b = (if l = Reader i \<and> bus_writers b ! w \<noteq> WIdle then None else bus_step l b)"

primrec joining_run :: "nat \<Rightarrow> nat \<Rightarrow> label list \<Rightarrow> bus \<Rightarrow> bus option" where
  "joining_run i w [] b = Some b"
| "joining_run i w (l # ls) b = (case joining_step i w l b of None \<Rightarrow> None | Some b' \<Rightarrow> joining_run i w ls b')"

text \<open>The ring is full behind reader \<open>i\<close>, and thread \<open>w\<close> waits for a free slot.\<close>

definition ring_full :: "nat \<Rightarrow> bus \<Rightarrow> bool" where
  "ring_full i b \<longleftrightarrow> next_seq b = rseq b i + SLOT_COUNT"

fun waits_for_slot :: "wpc \<Rightarrow> bool" where
  "waits_for_slot (WEmpty _ _ _) = True" | "waits_for_slot _ = False"

lemma full_no_slot:
  assumes inv: "bus_inv b" and i: "i < nreaders b" and full: "ring_full i b"
  shows "bus_sems b ! SEM_RING_EMPTY = 0" "\<forall>x \<in> set (bus_writers b). \<not> holds_empty x"
proof -
  have w: "int (next_seq b) + int (bus_sems b ! 1) + cnt holds_empty (bus_writers b) + cnt owes_empty (bus_readers b)
      \<le> int SLOT_COUNT + int (rseq b i)"
    using window [OF inv i] by linarith
  have n: "0 \<le> cnt holds_empty (bus_writers b)" "0 \<le> cnt owes_empty (bus_readers b)" by simp_all
  then have z: "int (bus_sems b ! 1) = 0" "cnt holds_empty (bus_writers b) = 0"
    using w full unfolding ring_full_def by linarith+
  then show "bus_sems b ! SEM_RING_EMPTY = 0" by (simp add: SEM_RING_EMPTY_def)
  show "\<forall>x \<in> set (bus_writers b). \<not> holds_empty x" using z(2) by (simp add: cnt_def filter_empty_conv)
qed

text \<open>With a full ring no thread gets past its wait for a slot, and no frame is written.\<close>

lemma full_step:
  assumes inv: "bus_inv b" and i: "i < nreaders b" and full: "ring_full i b"
    and st: "bus_step l b = Some b'" and l: "l \<noteq> Reader i" and joined: "bus_readers b ! i \<noteq> RNew"
  shows "ring_full i b'" "bus_history b' = bus_history b" "bus_readers b' ! i \<noteq> RNew"
    "w < length (bus_writers b) \<Longrightarrow> waits_for_slot (bus_writers b ! w) \<Longrightarrow> bus_writers b' ! w = bus_writers b ! w"
proof -
  note f = full_no_slot [OF inv i full]
  have lj: "l \<noteq> Join i" using st joined by (auto simp: bus_step_def)
  have r: "rseq b' i = rseq b i" by (rule rseq_kept [OF st l lj])
  show "bus_readers b' ! i \<noteq> RNew"
    using st l joined by (auto simp: bus_step_def writer_step_def reader_step_def to_reader_def nth_update Let_def
      split: label.splits if_splits option.splits wpc.splits rpc.splits prod.splits)
  have hold: "\<not> holds_empty (bus_writers b ! v)" if "v < length (bus_writers b)" for v using f(2) that by simp
  have "bus_history b' = bus_history b \<and> next_seq b' = next_seq b
     \<and> (w < length (bus_writers b) \<longrightarrow> waits_for_slot (bus_writers b ! w) \<longrightarrow> bus_writers b' ! w = bus_writers b ! w)" for w
  proof (cases l)
    case (Writer v)
    then have v: "v < length (bus_writers b)" "writer_step v b = Some b'" using st by (simp_all add: bus_step_def split: if_splits)
    show ?thesis
    proof (cases "bus_writers b ! v")
      case (WPost k)
      then show ?thesis using v by (auto simp: writer_step_def nth_list_update split: if_splits)
    qed (use v hold [OF v(1)] f(1) in \<open>simp_all add: writer_step_def sem_wait_def\<close>)
  next
    case (Send v slot bs)
    then show ?thesis using st by (auto simp: bus_step_def nth_list_update split: if_splits option.splits)
  next
    case (Reader k)
    then show ?thesis using st by (auto simp: bus_step_def reader_step_def to_reader_def read_body_def upd_component_def Let_def
        split: if_splits option.splits rpc.splits prod.splits)
  qed (use st in \<open>auto simp: bus_step_def register_reader_def upd_component_def Let_def split: if_splits\<close>)
  then show "ring_full i b'" "bus_history b' = bus_history b"
    "w < length (bus_writers b) \<Longrightarrow> waits_for_slot (bus_writers b ! w) \<Longrightarrow> bus_writers b' ! w = bus_writers b ! w"
    using full r by (simp_all add: ring_full_def)
qed

lemma joining_never_ends:
  assumes "bus_run ls (bus_start ports m) = Some b" and "joining_run i w ls' b = Some b'"
    and "length ports < MAX_COMPONENTS" and "length (ls @ ls') < 2 ^ 63"
    and "i < nreaders b" and "bus_readers b ! i \<noteq> RNew" and "ring_full i b"
    and "w < length (bus_writers b)" and "waits_for_slot (bus_writers b ! w)"
  shows "bus_writers b' ! w = bus_writers b ! w \<and> bus_history b' = bus_history b \<and> ring_full i b'"
  using assms
proof (induction ls' arbitrary: ls b)
  case (Cons l ls')
  obtain b1 where b1: "joining_step i w l b = Some b1" "joining_run i w ls' b1 = Some b'"
    using Cons.prems(2) by (auto split: option.splits)
  have l: "l \<noteq> Reader i" "bus_step l b = Some b1"
    using b1(1) Cons.prems(9) by (auto simp: joining_step_def split: if_splits)
  have inv: "bus_inv b" using bus_reached_inv [OF Cons.prems(1,3)] Cons.prems(4) by simp
  note f = full_step [OF inv Cons.prems(5,7) l(2,1) Cons.prems(6)]
  have run: "bus_run (ls @ [l]) (bus_start ports m) = Some b1" using Cons.prems(1) l(2) by (simp add: run_append)
  have n: "i < nreaders b1" using readers_kept [OF l(2)] Cons.prems(5) by simp
  have lw: "length (bus_writers b1) = length (bus_writers b)"
    using l(2) by (auto simp: bus_step_def writer_step_def reader_step_def to_reader_def Let_def
        split: label.splits if_splits option.splits wpc.splits rpc.splits prod.splits)
  have "bus_writers b' ! w = bus_writers b1 ! w \<and> bus_history b' = bus_history b1 \<and> ring_full i b'"
    by (rule Cons.IH [OF run b1(2) Cons.prems(3)]) (use Cons.prems n f lw in auto)
  then show ?case using f(2) f(4) [OF Cons.prems(8,9)] by simp
qed simp

text \<open>C36. A reader that joins a sender thread of its own process can stop the bus for good: if the thread is
  waiting for a slot and the ring is full behind the reader (which has joined the bus), then no schedule of all the other
  threads of the vehicle ends the join, and no process writes another frame.\<close>

theorem join_never_ends:
  assumes "bus_run ls (bus_start ports m) = Some b" and "joining_run i w ls' b = Some b'"
    and "length ports < MAX_COMPONENTS" and "length (ls @ ls') < 2 ^ 63"
    and "i < nreaders b" and "bus_readers b ! i \<noteq> RNew" and "ring_full i b"
    and "w < length (bus_writers b)" and "waits_for_slot (bus_writers b ! w)"
  shows "bus_writers b' ! w = bus_writers b ! w \<and> bus_history b' = bus_history b"
  using joining_never_ends [OF assms] by blast

subsection \<open>Such a state is reached\<close>

text \<open>
  Both processes join, and the gateway writes 100 frames while the reader of slot 1 is in \<open>update\<close>; then the sender thread of
  slot 1 sends a response.
\<close>

definition one_round :: "label list" where
  "one_round = [Send 0 0 [7], Writer 0, Writer 0, Writer 0, Writer 0, Writer 0, Writer 0]"

primrec rounds :: "nat \<Rightarrow> label list" where
  "rounds 0 = [Join 0, Join 1]"
| "rounds (Suc k) = rounds k @ one_round"

definition filled :: "nat \<Rightarrow> bus \<Rightarrow> bool" where
  "filled k b \<longleftrightarrow> bus_sems b = [1, 100 - k, k, k] \<and> bus_writers b = [WIdle, WIdle] \<and> bus_readers b = [RHead, RHead]
     \<and> component_count (bus_region b) = 2 \<and> next_seq b = k \<and> rseq b 1 = 0"

lemma one_round_fills:
  assumes "filled k b" and "k < 100"
  shows "\<exists>b'. bus_run one_round b = Some b' \<and> filled (Suc k) b'"
  using assms unfolding filled_def
  by (simp add: one_round_def run_simps)

lemma rounds_fill: "k \<le> 100 \<Longrightarrow> \<exists>b. bus_run (rounds k) (bus_start [5] 2) = Some b \<and> filled k b"
proof (induction k)
  case 0
  define b0 where "b0 = the (bus_run [Join 0, Join 1] (bus_start [5] 2))"
  have "bus_run [Join 0, Join 1] (bus_start [5] 2) = Some b0" "filled 0 b0"
    by (rule demo_start [of 2], simp add: b0_def filled_def numeral_2_eq_2)+
  then show ?case by (simp del: bus_run.simps)
next
  case (Suc k)
  then obtain b where b: "bus_run (rounds k) (bus_start [5] 2) = Some b" "filled k b" by auto
  with one_round_fills [OF b(2)] Suc.prems show ?case by (auto simp: run_append)
qed

lemma rounds_plain: "length (rounds k) = 7 * k + 2"
  by (induction k) (simp_all add: one_round_def)

lemma join_never_ends_witness:
  "\<exists>b. bus_run (rounds 100 @ [Send 1 1 [9]]) (bus_start [5] 2) = Some b
     \<and> bus_writers b ! 1 \<noteq> WIdle \<and> length (bus_history b) = 100
     \<and> (\<forall>ls' b'. joining_run 1 1 ls' b = Some b' \<and> length ls' < 2 ^ 62 \<longrightarrow>
          bus_writers b' ! 1 = bus_writers b ! 1 \<and> length (bus_history b') = 100)"
proof -
  obtain a where a: "bus_run (rounds 100) (bus_start [5] 2) = Some a" "filled 100 a" using rounds_fill [of 100] by auto
  obtain fl where "bus_step (Send 1 1 [9]) a = Some (a\<lparr>bus_writers := [WIdle, WEmpty [9] 1 fl]\<rparr>)"
    using a(2) by (simp add: filled_def bus_step_def send_request_def GATEWAY_SLOT_def FRAME_SIZE_def HEADER_SIZE_def MTU_def)
  then obtain b where b: "bus_run (rounds 100 @ [Send 1 1 [9]]) (bus_start [5] 2) = Some b"
    "b = a\<lparr>bus_writers := [WIdle, WEmpty [9] 1 fl]\<rparr>" using a(1) by (simp add: run_append)
  have f: "bus_writers b = [WIdle, WEmpty [9] 1 fl]" "bus_readers b = [RHead, RHead]" "next_seq b = 100" "rseq b 1 = 0"
    using a(2) b(2) by (simp_all add: filled_def)
  have plain: "length (rounds 100 @ [Send 1 1 [9]]) = 703"
    using rounds_plain [of 100] by simp
  have "bus_inv b" by (rule bus_reached_inv [OF b(1)]) (use plain in \<open>simp_all add: MAX_COMPONENTS_def\<close>)
  then have h: "length (bus_history b) = 100" using f(3) by (simp add: bus_inv_def ring_ok_def)
  have "bus_writers b' ! 1 = bus_writers b ! 1 \<and> bus_history b' = bus_history b"
    if "joining_run 1 1 ls' b = Some b'" "length ls' < 2 ^ 62" for ls' b'
    by (rule join_never_ends [OF b(1) that(1)])
      (use plain that f in \<open>auto simp: MAX_COMPONENTS_def ring_full_def SLOT_COUNT_def\<close>)
  then show ?thesis using b(1) f(1) h by auto
qed

end
