(* ===== verification/Address.thy ===== *)
theory Address
  imports Wire
begin

section \<open>Endpoint addresses and well-known ports\<close>

text \<open>
  \<open>Protocol::Address\<close> of \<open>src/channel/protocol.h\<close> (a MAC and a port) and
  \<open>src/application/component_ports.h\<close>.
\<close>

subsection \<open>Ports\<close>

definition PORT_GATEWAY :: u16 where "PORT_GATEWAY = 0x0000"
definition PORT_GPS_SENSOR :: u16 where "PORT_GPS_SENSOR = 0x0101"
definition PORT_LIDAR_SENSOR :: u16 where "PORT_LIDAR_SENSOR = 0x0102"
definition PORT_RADAR_SENSOR :: u16 where "PORT_RADAR_SENSOR = 0x0103"
definition PORT_BRAKING_ACTUATOR :: u16 where "PORT_BRAKING_ACTUATOR = 0x0201"
definition PORT_POWERTRAIN_ACTUATOR :: u16 where "PORT_POWERTRAIN_ACTUATOR = 0x0202"
definition PORT_STEERING_ACTUATOR :: u16 where "PORT_STEERING_ACTUATOR = 0x0203"
definition PORT_BROADCAST :: u16 where "PORT_BROADCAST = 0xFFFF"

lemmas port_defs = PORT_GATEWAY_def PORT_GPS_SENSOR_def PORT_LIDAR_SENSOR_def PORT_RADAR_SENSOR_def
  PORT_BRAKING_ACTUATOR_def PORT_POWERTRAIN_ACTUATOR_def PORT_STEERING_ACTUATOR_def PORT_BROADCAST_def

subsection \<open>Addresses\<close>

record address =
  a_paddr :: mac
  a_port :: u16

definition null_address :: address where
  "null_address = \<lparr>a_paddr = INTERNAL, a_port = 0\<rparr>"

definition broadcast_port :: u16 where
  "broadcast_port = - 1"

definition physical_broadcast :: "u16 \<Rightarrow> address" where
  "physical_broadcast port = \<lparr>a_paddr = BROADCAST, a_port = port\<rparr>"

definition logical_broadcast :: address where
  "logical_broadcast = physical_broadcast broadcast_port"

definition same_physical :: "address \<Rightarrow> address \<Rightarrow> bool" where
  "same_physical a b = (a_paddr a = a_paddr b)"

definition is_internal :: "address \<Rightarrow> bool" where
  "is_internal a = (a_paddr a = INTERNAL)"

definition address_bool :: "address \<Rightarrow> bool" where
  "address_bool a = (mac_bool (a_paddr a) \<or> a_port a \<noteq> 0)"

lemma broadcast_port_agrees: "broadcast_port = PORT_BROADCAST"
  by (simp add: broadcast_port_def PORT_BROADCAST_def)

lemma address_bool_null: "mac_ok (a_paddr a) \<Longrightarrow> address_bool a \<longleftrightarrow> a \<noteq> null_address"
  by (cases a) (auto simp: address_bool_def null_address_def mac_bool_def mac_ok_def INTERNAL_def
      length_Suc_conv eval_nat_numeral)

lemma broadcast_address_external [simp]: "\<not> is_internal (physical_broadcast p)" "\<not> is_internal logical_broadcast"
  by (simp_all add: is_internal_def logical_broadcast_def physical_broadcast_def BROADCAST_def INTERNAL_def)

end
