(* ===== verification/Sptp.thy ===== *)
theory Sptp
  imports Complex_Main Address Clock
begin

section \<open>Clock synchronisation\<close>

text \<open>
  \<open>src/channel/sptp_protocol.h\<close> with its constants in \<open>src/core/traits.h\<close>: the gateway's
  four-timestamp protocol. The clock readings of an operation are arguments, in the order the
  code takes them; sending is the parameter \<open>send\<close> (\<open>Protocol::send\<close>), which returns the
  stamp it wrote to \<open>tx_ts_out\<close> (0 when no buffer was free) and may call back into the object
  through the quadrant-change handler; so it also gets and returns the object's state.
\<close>

subsection \<open>Constants\<close>

definition MIN_OFFSET_NS :: int where "MIN_OFFSET_NS = 100000"
definition MAX_OFFSET_NS :: int where "MAX_OFFSET_NS = 1000000000"
definition INITIAL_DELAY_NS :: int where "INITIAL_DELAY_NS = 100000"
definition MAX_SILENCE_S :: rat where "MAX_SILENCE_S = 2"

lemmas sptp_consts = MIN_OFFSET_NS_def MAX_OFFSET_NS_def INITIAL_DELAY_NS_def MAX_SILENCE_S_def

subsection \<open>State\<close>

record sptp =
  s_own_addr :: address
  s_is_master :: bool
  s_delay_ns :: int
  s_offset_ns :: int
  s_pending_t2 :: int
  s_pending_seq :: u32
  s_next_seq :: u32
  s_last_sync :: int
  s_max_silence :: rat
  s_running :: bool
  s_sync_count :: int
  s_resync_requests :: int
  s_first_sync_done :: bool

text \<open>\<open>getenv\<close> and \<open>atof\<close> give \<open>None\<close> or a number.\<close>

definition load_max_silence :: "rat option \<Rightarrow> rat" where
  "load_max_silence env = (case env of Some v \<Rightarrow> if v > 0 then v else MAX_SILENCE_S | None \<Rightarrow> MAX_SILENCE_S)"

definition sptp_init :: "address \<Rightarrow> bool \<Rightarrow> rat option \<Rightarrow> sptp" where
  "sptp_init own master env =
     \<lparr>s_own_addr = own, s_is_master = master, s_delay_ns = INITIAL_DELAY_NS, s_offset_ns = 0,
      s_pending_t2 = 0, s_pending_seq = 0, s_next_seq = 1, s_last_sync = 0,
      s_max_silence = load_max_silence env, s_running = False, s_sync_count = 0,
      s_resync_requests = 0, s_first_sync_done = False\<rparr>"

type_synonym 'w send_fn =
  "address \<Rightarrow> address \<Rightarrow> u8 list \<Rightarrow> int \<Rightarrow> packet_kind \<Rightarrow> sptp \<times> 'w \<Rightarrow> int \<times> sptp \<times> 'w"

subsection \<open>Requests\<close>

definition send_sync_request :: "'w send_fn \<Rightarrow> int \<Rightarrow> sptp \<times> 'w \<Rightarrow> sptp \<times> 'w" where
  "send_sync_request send early w =
     (case w of (s, x) \<Rightarrow>
        let seq = s_next_seq s;
            s1 = s\<lparr>s_next_seq := seq + 1, s_pending_t2 := early, s_pending_seq := seq\<rparr>
        in case send (s_own_addr s1) (physical_broadcast PORT_GATEWAY) (enc_request seq) 0
                  SPTP_REQUEST_SYNC (s1, x) of
             (tx_ts, s2, x') \<Rightarrow> (if tx_ts \<noteq> 0 then s2\<lparr>s_pending_t2 := tx_ts\<rparr> else s2, x'))"

definition send_sync_reply :: "'w send_fn \<Rightarrow> address \<Rightarrow> u32 \<Rightarrow> int \<Rightarrow> sptp \<times> 'w \<Rightarrow> sptp \<times> 'w" where
  "send_sync_reply send to seq t2_prime w =
     snd (send (s_own_addr (fst w)) to
            (enc_sync \<lparr>sp_seq_id = seq, sp_t2_prime = word_of_int t2_prime\<rparr>) 0 SPTP_SYNC w)"

text \<open>\<open>start\<close> up to the creation of the watchdog thread.\<close>

definition sptp_start :: "'w send_fn \<Rightarrow> int \<Rightarrow> int \<Rightarrow> sptp \<times> 'w \<Rightarrow> sptp \<times> 'w" where
  "sptp_start send steady early w =
     (case w of (s, x) \<Rightarrow>
        if s_is_master s then w
        else send_sync_request send early (s\<lparr>s_last_sync := steady, s_running := True\<rparr>, x))"

definition sptp_stop :: "sptp \<Rightarrow> sptp" where
  "sptp_stop s = s\<lparr>s_running := False\<rparr>"

definition request_resync :: "'w send_fn \<Rightarrow> int \<Rightarrow> sptp \<times> 'w \<Rightarrow> sptp \<times> 'w" where
  "request_resync send early w =
     (case w of (s, x) \<Rightarrow>
        if s_is_master s then w
        else if \<not> s_running s then w
        else send_sync_request send early (s\<lparr>s_resync_requests := s_resync_requests s + 1\<rparr>, x))"

text \<open>One wake-up of the watchdog thread, one second after the previous.\<close>

definition silent :: "sptp \<Rightarrow> int \<Rightarrow> bool" where
  "silent s now = (s_max_silence s < of_int (now - s_last_sync s) / 1000000000)"

definition watchdog_tick :: "'w send_fn \<Rightarrow> int \<Rightarrow> int \<Rightarrow> sptp \<times> 'w \<Rightarrow> sptp \<times> 'w" where
  "watchdog_tick send steady early w =
     (case w of (s, x) \<Rightarrow>
        if \<not> s_running s then w
        else if \<not> s_first_sync_done s then send_sync_request send early w
        else if silent s steady then send_sync_request send early w
        else w)"

subsection \<open>The delay filter in double precision\<close>

text \<open>
  \<open>(1.0 - ALPHA) * delay + ALPHA * sample\<close> with \<open>ALPHA = 1/8\<close>. The weights are exact, so each
  product and the sum is one rounding to 53 significant bits; values are kept in eighths of a
  nanosecond, where they are integers. The conversion back truncates.
\<close>

function bits :: "nat \<Rightarrow> nat" where
  "bits n = (if n = 0 then 0 else 1 + bits (n div 2))"
  by auto
termination by (relation "measure id") auto

declare bits.simps [simp del]

definition round53 :: "int \<Rightarrow> int" where
  "round53 x =
     (let n = nat \<bar>x\<bar> in
      if n < 2 ^ 53 then x
      else let e = bits n - 53; q = n div 2 ^ e; r = n mod 2 ^ e;
               q' = (if 2 * r > 2 ^ e \<or> (2 * r = 2 ^ e \<and> odd q) then q + 1 else q)
           in sgn x * int (q' * 2 ^ e))"

definition ewma :: "int \<Rightarrow> int \<Rightarrow> int" where
  "ewma delay sample = round53 (round53 (7 * round53 delay) + round53 sample) sdiv 8"

subsection \<open>Receiving\<close>

definition raw_offset :: "int \<Rightarrow> int \<Rightarrow> int \<Rightarrow> int \<Rightarrow> int" where
  "raw_offset t1 t1' t2 t2' = i64 (i64 (t1' - t1) - i64 (t2' - t2)) sdiv 2"

definition raw_delay :: "int \<Rightarrow> int \<Rightarrow> int \<Rightarrow> int \<Rightarrow> int" where
  "raw_delay t1 t1' t2 t2' = i64 (i64 (t1' - t1) + i64 (t2' - t2)) sdiv 2"

text \<open>The value \<open>clock_settime\<close> is called with, from the reading \<open>ts\<close>.\<close>

definition adjust_clock_jump :: "timespec \<Rightarrow> int \<Rightarrow> timespec" where
  "adjust_clock_jump ts delta =
     (let total = i64 (tv_sec ts * 1000000000 + tv_nsec ts + delta)
      in \<lparr>tv_sec = total sdiv 1000000000, tv_nsec = total smod 1000000000\<rparr>)"

text \<open>
  The readings of the slave branch: \<open>now_ns\<close> at arrival, the steady clock, and the
  \<open>CLOCK_REALTIME\<close> reading of \<open>adjust_clock_jump\<close>.
\<close>

record sync_clocks =
  k_now :: int
  k_steady :: int
  k_realtime :: timespec

definition slave_sync :: "sync_clocks \<Rightarrow> int \<Rightarrow> u8 list \<Rightarrow> sptp \<Rightarrow> sptp \<times> timespec option" where
  "slave_sync k header_ts pl s =
     (let t1' = k_now k; t1 = header_ts; t2 = s_pending_t2 s; p = dec_sync pl in
      if t2 = 0 then (s, None)
      else if sp_seq_id p \<noteq> s_pending_seq s then (s, None)
      else
        let t2' = sint (sp_t2_prime p);
            off = raw_offset t1 t1' t2 t2';
            delay = raw_delay t1 t1' t2 t2';
            s1 = (if delay > 0 then s\<lparr>s_delay_ns := ewma (s_delay_ns s) delay\<rparr> else s);
            abs_offset = i64 \<bar>off\<bar>
        in if abs_offset \<ge> MAX_OFFSET_NS then (s1\<lparr>s_pending_t2 := 0\<rparr>, None)
           else (s1\<lparr>s_last_sync := k_steady k, s_first_sync_done := True, s_offset_ns := off,
                    s_sync_count := s_sync_count s1 + 1, s_pending_t2 := 0\<rparr>,
                 if abs_offset > MIN_OFFSET_NS then Some (adjust_clock_jump (k_realtime k) (- off))
                 else None))"

definition sptp_on_receive ::
  "'w send_fn \<Rightarrow> (address \<Rightarrow> sptp \<times> 'w \<Rightarrow> sptp \<times> 'w) option \<Rightarrow> packet_kind \<Rightarrow> address \<Rightarrow> int \<Rightarrow> u8 list
     \<Rightarrow> sync_clocks \<Rightarrow> sptp \<times> 'w \<Rightarrow> (sptp \<times> 'w) \<times> timespec option"
where
  "sptp_on_receive send on_presence kind sender header_ts pl k w =
     (if s_is_master (fst w)
      then if kind = SPTP_REQUEST_SYNC
           then if length pl < REQUEST_LEN then (w, None)
                else let w1 = send_sync_reply send sender (dec_request pl) (k_now k) w
                     in (case on_presence of None \<Rightarrow> w1 | Some f \<Rightarrow> f sender w1, None)
           else (w, None)
      else if kind \<noteq> SPTP_SYNC then (w, None)
      else if length pl < SYNC_LEN then (w, None)
      else case slave_sync k header_ts pl (fst w) of (s', jump) \<Rightarrow> ((s', snd w), jump))"

subsection \<open>The filter is exact and stays between its arguments\<close>

lemma round53_id: "\<bar>x\<bar> < 2 ^ 53 \<Longrightarrow> round53 x = x"
  by (auto simp: round53_def Let_def nat_less_iff)

lemma ewma_exact:
  assumes "\<bar>7 * d\<bar> < 2 ^ 53" and "\<bar>r\<bar> < 2 ^ 53" and "\<bar>7 * d + r\<bar> < 2 ^ 53"
  shows "ewma d r = (7 * d + r) sdiv 8"
proof -
  have "\<bar>d\<bar> < 2 ^ 53" using assms(1) by simp
  then show ?thesis using assms by (simp add: ewma_def round53_id)
qed

lemma ewma_between:
  assumes d: "1 \<le> d" "d < 2 ^ 50" and r: "1 \<le> r" "r < 2 ^ 50"
  shows "min d r \<le> ewma d r \<and> ewma d r \<le> max d r"
proof -
  have "ewma d r = (7 * d + r) sdiv 8" by (rule ewma_exact) (use d r in auto)
  then have e: "ewma d r = (7 * d + r) div 8" using d r by (simp add: sdiv_nonneg)
  have "8 * min d r \<le> 7 * d + r" "7 * d + r \<le> 8 * max d r" by (auto simp: min_def max_def)
  then show ?thesis unfolding e by linarith
qed

text \<open>The smoothed delay never leaves the range of the samples: it starts positive and,
  for delays below 2^50 ns (13 days), lies between the previous value and the sample; the
  floating-point rounding of the code does not change it.\<close>

theorem delay_filter_bounded:
  assumes "1 \<le> s_delay_ns s" and "s_delay_ns s < 2 ^ 50"
    and "\<bar>raw_delay h (k_now k) (s_pending_t2 s) (sint (sp_t2_prime (dec_sync p)))\<bar> < 2 ^ 50"
    and "slave_sync k h p s = (s', jump)"
  shows "1 \<le> s_delay_ns s' \<and> s_delay_ns s' < 2 ^ 50
    \<and> (s_delay_ns s' = s_delay_ns s
       \<or> s_delay_ns s' = (7 * s_delay_ns s
            + raw_delay h (k_now k) (s_pending_t2 s) (sint (sp_t2_prime (dec_sync p)))) div 8)"
proof -
  let ?r = "raw_delay h (k_now k) (s_pending_t2 s) (sint (sp_t2_prime (dec_sync p)))"
  have s': "s_delay_ns s' = s_delay_ns s \<or> 0 < ?r \<and> s_delay_ns s' = ewma (s_delay_ns s) ?r"
    using assms(4) by (auto simp: slave_sync_def Let_def split: if_splits)
  have r: "?r < 2 ^ 50" using assms(3) by linarith
  show ?thesis
  proof (cases "s_delay_ns s' = s_delay_ns s")
    case False
    then have pos: "1 \<le> ?r" and e: "s_delay_ns s' = ewma (s_delay_ns s) ?r" using s' by auto
    have "ewma (s_delay_ns s) ?r = (7 * s_delay_ns s + ?r) sdiv 8"
      by (rule ewma_exact) (use assms(1,2) pos r in auto)
    moreover have "min (s_delay_ns s) ?r \<le> ewma (s_delay_ns s) ?r \<and> ewma (s_delay_ns s) ?r \<le> max (s_delay_ns s) ?r"
      by (rule ewma_between) (use assms(1,2) pos r in simp_all)
    ultimately show ?thesis using e assms(1,2) pos r by (auto simp: sdiv_nonneg min_def max_def split: if_splits)
  qed (use assms(1,2) in simp)
qed

definition demo_slave :: sptp where
  "demo_slave = (sptp_init null_address False None)\<lparr>s_running := True, s_pending_t2 := 5000000,
     s_pending_seq := 1, s_next_seq := 2\<rparr>"

definition demo_clocks :: sync_clocks where
  "demo_clocks = \<lparr>k_now = 9000000, k_steady = 77, k_realtime = \<lparr>tv_sec = 1, tv_nsec = 500\<rparr>\<rparr>"

lemma demo_values:
  "raw_delay 3000000 9000000 5000000 2000000 = 1500000" "raw_offset 3000000 9000000 5000000 2000000 = 4500000"
  by (simp_all add: raw_delay_def raw_offset_def i64_id in_i64_def signed_divide_int_def)

lemma demo_sync: "dec_sync (enc_sync \<lparr>sp_seq_id = 1, sp_t2_prime = 2000000\<rparr>) = \<lparr>sp_seq_id = 1, sp_t2_prime = 2000000\<rparr>"
  by (rule sync_wire.dec_enc_exact)

lemma delay_filter_bounded_witness:
  "s_delay_ns (fst (slave_sync demo_clocks 3000000 (enc_sync \<lparr>sp_seq_id = 1, sp_t2_prime = 2000000\<rparr>) demo_slave)) < 2 ^ 50"
proof -
  obtain s' j where r: "slave_sync demo_clocks 3000000 (enc_sync \<lparr>sp_seq_id = 1, sp_t2_prime = 2000000\<rparr>) demo_slave = (s', j)"
    by fastforce
  have "s_delay_ns demo_slave = 100000" "s_pending_t2 demo_slave = 5000000" "k_now demo_clocks = 9000000"
    by (simp_all add: demo_slave_def sptp_init_def INITIAL_DELAY_NS_def demo_clocks_def)
  then have "s_delay_ns s' < 2 ^ 50"
    using delay_filter_bounded [OF _ _ _ r] demo_values(1) by (simp add: demo_sync)
  then show ?thesis using r by simp
qed

subsection \<open>The clock is moved by the measured offset or not at all\<close>

lemma adjust_exact:
  assumes "timespec_ok ts" and "0 \<le> tv_sec ts * 1000000000 + tv_nsec ts + d"
    and "in_i64 (tv_sec ts * 1000000000 + tv_nsec ts)" and "in_i64 (tv_sec ts * 1000000000 + tv_nsec ts + d)"
  shows "now_ns (adjust_clock_jump ts d) = now_ns ts + d \<and> timespec_ok (adjust_clock_jump ts d)"
proof -
  let ?t = "tv_sec ts * 1000000000 + tv_nsec ts + d"
  have "?t sdiv 1000000000 = ?t div 1000000000" "?t smod 1000000000 = ?t mod 1000000000"
    using assms(2) by (simp_all add: sdiv_nonneg smod_nonneg)
  then show ?thesis using assms(3,4)
    by (simp add: adjust_clock_jump_def Let_def i64_id now_ns_def timespec_ok_def)
qed

lemma raw_offset_range: "\<bar>raw_offset t1 t1' t2 t2'\<bar> \<le> 2 ^ 62"
proof -
  have half: "\<bar>q\<bar> \<le> 2 ^ 62" if "\<bar>2 * q - x\<bar> \<le> 1" "- (2 ^ 63) \<le> x" "x < 2 ^ 63" for q x :: int
    using that by (auto simp: abs_le_iff)
  have "in_i64 (i64 (i64 (t1' - t1) - i64 (t2' - t2)))" by simp
  then show ?thesis unfolding raw_offset_def in_i64_def by (intro half [OF sdiv2_bounds]) blast+
qed

lemma abs_offset_id: "i64 \<bar>raw_offset t1 t1' t2 t2'\<bar> = \<bar>raw_offset t1 t1' t2 t2'\<bar>"
  using raw_offset_range [of t1 t1' t2 t2'] by (intro i64_id) (simp add: in_i64_def)

lemma slave_sync_jump:
  assumes "slave_sync k h p s = (s', Some ts)"
  shows "\<exists>off. MIN_OFFSET_NS < \<bar>off\<bar> \<and> \<bar>off\<bar> < MAX_OFFSET_NS \<and> ts = adjust_clock_jump (k_realtime k) (- off)
     \<and> off = raw_offset h (k_now k) (s_pending_t2 s) (sint (sp_t2_prime (dec_sync p)))"
  using assms by (auto simp: slave_sync_def Let_def abs_offset_id split: if_splits)

text \<open>Whatever a SYNC contains, a processed message sets the clock only if its offset
  lies strictly between 100 us and 1 s, and then moves it by exactly that much.\<close>

theorem clock_jump_bounded:
  assumes "sptp_on_receive send pres kind from h p k w = (w', Some ts)"
    and "timespec_ok (k_realtime k)" and "1 \<le> tv_sec (k_realtime k)" and "tv_sec (k_realtime k) < 2 ^ 32"
  shows "timespec_ok ts \<and> MIN_OFFSET_NS < \<bar>now_ns ts - now_ns (k_realtime k)\<bar>
     \<and> \<bar>now_ns ts - now_ns (k_realtime k)\<bar> < MAX_OFFSET_NS \<and> \<not> s_is_master (fst w)"
proof -
  obtain s' where "slave_sync k h p (fst w) = (s', Some ts)" and m: "\<not> s_is_master (fst w)"
    using assms(1) by (auto simp: sptp_on_receive_def Let_def split: if_splits prod.splits)
  then obtain off where off: "MIN_OFFSET_NS < \<bar>off\<bar>" "\<bar>off\<bar> < MAX_OFFSET_NS"
    "ts = adjust_clock_jump (k_realtime k) (- off)"
    using slave_sync_jump by blast
  let ?k = "k_realtime k"
  have n: "0 \<le> tv_nsec ?k" "tv_nsec ?k < 1000000000" using assms(2) by (simp_all add: timespec_ok_def)
  have o: "- 1000000000 < off" "off < 1000000000" using off(2) by (simp_all add: MAX_OFFSET_NS_def abs_less_iff)
  have "now_ns (adjust_clock_jump ?k (- off)) = now_ns ?k + - off \<and> timespec_ok (adjust_clock_jump ?k (- off))"
    by (rule adjust_exact [OF assms(2)]) (use n o assms(3,4) in \<open>simp_all add: in_i64_def\<close>)
  then show ?thesis using off m by simp
qed

lemma clock_jump_bounded_witness:
  "\<exists>ts. snd (sptp_on_receive (\<lambda>_ _ _ _ _ w. (0, w)) None SPTP_SYNC null_address 3000000
           (enc_sync \<lparr>sp_seq_id = 1, sp_t2_prime = 2000000\<rparr>) demo_clocks (demo_slave, ())) = Some ts
     \<and> timespec_ok ts \<and> \<bar>now_ns ts - 1000000500\<bar> < MAX_OFFSET_NS"
proof -
  let ?p = "enc_sync \<lparr>sp_seq_id = 1, sp_t2_prime = 2000000\<rparr>"
  have len: "length ?p = SYNC_LEN" by (rule sync_wire.enc_size)
  have st: "s_pending_t2 demo_slave = 5000000" "s_pending_seq demo_slave = 1" "\<not> s_is_master demo_slave"
    by (simp_all add: demo_slave_def sptp_init_def)
  have k: "k_now demo_clocks = 9000000" "k_realtime demo_clocks = \<lparr>tv_sec = 1, tv_nsec = 500\<rparr>"
    by (simp_all add: demo_clocks_def)
  have "\<exists>w' ts. sptp_on_receive (\<lambda>_ _ _ _ _ w. (0, w)) None SPTP_SYNC null_address 3000000 ?p demo_clocks (demo_slave, ())
      = (w', Some ts)"
    using len by (simp add: sptp_on_receive_def slave_sync_def st k demo_sync demo_values Let_def sptp_consts i64_id in_i64_def)
  then obtain w' ts where r: "sptp_on_receive (\<lambda>_ _ _ _ _ w. (0, w)) None SPTP_SYNC null_address 3000000 ?p
      demo_clocks (demo_slave, ()) = (w', Some ts)" by blast
  have "timespec_ok ts \<and> \<bar>now_ns ts - now_ns (k_realtime demo_clocks)\<bar> < MAX_OFFSET_NS"
    using clock_jump_bounded [OF r] by (simp add: k timespec_ok_def)
  moreover have "now_ns (k_realtime demo_clocks) = 1000000500" by (simp add: k now_ns_def i64_id in_i64_def)
  ultimately show ?thesis using r by simp
qed

lemma idle_slave:
  assumes "\<not> s_is_master s" and "s_pending_t2 s = 0"
  shows "sptp_on_receive send pres kind from h p k (s, x) = ((s, x), None)"
  using assms by (simp add: sptp_on_receive_def slave_sync_def Let_def)

text \<open>One request is answered at most once: a SYNC that changes anything uses up the pending
  request, and from then on until the next request every packet, replays included, leaves a
  slave as it is; so does a SYNC with another sequence number.\<close>

theorem sync_consumes_request:
  assumes "\<not> s_is_master s"
    and "sptp_on_receive send pres kind from h p k (s, x) = ((s1, x1), j)" and "s1 \<noteq> s"
  shows "kind = SPTP_SYNC \<and> x1 = x \<and> sp_seq_id (dec_sync p) = s_pending_seq s \<and> s_pending_t2 s1 = 0
    \<and> sptp_on_receive send' pres' kind' from' h' p' k' (s1, x') = ((s1, x'), None)"
proof -
  have "slave_sync k h p s = (s1, j)" and k: "kind = SPTP_SYNC" and x: "x1 = x"
    using assms by (auto simp: sptp_on_receive_def split: if_splits prod.splits)
  then have p: "s_pending_t2 s1 = 0" "sp_seq_id (dec_sync p) = s_pending_seq s" "s_is_master s1 = s_is_master s"
    using assms(3) by (auto simp: slave_sync_def Let_def split: if_splits)
  then show ?thesis using assms(1) k x idle_slave [of s1 send' pres' kind' from' h' p' k' x'] by simp
qed

lemma sync_consumes_request_witness:
  "\<exists>s1. fst (fst (sptp_on_receive (\<lambda>_ _ _ _ _ w. (0, w)) None SPTP_SYNC null_address 3000000
           (enc_sync \<lparr>sp_seq_id = 1, sp_t2_prime = 2000000\<rparr>) demo_clocks (demo_slave, ()))) = s1
     \<and> s_pending_t2 s1 = 0"
proof -
  let ?p = "enc_sync \<lparr>sp_seq_id = 1, sp_t2_prime = 2000000\<rparr>"
  obtain s1 j where r: "sptp_on_receive (\<lambda>_ _ _ _ _ w. (0, w)) None SPTP_SYNC null_address 3000000 ?p demo_clocks
      (demo_slave, ()) = ((s1, ()), j)"
    by (cases "sptp_on_receive (\<lambda>_ _ _ _ _ w. (0, w)) None SPTP_SYNC null_address 3000000 ?p demo_clocks
      (demo_slave, ())") auto
  have len: "length ?p = SYNC_LEN" by (rule sync_wire.enc_size)
  have st: "s_pending_t2 demo_slave = 5000000" "s_pending_seq demo_slave = 1" "\<not> s_is_master demo_slave"
    "s_sync_count demo_slave = 0"
    by (simp_all add: demo_slave_def sptp_init_def)
  have k: "k_now demo_clocks = 9000000" by (simp add: demo_clocks_def)
  have "s_sync_count s1 = 1"
    using r len by (auto simp: sptp_on_receive_def slave_sync_def st k demo_sync demo_values Let_def sptp_consts i64_id in_i64_def)
  then have "s1 \<noteq> demo_slave" using st(4) by auto
  then have "s_pending_t2 s1 = 0" using sync_consumes_request [OF st(3) r, where x' = "()"] by simp
  then show ?thesis using r by simp
qed

subsection \<open>A whole exchange\<close>

text \<open>\<open>recording now\<close> is a \<open>send\<close> that stamps \<open>now\<close> and keeps what was sent.\<close>

type_synonym sent = "(address \<times> address \<times> u8 list \<times> int \<times> packet_kind) list"

definition recording :: "int \<Rightarrow> sent send_fn" where
  "recording now src dst data ts kind w =
     (now, fst w, snd w @ [(src, dst, data, if ts \<noteq> 0 then ts else now, kind)])"

definition slave_requests :: "int \<Rightarrow> sptp \<Rightarrow> sptp \<times> u8 list" where
  "slave_requests now s =
     (case send_sync_request (recording now) now (s, []) of
        (s', out) \<Rightarrow> (s', fst (snd (snd (hd out)))))"

definition master_answers :: "int \<Rightarrow> int \<Rightarrow> address \<Rightarrow> u8 list \<Rightarrow> sptp \<Rightarrow> u8 list \<times> int" where
  "master_answers arrival departure slave req m =
     (case fst (sptp_on_receive (recording departure) None SPTP_REQUEST_SYNC slave 0 req
                  \<lparr>k_now = arrival, k_steady = 0, k_realtime = \<lparr>tv_sec = 0, tv_nsec = 0\<rparr>\<rparr> (m, [])) of
        (m', out) \<Rightarrow> (fst (snd (snd (hd out))), fst (snd (snd (snd (hd out))))))"

lemma sint_word_of_int: "in_i64 x \<Longrightarrow> sint (word_of_int x :: u64) = x"
  by (simp add: in_i64_def sint_sbintrunc' signed_take_bit_int_eq_self)

lemma offset_accuracy:
  fixes a d1 b d2 \<theta> :: int
  assumes "\<bar>a\<bar> < 2 ^ 58" "\<bar>d1\<bar> < 2 ^ 58" "\<bar>b\<bar> < 2 ^ 58" "\<bar>d2\<bar> < 2 ^ 58" "\<bar>\<theta>\<bar> < 2 ^ 58"
  shows "\<bar>2 * (\<theta> - raw_offset b (b + d2 + \<theta>) (a + \<theta>) (a + d1)) - (d1 - d2)\<bar> \<le> 1"
proof -
  have "raw_offset b (b + d2 + \<theta>) (a + \<theta>) (a + d1) = (2 * \<theta> + (d2 - d1)) sdiv 2"
  proof -
    have "i64 (b + d2 + \<theta> - b) = d2 + \<theta>" "i64 (a + d1 - (a + \<theta>)) = d1 - \<theta>"
      using assms by (simp_all add: i64_id in_i64_def abs_less_iff)
    moreover have "i64 (d2 + \<theta> - (d1 - \<theta>)) = 2 * \<theta> + (d2 - d1)"
      using assms by (simp add: i64_id in_i64_def abs_less_iff)
    ultimately show ?thesis by (simp add: raw_offset_def)
  qed
  then obtain q where "raw_offset b (b + d2 + \<theta>) (a + \<theta>) (a + d1) = q" "\<bar>2 * q - (2 * \<theta> + (d2 - d1))\<bar> \<le> 1"
    using sdiv2_bounds [of "2 * \<theta> + (d2 - d1)"] by blast
  then show ?thesis by (simp add: abs_le_iff)
qed

text \<open>What the slave makes of the reply to its request: it left at \<open>a\<close>, took \<open>d1\<close>, the reply left at \<open>b\<close> and took \<open>d2\<close>.\<close>

lemma reply_accuracy:
  fixes a d1 b d2 \<theta> :: int
  assumes pos: "a + \<theta> \<noteq> 0" and small: "\<bar>a\<bar> < 2 ^ 58" "\<bar>d1\<bar> < 2 ^ 58" "\<bar>b\<bar> < 2 ^ 58" "\<bar>d2\<bar> < 2 ^ 58" "\<bar>\<theta>\<bar> < 2 ^ 58"
    and rt: "timespec_ok (k_realtime k)" "1 \<le> tv_sec (k_realtime k)" "tv_sec (k_realtime k) < 2 ^ 32"
    and now: "k_now k = b + d2 + \<theta>"
    and s1: "s_pending_t2 s1 = a + \<theta>" "s_pending_seq s1 = seq"
    and sl: "slave_sync k b (enc_sync \<lparr>sp_seq_id = seq, sp_t2_prime = word_of_int (a + d1)\<rparr>) s1 = (s2, jump)"
  shows "case jump of
      Some ts \<Rightarrow> \<bar>2 * (\<theta> + now_ns ts - now_ns (k_realtime k)) - (d1 - d2)\<bar> \<le> 1
    | None \<Rightarrow> s_first_sync_done s2 \<and> s_sync_count s2 = s_sync_count s1 + 1
                \<and> \<bar>2 * \<theta> - (d1 - d2)\<bar> \<le> 2 * MIN_OFFSET_NS + 1
            \<or> s_sync_count s2 = s_sync_count s1 \<and> \<bar>2 * \<theta> - (d1 - d2)\<bar> \<ge> 2 * MAX_OFFSET_NS - 1"
proof -
  define p where "p = enc_sync \<lparr>sp_seq_id = seq, sp_t2_prime = word_of_int (a + d1)\<rparr>"
  note sl = sl [folded p_def]
  have dec: "dec_sync p = \<lparr>sp_seq_id = seq, sp_t2_prime = word_of_int (a + d1)\<rparr>"
    unfolding p_def by (rule sync_wire.dec_enc_exact)
  have t2': "sint (sp_t2_prime (dec_sync p)) = a + d1"
  proof -
    have "in_i64 (a + d1)" using small by (simp add: in_i64_def abs_less_iff)
    then show ?thesis by (simp only: dec sync_payload.select_convs sint_word_of_int)
  qed
  have seq: "sp_seq_id (dec_sync p) = seq" by (simp only: dec sync_payload.select_convs)
  define off where "off = raw_offset b (b + d2 + \<theta>) (a + \<theta>) (a + d1)"
  have acc: "\<bar>2 * (\<theta> - off) - (d1 - d2)\<bar> \<le> 1" unfolding off_def by (rule offset_accuracy [OF small])
  have ab: "i64 \<bar>off\<bar> = \<bar>off\<bar>" unfolding off_def by (rule abs_offset_id)
  have step: "s_sync_count s2 = s_sync_count s1 + (if \<bar>off\<bar> \<ge> MAX_OFFSET_NS then 0 else 1)
      \<and> (\<bar>off\<bar> < MAX_OFFSET_NS \<longrightarrow> s_first_sync_done s2)
      \<and> jump = (if MIN_OFFSET_NS < \<bar>off\<bar> \<and> \<bar>off\<bar> < MAX_OFFSET_NS
                then Some (adjust_clock_jump (k_realtime k) (- off)) else None)"
    using sl pos unfolding slave_sync_def now
    by (auto simp: s1 Let_def t2' seq off_def [symmetric] ab split: if_splits)
  have exact: "now_ns (adjust_clock_jump (k_realtime k) (- off)) = now_ns (k_realtime k) + - off"
    if o: "\<bar>off\<bar> < MAX_OFFSET_NS"
  proof -
    have n: "0 \<le> tv_nsec (k_realtime k)" "tv_nsec (k_realtime k) < 1000000000"
      using rt(1) by (simp_all add: timespec_ok_def)
    have "- 1000000000 < off" "off < 1000000000" using o by (simp_all add: MAX_OFFSET_NS_def abs_less_iff)
    then show ?thesis
      by (intro adjust_exact [OF rt(1), THEN conjunct1]) (use n rt(2,3) in \<open>simp_all add: in_i64_def\<close>)
  qed
  consider "\<bar>off\<bar> \<ge> MAX_OFFSET_NS" | "MIN_OFFSET_NS < \<bar>off\<bar>" "\<bar>off\<bar> < MAX_OFFSET_NS"
    | "\<bar>off\<bar> \<le> MIN_OFFSET_NS" by linarith
  then show ?thesis
  proof cases
    case 1
    then show ?thesis using step acc by (simp add: abs_le_iff abs_if split: if_splits)
  next
    case 2
    then have "\<theta> + now_ns (adjust_clock_jump (k_realtime k) (- off)) - now_ns (k_realtime k) = \<theta> - off"
      using exact by simp
    then show ?thesis using step 2 acc by simp
  next
    case 3
    then have "\<bar>off\<bar> < MAX_OFFSET_NS" by (simp add: sptp_consts)
    then show ?thesis using step 3 acc by (simp add: abs_le_iff)
  qed
qed

text \<open>C28. A full exchange over a network with delays d1 (to the master) and d2 (back): a slave
  whose clock is \<open>\<theta>\<close> ahead ends, if it accepts the reply, with an error of at most 100 us plus
  half the difference of the delays; if it sets its clock, the error is at most half that
  difference (rounding apart); and it refuses only an apparent error of 1 s or more.\<close>

theorem exchange_corrects_clock:
  fixes a d1 b d2 \<theta> :: int
  assumes slave: "\<not> s_is_master s" and master: "s_is_master m" and pos: "a + \<theta> \<noteq> 0"
    and small: "\<bar>a\<bar> < 2 ^ 58" "\<bar>d1\<bar> < 2 ^ 58" "\<bar>b\<bar> < 2 ^ 58" "\<bar>d2\<bar> < 2 ^ 58" "\<bar>\<theta>\<bar> < 2 ^ 58"
    and rt: "timespec_ok (k_realtime k)" "1 \<le> tv_sec (k_realtime k)" "tv_sec (k_realtime k) < 2 ^ 32"
    and now: "k_now k = b + d2 + \<theta>"
    and req: "slave_requests (a + \<theta>) s = (s1, r)"
    and ans: "master_answers (a + d1) b from r m = (p, t1)"
    and rcv: "sptp_on_receive send pres SPTP_SYNC from' t1 p k (s1, x) = ((s2, x'), jump)"
  shows "case jump of
      Some ts \<Rightarrow> \<bar>2 * (\<theta> + now_ns ts - now_ns (k_realtime k)) - (d1 - d2)\<bar> \<le> 1
    | None \<Rightarrow> s_first_sync_done s2 \<and> s_sync_count s2 = s_sync_count s + 1
                \<and> \<bar>2 * \<theta> - (d1 - d2)\<bar> \<le> 2 * MIN_OFFSET_NS + 1
            \<or> s_sync_count s2 = s_sync_count s \<and> \<bar>2 * \<theta> - (d1 - d2)\<bar> \<ge> 2 * MAX_OFFSET_NS - 1"
proof -
  have s1: "s1 = s\<lparr>s_next_seq := s_next_seq s + 1, s_pending_t2 := a + \<theta>, s_pending_seq := s_next_seq s\<rparr>"
    and r: "r = enc_request (s_next_seq s)"
    using req pos by (auto simp: slave_requests_def send_sync_request_def recording_def Let_def)
  have "length r = REQUEST_LEN" unfolding r by (rule request_wire.enc_size)
  then have p: "p = enc_sync \<lparr>sp_seq_id = s_next_seq s, sp_t2_prime = word_of_int (a + d1)\<rparr>" and t1: "t1 = b"
    using ans master
    by (auto simp: master_answers_def sptp_on_receive_def send_sync_reply_def recording_def r
        request_wire.dec_enc_exact Let_def)
  have len: "length p = SYNC_LEN" unfolding p by (rule sync_wire.enc_size)
  have sl: "slave_sync k b (enc_sync \<lparr>sp_seq_id = s_next_seq s, sp_t2_prime = word_of_int (a + d1)\<rparr>) s1 = (s2, jump)"
    using rcv slave len by (auto simp: sptp_on_receive_def s1 p t1 split: prod.splits)
  have f: "s_pending_t2 s1 = a + \<theta>" "s_pending_seq s1 = s_next_seq s" "s_sync_count s1 = s_sync_count s" by (simp_all add: s1)
  from reply_accuracy [OF pos small rt now f(1,2) sl] show ?thesis unfolding f(3) .
qed

lemma exchange_corrects_clock_witness:
  "\<exists>s1 r p t1 s2 ts. slave_requests 5000000 (sptp_init null_address False None) = (s1, r)
     \<and> master_answers 2000000 3000000 null_address r (sptp_init null_address True None) = (p, t1)
     \<and> sptp_on_receive (recording 0) None SPTP_SYNC null_address t1 p demo_clocks (s1, []) = ((s2, []), Some ts)
     \<and> \<bar>2 * (4000000 + now_ns ts - 1000000500) - (1000000 - 2000000)\<bar> \<le> 1"
proof -
  let ?s = "sptp_init null_address False None" and ?m = "sptp_init null_address True None"
  obtain s1 r where req: "slave_requests (1000000 + 4000000) ?s = (s1, r)"
    by (cases "slave_requests (1000000 + 4000000) ?s")
  obtain p t1 where ans: "master_answers (1000000 + 1000000) 3000000 null_address r ?m = (p, t1)"
    by (cases "master_answers (1000000 + 1000000) 3000000 null_address r ?m")
  obtain s2 x jump where rcv: "sptp_on_receive (recording 0) None SPTP_SYNC null_address t1 p demo_clocks (s1, [])
      = ((s2, x), jump)" by (metis prod.exhaust)
  have m: "\<not> s_is_master ?s" "s_is_master ?m" "s_sync_count ?s = 0" by (simp_all add: sptp_init_def)
  have k: "k_now demo_clocks = 3000000 + 2000000 + 4000000" "k_realtime demo_clocks = \<lparr>tv_sec = 1, tv_nsec = 500\<rparr>"
    by (simp_all add: demo_clocks_def)
  have now: "now_ns (k_realtime demo_clocks) = 1000000500" by (simp add: k now_ns_def i64_id in_i64_def)
  note ex = exchange_corrects_clock [OF m(1,2) _ _ _ _ _ _ _ _ _ k(1) req ans rcv]
  have c: "case jump of
      Some ts \<Rightarrow> \<bar>2 * (4000000 + now_ns ts - now_ns (k_realtime demo_clocks)) - (1000000 - 2000000)\<bar> \<le> 1
    | None \<Rightarrow> s_first_sync_done s2 \<and> s_sync_count s2 = s_sync_count ?s + 1
                \<and> \<bar>2 * 4000000 - (1000000 - 2000000)\<bar> \<le> 2 * MIN_OFFSET_NS + 1
            \<or> s_sync_count s2 = s_sync_count ?s \<and> \<bar>2 * 4000000 - (1000000 - 2000000)\<bar> \<ge> 2 * MAX_OFFSET_NS - 1"
    by (rule ex) (simp_all add: k timespec_ok_def)
  then obtain ts where "jump = Some ts" by (cases jump) (auto simp: sptp_consts)
  moreover have "x = []" using rcv m(1) req
    by (auto simp: sptp_on_receive_def slave_requests_def send_sync_request_def recording_def Let_def
        split: if_splits prod.splits)
  ultimately show ?thesis using req ans rcv c now by simp
qed

subsection \<open>Requests keep coming\<close>

primrec watchdog_run :: "'w send_fn \<Rightarrow> (int \<times> int) list \<Rightarrow> sptp \<times> 'w \<Rightarrow> sptp \<times> 'w" where
  "watchdog_run send [] w = w"
| "watchdog_run send (t # ts) w = watchdog_run send ts (watchdog_tick send (fst t) (snd t) w)"

lemma tick_counts:
  fixes w :: "sptp \<times> sent"
  assumes "s_running (fst w)"
  shows "let w' = watchdog_tick (recording now) steady early w in
     length (snd w') = length (snd w)
        + (if \<not> s_first_sync_done (fst w) \<or> silent (fst w) steady then 1 else 0)
     \<and> s_running (fst w') \<and> s_first_sync_done (fst w') = s_first_sync_done (fst w)
     \<and> s_last_sync (fst w') = s_last_sync (fst w) \<and> s_max_silence (fst w') = s_max_silence (fst w)"
  using assms
  by (cases w) (simp add: watchdog_tick_def send_sync_request_def recording_def Let_def)

text \<open>While no SYNC is accepted the watchdog sends one request per wake-up before the first
  synchronisation, and afterwards one at each wake-up later than the silence limit after the
  last accepted SYNC, and none earlier.\<close>

theorem watchdog_request_count:
  fixes w :: "sptp \<times> sent"
  assumes "s_running (fst w)"
  shows "length (snd (watchdog_run (recording now) ts w)) = length (snd w)
    + (if s_first_sync_done (fst w)
       then length (filter (\<lambda>t. s_max_silence (fst w) * 1000000000 < of_int (fst t - s_last_sync (fst w))) ts)
       else length ts)"
proof -
  have silent: "silent s t = (s_max_silence s * 1000000000 < of_int (t - s_last_sync s))" for s t
    by (simp add: silent_def pos_less_divide_eq)
  show ?thesis using assms
  proof (induction ts arbitrary: w)
    case (Cons t ts)
    show ?case
      using Cons.IH [of "watchdog_tick (recording now) (fst t) (snd t) w"]
        tick_counts [OF Cons.prems, of now "fst t" "snd t"] by (auto simp: Let_def silent)
  qed simp
qed

lemma watchdog_request_count_witness:
  "length (snd (watchdog_run (recording 5) [(1000000000, 0), (2000000001, 0), (3000000000, 0)]
      (demo_slave\<lparr>s_first_sync_done := True\<rparr>, []))) = 2"
  by (subst watchdog_request_count)
     (simp_all add: demo_slave_def sptp_init_def load_max_silence_def MAX_SILENCE_S_def)

subsection \<open>A request inside a request\<close>

text \<open>
  \<open>Protocol::send\<close> takes its stamp before \<open>NIC::send\<close>, and \<open>NIC::send\<close> calls the quadrant-change
  handler before the frame leaves: a \<open>send\<close> of a request during which the quadrant changed.
\<close>

definition send_with_change :: "'w send_fn \<Rightarrow> int \<Rightarrow> int \<Rightarrow> 'w send_fn" where
  "send_with_change inner tx early src dst data ts kind w = (tx, request_resync inner early w)"

text \<open>If the quadrant changes while a request n is being sent, the slave ends up waiting
  for the reply to request n+1 with the departure time of request n.\<close>

theorem nested_request_mixes_up:
  assumes "\<not> s_is_master s" and "s_running s" and "tx \<noteq> 0"
    and inner: "\<And>src dst data ts kind s x. fst (snd (inner src dst data ts kind (s, x))) = s"
  shows "case send_sync_request (send_with_change inner tx early2) early1 (s, x) of (s', x') \<Rightarrow>
     s_pending_seq s' = s_next_seq s + 1 \<and> s_pending_t2 s' = tx \<and> s_next_seq s' = s_next_seq s + 2"
proof -
  let ?s1 = "s\<lparr>s_next_seq := s_next_seq s + 1, s_pending_t2 := early1, s_pending_seq := s_next_seq s\<rparr>"
  let ?s2 = "?s1\<lparr>s_resync_requests := s_resync_requests s + 1, s_next_seq := s_next_seq s + 1 + 1,
                 s_pending_t2 := early2, s_pending_seq := s_next_seq s + 1\<rparr>"
  let ?call = "inner (s_own_addr ?s2) (physical_broadcast PORT_GATEWAY) (enc_request (s_next_seq s + 1)) 0
      SPTP_REQUEST_SYNC (?s2, x)"
  obtain tx2 x2 where c: "?call = (tx2, ?s2, x2)" using inner by (metis prod.collapse)
  have "request_resync inner early2 (?s1, x) = (if tx2 \<noteq> 0 then ?s2\<lparr>s_pending_t2 := tx2\<rparr> else ?s2, x2)"
    using assms(1,2) c by (simp add: request_resync_def send_sync_request_def Let_def)
  then show ?thesis using assms(3)
    by (simp add: send_sync_request_def send_with_change_def Let_def)
qed

lemma nested_request_mixes_up_witness:
  "s_pending_seq (fst (send_sync_request (send_with_change (\<lambda>_ _ _ _ _ w. (9, w)) 7 8) 6 (demo_slave, ()))) = 3
   \<and> s_pending_t2 (fst (send_sync_request (send_with_change (\<lambda>_ _ _ _ _ w. (9, w)) 7 8) 6 (demo_slave, ()))) = 7"
proof -
  have "\<not> s_is_master demo_slave" "s_running demo_slave" "s_next_seq demo_slave = 2"
    by (simp_all add: demo_slave_def sptp_init_def)
  then show ?thesis
    using nested_request_mixes_up [of demo_slave 7 "\<lambda>_ _ _ _ _ w. (9, w)" 8 6 "()"]
    by (simp add: case_prod_beta)
qed

end
