(* ===== verification/Sptp_Race.thy ===== *)
theory Sptp_Race
  imports Sptp
begin

section \<open>Requests and replies on different threads\<close>

text \<open>
  \<open>src/channel/sptp_protocol.h\<close> keeps the pending request in two atomics, \<open>_pending_t2_ns\<close> and
  \<open>_pending_seq\<close>. \<open>send_sync_request\<close> runs on the thread of \<open>start\<close>, on the watchdog and on any
  thread whose send changes the quadrant; \<open>on_receive\<close> runs on the thread of the network card.
  Here both are cut at their accesses to the two atomics, and the steps of all threads are
  interleaved (every access is its own step, in program order of its thread). Sequential
  consistency is the memory model. Ghost fields record the stores of \<open>_pending_t2_ns\<close> and the
  departures used.
\<close>

subsection \<open>A request, access by access\<close>

text \<open>The position of a requesting thread: what it will do next.\<close>

datatype request_pc =
  RQ_Take
| RQ_Early u32
| RQ_Publish u32
| RQ_Send u32
| RQ_Store u32 int

text \<open>\<open>v\<close> is the reading of \<open>now_ns\<close> of the step that takes one: the early stamp, and the value
  \<open>_send\<close> leaves in \<open>tx_ts\<close>.\<close>

fun request_step :: "int \<Rightarrow> request_pc \<Rightarrow> sptp \<Rightarrow> request_pc \<times> sptp" where
  "request_step v RQ_Take s = (RQ_Early (s_next_seq s), s\<lparr>s_next_seq := s_next_seq s + 1\<rparr>)"
| "request_step v (RQ_Early q) s = (RQ_Publish q, s\<lparr>s_pending_t2 := v\<rparr>)"
| "request_step v (RQ_Publish q) s = (RQ_Send q, s\<lparr>s_pending_seq := q\<rparr>)"
| "request_step v (RQ_Send q) s = (RQ_Store q v, s)"
| "request_step v (RQ_Store q tx) s = (RQ_Take, if tx \<noteq> 0 then s\<lparr>s_pending_t2 := tx\<rparr> else s)"

subsection \<open>A reply, access by access\<close>

datatype receive_pc =
  RC_Idle
| RC_Arrived int int "u8 list"
| RC_Loaded int int sync_payload int
| RC_Matched int int sync_payload int
| RC_Clear

text \<open>The head of the slave branch: the tests of kind and size, and \<open>t1'\<close>.\<close>

definition receive_start :: "packet_kind \<Rightarrow> int \<Rightarrow> u8 list \<Rightarrow> sync_clocks \<Rightarrow> receive_pc" where
  "receive_start kind header_ts pl k =
     (if kind \<noteq> SPTP_SYNC then RC_Idle
      else if length pl < SYNC_LEN then RC_Idle
      else RC_Arrived (k_now k) header_ts pl)"

text \<open>The load of \<open>t2\<close>; the load of the pending number; the evaluation; the final store.\<close>

fun receive_step :: "sync_clocks \<Rightarrow> receive_pc \<Rightarrow> sptp \<Rightarrow> (receive_pc \<times> sptp) \<times> timespec option" where
  "receive_step k RC_Idle s = ((RC_Idle, s), None)"
| "receive_step k (RC_Arrived t1' t1 pl) s =
     (let t2 = s_pending_t2 s
      in if t2 = 0 then ((RC_Idle, s), None) else ((RC_Loaded t1' t1 (dec_sync pl) t2, s), None))"
| "receive_step k (RC_Loaded t1' t1 p t2) s =
     (if sp_seq_id p \<noteq> s_pending_seq s then ((RC_Idle, s), None) else ((RC_Matched t1' t1 p t2, s), None))"
| "receive_step k (RC_Matched t1' t1 p t2) s =
     (let t2' = sint (sp_t2_prime p);
          off = raw_offset t1 t1' t2 t2';
          delay = raw_delay t1 t1' t2 t2';
          s1 = (if delay > 0 then s\<lparr>s_delay_ns := ewma (s_delay_ns s) delay\<rparr> else s);
          abs_offset = i64 \<bar>off\<bar>
      in if abs_offset \<ge> MAX_OFFSET_NS then ((RC_Clear, s1), None)
         else ((RC_Clear, s1\<lparr>s_last_sync := k_steady k, s_first_sync_done := True, s_offset_ns := off,
                 s_sync_count := s_sync_count s1 + 1\<rparr>),
               if abs_offset > MIN_OFFSET_NS then Some (adjust_clock_jump (k_realtime k) (- off)) else None))"
| "receive_step k RC_Clear s = ((RC_Idle, s\<lparr>s_pending_t2 := 0\<rparr>), None)"

subsection \<open>All threads together\<close>

datatype t2_stamp = Early int | Departure int

fun stamp_ns :: "t2_stamp \<Rightarrow> int" where
  "stamp_ns (Early v) = v"
| "stamp_ns (Departure v) = v"

text \<open>
  \<open>ra_req\<close> gives each requesting thread its position (a request inside another one is a thread
  of its own), \<open>ra_sent\<close> the requests handed to the card, \<open>ra_jumps\<close> the values given to
  \<open>clock_settime\<close>. Ghosts: \<open>ra_stores\<close>, the requesters' stores of \<open>_pending_t2_ns\<close>, newest first;
  \<open>ra_seen\<close>, those made before the load of the reply in hand; \<open>ra_used\<close>, for every reply evaluated
  its number, the \<open>t2\<close> used and the stores made before the load.
\<close>

record race =
  ra_sptp :: sptp
  ra_req :: "nat \<Rightarrow> request_pc"
  ra_rcv :: receive_pc
  ra_sent :: "u32 list"
  ra_jumps :: "timespec list"
  ra_stores :: "(u32 \<times> t2_stamp) list"
  ra_seen :: "(u32 \<times> t2_stamp) list"
  ra_used :: "(u32 \<times> int \<times> (u32 \<times> t2_stamp) list) list"

datatype race_event =
  Requester nat int
| Sync_Arrives packet_kind int "u8 list" sync_clocks
| Receiver sync_clocks

definition stores_of :: "int \<Rightarrow> request_pc \<Rightarrow> (u32 \<times> t2_stamp) list" where
  "stores_of v pc = (case pc of RQ_Early q \<Rightarrow> [(q, Early v)]
     | RQ_Store q tx \<Rightarrow> if tx \<noteq> 0 then [(q, Departure tx)] else [] | _ \<Rightarrow> [])"

definition sends_of :: "int \<Rightarrow> request_pc \<Rightarrow> u32 list" where
  "sends_of v pc = (case pc of RQ_Send q \<Rightarrow> if v \<noteq> 0 then [q] else [] | _ \<Rightarrow> [])"

fun race_step :: "race_event \<Rightarrow> race \<Rightarrow> race" where
  "race_step (Requester i v) r =
     (let pc = ra_req r i
      in case request_step v pc (ra_sptp r) of (pc', s') \<Rightarrow>
           r\<lparr>ra_sptp := s', ra_req := (ra_req r)(i := pc'), ra_sent := sends_of v pc @ ra_sent r,
             ra_stores := stores_of v pc @ ra_stores r\<rparr>)"
| "race_step (Sync_Arrives kind header_ts pl k) r =
     (if ra_rcv r = RC_Idle then r\<lparr>ra_rcv := receive_start kind header_ts pl k\<rparr> else r)"
| "race_step (Receiver k) r =
     (case receive_step k (ra_rcv r) (ra_sptp r) of ((pc', s'), jump) \<Rightarrow>
        r\<lparr>ra_sptp := s', ra_rcv := pc', ra_jumps := (case jump of None \<Rightarrow> [] | Some t \<Rightarrow> [t]) @ ra_jumps r,
          ra_seen := (case ra_rcv r of RC_Arrived _ _ _ \<Rightarrow> ra_stores r | _ \<Rightarrow> ra_seen r),
          ra_used := (case ra_rcv r of RC_Matched _ _ p t2 \<Rightarrow> [(sp_seq_id p, t2, ra_seen r)] | _ \<Rightarrow> []) @ ra_used r\<rparr>)"

definition race_run :: "race_event list \<Rightarrow> race \<Rightarrow> race" where
  "race_run = fold race_step"

definition race_init :: "sptp \<Rightarrow> race" where
  "race_init s = \<lparr>ra_sptp = s, ra_req = (\<lambda>_. RQ_Take), ra_rcv = RC_Idle, ra_sent = [], ra_jumps = [],
     ra_stores = [], ra_seen = [], ra_used = []\<rparr>"

text \<open>The master answers only requests it was sent.\<close>

fun answers_sent :: "race_event list \<Rightarrow> race \<Rightarrow> bool" where
  "answers_sent [] r = True"
| "answers_sent (e # es) r =
     ((case e of Sync_Arrives _ _ pl _ \<Rightarrow> sp_seq_id (dec_sync pl) \<in> set (ra_sent r) | _ \<Rightarrow> True)
      \<and> answers_sent es (race_step e r))"

lemma race_run_simps [simp]:
  "race_run [] r = r" "race_run (e # es) r = race_run es (race_step e r)"
  by (simp_all add: race_run_def)

lemma race_init_simps [simp]:
  "ra_sptp (race_init s) = s" "ra_req (race_init s) i = RQ_Take" "ra_rcv (race_init s) = RC_Idle"
  "ra_sent (race_init s) = []" "ra_jumps (race_init s) = []" "ra_stores (race_init s) = []"
  "ra_seen (race_init s) = []" "ra_used (race_init s) = []"
  by (simp_all add: race_init_def)

subsection \<open>Undisturbed, the steps are the operations\<close>

definition run_request :: "int \<Rightarrow> int \<Rightarrow> sptp \<Rightarrow> sptp" where
  "run_request early tx s =
     snd (case request_step 0 RQ_Take s of (p1, s1) \<Rightarrow>
          case request_step early p1 s1 of (p2, s2) \<Rightarrow>
          case request_step 0 p2 s2 of (p3, s3) \<Rightarrow>
          case request_step tx p3 s3 of (p4, s4) \<Rightarrow> request_step 0 p4 s4)"

lemma run_request_sequential:
  "run_request early tx s = fst (send_sync_request (\<lambda>_ _ _ _ _ w. (tx, w)) early (s, ()))"
  by (simp add: run_request_def send_sync_request_def Let_def)

primrec run_receive :: "nat \<Rightarrow> sync_clocks \<Rightarrow> receive_pc \<times> sptp \<Rightarrow> (receive_pc \<times> sptp) \<times> timespec option" where
  "run_receive 0 k c = (c, None)"
| "run_receive (Suc n) k c =
     (case receive_step k (fst c) (snd c) of (c', jump) \<Rightarrow>
        case run_receive n k c' of (c'', jump') \<Rightarrow> (c'', case jump of None \<Rightarrow> jump' | Some t \<Rightarrow> Some t))"

lemma run_receive_idle: "run_receive n k (RC_Idle, s) = ((RC_Idle, s), None)"
  by (induction n) simp_all

lemma run_receive_sequential:
  assumes "\<not> s_is_master s"
  shows "run_receive 4 k (receive_start kind h pl k, s) =
    (case sptp_on_receive send pres kind from h pl k (s, x) of ((s', _), jump) \<Rightarrow> ((RC_Idle, s'), jump))"
  using assms
  by (simp add: receive_start_def sptp_on_receive_def run_receive_idle eval_nat_numeral)
     (auto simp: slave_sync_def Let_def)

lemma run_receive_sequential_witness:
  "\<not> s_is_master demo_slave \<and> fst (fst (run_receive 4 demo_clocks (receive_start SPTP_SYNC 3000000 [] demo_clocks, demo_slave))) = RC_Idle"
proof
  show m: "\<not> s_is_master demo_slave" by (simp add: demo_slave_def sptp_init_def)
  show "fst (fst (run_receive 4 demo_clocks (receive_start SPTP_SYNC 3000000 [] demo_clocks, demo_slave))) = RC_Idle"
    using run_receive_sequential [OF m, of demo_clocks SPTP_SYNC 3000000 "[]" "\<lambda>_ _ _ _ _ w. (0, w)" None null_address "()"]
    by (simp split: prod.splits)
qed

subsection \<open>Which request the departure time belongs to\<close>

text \<open>With any number of requesting threads: the \<open>t2\<close> used was the newest store when it was
  loaded, and the request the reply answers had stored its own before.\<close>

definition newest :: "int \<Rightarrow> (u32 \<times> t2_stamp) list \<Rightarrow> bool" where
  "newest t2 stores = (stores \<noteq> [] \<and> stamp_ns (snd (hd stores)) = t2)"

definition position_stored :: "(u32 \<times> t2_stamp) list \<Rightarrow> request_pc \<Rightarrow> bool" where
  "position_stored stores pc = (case pc of RQ_Publish q \<Rightarrow> q \<in> fst ` set stores
     | RQ_Send q \<Rightarrow> q \<in> fst ` set stores | RQ_Store q _ \<Rightarrow> q \<in> fst ` set stores | _ \<Rightarrow> True)"

definition departure_ok :: "u32 \<Rightarrow> int \<Rightarrow> (u32 \<times> t2_stamp) list \<Rightarrow> bool" where
  "departure_ok q t2 stores = (newest t2 stores \<and> q \<in> fst ` set stores)"

definition receipt_ok :: "u32 list \<Rightarrow> (u32 \<times> t2_stamp) list \<Rightarrow> receive_pc \<Rightarrow> bool" where
  "receipt_ok sent seen pc = (case pc of
       RC_Arrived _ _ pl \<Rightarrow> sp_seq_id (dec_sync pl) \<in> set sent
     | RC_Loaded _ _ p t2 \<Rightarrow> departure_ok (sp_seq_id p) t2 seen
     | RC_Matched _ _ p t2 \<Rightarrow> departure_ok (sp_seq_id p) t2 seen
     | _ \<Rightarrow> True)"

definition t2_ok :: "race \<Rightarrow> bool" where
  "t2_ok r = (s_pending_t2 (ra_sptp r) = 0 \<or> newest (s_pending_t2 (ra_sptp r)) (ra_stores r))"

definition race_inv :: "race \<Rightarrow> bool" where
  "race_inv r =
     (t2_ok r \<and> set (ra_sent r) \<subseteq> fst ` set (ra_stores r)
      \<and> (\<forall>i. position_stored (ra_stores r) (ra_req r i))
      \<and> receipt_ok (ra_sent r) (ra_seen r) (ra_rcv r)
      \<and> (\<forall>u \<in> set (ra_used r). departure_ok (fst u) (fst (snd u)) (snd (snd u))))"

lemma newest_Cons [simp]: "newest t2 (a # l) = (stamp_ns (snd a) = t2)"
  by (simp add: newest_def)

lemma t2_ok_requester: "t2_ok r \<Longrightarrow> t2_ok (race_step (Requester i v) r)"
  by (cases "ra_req r i") (auto simp: t2_ok_def stores_of_def sends_of_def)

lemma position_stored_mono: "position_stored stores pc \<Longrightarrow> position_stored (l @ stores) pc"
  by (auto simp: position_stored_def image_Un split: request_pc.splits)

lemma position_stored_step:
  "position_stored stores pc \<Longrightarrow> position_stored (stores_of v pc @ stores) (fst (request_step v pc s))"
  by (cases pc) (auto simp: position_stored_def stores_of_def)

lemma requester_positions [simp]:
  "ra_req (race_step (Requester i v) r) = (ra_req r)(i := fst (request_step v (ra_req r i) (ra_sptp r)))"
  "ra_stores (race_step (Requester i v) r) = stores_of v (ra_req r i) @ ra_stores r"
  by (simp_all add: Let_def split: prod.split)

lemma requests_stored_requester:
  assumes "\<forall>i. position_stored (ra_stores r) (ra_req r i)"
  shows "\<forall>j. position_stored (ra_stores (race_step (Requester i v) r)) (ra_req (race_step (Requester i v) r) j)"
  using assms position_stored_step position_stored_mono unfolding requester_positions by (metis fun_upd_apply)

lemma sent_stored_requester:
  assumes "position_stored (ra_stores r) (ra_req r i)" and "set (ra_sent r) \<subseteq> fst ` set (ra_stores r)"
  shows "set (ra_sent (race_step (Requester i v) r)) \<subseteq> fst ` set (ra_stores (race_step (Requester i v) r))"
  using assms by (cases "ra_req r i") (auto simp: position_stored_def stores_of_def sends_of_def)

lemma requester_receipt [simp]:
  "ra_rcv (race_step (Requester i v) r) = ra_rcv r" "ra_seen (race_step (Requester i v) r) = ra_seen r"
  "ra_used (race_step (Requester i v) r) = ra_used r" "ra_jumps (race_step (Requester i v) r) = ra_jumps r"
  by (simp_all add: Let_def split: prod.split)

lemma requester_sent [simp]: "ra_sent (race_step (Requester i v) r) = sends_of v (ra_req r i) @ ra_sent r"
  by (simp add: Let_def split: prod.split)

lemma receipt_ok_mono: "receipt_ok sent seen pc \<Longrightarrow> receipt_ok (l @ sent) seen pc"
  by (auto simp: receipt_ok_def split: receive_pc.splits)

lemma race_inv_requester: "race_inv r \<Longrightarrow> race_inv (race_step (Requester i v) r)"
  using t2_ok_requester requests_stored_requester sent_stored_requester receipt_ok_mono
  unfolding race_inv_def requester_receipt by (metis requester_sent)

lemma receiver_requests [simp]:
  "ra_req (race_step (Receiver k) r) = ra_req r" "ra_sent (race_step (Receiver k) r) = ra_sent r"
  "ra_stores (race_step (Receiver k) r) = ra_stores r"
  by (simp_all split: prod.split)

lemma arrival_requests [simp]:
  "ra_req (race_step (Sync_Arrives kind h pl k) r) = ra_req r"
  "ra_sent (race_step (Sync_Arrives kind h pl k) r) = ra_sent r"
  "ra_stores (race_step (Sync_Arrives kind h pl k) r) = ra_stores r"
  "ra_sptp (race_step (Sync_Arrives kind h pl k) r) = ra_sptp r"
  "ra_seen (race_step (Sync_Arrives kind h pl k) r) = ra_seen r"
  "ra_used (race_step (Sync_Arrives kind h pl k) r) = ra_used r"
  by simp_all

lemma race_inv_arrival:
  assumes "race_inv r" and "sp_seq_id (dec_sync pl) \<in> set (ra_sent r)"
  shows "race_inv (race_step (Sync_Arrives kind h pl k) r)"
proof -
  let ?r' = "race_step (Sync_Arrives kind h pl k) r"
  have "receipt_ok (ra_sent r) (ra_seen r) (ra_rcv ?r')"
    using assms by (simp add: race_inv_def receipt_ok_def receive_start_def)
  then show ?thesis using assms(1) unfolding race_inv_def t2_ok_def arrival_requests by blast
qed

lemma receipt_ok_receiver:
  assumes "race_inv r"
  shows "receipt_ok (ra_sent r) (ra_seen (race_step (Receiver k) r)) (ra_rcv (race_step (Receiver k) r))"
proof (cases "ra_rcv r")
  case (RC_Arrived t1' t1 pl)
  then show ?thesis using assms by (auto simp: race_inv_def receipt_ok_def t2_ok_def Let_def departure_ok_def)
next
  case (RC_Loaded t1' t1 p t2)
  then show ?thesis using assms by (clarsimp simp: race_inv_def receipt_ok_def)
qed (use assms in \<open>simp_all add: race_inv_def receipt_ok_def Let_def\<close>)

lemma race_inv_receiver:
  assumes "race_inv r"
  shows "race_inv (race_step (Receiver k) r)"
proof -
  let ?r' = "race_step (Receiver k) r"
  have "t2_ok ?r'"
    using assms by (cases "ra_rcv r") (auto simp: race_inv_def t2_ok_def Let_def)
  moreover have "\<forall>u \<in> set (ra_used ?r'). departure_ok (fst u) (fst (snd u)) (snd (snd u))"
    using assms by (cases "ra_rcv r") (auto simp: race_inv_def receipt_ok_def Let_def)
  ultimately show ?thesis
    using assms receipt_ok_receiver [OF assms] unfolding race_inv_def receiver_requests by blast
qed

lemma race_inv_run: "race_inv r \<Longrightarrow> answers_sent es r \<Longrightarrow> race_inv (race_run es r)"
proof (induction es arbitrary: r)
  case (Cons e es)
  have "race_inv (race_step e r)"
  proof (cases e)
    case (Requester i v)
    then show ?thesis using race_inv_requester [OF Cons.prems(1)] by simp
  next
    case (Sync_Arrives kind h pl k)
    then show ?thesis using race_inv_arrival [OF Cons.prems(1), of pl kind h k] Cons.prems(2) by simp
  next
    case (Receiver k)
    then show ?thesis using race_inv_receiver [OF Cons.prems(1)] by simp
  qed
  then show ?case using Cons.IH Cons.prems(2) by simp
qed simp

lemma race_inv_init: "s_pending_t2 s = 0 \<Longrightarrow> race_inv (race_init s)"
  by (simp add: race_inv_def t2_ok_def position_stored_def receipt_ok_def)

text \<open>Whatever the threads do, a reply evaluated uses the stamp stored last before its load,
  and its own request had stored one by then: the departure used is never older than the request.\<close>

theorem departure_not_older:
  assumes "s_pending_t2 s = 0" and "answers_sent es (race_init s)"
    and "(q, t2, seen) \<in> set (ra_used (race_run es (race_init s)))"
  shows "\<exists>w stamp rest. seen = (w, stamp) # rest \<and> stamp_ns stamp = t2 \<and> q \<in> fst ` set seen"
proof -
  have "departure_ok q t2 seen"
    using race_inv_run [OF race_inv_init [OF assms(1)] assms(2)] assms(3) by (auto simp: race_inv_def)
  then show ?thesis by (cases seen) (auto simp: departure_ok_def newest_def)
qed


lemma departure_not_older_base:
  "sp_seq_id (dec_sync (enc_sync p)) = sp_seq_id p" "sp_t2_prime (dec_sync (enc_sync p)) = sp_t2_prime p"
  "length (enc_sync p) = SYNC_LEN"
  by (simp_all add: sync_wire.dec_enc_exact sync_wire.enc_size)

subsection \<open>One requesting thread\<close>

text \<open>
  With the watchdog as the only requester the requests follow each other. \<open>n\<close> is the number of
  the last request begun and \<open>m\<close> the number in \<open>_pending_seq\<close>. The newest store belongs to the
  pending request, or is the early stamp of the next one, not yet published.
\<close>

definition newest_of :: "nat \<Rightarrow> (u32 \<times> t2_stamp) list \<Rightarrow> bool" where
  "newest_of n stores = (stores \<noteq> [] \<and> unat (fst (hd stores)) = n)"

fun serial :: "nat \<Rightarrow> nat \<Rightarrow> (u32 \<times> t2_stamp) list \<Rightarrow> request_pc \<Rightarrow> bool" where
  "serial n m stores RQ_Take = (m = n \<and> (stores = [] \<or> newest_of n stores))"
| "serial n m stores (RQ_Early q) = (unat q = n \<and> n = Suc m \<and> (stores = [] \<or> newest_of m stores))"
| "serial n m stores (RQ_Publish q) = (unat q = n \<and> n = Suc m \<and> newest_of n stores \<and> (\<exists>v. snd (hd stores) = Early v))"
| "serial n m stores (RQ_Send q) = (unat q = n \<and> m = n \<and> newest_of n stores)"
| "serial n m stores (RQ_Store q tx) = (unat q = n \<and> m = n \<and> newest_of n stores)"

definition serial_requests :: "nat \<Rightarrow> race \<Rightarrow> bool" where
  "serial_requests n r = (unat (s_next_seq (ra_sptp r)) = Suc n
     \<and> serial n (unat (s_pending_seq (ra_sptp r))) (ra_stores r) (ra_req r 0)
     \<and> (\<forall>q \<in> set (ra_sent r). unat q \<le> unat (s_pending_seq (ra_sptp r))))"

definition own_or_next :: "nat \<Rightarrow> int \<Rightarrow> (u32 \<times> t2_stamp) list \<Rightarrow> bool" where
  "own_or_next m t2 stores = (newest t2 stores
     \<and> (newest_of m stores \<or> newest_of (Suc m) stores \<and> (\<exists>v. snd (hd stores) = Early v)))"

definition serial_receipt :: "nat \<Rightarrow> (u32 \<times> t2_stamp) list \<Rightarrow> receive_pc \<Rightarrow> bool" where
  "serial_receipt m seen pc = (case pc of
       RC_Arrived _ _ pl \<Rightarrow> unat (sp_seq_id (dec_sync pl)) \<le> m
     | RC_Loaded _ _ p t2 \<Rightarrow> (\<exists>l. unat (sp_seq_id p) \<le> l \<and> l \<le> m \<and> own_or_next l t2 seen)
     | RC_Matched _ _ p t2 \<Rightarrow> own_or_next (unat (sp_seq_id p)) t2 seen
     | _ \<Rightarrow> True)"

definition serial_inv :: "nat \<Rightarrow> race \<Rightarrow> bool" where
  "serial_inv n r = (t2_ok r \<and> serial_requests n r
     \<and> serial_receipt (unat (s_pending_seq (ra_sptp r))) (ra_seen r) (ra_rcv r)
     \<and> (\<forall>u \<in> set (ra_used r). own_or_next (unat (fst u)) (fst (snd u)) (snd (snd u))))"

lemma newest_of_Cons [simp]: "newest_of n (a # l) = (unat (fst a) = n)"
  by (simp add: newest_of_def)

lemma serial_receipt_mono:
  "serial_receipt m seen pc \<Longrightarrow> m \<le> m' \<Longrightarrow> serial_receipt m' seen pc"
  by (auto simp: serial_receipt_def split: receive_pc.splits intro: le_trans)

lemma requester_sptp [simp]:
  "ra_sptp (race_step (Requester i v) r) = snd (request_step v (ra_req r i) (ra_sptp r))"
  by (simp add: Let_def split: prod.split)

lemma serial_pending: "serial n m stores pc \<Longrightarrow> m \<le> n"
  by (cases pc) auto

lemma serial_requester:
  assumes "serial_requests n r" and "n < 2 ^ 32 - 2"
  shows "\<exists>n' \<le> Suc n. serial_requests n' (race_step (Requester 0 v) r)"
proof (cases "ra_req r 0")
  case RQ_Take
  have "unat (s_next_seq (ra_sptp r)) = Suc n" using assms(1) by (simp add: serial_requests_def)
  then have "unat (s_next_seq (ra_sptp r) + 1) = Suc (Suc n)"
    using assms(2) by (simp add: unat_word_ariths)
  then have "serial_requests (Suc n) (race_step (Requester 0 v) r)"
    using assms(1) by (auto simp: serial_requests_def RQ_Take stores_of_def sends_of_def simp del: race_step.simps)
  then show ?thesis by blast
next
  case (RQ_Early q)
  then have "serial_requests n (race_step (Requester 0 v) r)"
    using assms(1) by (simp add: serial_requests_def stores_of_def sends_of_def del: race_step.simps)
  then show ?thesis by (intro exI [of _ n]) simp
next
  case (RQ_Publish q)
  then have "serial_requests n (race_step (Requester 0 v) r)"
    using assms(1) by (auto simp: serial_requests_def stores_of_def sends_of_def simp del: race_step.simps)
  then show ?thesis by (intro exI [of _ n]) simp
next
  case (RQ_Send q)
  then have "serial_requests n (race_step (Requester 0 v) r)"
    using assms(1) by (auto simp: serial_requests_def stores_of_def sends_of_def simp del: race_step.simps)
  then show ?thesis by (intro exI [of _ n]) simp
next
  case (RQ_Store q tx)
  then have "serial_requests n (race_step (Requester 0 v) r)"
    using assms(1) by (auto simp: serial_requests_def stores_of_def sends_of_def simp del: race_step.simps)
  then show ?thesis by (intro exI [of _ n]) simp
qed

lemma pending_seq_grows:
  assumes "serial_requests n r"
  shows "unat (s_pending_seq (ra_sptp r)) \<le> unat (s_pending_seq (ra_sptp (race_step (Requester 0 v) r)))"
  using assms by (cases "ra_req r 0") (auto simp: serial_requests_def simp del: race_step.simps)

lemma serial_inv_requester:
  assumes "serial_inv n r" and "n < 2 ^ 32 - 2"
  shows "\<exists>n' \<le> Suc n. serial_inv n' (race_step (Requester 0 v) r)"
proof -
  let ?r' = "race_step (Requester 0 v) r"
  have sr: "serial_requests n r" using assms(1) by (simp add: serial_inv_def)
  then obtain n' where "n' \<le> Suc n" "serial_requests n' ?r'" using serial_requester [OF _ assms(2)] by blast
  moreover have "serial_receipt (unat (s_pending_seq (ra_sptp ?r'))) (ra_seen r) (ra_rcv r)"
    using assms(1) pending_seq_grows [OF sr] serial_receipt_mono unfolding serial_inv_def by blast
  moreover have "t2_ok ?r'" using assms(1) t2_ok_requester unfolding serial_inv_def by blast
  ultimately show ?thesis using assms(1) unfolding serial_inv_def requester_receipt by blast
qed

lemma serial_requests_cong:
  assumes "s_next_seq (ra_sptp r') = s_next_seq (ra_sptp r)" "s_pending_seq (ra_sptp r') = s_pending_seq (ra_sptp r)"
    and "ra_req r' = ra_req r" "ra_sent r' = ra_sent r" "ra_stores r' = ra_stores r"
  shows "serial_requests n r' = serial_requests n r"
  by (simp add: serial_requests_def assms)

lemma receiver_numbers [simp]:
  "s_next_seq (ra_sptp (race_step (Receiver k) r)) = s_next_seq (ra_sptp r)"
  "s_pending_seq (ra_sptp (race_step (Receiver k) r)) = s_pending_seq (ra_sptp r)"
  by (cases "ra_rcv r"; simp add: Let_def)+

lemma t2_ok_receiver: "t2_ok r \<Longrightarrow> t2_ok (race_step (Receiver k) r)"
  by (cases "ra_rcv r") (auto simp: t2_ok_def Let_def)

lemma serial_newest:
  assumes "serial n m stores pc" and "newest t2 stores"
  shows "own_or_next m t2 stores"
  using assms by (cases pc) (auto simp: own_or_next_def newest_def)

lemma serial_receipt_receiver:
  assumes "serial_inv n r"
  shows "serial_receipt (unat (s_pending_seq (ra_sptp r))) (ra_seen (race_step (Receiver k) r)) (ra_rcv (race_step (Receiver k) r))"
proof (cases "ra_rcv r")
  case (RC_Arrived t1' t1 pl)
  let ?m = "unat (s_pending_seq (ra_sptp r))"
  have "newest (s_pending_t2 (ra_sptp r)) (ra_stores r)" if "s_pending_t2 (ra_sptp r) \<noteq> 0"
    using assms that by (simp add: serial_inv_def t2_ok_def)
  then have "own_or_next ?m (s_pending_t2 (ra_sptp r)) (ra_stores r)" if "s_pending_t2 (ra_sptp r) \<noteq> 0"
    using assms that serial_newest by (auto simp: serial_inv_def serial_requests_def)
  moreover have "unat (sp_seq_id (dec_sync pl)) \<le> ?m"
    using assms by (simp add: serial_inv_def serial_receipt_def RC_Arrived)
  ultimately show ?thesis by (auto simp: serial_receipt_def RC_Arrived Let_def)
next
  case (RC_Loaded t1' t1 p t2)
  show ?thesis
  proof (cases "sp_seq_id p = s_pending_seq (ra_sptp r)")
    case True
    then obtain l where "l = unat (s_pending_seq (ra_sptp r))" "own_or_next l t2 (ra_seen r)"
      using assms by (auto simp: serial_inv_def serial_receipt_def RC_Loaded)
    then show ?thesis using True by (simp add: serial_receipt_def RC_Loaded)
  qed (simp add: serial_receipt_def RC_Loaded)
qed (simp_all add: serial_receipt_def Let_def)

lemma serial_inv_receiver:
  assumes "serial_inv n r"
  shows "serial_inv n (race_step (Receiver k) r)"
proof -
  let ?r' = "race_step (Receiver k) r"
  have "serial_requests n ?r'"
    using assms serial_requests_cong [OF receiver_numbers receiver_requests] by (simp add: serial_inv_def del: race_step.simps)
  moreover have "\<forall>u \<in> set (ra_used ?r'). own_or_next (unat (fst u)) (fst (snd u)) (snd (snd u))"
    using assms by (cases "ra_rcv r") (auto simp: serial_inv_def serial_receipt_def Let_def)
  ultimately show ?thesis using assms serial_receipt_receiver [OF assms] t2_ok_receiver
    unfolding serial_inv_def receiver_numbers by blast
qed

lemma serial_inv_arrival:
  assumes "serial_inv n r" and "sp_seq_id (dec_sync pl) \<in> set (ra_sent r)"
  shows "serial_inv n (race_step (Sync_Arrives kind h pl k) r)"
proof -
  let ?r' = "race_step (Sync_Arrives kind h pl k) r" and ?m = "unat (s_pending_seq (ra_sptp r))"
  have "unat (sp_seq_id (dec_sync pl)) \<le> ?m"
    using assms by (simp add: serial_inv_def serial_requests_def)
  then have "serial_receipt ?m (ra_seen r) (ra_rcv ?r')"
    using assms(1) by (simp add: serial_inv_def serial_receipt_def receive_start_def)
  moreover have "serial_requests n ?r'"
    using assms(1) by (simp add: serial_inv_def serial_requests_def del: race_step.simps)
  ultimately show ?thesis using assms(1) unfolding serial_inv_def t2_ok_def arrival_requests by blast
qed

definition one_requester :: "race_event list \<Rightarrow> bool" where
  "one_requester es = (\<forall>e \<in> set es. case e of Requester i _ \<Rightarrow> i = 0 | _ \<Rightarrow> True)"

lemma serial_inv_run:
  assumes "serial_inv n r" and "answers_sent es r" and "one_requester es" and "n + length es < 2 ^ 32 - 1"
  shows "\<exists>n'. serial_inv n' (race_run es r)"
  using assms
proof (induction es arbitrary: n r)
  case (Cons e es)
  have "\<exists>n' \<le> Suc n. serial_inv n' (race_step e r)"
  proof (cases e)
    case (Requester i v)
    then show ?thesis using serial_inv_requester [OF Cons.prems(1), of v] Cons.prems(3,4) by (simp add: one_requester_def)
  next
    case (Sync_Arrives kind h pl k)
    then show ?thesis using serial_inv_arrival [OF Cons.prems(1), of pl kind h k] Cons.prems(2)
      by (intro exI [of _ n]) simp
  next
    case (Receiver k)
    then show ?thesis using serial_inv_receiver [OF Cons.prems(1)] by (intro exI [of _ n]) simp
  qed
  then obtain n' where "n' \<le> Suc n" "serial_inv n' (race_step e r)" by blast
  moreover have "answers_sent es (race_step e r)" "one_requester es"
    using Cons.prems(2,3) by (simp_all add: one_requester_def)
  ultimately show ?case using Cons.IH Cons.prems(4) by fastforce
qed auto

lemma serial_inv_init: "serial_inv 0 (race_init (sptp_init own False env))"
  by (simp add: serial_inv_def serial_requests_def t2_ok_def serial_receipt_def sptp_init_def)

text \<open>C21. A slave whose master answers only requests it was sent: whatever its threads do, a reply is
  evaluated with the stamp stored last before its load, and the request it answers had stored one of its
  own by then. When all requests come from one thread, none made inside the sending of another, and there
  are fewer than 2^32 steps, that stamp is of the request answered, or the early stamp of the request that
  follows, never of an older request: the one window left is between the store of \<open>_pending_t2_ns\<close> and the
  store of \<open>_pending_seq\<close>. (A change of quadrant during a send makes a request inside the request, here a
  thread of its own; then the stamp can be the departure of the outer, older one:
  \<open>nested_request_mixes_up\<close>.)\<close>

theorem departure_own_or_next:
  assumes "answers_sent es (race_init (sptp_init own False env))"
    and "(q, t2, seen) \<in> set (ra_used (race_run es (race_init (sptp_init own False env))))"
  shows "\<exists>w stamp rest. seen = (w, stamp) # rest \<and> stamp_ns stamp = t2 \<and> q \<in> fst ` set seen
     \<and> (one_requester es \<and> length es < 2 ^ 32 - 1 \<longrightarrow> w = q \<or> unat w = Suc (unat q) \<and> stamp = Early t2)"
proof -
  have "s_pending_t2 (sptp_init own False env) = 0" by (simp add: sptp_init_def)
  from departure_not_older [OF this assms] obtain w stamp rest
    where o: "seen = (w, stamp) # rest" "stamp_ns stamp = t2" "q \<in> fst ` set seen" by blast
  have "w = q \<or> unat w = Suc (unat q) \<and> stamp = Early t2" if one: "one_requester es" "length es < 2 ^ 32 - 1"
  proof -
    obtain n where "serial_inv n (race_run es (race_init (sptp_init own False env)))"
      using serial_inv_run [OF serial_inv_init assms(1) one(1)] one(2) by auto
    then have "own_or_next (unat q) t2 seen" using assms(2) by (auto simp: serial_inv_def)
    then show ?thesis using o by (auto simp: own_or_next_def newest_def newest_of_def word_unat_eq_iff)
  qed
  then show ?thesis using o by blast
qed

subsection \<open>What the interleavings do\<close>

text \<open>A whole request of thread \<open>i\<close>: number, early stamp, publication, departure, final store.\<close>

definition request_events :: "nat \<Rightarrow> int \<Rightarrow> int \<Rightarrow> race_event list" where
  "request_events i early tx =
     [Requester i 0, Requester i early, Requester i 0, Requester i tx, Requester i 0]"

definition sync_reply :: "u32 \<Rightarrow> int \<Rightarrow> u8 list" where
  "sync_reply q t2_prime = enc_sync \<lparr>sp_seq_id = q, sp_t2_prime = word_of_int t2_prime\<rparr>"

lemma sync_reply_simps [simp]:
  "sp_seq_id (dec_sync (sync_reply q t)) = q" "in_i64 t \<Longrightarrow> sint (sp_t2_prime (dec_sync (sync_reply q t))) = t"
  "length (sync_reply q t) = SYNC_LEN"
  by (simp_all add: sync_reply_def departure_not_older_base sint_word_of_int)

lemma receiver_evaluates:
  assumes "ra_rcv r = RC_Arrived t1' t1 pl" and "s_pending_t2 (ra_sptp r) = t2" and "t2 \<noteq> 0"
    and "s_pending_seq (ra_sptp r) = sp_seq_id (dec_sync pl)"
    and "st = ra_stores r" and "us = ra_used r" and "rq = ra_req r" and "q = sp_seq_id (dec_sync pl)"
  shows "ra_used (race_run [Receiver k, Receiver k, Receiver k, Receiver k] r) = (q, t2, st) # us
     \<and> ra_rcv (race_run [Receiver k, Receiver k, Receiver k, Receiver k] r) = RC_Idle
     \<and> ra_req (race_run [Receiver k, Receiver k, Receiver k, Receiver k] r) = rq"
proof -
  let ?r2 = "r\<lparr>ra_rcv := RC_Matched t1' t1 (dec_sync pl) t2, ra_seen := ra_stores r\<rparr>"
  have r2: "race_run [Receiver k, Receiver k] r = ?r2" using assms by simp
  have "ra_rcv (race_step (Receiver k) ?r2) = RC_Clear
      \<and> ra_used (race_step (Receiver k) ?r2) = (q, t2, st) # us \<and> ra_req (race_step (Receiver k) ?r2) = rq"
    using assms by (simp add: Let_def)
  then have "ra_used (race_run [Receiver k, Receiver k] ?r2) = (q, t2, st) # us
     \<and> ra_rcv (race_run [Receiver k, Receiver k] ?r2) = RC_Idle \<and> ra_req (race_run [Receiver k, Receiver k] ?r2) = rq"
    by (simp del: receiver_requests race_step.simps add: race_step.simps(3) [of k "race_step (Receiver k) ?r2"])
  then show ?thesis using r2 by (simp add: race_run_def)
qed

text \<open>The reply that overtakes the final store of its request is evaluated, with the early
  stamp; the departure stored afterwards stays behind as pending.\<close>

theorem fallback_covers_overtaking:
  assumes "ra_req r i = RQ_Send q" and "ra_rcv r = RC_Idle"
    and "s_pending_t2 (ra_sptp r) = early" and "early \<noteq> 0" and "s_pending_seq (ra_sptp r) = q" and "tx \<noteq> 0"
    and "r' = race_run [Requester i tx, Sync_Arrives SPTP_SYNC t1 (sync_reply q t2') k,
                Receiver k, Receiver k, Receiver k, Receiver k, Requester i 0] r"
  shows "(\<exists>seen. ra_used r' = (q, early, seen) # ra_used r) \<and> ra_rcv r' = RC_Idle \<and> s_pending_t2 (ra_sptp r') = tx"
proof -
  let ?r1 = "r\<lparr>ra_req := (ra_req r)(i := RQ_Store q tx), ra_sent := q # ra_sent r,
                ra_rcv := RC_Arrived (k_now k) t1 (sync_reply q t2')\<rparr>"
  have r1: "race_step (Sync_Arrives SPTP_SYNC t1 (sync_reply q t2') k) (race_step (Requester i tx) r) = ?r1"
    using assms(1,2,6) by (simp add: receive_start_def sends_of_def stores_of_def)
  obtain r2 where r2: "r2 = race_run [Receiver k, Receiver k, Receiver k, Receiver k] ?r1" by blast
  have "ra_used r2 = (q, early, ra_stores r) # ra_used r \<and> ra_rcv r2 = RC_Idle \<and> ra_req r2 = ra_req ?r1"
    unfolding r2 by (rule receiver_evaluates [where pl = "sync_reply q t2'"]) (use assms(3-5) in simp_all)
  moreover have "r' = race_step (Requester i 0) r2"
    unfolding assms(7) r2 by (simp only: race_run_simps r1)
  moreover have "ra_req ?r1 i = RQ_Store q tx" by simp
  ultimately show ?thesis using assms(6) by (simp only: requester_receipt requester_sptp) simp
qed

text \<open>The last store of \<open>on_receive\<close> clears the stamp of a request made since the evaluation:
  its reply is dropped.\<close>

theorem clear_drops_next_reply:
  assumes "ra_rcv r = RC_Clear" and "ra_req r i = RQ_Take"
    and "r' = race_run (request_events i early tx @ [Receiver k,
                Sync_Arrives SPTP_SYNC t1 (sync_reply (s_next_seq (ra_sptp r)) t2') k', Receiver k']) r"
  shows "ra_rcv r' = RC_Idle \<and> ra_used r' = ra_used r \<and> ra_jumps r' = ra_jumps r
     \<and> s_pending_seq (ra_sptp r') = s_next_seq (ra_sptp r) \<and> s_sync_count (ra_sptp r') = s_sync_count (ra_sptp r)"
  using assms
  by (simp add: request_events_def receive_start_def Let_def sends_of_def stores_of_def)

text \<open>The window: a request \<open>\<delta>\<close> after the one answered stores its early stamp before the load and
  its number after the comparison.\<close>

definition window_events :: "int \<Rightarrow> int \<Rightarrow> int \<Rightarrow> int \<Rightarrow> int \<Rightarrow> sync_clocks \<Rightarrow> race_event list" where
  "window_events early x e2 t1 t2_prime k =
     request_events 0 early x
     @ [Sync_Arrives SPTP_SYNC t1 (sync_reply 1 t2_prime) k, Requester 0 0, Requester 0 e2,
        Receiver k, Receiver k, Receiver k, Receiver k]"

text \<open>C22. A slave whose clock is right, over a network with equal delays d, has its clock
  moved back by half of the distance of the two requests, although the master answered only
  what it was sent and one thread made all requests.\<close>

theorem window_moves_right_clock:
  fixes x d \<delta> b :: int
  assumes "0 < x" "x < 2 ^ 60" "0 \<le> d" "d < 2 ^ 60" "0 \<le> b" "b < 2 ^ 60"
    and "MIN_OFFSET_NS < \<delta>" "\<delta> < MAX_OFFSET_NS" and "k_now k = b + d"
    and "es = window_events early x (x + 2 * \<delta>) b (x + d) k" and "r = race_init (sptp_init own False env)"
  shows "answers_sent es r \<and> one_requester es \<and> ra_jumps (race_run es r) = [adjust_clock_jump (k_realtime k) (- \<delta>)]"
proof -
  have off: "raw_offset b (b + d) (x + 2 * \<delta>) (x + d) = \<delta>"
    using assms(1-8) by (simp add: raw_offset_def i64_id in_i64_def MAX_OFFSET_NS_def MIN_OFFSET_NS_def)
  have n: "in_i64 (x + d)" "i64 \<bar>\<delta>\<bar> = \<delta>" "x + 2 * \<delta> \<noteq> 0" "\<not> \<delta> \<ge> MAX_OFFSET_NS" "MIN_OFFSET_NS < \<delta>" "x \<noteq> 0"
    using assms(1-8) by (simp_all add: i64_id in_i64_def MIN_OFFSET_NS_def MAX_OFFSET_NS_def)
  have "answers_sent es r"
    unfolding assms(10,11) using n(6)
    by (simp add: window_events_def request_events_def Let_def sptp_init_def sends_of_def receive_start_def)
  moreover have "one_requester es"
    by (simp add: assms(10) one_requester_def window_events_def request_events_def)
  moreover have "ra_jumps (race_run es r) = [adjust_clock_jump (k_realtime k) (- \<delta>)]"
    unfolding assms(10,11) using off n assms(9)
    by (simp add: window_events_def request_events_def receive_start_def Let_def sptp_init_def)
  ultimately show ?thesis by blast
qed

definition demo_window :: "race_event list" where
  "demo_window = window_events 900 1000 (1000 + 2 * 200000) 5000 (1000 + 50)
     \<lparr>k_now = 5000 + 50, k_steady = 0, k_realtime = \<lparr>tv_sec = 1, tv_nsec = 0\<rparr>\<rparr>"

lemma window_moves_right_clock_witness:
  "ra_jumps (race_run demo_window (race_init (sptp_init null_address False None)))
     = [\<lparr>tv_sec = 0, tv_nsec = 999800000\<rparr>]"
proof -
  let ?k = "\<lparr>k_now = 5000 + 50, k_steady = 0, k_realtime = \<lparr>tv_sec = 1, tv_nsec = 0\<rparr>\<rparr>"
  have "ra_jumps (race_run demo_window (race_init (sptp_init null_address False None)))
      = [adjust_clock_jump (k_realtime ?k) (- 200000)]"
    by (intro window_moves_right_clock [of 1000 50 5000 200000 ?k demo_window 900, THEN conjunct2, THEN conjunct2])
       (simp_all add: sptp_consts demo_window_def)
  then show ?thesis by (simp add: adjust_clock_jump_def i64_id in_i64_def Let_def signed_divide_int_def signed_modulo_int_def)
qed

lemma demo_window_used:
  "(1, 401000, [(2, Early 401000), (1, Departure 1000), (1, Early 900)])
     \<in> set (ra_used (race_run demo_window (race_init (sptp_init null_address False None))))"
  by (simp add: demo_window_def window_events_def request_events_def receive_start_def Let_def sptp_init_def stores_of_def)

lemma departure_own_or_next_witness:
  "\<exists>w stamp rest. [(2::u32, Early 401000), (1, Departure 1000), (1, Early 900)] = (w, stamp) # rest
     \<and> stamp_ns stamp = 401000 \<and> (1::u32) \<in> fst ` set [(2::u32, Early 401000), (1, Departure 1000), (1, Early 900)]
     \<and> (one_requester demo_window \<and> length demo_window < 2 ^ 32 - 1 \<longrightarrow>
        w = 1 \<or> unat w = Suc (unat (1::u32)) \<and> stamp = Early 401000)"
proof (rule departure_own_or_next [OF _ demo_window_used])
  show "answers_sent demo_window (race_init (sptp_init null_address False None))"
    by (simp add: demo_window_def window_events_def request_events_def Let_def sptp_init_def sends_of_def receive_start_def)
qed

lemma demo_window_serial: "one_requester demo_window \<and> length demo_window < 2 ^ 32 - 1"
  by (simp add: demo_window_def one_requester_def window_events_def request_events_def)

lemma departure_not_older_witness:
  "\<exists>w stamp rest. [(2::u32, Early 401000), (1, Departure 1000), (1, Early 900)] = (w, stamp) # rest
     \<and> stamp_ns stamp = 401000 \<and> (1::u32) \<in> fst ` set [(2, Early 401000), (1, Departure 1000), (1, Early 900)]"
proof (rule departure_not_older [OF _ _ demo_window_used])
  show "answers_sent demo_window (race_init (sptp_init null_address False None))"
    by (simp add: demo_window_def window_events_def request_events_def Let_def sptp_init_def sends_of_def receive_start_def)
qed (simp add: sptp_init_def)

end
