(* ===== verification/Protocol.thy ===== *)
theory Protocol
  imports Shm_Ring Sptp
begin

section \<open>The channel protocol\<close>

text \<open>
  \<open>src/channel/protocol.h\<close> with both NICs: sending, receiving, the gateway's forwarding
  between the shared-memory bus and the network, and the interception of clock-synchronisation
  packets. The singleton with everything its static functions reach is one record; what lies
  outside the process (the network behind \<open>sendto\<close>, the GPS, the ring, the clocks, the state of
  the observers) are the type parameters, acted on by the functions of \<open>env\<close>.
\<close>

definition PROTO :: u16 where "PROTO = 0x8888"

subsection \<open>State\<close>

record ('o, 'g, 'n, 'r, 'x) proto =
  pr_instance :: bool
  pr_shm :: "unit nic"
  pr_shm_eng :: "'r shm_port"
  pr_sock :: "unit nic option"
  pr_raw :: "('g, 'n) raw_engine"
  pr_address :: address
  pr_observed :: "('o, u16) observers"
  pr_sptp :: "sptp option"
  pr_presence :: bool
  pr_env :: 'x

text \<open>
  \<open>now\<close> is \<open>Clock::now_ns\<close>, \<open>clocks\<close> the readings of one \<open>on_receive\<close>, \<open>settime\<close> is
  \<open>clock_settime\<close>, \<open>presence\<close> the handler the tracker registers.
\<close>

record ('g, 'n, 'r, 'x) env =
  en_sendto :: "u8 list \<Rightarrow> 'n \<Rightarrow> int \<times> 'n"
  en_gps :: "'g \<Rightarrow> u8 \<times> 'g"
  en_bus :: "u8 list \<Rightarrow> u16 \<Rightarrow> u16 \<Rightarrow> 'r \<Rightarrow> int \<times> 'r"
  en_now :: "'x \<Rightarrow> int \<times> 'x"
  en_clocks :: "'x \<Rightarrow> sync_clocks \<times> 'x"
  en_settime :: "timespec \<Rightarrow> 'x \<Rightarrow> 'x"
  en_presence :: "address \<Rightarrow> 'x \<Rightarrow> 'x"

text \<open>A \<open>Buffer *\<close>: an index into the pool of one of the two NICs (\<open>owns\<close> tells which).\<close>

datatype bufref = ShmBuf nat | SockBuf nat

definition buffer_at :: "bufref \<Rightarrow> ('o, 'g, 'n, 'r, 'x) proto \<Rightarrow> buffer" where
  "buffer_at b p =
     (case b of
        ShmBuf i \<Rightarrow> n_buffers (pr_shm p) ! i
      | SockBuf i \<Rightarrow> (case pr_sock p of Some n \<Rightarrow> n_buffers n ! i | None \<Rightarrow> \<lparr>b_data = [], b_size = 0\<rparr>))"

definition free_buffer :: "bufref \<Rightarrow> ('o, 'g, 'n, 'r, 'x) proto \<Rightarrow> ('o, 'g, 'n, 'r, 'x) proto" where
  "free_buffer b p =
     (if \<not> pr_instance p then p
      else case b of
        ShmBuf i \<Rightarrow> p\<lparr>pr_shm := nic_free i (pr_shm p)\<rparr>
      | SockBuf i \<Rightarrow> (case pr_sock p of Some n \<Rightarrow> p\<lparr>pr_sock := Some (nic_free i n)\<rparr> | None \<Rightarrow> p))"

subsection \<open>The engines inside the record\<close>

definition lift_ops :: "('w \<Rightarrow> 'e) \<Rightarrow> ('e \<Rightarrow> 'w \<Rightarrow> 'w) \<Rightarrow> 'e engine_ops \<Rightarrow> 'w engine_ops" where
  "lift_ops get put ops =
     \<lparr>eng_send = (\<lambda>bs w. case eng_send ops bs (get w) of (r, e) \<Rightarrow> (r, put e w)),
      eng_should_drop = (\<lambda>f m q w. case eng_should_drop ops f m q (get w) of (d, e) \<Rightarrow> (d, put e w)),
      eng_current_quadrant = (\<lambda>w. case eng_current_quadrant ops (get w) of (q, e) \<Rightarrow> (q, put e w))\<rparr>"

definition sock_ops :: "('g, 'n, 'r, 'x) env \<Rightarrow> ('o, 'g, 'n, 'r, 'x) proto engine_ops" where
  "sock_ops E = lift_ops pr_raw (\<lambda>e p. p\<lparr>pr_raw := e\<rparr>) (raw_ops (en_sendto E) (en_gps E))"

definition bus_ops :: "('g, 'n, 'r, 'x) env \<Rightarrow> ('o, 'g, 'n, 'r, 'x) proto engine_ops" where
  "bus_ops E = lift_ops pr_shm_eng (\<lambda>e p. p\<lparr>pr_shm_eng := e\<rparr>) (shm_ops (en_bus E))"

text \<open>
  \<open>h\<close> is \<open>on_quadrant_change\<close>; the raw-socket NIC calls it from \<open>send\<close>, the shared-memory NIC
  keeps the constructor's empty handler.
\<close>

type_synonym ('o, 'g, 'n, 'r, 'x) handler =
  "('o, 'g, 'n, 'r, 'x) proto \<Rightarrow> ('o, 'g, 'n, 'r, 'x) proto"

definition sock_send ::
  "('g, 'n, 'r, 'x) env \<Rightarrow> ('o, 'g, 'n, 'r, 'x) handler \<Rightarrow> nat \<Rightarrow> ('o, 'g, 'n, 'r, 'x) proto
     \<Rightarrow> int \<times> ('o, 'g, 'n, 'r, 'x) proto"
where
  "sock_send E h i p =
     (case pr_sock p of
        None \<Rightarrow> (-1, p)
      | Some n \<Rightarrow>
          (case nic_send (sock_ops E)
                  (\<lambda>w. let p1 = h ((snd w)\<lparr>pr_sock := Some (fst w)\<rparr>)
                       in (case pr_sock p1 of Some n1 \<Rightarrow> n1 | None \<Rightarrow> fst w, p1))
                  i (n, p) of
             (r, n', p') \<Rightarrow> (r, p'\<lparr>pr_sock := Some n'\<rparr>)))"

definition bus_send ::
  "('g, 'n, 'r, 'x) env \<Rightarrow> nat \<Rightarrow> ('o, 'g, 'n, 'r, 'x) proto \<Rightarrow> int \<times> ('o, 'g, 'n, 'r, 'x) proto"
where
  "bus_send E i p =
     (case nic_send (bus_ops E) (\<lambda>w. w) i (pr_shm p, p) of (r, n', p') \<Rightarrow> (r, p'\<lparr>pr_shm := n'\<rparr>))"

subsection \<open>Sending\<close>

text \<open>
  \<open>send_via_nic\<close> for either NIC: the result, the stamp for \<open>tx_ts_out\<close> (0 when no buffer was
  free, which leaves the caller's 0) and the new state.
\<close>

definition fill_buffer :: "address \<Rightarrow> address \<Rightarrow> packet_kind \<Rightarrow> u8 list \<Rightarrow> int \<Rightarrow> buffer \<Rightarrow> buffer" where
  "fill_buffer src dst kind data stamp b =
     b\<lparr>b_data := set_payload (fill_packet (a_port src) (a_port dst) kind data stamp (payload (b_data b)))
                   (b_data b)\<rparr>"

definition send_via_socket ::
  "('g, 'n, 'r, 'x) env \<Rightarrow> ('o, 'g, 'n, 'r, 'x) handler \<Rightarrow> address \<Rightarrow> address \<Rightarrow> u8 list \<Rightarrow> int
     \<Rightarrow> packet_kind \<Rightarrow> ('o, 'g, 'n, 'r, 'x) proto \<Rightarrow> int \<times> int \<times> ('o, 'g, 'n, 'r, 'x) proto"
where
  "send_via_socket E h src dst data ts kind p =
     (case pr_sock p of
        None \<Rightarrow> (-1, 0, p)
      | Some n \<Rightarrow>
          (case nic_alloc (a_paddr dst) PROTO (HEADER_LEN + length data) n of
             (None, n1) \<Rightarrow> (-1, 0, p\<lparr>pr_sock := Some n1\<rparr>)
           | (Some i, n1) \<Rightarrow>
               (case en_now E (pr_env p) of (now, x) \<Rightarrow>
                  let n2 = upd_buffer i (fill_buffer src dst kind data (if ts \<noteq> 0 then ts else now)) n1
                  in case sock_send E h i (p\<lparr>pr_sock := Some n2, pr_env := x\<rparr>) of
                       (r, p') \<Rightarrow> (r, now, p'))))"

definition send_via_bus ::
  "('g, 'n, 'r, 'x) env \<Rightarrow> address \<Rightarrow> address \<Rightarrow> u8 list \<Rightarrow> int
     \<Rightarrow> packet_kind \<Rightarrow> ('o, 'g, 'n, 'r, 'x) proto \<Rightarrow> int \<times> int \<times> ('o, 'g, 'n, 'r, 'x) proto"
where
  "send_via_bus E src dst data ts kind p =
     (case nic_alloc (a_paddr dst) PROTO (HEADER_LEN + length data) (pr_shm p) of
        (None, n1) \<Rightarrow> (-1, 0, p\<lparr>pr_shm := n1\<rparr>)
      | (Some i, n1) \<Rightarrow>
          (case en_now E (pr_env p) of (now, x) \<Rightarrow>
             let n2 = upd_buffer i (fill_buffer src dst kind data (if ts \<noteq> 0 then ts else now)) n1
             in case bus_send E i (p\<lparr>pr_shm := n2, pr_env := x\<rparr>) of (r, p') \<Rightarrow> (r, now, p')))"

definition protocol_send ::
  "('g, 'n, 'r, 'x) env \<Rightarrow> ('o, 'g, 'n, 'r, 'x) handler \<Rightarrow> address \<Rightarrow> address \<Rightarrow> u8 list \<Rightarrow> int
     \<Rightarrow> packet_kind \<Rightarrow> ('o, 'g, 'n, 'r, 'x) proto \<Rightarrow> int \<times> int \<times> ('o, 'g, 'n, 'r, 'x) proto"
where
  "protocol_send E h src dst data ts kind p =
     (if \<not> pr_instance p then (-1, 0, p)
      else if pr_sock p \<noteq> None \<and> \<not> is_internal dst
      then send_via_socket E h src dst data ts kind p
      else send_via_bus E src dst data ts kind p)"

subsection \<open>The synchronisation object's way out\<close>

definition sptp_send ::
  "('g, 'n, 'r, 'x) env \<Rightarrow> ('o, 'g, 'n, 'r, 'x) handler \<Rightarrow> ('o, 'g, 'n, 'r, 'x) proto send_fn"
where
  "sptp_send E h src dst data ts kind w =
     (case protocol_send E h src dst data ts kind ((snd w)\<lparr>pr_sptp := Some (fst w)\<rparr>) of
        (_, tx, p') \<Rightarrow> (tx, case pr_sptp p' of Some s \<Rightarrow> s | None \<Rightarrow> fst w, p'))"

text \<open>
  \<open>on_quadrant_change\<close> asks for a new synchronisation, which sends, which may find the quadrant
  changed again: \<open>k\<close> bounds the nesting. The GPS changes quadrant at most once in 3 s, so the
  handler of a send nested in it finds no second change.
\<close>

primrec on_quadrant_change ::
  "nat \<Rightarrow> ('g, 'n, 'r, 'x) env \<Rightarrow> ('o, 'g, 'n, 'r, 'x) handler"
where
  "on_quadrant_change 0 E p = p"
| "on_quadrant_change (Suc k) E p =
     (case (pr_instance p, pr_sptp p) of
        (True, Some s) \<Rightarrow>
          if s_is_master s \<or> \<not> s_running s then p
          else (case en_now E (pr_env p) of (early, x) \<Rightarrow>
            case request_resync (sptp_send E (on_quadrant_change k E)) early (s, p\<lparr>pr_env := x\<rparr>) of
              (s', p') \<Rightarrow> p'\<lparr>pr_sptp := Some s'\<rparr>)
      | _ \<Rightarrow> p)"

definition on_presence ::
  "('g, 'n, 'r, 'x) env \<Rightarrow> address \<Rightarrow> ('o, 'g, 'n, 'r, 'x) handler" where
  "on_presence E src p =
     (if pr_instance p \<and> pr_presence p then p\<lparr>pr_env := en_presence E src (pr_env p)\<rparr> else p)"

subsection \<open>Receiving\<close>

definition kind_of_byte :: "u8 \<Rightarrow> packet_kind option" where
  "kind_of_byte b = (if b = kind_byte SPTP_SYNC then Some SPTP_SYNC
                     else if b = kind_byte SPTP_REQUEST_SYNC then Some SPTP_REQUEST_SYNC else None)"

definition sptp_deliver ::
  "('g, 'n, 'r, 'x) env \<Rightarrow> ('o, 'g, 'n, 'r, 'x) handler \<Rightarrow> packet_kind \<Rightarrow> bufref
     \<Rightarrow> ('o, 'g, 'n, 'r, 'x) handler"
where
  "sptp_deliver E h kind b p =
     (case pr_sptp p of
        None \<Rightarrow> p
      | Some s \<Rightarrow>
          let buf = buffer_at b p; pkt = payload (b_data buf);
              src = \<lparr>a_paddr = frame_src (b_data buf), a_port = hdr_src_port pkt\<rparr>;
              sz = (if b_size buf > HEADER_LEN then b_size buf - HEADER_LEN else 0)
          in case en_clocks E (pr_env p) of (ks, x) \<Rightarrow>
             case sptp_on_receive (sptp_send E h)
                    (Some (\<lambda>a w. (fst w, on_presence E a (snd w))))
                    kind src (hdr_timestamp pkt) (take sz (pkt_data pkt)) ks (s, p\<lparr>pr_env := x\<rparr>) of
               ((s', p'), jump) \<Rightarrow>
                 p'\<lparr>pr_sptp := Some s',
                    pr_env := (case jump of None \<Rightarrow> pr_env p' | Some t \<Rightarrow> en_settime E t (pr_env p'))\<rparr>)"

text \<open>\<open>upd\<close> is the observers' \<open>update\<close> (a \<open>Communicator\<close>), which takes over the buffer.\<close>

definition notify_or_free ::
  "('o \<Rightarrow> u16 \<Rightarrow> bufref \<Rightarrow> ('o, 'g, 'n, 'r, 'x) handler) \<Rightarrow> u16 \<Rightarrow> bufref \<Rightarrow> ('o, 'g, 'n, 'r, 'x) handler"
where
  "notify_or_free upd port b p =
     (case co_notify pr_observed upd port b p of
        (notified, p') \<Rightarrow> if \<not> notified then free_buffer b p' else p')"

text \<open>Bus to network: only broadcasts of the vehicle's own components.\<close>

definition forward_to_socket ::
  "('g, 'n, 'r, 'x) env \<Rightarrow> ('o, 'g, 'n, 'r, 'x) handler \<Rightarrow> buffer \<Rightarrow> ('o, 'g, 'n, 'r, 'x) handler"
where
  "forward_to_socket E h buf p =
     (case pr_sock p of
        None \<Rightarrow> p
      | Some n \<Rightarrow>
          if frame_src (b_data buf) = a_paddr (pr_address p) \<and> frame_dst (b_data buf) = BROADCAST
          then (case nic_alloc (frame_dst (b_data buf)) PROTO (b_size buf) n of
                  (None, n1) \<Rightarrow> p\<lparr>pr_sock := Some n1\<rparr>
                | (Some i, n1) \<Rightarrow>
                    snd (sock_send E h i (p\<lparr>pr_sock := Some (upd_buffer i
                      (\<lambda>f. f\<lparr>b_data := memcpy_at HEADER_SIZE (take (b_size buf) (payload (b_data buf))) (b_data f)\<rparr>)
                      n1)\<rparr>)))
          else p)"

text \<open>Network to bus: the frame as it is.\<close>

definition forward_to_bus ::
  "('g, 'n, 'r, 'x) env \<Rightarrow> buffer \<Rightarrow> ('o, 'g, 'n, 'r, 'x) handler"
where
  "forward_to_bus E buf p =
     (case nic_alloc (frame_dst (b_data buf)) PROTO (b_size buf) (pr_shm p) of
        (None, n1) \<Rightarrow> p\<lparr>pr_shm := n1\<rparr>
      | (Some i, n1) \<Rightarrow>
          snd (bus_send E i (p\<lparr>pr_shm := upd_buffer i
            (\<lambda>f. f\<lparr>b_data := memcpy_at 0 (take (HEADER_SIZE + b_size buf) (b_data buf)) (b_data f)\<rparr>) n1\<rparr>)))"

definition protocol_update ::
  "('g, 'n, 'r, 'x) env \<Rightarrow> ('o, 'g, 'n, 'r, 'x) handler
     \<Rightarrow> ('o \<Rightarrow> u16 \<Rightarrow> bufref \<Rightarrow> ('o, 'g, 'n, 'r, 'x) handler) \<Rightarrow> bufref \<Rightarrow> ('o, 'g, 'n, 'r, 'x) handler"
where
  "protocol_update E h upd b p =
     (let buf = buffer_at b p; pkt = payload (b_data buf) in
      if b_size buf < HEADER_LEN then free_buffer b p
      else case b of
        ShmBuf _ \<Rightarrow> notify_or_free upd (hdr_dst_port pkt) b (forward_to_socket E h buf p)
      | SockBuf _ \<Rightarrow>
          (case kind_of_byte (hdr_kind pkt) of
             Some k \<Rightarrow> free_buffer b (sptp_deliver E h k b p)
           | None \<Rightarrow> notify_or_free upd (hdr_dst_port pkt) b (forward_to_bus E buf p)))"

text \<open>\<open>receive\<close>: the result, and source, timestamp, quadrant and data when it is not -1.\<close>

definition protocol_receive ::
  "bufref \<Rightarrow> nat \<Rightarrow> ('o, 'g, 'n, 'r, 'x) proto
     \<Rightarrow> (int \<times> (address \<times> int \<times> u8 \<times> u8 list) option) \<times> ('o, 'g, 'n, 'r, 'x) proto"
where
  "protocol_receive b sz p =
     (if \<not> pr_instance p then ((-1, None), p)
      else let buf = buffer_at b p; pkt = payload (b_data buf) in
        if b_size buf < HEADER_LEN then ((-1, None), free_buffer b p)
        else let data_size = min (b_size buf - HEADER_LEN) sz in
          ((int data_size,
            Some (\<lparr>a_paddr = frame_src (b_data buf), a_port = hdr_src_port pkt\<rparr>,
                  hdr_timestamp pkt, hdr_quadrant pkt, take data_size (pkt_data pkt))),
           free_buffer b p))"

subsection \<open>Construction, roles and observers\<close>

text \<open>
  The constructor after both NICs exist; \<open>sock\<close> is the second one, made only in the gateway
  process. The hooks make it the spatial NIC.
\<close>

definition protocol_init ::
  "unit nic \<Rightarrow> 'r shm_port \<Rightarrow> unit nic option \<Rightarrow> ('g, 'n) raw_engine \<Rightarrow> ('o, u16) observers \<Rightarrow> 'x
     \<Rightarrow> ('o, 'g, 'n, 'r, 'x) proto"
where
  "protocol_init shm eng sock raw obs x =
     \<lparr>pr_instance = True, pr_shm = nic_attach () PROTO shm, pr_shm_eng = eng,
      pr_sock = map_option (\<lambda>n. setup_quadrant (nic_attach () PROTO n)) sock, pr_raw = raw,
      pr_address = \<lparr>a_paddr = n_address shm, a_port = 0\<rparr>, pr_observed = obs,
      pr_sptp = None, pr_presence = False, pr_env = x\<rparr>"

definition enable_sync ::
  "('g, 'n, 'r, 'x) env \<Rightarrow> ('o, 'g, 'n, 'r, 'x) handler \<Rightarrow> (bool \<Rightarrow> 'g \<Rightarrow> 'g) \<Rightarrow> rat option \<Rightarrow> int \<Rightarrow> int
     \<Rightarrow> bool \<Rightarrow> ('o, 'g, 'n, 'r, 'x) handler"
where
  "enable_sync E h set_fixed silence steady early master p =
     (case pr_sock p of
        None \<Rightarrow> p
      | Some n \<Rightarrow>
          if pr_sptp p \<noteq> None then p
          else let p1 = p\<lparr>pr_raw := (pr_raw p)\<lparr>r_gps := set_fixed master (r_gps (pr_raw p))\<rparr>\<rparr>;
                   s = sptp_init \<lparr>a_paddr = n_address n, a_port = 0\<rparr> master silence
               in case sptp_start (sptp_send E h) steady early (s, p1\<lparr>pr_sptp := Some s\<rparr>) of
                    (s', p') \<Rightarrow> p'\<lparr>pr_sptp := Some s'\<rparr>)"

definition disable_sync :: "('o, 'g, 'n, 'r, 'x) handler" where
  "disable_sync p = p\<lparr>pr_sptp := None\<rparr>"

definition set_presence_handler :: "('o, 'g, 'n, 'r, 'x) handler" where
  "set_presence_handler p = p\<lparr>pr_presence := True\<rparr>"

definition create_address :: "u16 \<Rightarrow> ('o, 'g, 'n, 'r, 'x) proto \<Rightarrow> address" where
  "create_address port p = \<lparr>a_paddr = a_paddr (pr_address p), a_port = port\<rparr>"

definition protocol_attach :: "'o \<Rightarrow> u16 \<Rightarrow> ('o, 'g, 'n, 'r, 'x) handler" where
  "protocol_attach ob port p = p\<lparr>pr_observed := co_attach ob port (pr_observed p)\<rparr>"

definition protocol_detach :: "'o \<Rightarrow> u16 \<Rightarrow> ('o, 'g, 'n, 'r, 'x) handler" where
  "protocol_detach ob port p = p\<lparr>pr_observed := co_detach ob port (pr_observed p)\<rparr>"

end
