(* ===== verification/Buffer_Ownership.thy ===== *)
theory Buffer_Ownership
  imports Protocol
begin

section \<open>Which card a buffer belongs to\<close>

text \<open>
  The model names a buffer by its card and its index (\<open>ShmBuf i\<close>, \<open>SockBuf i\<close>); the code has a
  pointer, asks \<open>owns\<close> of \<open>src/network/nic.h\<close> and computes the index from the distance to the
  pool. The pools are arrays of the same type in different objects. Here the two are related:
  \<open>update\<close> and \<open>free_buffer\<close> of \<open>src/channel/protocol.h\<close> pick the same card and the same buffer.
\<close>

text \<open>A pool: the address of \<open>_buffer[0]\<close>, and \<open>sizeof(Buffer<Ethernet::Frame>)\<close>.\<close>

record pool_place =
  pl_base :: nat
  pl_unit :: nat

definition buffer_ptr :: "pool_place \<Rightarrow> nat \<Rightarrow> nat" where
  "buffer_ptr pl i = pl_base pl + i * pl_unit pl"

definition nic_owns :: "pool_place \<Rightarrow> nat \<Rightarrow> bool" where
  "nic_owns pl ptr = (buffer_ptr pl 0 \<le> ptr \<and> ptr < buffer_ptr pl BUFFER_SIZE)"

text \<open>\<open>buf - _buffer\<close>, the index \<open>free\<close> pushes.\<close>

definition buffer_index :: "pool_place \<Rightarrow> nat \<Rightarrow> nat" where
  "buffer_index pl ptr = (ptr - pl_base pl) div pl_unit pl"

definition pools_apart :: "pool_place \<Rightarrow> pool_place \<Rightarrow> bool" where
  "pools_apart a b = (0 < pl_unit a \<and> 0 < pl_unit b
     \<and> (buffer_ptr a BUFFER_SIZE \<le> buffer_ptr b 0 \<or> buffer_ptr b BUFFER_SIZE \<le> buffer_ptr a 0))"

fun place :: "pool_place \<Rightarrow> pool_place \<Rightarrow> bufref \<Rightarrow> nat" where
  "place shm sock (ShmBuf i) = buffer_ptr shm i"
| "place shm sock (SockBuf i) = buffer_ptr sock i"

fun in_pool :: "bufref \<Rightarrow> bool" where
  "in_pool (ShmBuf i) = (i < BUFFER_SIZE)"
| "in_pool (SockBuf i) = (i < BUFFER_SIZE)"

text \<open>The tests of \<open>free_buffer\<close>, in their order: what it does with a pointer. \<open>has_sock\<close> is
  whether the process has a socket card.\<close>

definition free_by_pointer :: "pool_place \<Rightarrow> pool_place \<Rightarrow> bool \<Rightarrow> nat \<Rightarrow> bufref option" where
  "free_by_pointer shm sock has_sock ptr =
     (if nic_owns shm ptr then Some (ShmBuf (buffer_index shm ptr))
      else if has_sock \<and> nic_owns sock ptr then Some (SockBuf (buffer_index sock ptr))
      else None)"

lemma buffer_ptr_mono: "0 < pl_unit pl \<Longrightarrow> buffer_ptr pl i < buffer_ptr pl j \<longleftrightarrow> i < j"
  by (simp add: buffer_ptr_def)

lemma owns_own: "0 < pl_unit pl \<Longrightarrow> i < BUFFER_SIZE \<Longrightarrow> nic_owns pl (buffer_ptr pl i)"
  by (simp add: nic_owns_def buffer_ptr_mono) (simp add: buffer_ptr_def)

lemma owns_not_other:
  assumes "pools_apart a b" and "nic_owns a ptr"
  shows "\<not> nic_owns b ptr"
  using assms by (auto simp: pools_apart_def nic_owns_def)

lemma pools_apart_sym: "pools_apart a b \<Longrightarrow> pools_apart b a"
  by (auto simp: pools_apart_def)

lemma buffer_index_at: "0 < pl_unit pl \<Longrightarrow> buffer_index pl (buffer_ptr pl i) = i"
  by (simp add: buffer_index_def buffer_ptr_def)

text \<open>The pointer tests pick exactly the card and the index of the buffer, and different buffers
  are at different addresses.\<close>

theorem free_by_pointer_exact:
  assumes "pools_apart shm sock" and "in_pool b" and "has_sock \<or> (\<exists>i. b = ShmBuf i)"
  shows "free_by_pointer shm sock has_sock (place shm sock b) = Some b"
proof (cases b)
  case (ShmBuf i)
  then show ?thesis using assms owns_own [of shm i]
    by (simp add: free_by_pointer_def pools_apart_def buffer_index_at)
next
  case (SockBuf i)
  then have "nic_owns sock (buffer_ptr sock i)" using assms owns_own [of sock i] by (simp add: pools_apart_def)
  moreover from this have "\<not> nic_owns shm (buffer_ptr sock i)"
    using owns_not_other [OF pools_apart_sym [OF assms(1)]] by blast
  ultimately show ?thesis using assms SockBuf by (simp add: free_by_pointer_def pools_apart_def buffer_index_at)
qed

lemma place_inj:
  assumes "pools_apart shm sock" "in_pool b" "in_pool b'" "place shm sock b = place shm sock b'"
  shows "b = b'"
  using free_by_pointer_exact [OF assms(1,2), of True] free_by_pointer_exact [OF assms(1,3), of True] assms(4)
  by (metis option.inject)

lemma free_by_pointer_exact_witness:
  "free_by_pointer \<lparr>pl_base = 4096, pl_unit = 1528\<rparr> \<lparr>pl_base = 200000, pl_unit = 1528\<rparr> True
     (place \<lparr>pl_base = 4096, pl_unit = 1528\<rparr> \<lparr>pl_base = 200000, pl_unit = 1528\<rparr> (SockBuf 7)) = Some (SockBuf 7)"
  by (rule free_by_pointer_exact) (simp_all add: pools_apart_def buffer_ptr_def BUFFER_SIZE_def SEND_BUFFERS_def RECEIVE_BUFFERS_def)

subsection \<open>The address of a card\<close>

definition nic_address :: "'o nic \<Rightarrow> mac" where
  "nic_address n = n_address n"

definition nic_set_address :: "mac \<Rightarrow> 'o nic \<Rightarrow> 'o nic" where
  "nic_set_address a n = n\<lparr>n_address := a\<rparr>"

definition nic_statistics :: "'o nic \<Rightarrow> statistics" where
  "nic_statistics n = n_stats n"

text \<open>Frames allocated after a change carry the new source.\<close>

lemma nic_alloc_source:
  assumes "nic_alloc dst prot sz (nic_set_address a n) = (Some i, n')" and "i < length (n_buffers n)"
  shows "nic_address n' = a"
  using assms by (auto simp: nic_alloc_def alloc_buf_def nic_set_address_def nic_address_def upd_buffer_def Let_def
      split: if_splits option.splits list.splits)

subsection \<open>Observers by port\<close>

text \<open>The static \<open>attach\<close> and \<open>detach\<close> that take a port.\<close>

definition attach_port :: "'o \<Rightarrow> u16 \<Rightarrow> ('o, u16) observers \<Rightarrow> ('o, u16) observers" where
  "attach_port ob port obs = co_attach ob port obs"

definition detach_port :: "'o \<Rightarrow> u16 \<Rightarrow> ('o, u16) observers \<Rightarrow> ('o, u16) observers" where
  "detach_port ob port obs = co_detach ob port obs"

lemma attach_by_address:
  "pr_observed (protocol_attach ob (a_port addr) p) = attach_port ob (a_port addr) (pr_observed p)"
  "pr_observed (protocol_detach ob (a_port addr) p) = detach_port ob (a_port addr) (pr_observed p)"
  by (simp_all add: protocol_attach_def protocol_detach_def attach_port_def detach_port_def)

end
