(* ===== verification/Channel.thy ===== *)
theory Channel
  imports Protocol
begin

section \<open>What the channel protocol guarantees\<close>

text \<open>
  The theorems about \<open>src/channel/protocol.h\<close>: which buffers each path gives back, what crosses
  from the bus to the network and back, and what a component receives of what another sent.
\<close>

subsection \<open>What a step on the network side leaves alone\<close>

lemma detect_obs: "detect_quadrant_change q n = (c, n') \<Longrightarrow> n_observers n' = n_observers n"
  by (auto simp: detect_quadrant_change_def Let_def split: if_splits)

definition same_bus :: "('o, 'g, 'n, 'r, 'x) proto \<Rightarrow> ('o, 'g, 'n, 'r, 'x) proto \<Rightarrow> bool" where
  "same_bus p p' \<longleftrightarrow> pr_shm p' = pr_shm p \<and> pr_shm_eng p' = pr_shm_eng p \<and> pr_observed p' = pr_observed p
     \<and> pr_address p' = pr_address p \<and> pr_instance p' = pr_instance p \<and> pr_presence p' = pr_presence p
     \<and> (pr_sptp p' = None \<longleftrightarrow> pr_sptp p = None)
     \<and> r_sockfd (pr_raw p') = r_sockfd (pr_raw p) \<and> r_ifindex (pr_raw p') = r_ifindex (pr_raw p)"

definition sock_ok :: "('o, 'g, 'n, 'r, 'x) proto \<Rightarrow> bool" where
  "sock_ok p \<longleftrightarrow> (\<forall>n. pr_sock p = Some n \<longrightarrow> pool_ok n) \<and> (pr_sptp p \<noteq> None \<longrightarrow> pr_sock p \<noteq> None)"

text \<open>
  \<open>sock_step F p p'\<close>: both or neither have a socket NIC, its buffers in use change by \<open>F\<close>, and
  those that stay in use keep their contents.
\<close>

definition sock_step ::
  "(nat set \<Rightarrow> nat set) \<Rightarrow> ('o, 'g, 'n, 'r, 'x) proto \<Rightarrow> ('o, 'g, 'n, 'r, 'x) proto \<Rightarrow> bool"
where
  "sock_step F p p' \<longleftrightarrow>
     (case (pr_sock p, pr_sock p') of
        (None, None) \<Rightarrow> True
      | (Some n, Some n') \<Rightarrow> pool_ok n' \<and> in_use n' = F (in_use n) \<and> n_address n' = n_address n
           \<and> n_spatial n' = n_spatial n \<and> n_observers n' = n_observers n
           \<and> (\<forall>j \<in> in_use n \<inter> in_use n'. n_buffers n' ! j = n_buffers n ! j)
      | _ \<Rightarrow> False)"

definition net_step ::
  "(nat set \<Rightarrow> nat set) \<Rightarrow> ('o, 'g, 'n, 'r, 'x) proto \<Rightarrow> ('o, 'g, 'n, 'r, 'x) proto \<Rightarrow> bool"
where
  "net_step F p p' \<longleftrightarrow> same_bus p p' \<and> sock_step F p p'"

lemma net_step_trans:
  "net_step F p q \<Longrightarrow> net_step G q r \<Longrightarrow> (\<And>s. s \<subseteq> F s) \<Longrightarrow> net_step (\<lambda>s. G (F s)) p r"
proof -
  assume 1: "net_step F p q" and 2: "net_step G q r" and F: "\<And>s. s \<subseteq> F s"
  have "same_bus p r" using 1 2 by (simp add: net_step_def same_bus_def)
  moreover have "sock_step (\<lambda>s. G (F s)) p r"
  proof (cases "pr_sock p")
    case None
    then show ?thesis using 1 2 by (auto simp: net_step_def sock_step_def split: option.splits)
  next
    case (Some n)
    then obtain m where m: "pr_sock q = Some m" "in_use m = F (in_use n)" "n_address m = n_address n"
      "n_spatial m = n_spatial n \<and> n_observers m = n_observers n" "\<forall>j \<in> in_use n \<inter> in_use m. n_buffers m ! j = n_buffers n ! j"
      using 1 by (auto simp: net_step_def sock_step_def split: option.splits)
    then obtain l where l: "pr_sock r = Some l" "pool_ok l" "in_use l = G (in_use m)" "n_address l = n_address m"
      "n_spatial l = n_spatial m \<and> n_observers l = n_observers m" "\<forall>j \<in> in_use m \<inter> in_use l. n_buffers l ! j = n_buffers m ! j"
      using 2 by (auto simp: net_step_def sock_step_def split: option.splits)
    have "\<forall>j \<in> in_use n \<inter> in_use l. n_buffers l ! j = n_buffers n ! j"
      using F [of "in_use n"] m(2,5) l(6) by auto
    then show ?thesis using Some m l by (simp add: sock_step_def)
  qed
  ultimately show ?thesis by (simp add: net_step_def)
qed

lemma nic_alloc_keeps:
  assumes "pool_ok n" and "mac_ok dst" and al: "nic_alloc dst prot sz n = (r, n')"
  shows "n_address n' = n_address n \<and> n_spatial n' = n_spatial n \<and> n_observers n' = n_observers n
     \<and> (\<forall>j \<in> in_use n. n_buffers n' ! j = n_buffers n ! j)"
proof -
  have "n_address n' = n_address n \<and> n_spatial n' = n_spatial n \<and> n_observers n' = n_observers n" "r = None \<Longrightarrow> n' = n"
    using al by (auto simp: nic_alloc_def alloc_buf_def split: if_splits list.splits)
  moreover have "\<forall>i. r = Some i \<longrightarrow> i \<notin> in_use n \<and> (\<forall>j. j \<noteq> i \<longrightarrow> n_buffers n' ! j = n_buffers n ! j)"
    using nic_alloc_full [OF assms] by blast
  ultimately show ?thesis by (cases r) metis+
qed

lemma net_step_ok: "net_step F p q \<Longrightarrow> sock_ok p \<Longrightarrow> sock_ok q"
  by (auto simp: net_step_def same_bus_def sock_step_def sock_ok_def split: option.splits)

lemma net_step_refl: "sock_ok p \<Longrightarrow> net_step (\<lambda>s. s) p p"
  by (auto simp: net_step_def same_bus_def sock_step_def sock_ok_def split: option.splits)

lemma net_step_fields [simp]:
  "net_step F (p\<lparr>pr_env := x\<rparr>) q = net_step F p q" "net_step F p (q\<lparr>pr_env := x\<rparr>) = net_step F p q"
  "pr_sptp p \<noteq> None \<Longrightarrow> net_step F (p\<lparr>pr_sptp := Some s\<rparr>) q = net_step F p q"
  "pr_sptp q \<noteq> None \<Longrightarrow> net_step F p (q\<lparr>pr_sptp := Some s\<rparr>) = net_step F p q"
  by (auto simp: net_step_def same_bus_def sock_step_def)

lemma net_step_sptp: "net_step F p q \<Longrightarrow> pr_sptp q = None \<longleftrightarrow> pr_sptp p = None"
  by (simp add: net_step_def same_bus_def)

lemma raw_send_inputs: "raw_send f bs e = (r, e') \<Longrightarrow> e'\<lparr>r_net := r_net e\<rparr> = e"
  by (auto simp: raw_send_def split: if_splits prod.splits)

text \<open>The bytes the socket NIC hands to \<open>sendto\<close> for buffer \<open>i\<close> when the GPS answers \<open>q\<close>.\<close>

definition sent_frame :: "u8 \<Rightarrow> unit nic \<Rightarrow> nat \<Rightarrow> u8 list" where
  "sent_frame q n i =
     (let b = n_buffers n ! i;
          d = (if n_spatial n then set_payload (set_quadrant q (payload (b_data b))) (b_data b) else b_data b)
      in take (HEADER_SIZE + b_size b) d)"

lemma upd_others:
  "i \<notin> S \<Longrightarrow> \<forall>j \<in> S. n_buffers n ! j = B j \<Longrightarrow> \<forall>j \<in> S. n_buffers (upd_buffer i g n) ! j = B j"
  by (auto simp: upd_buffer_def) (metis nth_list_update_neq)

lemma length_fill: "DATA_OFF + length d \<le> length p \<Longrightarrow> length (fill_packet src dst k d ts p) = length p"
  by (simp add: fill_packet_def Let_def)

lemma filled_pool:
  assumes "pool_ok n" and "i < BUFFER_SIZE" and "HEADER_LEN + length data \<le> MTU"
  shows "pool_ok (upd_buffer i (fill_buffer src dst kind data stamp) n)"
  using assms(1,2) by (rule pool_ok_upd) (use assms(3) in \<open>simp add: fill_buffer_def length_fill header_consts\<close>)

text \<open>
  What the channel asks of a quadrant-change handler: it works on the network side only and
  returns every buffer it takes.
\<close>

locale channel_handler =
  fixes E :: "('g, 'n, 'r, 'x) env" and h :: "('o, 'g, 'n, 'r, 'x) proto \<Rightarrow> ('o, 'g, 'n, 'r, 'x) proto"
  assumes stays_on_network: "sock_ok p \<Longrightarrow> net_step (\<lambda>s. s) p (h p)"
begin

lemma sock_send_full:
  assumes n: "pr_sock p = Some n" and pool: "pool_ok n" and i: "i \<in> in_use n"
    and send: "sock_send E h i p = (r, p')" and g: "en_gps E (r_gps (pr_raw p)) = (q, g)"
  shows "net_step (\<lambda>s. s - {i}) p p'"
    and "\<exists>net. (\<not> fst (detect_quadrant_change q n) \<longrightarrow> net = r_net (pr_raw p))
       \<and> raw_send (en_sendto E) (sent_frame q n i) ((pr_raw p')\<lparr>r_net := net\<rparr>) = (r, pr_raw p')"
proof -
  let ?p1 = "p\<lparr>pr_raw := (pr_raw p)\<lparr>r_gps := g\<rparr>\<rparr>"
  have cq: "eng_current_quadrant (sock_ops E) p = (q, ?p1)"
    using g by (simp add: sock_ops_def lift_ops_def raw_current_quadrant_def)
  obtain c n2 where d: "detect_quadrant_change q (write_quadrant q i n) = (c, n2)"
    by (cases "detect_quadrant_change q (write_quadrant q i n)")
  note wq = write_quadrant_pool [OF pool in_use_bound [OF i], of q]
  have n2: "pool_ok n2" "in_use n2 = in_use n" "n_address n2 = n_address n"
    "n_spatial n2 = n_spatial n" "n_observers n2 = n_observers n"
    using detect_pool [OF d] detect_obs [OF d] wq by (simp_all add: write_quadrant_def)
  let ?q2 = "?p1\<lparr>pr_sock := Some n2\<rparr>"
  define p2 where "p2 = (if c \<and> n_spatial n then h ?q2 else ?q2)"
  have "sock_ok ?q2" using n2(1) by (simp add: sock_ok_def)
  then have st: "net_step (\<lambda>s. s) ?q2 p2"
    using stays_on_network net_step_refl unfolding p2_def by (cases "c \<and> n_spatial n") auto
  then obtain n3 where n3: "pr_sock p2 = Some n3" "pool_ok n3" "in_use n3 = in_use n"
    "n_address n3 = n_address n" "n_spatial n3 = n_spatial n" "n_observers n3 = n_observers n"
    and n3b: "\<forall>j \<in> in_use n. n_buffers n3 ! j = n_buffers n2 ! j"
    using n2 by (auto simp: net_step_def sock_step_def split: option.splits)
  have n2b: "n_buffers n2 ! j = n_buffers n ! j" if "j \<noteq> i" for j
    using detect_pool(3) [OF d] that by (simp add: write_quadrant_def upd_buffer_def)
  define ch :: "unit nic \<times> ('o, 'g, 'n, 'r, 'x) proto \<Rightarrow> unit nic \<times> ('o, 'g, 'n, 'r, 'x) proto"
    where "ch = (\<lambda>w. let p1 = h ((snd w)\<lparr>pr_sock := Some (fst w)\<rparr>)
                       in (case pr_sock p1 of Some n1 \<Rightarrow> n1 | None \<Rightarrow> fst w, p1))"
  obtain m e2 where r: "(if c \<and> n_spatial n then ch (n2, ?p1) else (n2, ?p1)) = (m, e2)"
    by (cases "if c \<and> n_spatial n then ch (n2, ?p1) else (n2, ?p1)")
  have w: "m = n3" "same_bus ?q2 e2"
    using n3(1) st r by (auto simp: ch_def p2_def Let_def net_step_def same_bus_def split: if_splits)
  let ?b = "n_buffers n3 ! i"
  obtain bs e3 where es: "eng_send (sock_ops E) (take (HEADER_SIZE + b_size ?b) (b_data ?b)) e2 = (bs, e3)"
    by (cases "eng_send (sock_ops E) (take (HEADER_SIZE + b_size ?b) (b_data ?b)) e2")
  have e3: "same_bus e2 e3"
    using es by (auto simp: sock_ops_def lift_ops_def same_bus_def raw_send_def split: prod.splits if_splits)
  have ns: "nic_send (sock_ops E) ch i (n, p) = (bs, nic_free i (count_tx bs n3), e3)"
    unfolding nic_send_def by (simp only: prod.case cq d r w(1) Let_def es)
  have p': "p' = e3\<lparr>pr_sock := Some (nic_free i (count_tx bs n3))\<rparr>"
    using send n ns by (auto simp: sock_send_def ch_def)
  have "i \<in> in_use (count_tx bs n3)" "pool_ok (count_tx bs n3)" using n3 i by simp_all
  then have "pool_ok (nic_free i (count_tx bs n3))" "in_use (nic_free i (count_tx bs n3)) = in_use n - {i}"
    using nic_free_ok [of "count_tx bs n3" i] n3 by simp_all
  moreover have "n_address (count_tx bs n3) = n_address n" "n_spatial (count_tx bs n3) = n_spatial n"
    "n_observers (count_tx bs n3) = n_observers n"
    using n3 by (simp_all add: count_tx_def)
  moreover have "\<forall>j \<in> in_use n \<inter> (in_use n - {i}). n_buffers n3 ! j = n_buffers n ! j"
    using n2b n3b by auto
  ultimately have "sock_step (\<lambda>s. s - {i}) p p'" using n by (simp add: p' sock_step_def)
  moreover have "same_bus p p'" using w(2) e3 by (simp add: p' same_bus_def)
  ultimately show "net_step (\<lambda>s. s - {i}) p p'" by (simp add: net_step_def)
  have lenb: "i < length (n_buffers n)" using in_use_bound [OF i] pool by (simp add: pool_ok_def)
  have "n_buffers n3 ! i = n_buffers (write_quadrant q i n) ! i"
    using n3b i detect_pool(3) [OF d] by simp
  then have sf: "take (HEADER_SIZE + b_size ?b) (b_data ?b) = sent_frame q n i"
    using lenb by (simp add: sent_frame_def write_quadrant_def upd_buffer_def Let_def)
  have rs: "raw_send (en_sendto E) (sent_frame q n i) (pr_raw e2) = (bs, pr_raw e3)"
    using es unfolding sf by (auto simp: sock_ops_def lift_ops_def split: prod.splits)
  have "c = fst (detect_quadrant_change q n)"
    using d by (auto simp: detect_quadrant_change_def Let_def write_quadrant_def split: if_splits)
  then have c: "\<not> fst (detect_quadrant_change q n) \<longrightarrow> r_net (pr_raw e2) = r_net (pr_raw p)"
    using r by auto
  have "raw_send (en_sendto E) (sent_frame q n i) ((pr_raw e3)\<lparr>r_net := r_net (pr_raw e2)\<rparr>) = (bs, pr_raw e3)"
    using rs raw_send_inputs [OF rs] by simp
  moreover have "r = bs" "pr_raw p' = pr_raw e3" using send n ns p' by (auto simp: sock_send_def ch_def)
  ultimately show "\<exists>net. (\<not> fst (detect_quadrant_change q n) \<longrightarrow> net = r_net (pr_raw p))
       \<and> raw_send (en_sendto E) (sent_frame q n i) ((pr_raw p')\<lparr>r_net := net\<rparr>) = (r, pr_raw p')"
    using c by auto
qed

lemma sock_send_net:
  assumes "pr_sock p = Some n" and "pool_ok n" and "i \<in> in_use n" and "sock_send E h i p = (r, p')"
  shows "net_step (\<lambda>s. s - {i}) p p'"
  by (cases "en_gps E (r_gps (pr_raw p))") (rule sock_send_full(1) [OF assms])

lemma send_via_socket_net:
  assumes ok: "sock_ok p" and dst: "mac_ok (a_paddr dst)"
    and send: "send_via_socket E h src dst data ts kind p = (r, tx, p')"
  shows "net_step (\<lambda>s. s) p p'"
proof (cases "pr_sock p")
  case None
  then show ?thesis using send net_step_refl [OF ok] by (simp add: send_via_socket_def)
next
  case (Some n)
  then have pool: "pool_ok n" using ok by (simp add: sock_ok_def)
  obtain a n1 where al: "nic_alloc (a_paddr dst) PROTO (HEADER_LEN + length data) n = (a, n1)"
    by (cases "nic_alloc (a_paddr dst) PROTO (HEADER_LEN + length data) n")
  note n1 = nic_alloc_pool [OF pool dst al]
  have keep: "n_address n1 = n_address n" "n_spatial n1 = n_spatial n \<and> n_observers n1 = n_observers n"
    "\<forall>j \<in> in_use n. n_buffers n1 ! j = n_buffers n ! j"
    using nic_alloc_keeps [OF pool dst al] by blast+
  show ?thesis
  proof (cases a)
    case None
    then show ?thesis using send Some al n1 keep
      by (auto simp: send_via_socket_def net_step_def same_bus_def sock_step_def)
  next
    case i: (Some i)
    obtain now x where now: "en_now E (pr_env p) = (now, x)" by (cases "en_now E (pr_env p)")
    let ?n2 = "upd_buffer i (fill_buffer src dst kind data (if ts \<noteq> 0 then ts else now)) n1"
    let ?p2 = "p\<lparr>pr_sock := Some ?n2, pr_env := x\<rparr>"
    have i': "i \<notin> in_use n" "i < BUFFER_SIZE" "HEADER_LEN + length data \<le> MTU" using n1(3) [OF i] by auto
    have n2: "pool_ok ?n2" by (rule filled_pool [OF n1(1) i'(2,3)])
    have "in_use ?n2 = insert i (in_use n)" using n1(2) i by simp
    then have st: "net_step (insert i) p ?p2"
      using Some n2 keep upd_others [OF i'(1) keep(3)] by (simp add: net_step_def same_bus_def sock_step_def)
    obtain r' q where sd: "sock_send E h i ?p2 = (r', q)" by (cases "sock_send E h i ?p2")
    have "net_step (\<lambda>s. s - {i}) ?p2 q"
      by (rule sock_send_net [OF _ n2 _ sd]) (use n1(2) i in simp_all)
    then have "net_step (\<lambda>s. insert i s - {i}) p q" by (rule net_step_trans [OF st]) blast
    moreover have "p' = q" using send Some al i now sd by (simp add: send_via_socket_def Let_def)
    ultimately show ?thesis
      using i'(1) Some by (auto simp: net_step_def sock_step_def split: option.splits)
  qed
qed

lemma protocol_send_net:
  assumes "sock_ok p" and "mac_ok (a_paddr dst)" and "pr_sock p \<noteq> None" and "\<not> is_internal dst"
    and "protocol_send E h src dst data ts kind p = (r, tx, p')"
  shows "net_step (\<lambda>s. s) p p'"
  using assms send_via_socket_net [OF assms(1,2), of src data ts kind r tx p'] net_step_refl [OF assms(1)]
  by (auto simp: protocol_send_def split: if_splits)

lemma sptp_send_net:
  assumes "sock_ok p" and "mac_ok (a_paddr dst)" and "pr_sock p \<noteq> None" and "\<not> is_internal dst"
    and "pr_sptp p \<noteq> None" and "sptp_send E h src dst data ts kind (s, p) = (tx, s', p')"
  shows "net_step (\<lambda>s. s) p p'"
proof -
  obtain r tx' q where "protocol_send E h src dst data ts kind (p\<lparr>pr_sptp := Some s\<rparr>) = (r, tx', q)"
    by (metis prod_cases3)
  moreover from this have "net_step (\<lambda>s. s) (p\<lparr>pr_sptp := Some s\<rparr>) q"
    by (rule protocol_send_net [rotated 4]) (use assms(1-4) in \<open>simp_all add: sock_ok_def\<close>)
  ultimately show ?thesis using assms(5,6) by (simp add: sptp_send_def)
qed

lemma sock_kept: "net_step F p q \<Longrightarrow> pr_sock q = None \<longleftrightarrow> pr_sock p = None"
  by (auto simp: net_step_def sock_step_def split: option.splits)

lemma send_sync_request_net:
  assumes "sock_ok p" and "pr_sock p \<noteq> None" and "pr_sptp p \<noteq> None"
    and "send_sync_request (sptp_send E h) early (s, p) = (s', p')"
  shows "net_step (\<lambda>s. s) p p'"
proof -
  let ?s1 = "s\<lparr>s_next_seq := s_next_seq s + 1, s_pending_t2 := early, s_pending_seq := s_next_seq s\<rparr>"
  obtain tx s2 q where sd: "sptp_send E h (s_own_addr ?s1) (physical_broadcast PORT_GATEWAY)
      (enc_request (s_next_seq s)) 0 SPTP_REQUEST_SYNC (?s1, p) = (tx, s2, q)" by (metis prod_cases3)
  have "net_step (\<lambda>s. s) p q"
    by (rule sptp_send_net [OF assms(1) _ assms(2) _ assms(3) sd]) (simp_all add: physical_broadcast_def is_internal_def)
  then show ?thesis using assms(4) sd by (simp add: send_sync_request_def Let_def)
qed

lemma request_resync_net:
  assumes "sock_ok p" and "pr_sock p \<noteq> None" and "pr_sptp p \<noteq> None"
    and "request_resync (sptp_send E h) early (s, p) = (s', p')"
  shows "net_step (\<lambda>s. s) p p'"
  using assms(4) send_sync_request_net [OF assms(1-3)] net_step_refl [OF assms(1)]
  by (auto simp: request_resync_def split: if_splits)

lemma sptp_deliver_net:
  assumes ok: "sock_ok p" and sock: "pr_sock p \<noteq> None" and src: "frame_ok (b_data (buffer_at b p))"
    and ext: "frame_src (b_data (buffer_at b p)) \<noteq> INTERNAL"
  shows "net_step (\<lambda>s. s) p (sptp_deliver E h kind b p)"
proof (cases "pr_sptp p")
  case None
  then show ?thesis using net_step_refl [OF ok] by (simp add: sptp_deliver_def)
next
  case (Some s)
  define buf where "buf = buffer_at b p"
  define sender where "sender = \<lparr>a_paddr = frame_src (b_data buf), a_port = hdr_src_port (payload (b_data buf))\<rparr>"
  define sz where "sz = (if b_size buf > HEADER_LEN then b_size buf - HEADER_LEN else 0)"
  define pl where "pl = take sz (pkt_data (payload (b_data buf)))"
  have sender: "mac_ok (a_paddr sender)" "\<not> is_internal sender"
    using src ext by (simp_all add: sender_def buf_def is_internal_def frame_src_def slice_def mac_ok_def
        frame_ok_def frame_consts)
  obtain ks x where ks: "en_clocks E (pr_env p) = (ks, x)" by (cases "en_clocks E (pr_env p)")
  let ?p = "p\<lparr>pr_env := x\<rparr>"
  let ?pres = "Some (\<lambda>a w. (fst w, on_presence E a (snd w)))"
  obtain s' p' jump where rc: "sptp_on_receive (sptp_send E h) ?pres kind sender
      (hdr_timestamp (payload (b_data buf))) pl ks (s, ?p) = ((s', p'), jump)"
    by (cases "sptp_on_receive (sptp_send E h) ?pres kind sender
      (hdr_timestamp (payload (b_data buf))) pl ks (s, ?p)") auto
  have "net_step (\<lambda>s. s) ?p p'"
  proof (cases "s_is_master s \<and> kind = SPTP_REQUEST_SYNC \<and> \<not> length pl < REQUEST_LEN")
    case True
    obtain tx s2 q where sd: "sptp_send E h (s_own_addr s) sender
        (enc_sync \<lparr>sp_seq_id = dec_request pl, sp_t2_prime = word_of_int (k_now ks)\<rparr>) 0 SPTP_SYNC (s, ?p) = (tx, s2, q)"
      by (metis prod_cases3)
    have "net_step (\<lambda>s. s) ?p q"
      by (rule sptp_send_net [OF _ sender(1) _ sender(2) _ sd]) (use ok sock Some in \<open>simp_all add: sock_ok_def\<close>)
    moreover have "p' = on_presence E sender q"
      using rc True sd by (simp add: sptp_on_receive_def send_sync_reply_def)
    ultimately show ?thesis by (simp add: on_presence_def)
  next
    case False
    then have "p' = ?p"
      using rc by (auto simp: sptp_on_receive_def split: if_splits prod.splits)
    moreover have "sock_ok ?p" using ok by (simp add: sock_ok_def)
    ultimately show ?thesis using net_step_refl by blast
  qed
  moreover have "pr_sptp p' \<noteq> None" using net_step_sptp [OF calculation] Some by simp
  moreover have "sptp_deliver E h kind b p = p'\<lparr>pr_sptp := Some s',
      pr_env := (case jump of None \<Rightarrow> pr_env p' | Some t \<Rightarrow> en_settime E t (pr_env p'))\<rparr>"
    using Some ks rc unfolding sptp_deliver_def buf_def [symmetric] pl_def sz_def sender_def Let_def
    by simp
  ultimately show ?thesis by simp
qed

end

lemma on_quadrant_change_handler: "channel_handler (on_quadrant_change k E)"
proof (induction k)
  case 0
  show ?case by unfold_locales (simp add: net_step_refl)
next
  case (Suc k)
  note resync = channel_handler.request_resync_net [OF Suc.IH, of _ E]
  show ?case
  proof
    fix p :: "('a, 'b, 'c, 'd, 'e) proto"
    assume ok: "sock_ok p"
    show "net_step (\<lambda>s. s) p (on_quadrant_change (Suc k) E p)"
    proof (cases "pr_instance p \<and> (\<exists>s. pr_sptp p = Some s \<and> \<not> s_is_master s \<and> s_running s)")
      case False
      then have "on_quadrant_change (Suc k) E p = p" by (auto split: option.splits bool.splits)
      then show ?thesis using net_step_refl [OF ok] by simp
    next
      case True
      then obtain s where s: "pr_instance p" "pr_sptp p = Some s" "\<not> s_is_master s" "s_running s" by blast
      obtain early x where now: "en_now E (pr_env p) = (early, x)" by (cases "en_now E (pr_env p)")
      obtain s' p' where rq: "request_resync (sptp_send E (on_quadrant_change k E)) early (s, p\<lparr>pr_env := x\<rparr>) = (s', p')"
        by (cases "request_resync (sptp_send E (on_quadrant_change k E)) early (s, p\<lparr>pr_env := x\<rparr>)")
      have res: "on_quadrant_change (Suc k) E p = p'\<lparr>pr_sptp := Some s'\<rparr>" using s now rq by simp
      have sock: "pr_sock p \<noteq> None" using ok s(2) by (simp add: sock_ok_def)
      have "net_step (\<lambda>s. s) (p\<lparr>pr_env := x\<rparr>) p'"
        by (rule resync [OF _ _ _ rq]) (use ok sock s in \<open>simp_all add: sock_ok_def\<close>)
      then have st: "net_step (\<lambda>s. s) p p'" by simp
      then have "pr_sptp p' \<noteq> None" using net_step_sptp [OF st] s by simp
      then show ?thesis using st res by simp
    qed
  qed
qed

interpretation on_change: channel_handler E "on_quadrant_change k E"
  by (rule on_quadrant_change_handler)


subsection \<open>Clock synchronisation stays between the gateways\<close>

lemma free_sock_net:
  assumes "pr_instance p" and "pr_sock p = Some n" and "pool_ok n" and "i \<in> in_use n"
    and "pr_sptp p \<noteq> None \<longrightarrow> pr_sock p \<noteq> None"
  shows "net_step (\<lambda>s. s - {i}) p (free_buffer (SockBuf i) p)"
  using assms nic_free_ok [OF assms(3,4)]
  by (simp add: free_buffer_def net_step_def same_bus_def sock_step_def)

lemma sptp_update_net:
  assumes ok: "sock_ok p" and inst: "pr_instance p" and n: "pr_sock p = Some n" and i: "i \<in> in_use n"
    and len: "HEADER_LEN \<le> b_size (n_buffers n ! i)"
    and kind: "kind_of_byte (hdr_kind (payload (b_data (n_buffers n ! i)))) = Some k"
    and ext: "frame_src (b_data (n_buffers n ! i)) \<noteq> INTERNAL"
  shows "net_step (\<lambda>s. s - {i}) p (protocol_update E (on_quadrant_change d E) upd (SockBuf i) p)"
proof -
  have buf: "buffer_at (SockBuf i) p = n_buffers n ! i" using n by (simp add: buffer_at_def)
  have pool: "pool_ok n" using ok n by (simp add: sock_ok_def)
  have fr: "frame_ok (b_data (n_buffers n ! i))" using pool_buffer [OF pool in_use_bound [OF i]] by simp
  define p1 where "p1 = sptp_deliver E (on_quadrant_change d E) k (SockBuf i) p"
  have st: "net_step (\<lambda>s. s) p p1" unfolding p1_def
    by (rule on_change.sptp_deliver_net [OF ok]) (use n fr ext buf in simp_all)
  then obtain m where m: "pr_sock p1 = Some m" "pool_ok m" "in_use m = in_use n" "pr_instance p1"
    using n inst by (auto simp: net_step_def sock_step_def same_bus_def split: option.splits)
  have "net_step (\<lambda>s. s - {i}) p1 (free_buffer (SockBuf i) p1)"
    by (rule free_sock_net [OF m(4,1,2)]) (use m i in simp_all)
  then have "net_step (\<lambda>s. s - {i}) p (free_buffer (SockBuf i) p1)" by (rule net_step_trans [OF st]) blast
  then show ?thesis using len kind by (simp add: protocol_update_def buf p1_def Let_def)
qed

text \<open>C30. A synchronisation packet that arrives from the network is consumed by the gateway:
  nothing is written to the shared-memory bus, no observer is called, its buffer is freed and
  every other buffer of both NICs stays as it is, whatever the packet holds and however
  often the quadrant changes while a reply is sent. (The sender's MAC must not be the
  all-zero one, which \<open>send\<close> takes for the bus.)\<close>

theorem sptp_stays_on_network:
  assumes "sock_ok p" and "pr_instance p" and "pr_sock p = Some n" and "i \<in> in_use n"
    and "HEADER_LEN \<le> b_size (n_buffers n ! i)"
    and "kind_of_byte (hdr_kind (payload (b_data (n_buffers n ! i)))) = Some k"
    and "frame_src (b_data (n_buffers n ! i)) \<noteq> INTERNAL"
  shows "\<exists>p' n'. protocol_update E (on_quadrant_change d E) upd (SockBuf i) p = p'
     \<and> pr_shm p' = pr_shm p \<and> pr_shm_eng p' = pr_shm_eng p \<and> pr_observed p' = pr_observed p
     \<and> pr_sock p' = Some n' \<and> pool_ok n' \<and> in_use n' = in_use n - {i}
     \<and> (\<forall>j \<in> in_use n'. n_buffers n' ! j = n_buffers n ! j)"
  using sptp_update_net [OF assms, of E d upd] assms(3)
  by (auto simp: net_step_def same_bus_def sock_step_def split: option.splits)

subsection \<open>Onto the bus\<close>

text \<open>The bytes the shared-memory NIC hands to \<open>write_slot\<close> for buffer \<open>i\<close>.\<close>

lemma bus_send_result:
  assumes pool: "pool_ok (pr_shm p)" and i: "i \<in> in_use (pr_shm p)" and plain: "\<not> n_spatial (pr_shm p)"
    and eng: "shm_send (en_bus E) (take (HEADER_SIZE + b_size (n_buffers (pr_shm p) ! i)) (b_data (n_buffers (pr_shm p) ! i)))
                (pr_shm_eng p) = (bs, e)"
  shows "bus_send E i p = (bs, p\<lparr>pr_shm := nic_free i (count_tx bs (pr_shm p)), pr_shm_eng := e\<rparr>)"
proof -
  have q: "eng_current_quadrant (bus_ops E) p = (QUADRANT_NONE, p)"
    by (simp add: bus_ops_def lift_ops_def)
  have d: "detect_quadrant_change QUADRANT_NONE (write_quadrant QUADRANT_NONE i (pr_shm p)) = (False, pr_shm p)"
    using plain by (simp add: detect_quadrant_change_def write_quadrant_def)
  have s: "eng_send (bus_ops E) bytes p = (case shm_send (en_bus E) bytes (pr_shm_eng p) of (r, e) \<Rightarrow> (r, p\<lparr>pr_shm_eng := e\<rparr>))" for bytes
    by (simp add: bus_ops_def lift_ops_def)
  show ?thesis by (simp add: bus_send_def nic_send_def q d s eng Let_def)
qed

lemma shm_send_gateway:
  assumes "sp_attached e" and "sp_slot e = unat GATEWAY_SLOT" and "bs \<noteq> []"
  shows "shm_send bus bs e = (fst (bus bs GATEWAY_WRITER DELIVER_TO_COMPONENTS (sp_ring e)),
     e\<lparr>sp_ring := snd (bus bs GATEWAY_WRITER DELIVER_TO_COMPONENTS (sp_ring e))\<rparr>)"
  using assms by (simp add: shm_send_def send_request_def case_prod_beta)

lemma shm_send_component:
  assumes "sp_attached e" and "sp_slot e \<noteq> unat GATEWAY_SLOT" and "bs \<noteq> []"
  shows "shm_send bus bs e =
     (fst (bus bs (word_of_nat (sp_slot e)) (DELIVER_TO_COMPONENTS OR DELIVER_TO_GATEWAY) (sp_ring e)),
     e\<lparr>sp_ring := snd (bus bs (word_of_nat (sp_slot e)) (DELIVER_TO_COMPONENTS OR DELIVER_TO_GATEWAY) (sp_ring e))\<rparr>)"
  using assms by (simp add: shm_send_def send_request_def case_prod_beta)

lemma bus_pool_after:
  assumes "pool_ok n" and "i \<in> in_use n"
  shows "pool_ok (nic_free i (count_tx bs n))" "in_use (nic_free i (count_tx bs n)) = in_use n - {i}"
  using nic_free_ok [of "count_tx bs n" i] assms by simp_all

lemma forward_to_bus_result:
  fixes E :: "('g, 'n, 'r, 'x) env" and p :: "('o, 'g, 'n, 'r, 'x) proto" and buf :: buffer
  assumes pool: "pool_ok (pr_shm p)" and free: "in_use (pr_shm p) \<noteq> {..<BUFFER_SIZE}"
    and plain: "\<not> n_spatial (pr_shm p)" and fr: "frame_ok (b_data buf)" and sz: "b_size buf \<le> MTU"
    and gw: "sp_attached (pr_shm_eng p)" "sp_slot (pr_shm_eng p) = unat GATEWAY_SLOT"
  defines "res \<equiv> en_bus E (take (HEADER_SIZE + b_size buf) (b_data buf)) GATEWAY_WRITER DELIVER_TO_COMPONENTS
                    (sp_ring (pr_shm_eng p))"
  shows "\<exists>n. forward_to_bus E buf p = p\<lparr>pr_shm := n, pr_shm_eng := (pr_shm_eng p)\<lparr>sp_ring := snd res\<rparr>\<rparr>
     \<and> pool_ok n \<and> in_use n = in_use (pr_shm p) \<and> \<not> n_spatial n \<and> n_observers n = n_observers (pr_shm p)"
proof -
  obtain r n1 where al: "nic_alloc (frame_dst (b_data buf)) PROTO (b_size buf) (pr_shm p) = (r, n1)"
    by (cases "nic_alloc (frame_dst (b_data buf)) PROTO (b_size buf) (pr_shm p)")
  have dst: "mac_ok (frame_dst (b_data buf))"
    using fr by (simp add: frame_dst_def slice_def mac_ok_def frame_ok_def frame_consts)
  note full = nic_alloc_full [OF pool dst al]
  have "r \<noteq> None" using full sz free by auto
  then obtain i where i: "r = Some i" by auto
  have f: "pool_ok n1" "i \<notin> in_use (pr_shm p)" "in_use n1 = insert i (in_use (pr_shm p))" "b_size (n_buffers n1 ! i) = b_size buf"
    using full i by auto
  have ib: "i < BUFFER_SIZE" using nic_alloc_pool(3) [OF pool dst al i] by blast
  have len1: "i < length (n_buffers n1)" using f(1) ib by (simp add: pool_ok_def)
  have fr1: "frame_ok (b_data (n_buffers n1 ! i))" using pool_buffer [OF f(1) ib] by simp
  let ?k = "HEADER_SIZE + b_size buf"
  let ?g = "\<lambda>f. f\<lparr>b_data := memcpy_at 0 (take ?k (b_data buf)) (b_data f)\<rparr>"
  let ?n2 = "upd_buffer i ?g n1"
  have lk: "length (take ?k (b_data buf)) = ?k" using fr sz by (simp add: frame_ok_def frame_consts)
  have n2: "pool_ok ?n2" using f(1) ib
    by (rule pool_ok_upd) (use lk sz in \<open>simp add: frame_ok_def frame_consts\<close>)
  have plain2: "\<not> n_spatial ?n2" "n_observers ?n2 = n_observers (pr_shm p)"
    using plain al by (auto simp: nic_alloc_def alloc_buf_def split: if_splits list.splits)
  have cont: "take (HEADER_SIZE + b_size (n_buffers ?n2 ! i)) (b_data (n_buffers ?n2 ! i)) = take ?k (b_data buf)"
    using len1 f(4) take_memcpy_0 [of "take ?k (b_data buf)" "b_data (n_buffers n1 ! i)"] lk
    by (simp add: upd_buffer_def)
  have ne: "take ?k (b_data buf) \<noteq> []" using lk by (auto simp: frame_consts)
  have eng: "shm_send (en_bus E) (take ?k (b_data buf)) (pr_shm_eng p)
      = (fst res, (pr_shm_eng p)\<lparr>sp_ring := snd res\<rparr>)"
    unfolding res_def by (rule shm_send_gateway [OF gw ne])
  have i2: "i \<in> in_use ?n2" using f(3) by simp
  have "bus_send E i (p\<lparr>pr_shm := ?n2\<rparr>)
      = (fst res, p\<lparr>pr_shm := nic_free i (count_tx (fst res) ?n2), pr_shm_eng := (pr_shm_eng p)\<lparr>sp_ring := snd res\<rparr>\<rparr>)"
    using bus_send_result [of "p\<lparr>pr_shm := ?n2\<rparr>" i E] n2 i2 plain2(1) cont eng by simp
  then have "forward_to_bus E buf p = p\<lparr>pr_shm := nic_free i (count_tx (fst res) ?n2),
      pr_shm_eng := (pr_shm_eng p)\<lparr>sp_ring := snd res\<rparr>\<rparr>"
    using al i by (simp add: forward_to_bus_def)
  moreover have "pool_ok (nic_free i (count_tx (fst res) ?n2))"
    "in_use (nic_free i (count_tx (fst res) ?n2)) = in_use (pr_shm p)"
    using bus_pool_after [OF n2 i2, of "fst res"] f(2,3) by auto
  moreover have "\<not> n_spatial (nic_free i (count_tx (fst res) ?n2))"
    "n_observers (nic_free i (count_tx (fst res) ?n2)) = n_observers (pr_shm p)"
    using plain2 by (simp_all add: count_tx_def)
  ultimately show ?thesis by blast
qed


lemma no_targets: "\<not> has_observer c r \<Longrightarrow> targets_of c r = []"
  by (simp add: has_observer_targets)

lemma notify_free_none:
  assumes "targets_of port (pr_observed p) = []"
  shows "notify_or_free upd port b p = free_buffer b p"
  using assms by (simp add: notify_or_free_def co_notify_targets)

lemma network_frame_result:
  fixes E :: "('g, 'n, 'r, 'x) env" and p :: "('o, 'g, 'n, 'r, 'x) proto"
  assumes shm: "pool_ok (pr_shm p)" "in_use (pr_shm p) \<noteq> {..<BUFFER_SIZE}" "\<not> n_spatial (pr_shm p)"
    and gw: "sp_attached (pr_shm_eng p)" "sp_slot (pr_shm_eng p) = unat GATEWAY_SLOT" "pr_instance p"
    and n: "pr_sock p = Some n" "pool_ok n" "i \<in> in_use n"
    and pkt: "HEADER_LEN \<le> b_size (n_buffers n ! i)" "kind_of_byte (hdr_kind (payload (b_data (n_buffers n ! i)))) = None"
    and none: "\<not> has_observer (hdr_dst_port (payload (b_data (n_buffers n ! i)))) (pr_observed p)"
  shows "\<exists>m. protocol_update E h upd (SockBuf i) p
      = p\<lparr>pr_shm := m,
          pr_shm_eng := (pr_shm_eng p)\<lparr>sp_ring := snd (en_bus E
             (take (HEADER_SIZE + b_size (n_buffers n ! i)) (b_data (n_buffers n ! i)))
             GATEWAY_WRITER DELIVER_TO_COMPONENTS (sp_ring (pr_shm_eng p)))\<rparr>,
          pr_sock := Some (nic_free i n)\<rparr>
      \<and> pool_ok m \<and> in_use m = in_use (pr_shm p) \<and> in_use (nic_free i n) = in_use n - {i}"
proof -
  have buf: "buffer_at (SockBuf i) p = n_buffers n ! i" using n by (simp add: buffer_at_def)
  have b: "frame_ok (b_data (n_buffers n ! i))" "b_size (n_buffers n ! i) \<le> MTU"
    using pool_buffer [OF n(2) in_use_bound [OF n(3)]] by simp_all
  let ?e = "(pr_shm_eng p)\<lparr>sp_ring := snd (en_bus E
      (take (HEADER_SIZE + b_size (n_buffers n ! i)) (b_data (n_buffers n ! i)))
      GATEWAY_WRITER DELIVER_TO_COMPONENTS (sp_ring (pr_shm_eng p)))\<rparr>"
  obtain m where m: "forward_to_bus E (n_buffers n ! i) p = p\<lparr>pr_shm := m, pr_shm_eng := ?e\<rparr>"
    "pool_ok m" "in_use m = in_use (pr_shm p)"
    using forward_to_bus_result [OF shm b gw(1,2), of E] by blast
  have "protocol_update E h upd (SockBuf i) p = free_buffer (SockBuf i) (p\<lparr>pr_shm := m, pr_shm_eng := ?e\<rparr>)"
    using pkt no_targets [OF none] by (simp add: protocol_update_def buf Let_def m(1) notify_free_none)
  also have "\<dots> = p\<lparr>pr_shm := m, pr_shm_eng := ?e, pr_sock := Some (nic_free i n)\<rparr>"
    using gw(3) n(1) by (simp add: free_buffer_def)
  finally show ?thesis using m(2,3) nic_free_ok(2) [OF n(2,3)] by blast
qed

text \<open>A data frame from the network goes onto the vehicle's bus once, byte for byte, written
  by the gateway and meant for the components; both buffer pools end as they were but for
  the received buffer, which is freed when no local observer listens.\<close>

theorem network_frame_reaches_bus:
  fixes E :: "('g, 'n, 'r, 'x) env" and p :: "('o, 'g, 'n, 'r, 'x) proto"
  assumes shm: "pool_ok (pr_shm p)" "in_use (pr_shm p) \<noteq> {..<BUFFER_SIZE}" "\<not> n_spatial (pr_shm p)"
    and gw: "sp_attached (pr_shm_eng p)" "sp_slot (pr_shm_eng p) = unat GATEWAY_SLOT" "pr_instance p"
    and n: "pr_sock p = Some n" "pool_ok n" "i \<in> in_use n"
    and pkt: "HEADER_LEN \<le> b_size (n_buffers n ! i)" "kind_of_byte (hdr_kind (payload (b_data (n_buffers n ! i)))) = None"
    and none: "\<not> has_observer (hdr_dst_port (payload (b_data (n_buffers n ! i)))) (pr_observed p)"
  shows "\<exists>m. protocol_update E h upd (SockBuf i) p
      = p\<lparr>pr_shm := m,
          pr_shm_eng := (pr_shm_eng p)\<lparr>sp_ring := snd (en_bus E
             (take (HEADER_SIZE + b_size (n_buffers n ! i)) (b_data (n_buffers n ! i)))
             GATEWAY_WRITER DELIVER_TO_COMPONENTS (sp_ring (pr_shm_eng p)))\<rparr>,
          pr_sock := Some (nic_free i n)\<rparr>
      \<and> pool_ok m \<and> in_use m = in_use (pr_shm p) \<and> in_use (nic_free i n) = in_use n - {i}"
  by (rule network_frame_result [OF assms])

lemma memcpy_payload:
  "frame_ok f \<Longrightarrow> length d \<le> MTU \<Longrightarrow> memcpy_at HEADER_SIZE d f = set_payload (memcpy_at 0 d (payload f)) f"
  by (simp add: memcpy_at_def set_payload_def payload_def frame_ok_def frame_consts add.commute)

lemma take_set_quadrant:
  "take k (set_quadrant q p) = set_quadrant q (take k p)"
  by (simp add: set_quadrant_def take_update_swap)

lemma drop_header_set_payload:
  "frame_ok f \<Longrightarrow> drop HEADER_SIZE (take (HEADER_SIZE + k) (set_payload p f)) = take k p"
  by (simp add: set_payload_def frame_ok_def frame_consts take_append)

lemma take_header_fields:
  "frame_dst (take (HEADER_SIZE + k) f) = frame_dst f" "frame_src (take (HEADER_SIZE + k) f) = frame_src f"
  "frame_type (take (HEADER_SIZE + k) f) = frame_type f"
  by (simp_all add: frame_dst_def frame_src_def frame_type_def slice_def frame_consts min_def take_drop)

lemma bus_broadcast_result:
  fixes E :: "('g, 'n, 'r, 'x) env" and p :: "('o, 'g, 'n, 'r, 'x) proto"
  assumes ok: "sock_ok p" "pr_instance p" "pool_ok (pr_shm p)" "i \<in> in_use (pr_shm p)"
    and n: "pr_sock p = Some n" "in_use n \<noteq> {..<BUFFER_SIZE}" "n_spatial n"
    and buf: "b_data (n_buffers (pr_shm p) ! i) = f" "b_size (n_buffers (pr_shm p) ! i) = sz" "HEADER_LEN \<le> sz"
    and own: "frame_src f = a_paddr (pr_address p)" "frame_dst f = BROADCAST"
    and none: "\<not> has_observer (hdr_dst_port (payload f)) (pr_observed p)"
    and gps: "en_gps E (r_gps (pr_raw p)) = (q, g)"
  shows "\<exists>bytes net p' r. protocol_update E (on_quadrant_change d E) upd (ShmBuf i) p = p'
     \<and> raw_send (en_sendto E) bytes ((pr_raw p')\<lparr>r_net := net\<rparr>) = (r, pr_raw p')
     \<and> (q = n_last_quadrant n \<longrightarrow> net = r_net (pr_raw p))
     \<and> length bytes = HEADER_SIZE + sz
     \<and> frame_dst bytes = BROADCAST \<and> frame_src bytes = n_address n \<and> frame_type bytes = PROTO
     \<and> drop HEADER_SIZE bytes = take sz (set_quadrant q (payload f))
     \<and> in_use (pr_shm p') = in_use (pr_shm p) - {i}
     \<and> (\<exists>n'. pr_sock p' = Some n' \<and> pool_ok n' \<and> in_use n' = in_use n)"
proof -
  have pool: "pool_ok n" using ok(1) n(1) by (simp add: sock_ok_def)
  have b: "frame_ok f" "sz \<le> MTU" using pool_buffer [OF ok(3) in_use_bound [OF ok(4)]] buf by simp_all
  obtain a n1 where al: "nic_alloc BROADCAST PROTO sz n = (a, n1)" by (cases "nic_alloc BROADCAST PROTO sz n")
  note full = nic_alloc_full [OF pool mac_ok_consts(1) al]
  have "a \<noteq> None" using full b(2) n(2) by auto
  then obtain j where j: "a = Some j" by auto
  have f: "pool_ok n1" "j \<notin> in_use n" "in_use n1 = insert j (in_use n)" "b_size (n_buffers n1 ! j) = sz"
    "frame_dst (b_data (n_buffers n1 ! j)) = BROADCAST" "frame_src (b_data (n_buffers n1 ! j)) = n_address n"
    "frame_type (b_data (n_buffers n1 ! j)) = PROTO"
    using full j by auto
  have keep: "n_address n1 = n_address n" "n_spatial n1 = n_spatial n \<and> n_observers n1 = n_observers n"
    "\<forall>k \<in> in_use n. n_buffers n1 ! k = n_buffers n ! k"
    using nic_alloc_keeps [OF pool mac_ok_consts(1) al] by blast+
  have last: "n_last_quadrant n1 = n_last_quadrant n"
    using al by (auto simp: nic_alloc_def alloc_buf_def split: if_splits list.splits)
  have jb: "j < BUFFER_SIZE" using nic_alloc_pool(3) [OF pool mac_ok_consts(1) al j] by blast
  have len1: "j < length (n_buffers n1)" using f(1) jb by (simp add: pool_ok_def)
  have fr1: "frame_ok (b_data (n_buffers n1 ! j))" using pool_buffer [OF f(1) jb] by simp
  let ?data = "take sz (payload f)"
  have ld: "length ?data = sz" "sz \<le> MTU" using b by simp_all
  let ?g = "\<lambda>x. x\<lparr>b_data := memcpy_at HEADER_SIZE ?data (b_data x)\<rparr>"
  let ?n2 = "upd_buffer j ?g n1"
  have n2: "pool_ok ?n2" using f(1) jb
    by (rule pool_ok_upd) (use ld in \<open>simp add: memcpy_payload_ok\<close>)
  let ?p2 = "p\<lparr>pr_sock := Some ?n2\<rparr>"
  have st1: "net_step (insert j) p ?p2"
    using n(1) n2 f(3) keep upd_others [OF f(2) keep(3)] by (simp add: net_step_def same_bus_def sock_step_def)
  obtain r p3 where sd: "sock_send E (on_quadrant_change d E) j ?p2 = (r, p3)"
    by (cases "sock_send E (on_quadrant_change d E) j ?p2")
  have j2: "j \<in> in_use ?n2" using f(3) by simp
  have gps2: "en_gps E (r_gps (pr_raw ?p2)) = (q, g)" using gps by simp
  have sock2: "pr_sock ?p2 = Some ?n2" by simp
  note full_send = on_change.sock_send_full [OF sock2 n2 j2 sd gps2]
  define bytes where "bytes = sent_frame q ?n2 j"
  have st: "net_step (\<lambda>s. insert j s - {j}) p p3"
    by (rule net_step_trans [OF st1 full_send(1)]) blast
  obtain net where net: "raw_send (en_sendto E) bytes ((pr_raw p3)\<lparr>r_net := net\<rparr>) = (r, pr_raw p3)"
    "\<not> fst (detect_quadrant_change q ?n2) \<longrightarrow> net = r_net (pr_raw ?p2)"
    using full_send(2) unfolding bytes_def by blast
  have same: "q = n_last_quadrant n \<longrightarrow> net = r_net (pr_raw p)"
    using net(2) last by (auto simp: detect_quadrant_change_def Let_def)
  let ?old = "b_data (n_buffers n1 ! j)"
  let ?new = "memcpy_at HEADER_SIZE ?data ?old"
  have new: "frame_ok ?new" using memcpy_payload_ok [OF fr1] ld by simp
  have bytes: "bytes = take (HEADER_SIZE + sz) (set_payload (set_quadrant q (payload ?new)) ?new)"
    using len1 f(4) keep(2) n(3) by (simp add: bytes_def sent_frame_def upd_buffer_def)
  have qlen: "length (set_quadrant q (payload ?new)) = MTU" using new by simp
  have new_eq: "?new = set_payload (memcpy_at 0 ?data (payload ?old)) ?old"
    by (rule memcpy_payload [OF fr1]) (use ld in simp)
  have fld: "frame_dst (set_payload (set_quadrant q (payload ?new)) ?new) = BROADCAST"
    "frame_src (set_payload (set_quadrant q (payload ?new)) ?new) = n_address n"
    "frame_type (set_payload (set_quadrant q (payload ?new)) ?new) = PROTO"
    using frame_dst_set(4) [OF new] frame_src_set(4) [OF new] frame_type_set(3) [OF new]
      frame_dst_set(4) [OF fr1] frame_src_set(4) [OF fr1] frame_type_set(3) [OF fr1] f(5-7)
    by (metis new_eq)+
  have pn: "take sz (payload ?new) = ?data"
    using take_memcpy_0 [of ?data "payload ?old"] ld fr1 by (simp add: new_eq)
  have "drop HEADER_SIZE bytes = take sz (set_quadrant q (payload ?new))"
    unfolding bytes by (rule drop_header_set_payload [OF new])
  then have pl: "drop HEADER_SIZE bytes = take sz (set_quadrant q (payload f))"
    using pn by (simp add: take_set_quadrant)
  have blen: "length bytes = HEADER_SIZE + sz"
    using new qlen ld(2) by (simp add: bytes set_payload_def memcpy_at_def frame_ok_def frame_consts)
  have b3: "pr_shm p3 = pr_shm p" "pr_observed p3 = pr_observed p" "pr_instance p3"
    using st ok(2) by (simp_all add: net_step_def same_bus_def)
  have "protocol_update E (on_quadrant_change d E) upd (ShmBuf i) p = free_buffer (ShmBuf i) p3"
    using buf own n(1) al j sd no_targets [OF none] b3(2)
    by (simp add: protocol_update_def buffer_at_def forward_to_socket_def notify_free_none Let_def)
  then have upd: "protocol_update E (on_quadrant_change d E) upd (ShmBuf i) p = p3\<lparr>pr_shm := nic_free i (pr_shm p)\<rparr>"
    using b3 by (simp add: free_buffer_def)
  have flds: "frame_dst bytes = BROADCAST" "frame_src bytes = n_address n" "frame_type bytes = PROTO"
    using fld by (simp_all only: bytes take_header_fields)
  have sock3: "\<exists>n'. pr_sock p3 = Some n' \<and> pool_ok n' \<and> in_use n' = in_use n"
    using st n(1) f(2) by (auto simp: net_step_def sock_step_def split: option.splits)
  show ?thesis
    unfolding upd
    using net(1) same blen flds pl nic_free_ok(2) [OF ok(3,4)] sock3
    by (intro exI [of _ bytes] exI [of _ net] exI [of _ "p3\<lparr>pr_shm := nic_free i (pr_shm p)\<rparr>"] exI [of _ r]) simp
qed

text \<open>C12. What a component broadcasts leaves the vehicle with the gateway's MAC as source, the
  broadcast address as destination, the protocol's EtherType and the packet unchanged but
  for the quadrant byte, which holds the GPS reading of the moment (when the quadrant just
  changed, a synchronisation request may go out before it).\<close>

theorem bus_broadcast_reaches_network:
  fixes E :: "('g, 'n, 'r, 'x) env" and p :: "('o, 'g, 'n, 'r, 'x) proto"
  assumes ok: "sock_ok p" "pr_instance p" "pool_ok (pr_shm p)" "i \<in> in_use (pr_shm p)"
    and n: "pr_sock p = Some n" "in_use n \<noteq> {..<BUFFER_SIZE}" "n_spatial n"
    and buf: "b_data (n_buffers (pr_shm p) ! i) = f" "b_size (n_buffers (pr_shm p) ! i) = sz" "HEADER_LEN \<le> sz"
    and own: "frame_src f = a_paddr (pr_address p)" "frame_dst f = BROADCAST"
    and none: "\<not> has_observer (hdr_dst_port (payload f)) (pr_observed p)"
    and gps: "en_gps E (r_gps (pr_raw p)) = (q, g)"
  shows "\<exists>bytes net p' r. protocol_update E (on_quadrant_change d E) upd (ShmBuf i) p = p'
     \<and> raw_send (en_sendto E) bytes ((pr_raw p')\<lparr>r_net := net\<rparr>) = (r, pr_raw p')
     \<and> (q = n_last_quadrant n \<longrightarrow> net = r_net (pr_raw p))
     \<and> length bytes = HEADER_SIZE + sz
     \<and> frame_dst bytes = BROADCAST \<and> frame_src bytes = n_address n \<and> frame_type bytes = PROTO
     \<and> drop HEADER_SIZE bytes = take sz (set_quadrant q (payload f))
     \<and> in_use (pr_shm p') = in_use (pr_shm p) - {i}
     \<and> (\<exists>n'. pr_sock p' = Some n' \<and> pool_ok n' \<and> in_use n' = in_use n)"
  by (rule bus_broadcast_result [OF assms])


subsection \<open>A gateway with one received frame\<close>

definition held_nic :: "mac \<Rightarrow> frame \<Rightarrow> nat \<Rightarrow> unit nic" where
  "held_nic mac f sz =
     (setup_quadrant (blank_nic mac))\<lparr>
       n_buffers := blank_buffers[0 := \<lparr>b_data = f, b_size = sz\<rparr>],
       n_free := [1..<BUFFER_SIZE]\<rparr>"

definition bus_nic :: "frame \<Rightarrow> nat \<Rightarrow> unit nic" where
  "bus_nic f sz = (held_nic INTERNAL f sz)\<lparr>n_spatial := False\<rparr>"

lemma held_nic_ok:
  assumes "mac_ok mac" and "sz \<le> MTU" and fr: "frame_ok f"
  shows "pool_ok (held_nic mac f sz)" "in_use (held_nic mac f sz) = {0}" "n_spatial (held_nic mac f sz)"
    "n_buffers (held_nic mac f sz) ! 0 = \<lparr>b_data = f, b_size = sz\<rparr>"
    "n_address (held_nic mac f sz) = mac"
proof -
  have len: "length blank_buffers = BUFFER_SIZE" by (simp add: blank_buffers_def)
  have bl: "\<forall>b \<in> set blank_buffers. frame_ok (b_data b) \<and> b_size b \<le> MTU"
    by (simp add: blank_buffers_def frame_ok_def)
  have "\<forall>b \<in> set (blank_buffers[0 := \<lparr>b_data = f, b_size = sz\<rparr>]).
      frame_ok (b_data b) \<and> b_size b \<le> MTU"
    using bl fr assms(2) by (auto dest!: set_update_subset_insert [THEN subsetD])
  then show "pool_ok (held_nic mac f sz)"
    using assms(1) len by (auto simp: held_nic_def pool_ok_def setup_quadrant_def blank_nic_def nic_init_def)
  show "in_use (held_nic mac f sz) = {0}"
    by (auto simp: held_nic_def in_use_def buffer_consts)
  show "n_spatial (held_nic mac f sz)" "n_address (held_nic mac f sz) = mac"
    by (simp_all add: held_nic_def setup_quadrant_def blank_nic_def nic_init_def)
  show "n_buffers (held_nic mac f sz) ! 0 = \<lparr>b_data = f, b_size = sz\<rparr>"
    using len by (simp add: held_nic_def buffer_consts)
qed

lemma bus_nic_ok:
  assumes "sz \<le> MTU" and "frame_ok f"
  shows "pool_ok (bus_nic f sz)" "in_use (bus_nic f sz) = {0}" "\<not> n_spatial (bus_nic f sz)"
    "n_buffers (bus_nic f sz) ! 0 = \<lparr>b_data = f, b_size = sz\<rparr>"
  using held_nic_ok [OF mac_ok_consts(2) assms]
  by (simp_all add: bus_nic_def pool_ok_def in_use_def)

definition demo_env :: "(nat, u8 list list, (u8 list \<times> u16 \<times> u16) list, nat) env" where
  "demo_env = \<lparr>en_sendto = (\<lambda>bs net. (int (length bs), net @ [bs])), en_gps = (\<lambda>g. (2, g)),
     en_bus = (\<lambda>bs wr fl r. (int (length bs), r @ [(bs, wr, fl)])), en_now = (\<lambda>x. (int x, x + 1)),
     en_clocks = (\<lambda>x. (demo_clocks, x)), en_settime = (\<lambda>_ x. x), en_presence = (\<lambda>_ x. x)\<rparr>"

definition demo_mac :: mac where "demo_mac = [2, 0, 0, 0, 0, 1]"

definition demo_gateway ::
  "unit nic \<Rightarrow> unit nic \<Rightarrow> (nat, nat, u8 list list, (u8 list \<times> u16 \<times> u16) list, nat) proto" where
  "demo_gateway shm sock =
     \<lparr>pr_instance = True, pr_shm = shm, pr_shm_eng = \<lparr>sp_attached = True, sp_slot = 0, sp_ring = []\<rparr>,
      pr_sock = Some sock, pr_raw = \<lparr>r_sockfd = 3, r_ifindex = 2, r_gps = 0, r_net = []\<rparr>,
      pr_address = \<lparr>a_paddr = INTERNAL, a_port = 0\<rparr>, pr_observed = [],
      pr_sptp = Some (sptp_init null_address True None), pr_presence = False, pr_env = 0\<rparr>"

text \<open>A frame of kind \<open>k\<close> from another station, to port 257.\<close>

definition demo_frame :: "u8 \<Rightarrow> mac \<Rightarrow> frame" where
  "demo_frame k src = BROADCAST @ src @ [0x88, 0x88] @ replicate 8 0 @ [0, 0, 1, 1, 2, k]
     @ [7, 7, 7, 7, 7, 7] @ replicate 1480 0"

lemma demo_frame_fields:
  assumes "length src = 6"
  shows "frame_ok (demo_frame k src)" "frame_dst (demo_frame k src) = BROADCAST"
    "frame_src (demo_frame k src) = src"
    "hdr_kind (payload (demo_frame k src)) = k" "hdr_dst_port (payload (demo_frame k src)) = 257"
proof -
  obtain a b c d e f where src: "src = [a, b, c, d, e, f]"
    using assms by (auto simp: length_Suc_conv eval_nat_numeral)
  show "frame_ok (demo_frame k src)" by (simp add: demo_frame_def frame_ok_def src BROADCAST_def frame_consts)
  show "frame_dst (demo_frame k src) = BROADCAST" "frame_src (demo_frame k src) = src"
    by (simp_all add: demo_frame_def frame_dst_def frame_src_def slice_def src BROADCAST_def)
  show "hdr_kind (payload (demo_frame k src)) = k" "hdr_dst_port (payload (demo_frame k src)) = 257"
    by (simp_all add: demo_frame_def hdr_kind_def hdr_dst_port_def payload_def frame_consts slice_def src
        BROADCAST_def le_word_def nth_append)
qed

definition other_mac :: mac where "other_mac = [2, 0, 0, 0, 0, 9]"

lemma macs: "length other_mac = 6" "mac_ok demo_mac" "other_mac \<noteq> INTERNAL" "mac_ok other_mac"
  by (simp_all add: other_mac_def demo_mac_def mac_ok_def INTERNAL_def)

lemma sptp_stays_on_network_witness:
  "\<exists>p' n'. protocol_update demo_env (on_quadrant_change 2 demo_env) (\<lambda>_ _ _ p. p) (SockBuf 0)
        (demo_gateway (blank_nic INTERNAL) (held_nic demo_mac (demo_frame 2 other_mac) 26)) = p'
     \<and> sp_ring (pr_shm_eng p') = [] \<and> pr_sock p' = Some n' \<and> in_use n' = {}"
proof -
  let ?n = "held_nic demo_mac (demo_frame 2 other_mac) 26"
  let ?p = "demo_gateway (blank_nic INTERNAL) ?n"
  have nic: "pool_ok ?n" "in_use ?n = {0}" "b_size (n_buffers ?n ! 0) = 26"
    "b_data (n_buffers ?n ! 0) = demo_frame 2 other_mac"
    using held_nic_ok [OF macs(2), of 26 "demo_frame 2 other_mac"] demo_frame_fields(1) [OF macs(1), of 2] by (simp_all add: frame_consts)
  have "\<exists>p' n'. protocol_update demo_env (on_quadrant_change 2 demo_env) (\<lambda>_ _ _ p. p) (SockBuf 0) ?p = p'
     \<and> pr_shm p' = pr_shm ?p \<and> pr_shm_eng p' = pr_shm_eng ?p \<and> pr_observed p' = pr_observed ?p
     \<and> pr_sock p' = Some n' \<and> pool_ok n' \<and> in_use n' = in_use ?n - {0}
     \<and> (\<forall>j \<in> in_use n'. n_buffers n' ! j = n_buffers ?n ! j)"
    by (rule sptp_stays_on_network [where k = SPTP_REQUEST_SYNC])
       (use nic macs in \<open>simp_all add: demo_gateway_def sock_ok_def header_consts demo_frame_fields kind_of_byte_def\<close>)
  then show ?thesis using nic(2) by (simp add: demo_gateway_def) metis
qed

lemma network_frame_reaches_bus_witness:
  "sp_ring (pr_shm_eng (protocol_update demo_env (\<lambda>p. p) (\<lambda>_ _ _ p. p) (SockBuf 0)
        (demo_gateway (blank_nic INTERNAL) (held_nic demo_mac (demo_frame 0 other_mac) 26))))
     = [(take 40 (demo_frame 0 other_mac), GATEWAY_WRITER, DELIVER_TO_COMPONENTS)]"
proof -
  let ?n = "held_nic demo_mac (demo_frame 0 other_mac) 26"
  let ?p = "demo_gateway (blank_nic INTERNAL) ?n"
  have nic: "pool_ok ?n" "0 \<in> in_use ?n" "b_size (n_buffers ?n ! 0) = 26"
    "b_data (n_buffers ?n ! 0) = demo_frame 0 other_mac"
    using held_nic_ok [OF macs(2), of 26 "demo_frame 0 other_mac"] demo_frame_fields(1) [OF macs(1), of 0] by (simp_all add: frame_consts)
  have shm: "pool_ok (blank_nic INTERNAL :: unit nic)" "in_use (blank_nic INTERNAL :: unit nic) \<noteq> {..<BUFFER_SIZE}"
    "\<not> n_spatial (blank_nic INTERNAL :: unit nic)"
  proof -
    have "(0::nat) \<in> {..<BUFFER_SIZE}" by (simp add: buffer_consts)
    then show "in_use (blank_nic INTERNAL :: unit nic) \<noteq> {..<BUFFER_SIZE}" using pool_ok_blank(2) [of INTERNAL] by blast
    show "pool_ok (blank_nic INTERNAL :: unit nic)" by (rule pool_ok_blank(1)) simp
  qed (simp add: blank_nic_def nic_init_def)
  obtain m where m: "protocol_update demo_env (\<lambda>p. p) (\<lambda>_ _ _ p. p) (SockBuf 0) ?p
      = ?p\<lparr>pr_shm := m,
          pr_shm_eng := (pr_shm_eng ?p)\<lparr>sp_ring := snd (en_bus demo_env
             (take (HEADER_SIZE + b_size (n_buffers ?n ! 0)) (b_data (n_buffers ?n ! 0)))
             GATEWAY_WRITER DELIVER_TO_COMPONENTS (sp_ring (pr_shm_eng ?p)))\<rparr>,
          pr_sock := Some (nic_free 0 ?n)\<rparr>"
    using network_frame_reaches_bus [of ?p ?n 0 demo_env "\<lambda>p. p" "\<lambda>_ _ _ p. p"] nic shm macs
    by (auto simp: demo_gateway_def GATEWAY_SLOT_def header_consts demo_frame_fields kind_of_byte_def)
  show ?thesis unfolding m by (simp add: demo_env_def demo_gateway_def nic frame_consts)
qed

lemma bus_broadcast_reaches_network_witness:
  "\<exists>bytes. frame_src bytes = demo_mac \<and> frame_dst bytes = BROADCAST
     \<and> drop HEADER_SIZE bytes = take 26 (set_quadrant 2 (payload (demo_frame 0 INTERNAL)))
     \<and> in_use (pr_shm (protocol_update demo_env (on_quadrant_change 2 demo_env) (\<lambda>_ _ _ p. p) (ShmBuf 0)
        (demo_gateway (bus_nic (demo_frame 0 INTERNAL) 26) (setup_quadrant (blank_nic demo_mac))))) = {}"
proof -
  let ?s = "bus_nic (demo_frame 0 INTERNAL) 26" and ?n = "setup_quadrant (blank_nic demo_mac) :: unit nic"
  let ?p = "demo_gateway ?s ?n"
  let ?f = "demo_frame 0 INTERNAL"
  have il: "length INTERNAL = 6" by (simp add: INTERNAL_def)
  have s: "pool_ok ?s" "in_use ?s = {0}" "b_size (n_buffers ?s ! 0) = 26" "b_data (n_buffers ?s ! 0) = ?f"
    using bus_nic_ok [of 26 "demo_frame 0 INTERNAL"] demo_frame_fields(1) [OF il, of 0] by (simp_all add: frame_consts)
  have n: "pool_ok ?n" "in_use ?n \<noteq> {..<BUFFER_SIZE}" "n_spatial ?n" "n_address ?n = demo_mac"
    using pool_ok_blank(1) [OF macs(2)] pool_ok_blank(2) [of demo_mac] by (auto simp: setup_quadrant_def pool_ok_def in_use_def buffer_consts
        blank_nic_def nic_init_def fold_Cons)
  have "\<exists>bytes net p' r. protocol_update demo_env (on_quadrant_change 2 demo_env) (\<lambda>_ _ _ p. p) (ShmBuf 0) ?p = p'
     \<and> raw_send (en_sendto demo_env) bytes ((pr_raw p')\<lparr>r_net := net\<rparr>) = (r, pr_raw p')
     \<and> (2 = n_last_quadrant ?n \<longrightarrow> net = r_net (pr_raw ?p))
     \<and> length bytes = HEADER_SIZE + 26
     \<and> frame_dst bytes = BROADCAST \<and> frame_src bytes = n_address ?n \<and> frame_type bytes = PROTO
     \<and> drop HEADER_SIZE bytes = take 26 (set_quadrant 2 (payload ?f))
     \<and> in_use (pr_shm p') = in_use (pr_shm ?p) - {0}
     \<and> (\<exists>n'. pr_sock p' = Some n' \<and> pool_ok n' \<and> in_use n' = in_use ?n)"
    by (rule bus_broadcast_reaches_network [where g = 0])
       (use s n in \<open>simp_all add: demo_gateway_def sock_ok_def header_consts demo_frame_fields il demo_env_def\<close>)
  moreover have "in_use (pr_shm ?p) - {0} = {}" using s(2) by (simp add: demo_gateway_def)
  ultimately show ?thesis using n(4) by metis
qed

subsection \<open>From send to receive\<close>

lemma header_of_prefix:
  assumes "take (HEADER_LEN + k) p = take (HEADER_LEN + k) p'"
  shows "hdr_timestamp p = hdr_timestamp p'" "hdr_src_port p = hdr_src_port p'" "hdr_dst_port p = hdr_dst_port p'"
    "hdr_quadrant p = hdr_quadrant p'" "hdr_kind p = hdr_kind p'" "take k (pkt_data p) = take k (pkt_data p')"
proof -
  have cut: "slice a n (take (HEADER_LEN + k) x) = slice a n x" if "a + n \<le> HEADER_LEN + k" for a n and x :: "u8 list"
    using that by (simp add: slice_def drop_take min_def)
  have sl: "slice a n p = slice a n p'" if "a + n \<le> HEADER_LEN + k" for a n
    using cut [OF that, of p] cut [OF that, of p'] assms by simp
  have at: "p ! j = p' ! j" if "j < HEADER_LEN + k" for j
    using assms that by (metis nth_take)
  show "hdr_timestamp p = hdr_timestamp p'" "hdr_src_port p = hdr_src_port p'" "hdr_dst_port p = hdr_dst_port p'"
    "hdr_quadrant p = hdr_quadrant p'" "hdr_kind p = hdr_kind p'"
    using sl [of 0 8] sl [of 8 2] sl [of 10 2] at [of 12] at [of 13] by (simp_all add: hdr_defs header_consts)
  show "take k (pkt_data p) = take k (pkt_data p')"
    using sl [of DATA_OFF k] by (simp add: pkt_data_def slice_def header_consts)
qed

lemma set_payload_fields:
  assumes "frame_ok f" and "length p = MTU"
  shows "frame_dst (set_payload p f) = frame_dst f" "frame_src (set_payload p f) = frame_src f"
    "frame_type (set_payload p f) = frame_type f" "payload (set_payload p f) = p" "frame_ok (set_payload p f)"
  using assms by (simp_all add: byte_simps)

lemma send_via_bus_result:
  fixes E :: "('g, 'n, 'r, 'x) env" and p :: "('o, 'g, 'n, 'r, 'x) proto" and data :: "u8 list"
  assumes shm: "pool_ok (pr_shm p)" "in_use (pr_shm p) \<noteq> {..<BUFFER_SIZE}" "\<not> n_spatial (pr_shm p)"
    and dst: "mac_ok (a_paddr dst)" and len: "HEADER_LEN + length data \<le> MTU"
    and eng: "sp_attached (pr_shm_eng p)" "sp_slot (pr_shm_eng p) \<noteq> unat GATEWAY_SLOT"
    and now: "en_now E (pr_env p) = (now, x)"
  shows "\<exists>i m bytes. i \<notin> in_use (pr_shm p) \<and> i < BUFFER_SIZE \<and> length bytes = HEADER_SIZE + HEADER_LEN + length data
     \<and> frame_dst bytes = a_paddr dst \<and> frame_src bytes = n_address (pr_shm p) \<and> frame_type bytes = PROTO
     \<and> drop HEADER_SIZE bytes = take (HEADER_LEN + length data)
          (fill_packet (a_port src) (a_port dst) kind data (if ts \<noteq> 0 then ts else now)
             (payload (b_data (n_buffers (pr_shm p) ! i))))
     \<and> send_via_bus E src dst data ts kind p
        = (fst (en_bus E bytes (word_of_nat (sp_slot (pr_shm_eng p)))
                  (DELIVER_TO_COMPONENTS OR DELIVER_TO_GATEWAY) (sp_ring (pr_shm_eng p))),
           now, p\<lparr>pr_shm := m, pr_env := x, pr_shm_eng := (pr_shm_eng p)\<lparr>sp_ring :=
             snd (en_bus E bytes (word_of_nat (sp_slot (pr_shm_eng p)))
                  (DELIVER_TO_COMPONENTS OR DELIVER_TO_GATEWAY) (sp_ring (pr_shm_eng p)))\<rparr>\<rparr>)
     \<and> pool_ok m \<and> in_use m = in_use (pr_shm p)"
proof -
  obtain r n1 where al: "nic_alloc (a_paddr dst) PROTO (HEADER_LEN + length data) (pr_shm p) = (r, n1)"
    by (cases "nic_alloc (a_paddr dst) PROTO (HEADER_LEN + length data) (pr_shm p)")
  note full = nic_alloc_full [OF shm(1) dst al]
  have "r \<noteq> None" using full len shm(2) by auto
  then obtain i where i: "r = Some i" by auto
  have f: "pool_ok n1" "i \<notin> in_use (pr_shm p)" "in_use n1 = insert i (in_use (pr_shm p))"
    "b_size (n_buffers n1 ! i) = HEADER_LEN + length data"
    "frame_dst (b_data (n_buffers n1 ! i)) = a_paddr dst"
    "frame_src (b_data (n_buffers n1 ! i)) = n_address (pr_shm p)"
    "frame_type (b_data (n_buffers n1 ! i)) = PROTO"
    "payload (b_data (n_buffers n1 ! i)) = payload (b_data (n_buffers (pr_shm p) ! i))"
    using full i by auto
  have ib: "i < BUFFER_SIZE" using nic_alloc_pool(3) [OF shm(1) dst al i] by blast
  have len1: "i < length (n_buffers n1)" using f(1) ib by (simp add: pool_ok_def)
  have fr1: "frame_ok (b_data (n_buffers n1 ! i))" using pool_buffer [OF f(1) ib] by simp
  define stamp where "stamp = (if ts \<noteq> 0 then ts else now)"
  define pkt where "pkt = fill_packet (a_port src) (a_port dst) kind data stamp (payload (b_data (n_buffers (pr_shm p) ! i)))"
  have lp: "length pkt = MTU" unfolding pkt_def f(8) [symmetric]
    using fr1 len by (subst length_fill) (simp_all add: header_consts)
  define n2 where "n2 = upd_buffer i (fill_buffer src dst kind data stamp) n1"
  have n2: "pool_ok n2" "in_use n2 = insert i (in_use (pr_shm p))" "\<not> n_spatial n2"
    using filled_pool [OF f(1) ib len] f(3) nic_alloc_keeps [OF shm(1) dst al] shm(3) by (simp_all add: n2_def)
  have b2: "n_buffers n2 ! i = \<lparr>b_data = set_payload pkt (b_data (n_buffers n1 ! i)), b_size = HEADER_LEN + length data\<rparr>"
    using len1 f(4,8) by (cases "n_buffers n1 ! i") (simp add: n2_def upd_buffer_def fill_buffer_def pkt_def)
  note sp = set_payload_fields [OF fr1 lp]
  define bytes where "bytes = take (HEADER_SIZE + (HEADER_LEN + length data)) (set_payload pkt (b_data (n_buffers n1 ! i)))"
  have by1: "frame_dst bytes = a_paddr dst" "frame_src bytes = n_address (pr_shm p)" "frame_type bytes = PROTO"
    using sp f(5-7) by (simp_all only: bytes_def take_header_fields)
  have by2: "drop HEADER_SIZE bytes = take (HEADER_LEN + length data) pkt"
    unfolding bytes_def by (rule drop_header_set_payload [OF fr1])
  have by3: "length bytes = HEADER_SIZE + HEADER_LEN + length data"
    using sp(5) len by (simp add: bytes_def frame_ok_def frame_consts header_consts)
  then have ne: "bytes \<noteq> []" by (auto simp: frame_consts)
  define e where "e = (pr_shm_eng p)\<lparr>sp_ring := snd (en_bus E bytes (word_of_nat (sp_slot (pr_shm_eng p)))
      (DELIVER_TO_COMPONENTS OR DELIVER_TO_GATEWAY) (sp_ring (pr_shm_eng p)))\<rparr>"
  define bs where "bs = fst (en_bus E bytes (word_of_nat (sp_slot (pr_shm_eng p)))
      (DELIVER_TO_COMPONENTS OR DELIVER_TO_GATEWAY) (sp_ring (pr_shm_eng p)))"
  have se: "shm_send (en_bus E) bytes (pr_shm_eng p) = (bs, e)"
    unfolding bs_def e_def by (rule shm_send_component [OF eng ne])
  have i2: "i \<in> in_use n2" using n2(2) by simp
  have "bus_send E i (p\<lparr>pr_shm := n2, pr_env := x\<rparr>)
      = (bs, p\<lparr>pr_env := x, pr_shm := nic_free i (count_tx bs n2), pr_shm_eng := e\<rparr>)"
    using bus_send_result [of "p\<lparr>pr_shm := n2, pr_env := x\<rparr>" i E bs e] n2(1,3) i2 b2 se by (simp add: bytes_def)
  then have "send_via_bus E src dst data ts kind p
      = (bs, now, p\<lparr>pr_shm := nic_free i (count_tx bs n2), pr_env := x, pr_shm_eng := e\<rparr>)"
    using al i now by (simp add: send_via_bus_def Let_def stamp_def [symmetric] n2_def [symmetric])
  moreover have "pool_ok (nic_free i (count_tx bs n2))" "in_use (nic_free i (count_tx bs n2)) = in_use (pr_shm p)"
    using bus_pool_after [OF n2(1) i2, of bs] n2(2) f(2) by auto
  ultimately show ?thesis
    using f(2) ib by1 by2 by3 unfolding pkt_def stamp_def bs_def e_def by blast
qed

text \<open>A complete frame of the protocol: its fields and its data.\<close>

definition data_frame :: "u16 \<Rightarrow> u16 \<Rightarrow> packet_kind \<Rightarrow> int \<Rightarrow> u8 list \<Rightarrow> u8 list \<Rightarrow> bool" where
  "data_frame sp dp k ts data bytes \<longleftrightarrow>
     length bytes = HEADER_SIZE + HEADER_LEN + length data \<and> length bytes \<le> FRAME_SIZE \<and> frame_type bytes = PROTO
     \<and> hdr_timestamp (drop HEADER_SIZE bytes) = ts \<and> hdr_src_port (drop HEADER_SIZE bytes) = sp
     \<and> hdr_dst_port (drop HEADER_SIZE bytes) = dp \<and> hdr_kind (drop HEADER_SIZE bytes) = kind_byte k
     \<and> take (length data) (pkt_data (drop HEADER_SIZE bytes)) = data"

lemma data_frame_fill:
  assumes len: "length bytes = HEADER_SIZE + HEADER_LEN + length data" and ty: "frame_type bytes = PROTO"
    and pkt: "drop HEADER_SIZE bytes = take (HEADER_LEN + length data) (fill_packet sp dp k data ts old)"
    and old: "length old = MTU" and fit: "HEADER_LEN + length data \<le> MTU" and ts: "in_i64 ts"
  shows "data_frame sp dp k ts data bytes" "hdr_quadrant (drop HEADER_SIZE bytes) = hdr_quadrant old"
proof -
  have o: "DATA_OFF + length data \<le> length old" using old fit by (simp add: header_consts)
  have "take (HEADER_LEN + length data) (drop HEADER_SIZE bytes)
      = take (HEADER_LEN + length data) (fill_packet sp dp k data ts old)"
    using pkt by simp
  note h = header_of_prefix [OF this] fill_packet_fields [OF o ts, of sp dp k]
  show "data_frame sp dp k ts data bytes" using len ty fit h by (simp add: data_frame_def frame_consts)
  show "hdr_quadrant (drop HEADER_SIZE bytes) = hdr_quadrant old" using h by simp
qed

text \<open>Any buffer that holds the frame gives \<open>receive\<close> its fields and data.\<close>

lemma receive_of_frame:
  assumes inst: "pr_instance q" and buf: "frame_ok (b_data (buffer_at b q))"
    "take (length bytes) (b_data (buffer_at b q)) = bytes" "b_size (buffer_at b q) = length bytes - HEADER_SIZE"
    and fr: "data_frame sp dp k ts data bytes"
  shows "protocol_receive b sz q
     = ((int (min (length data) sz),
         Some (\<lparr>a_paddr = frame_src bytes, a_port = sp\<rparr>, ts, hdr_quadrant (drop HEADER_SIZE bytes), take sz data)),
        free_buffer b q)"
proof -
  let ?f = "b_data (buffer_at b q)" and ?k = "HEADER_LEN + length data" and ?P = "drop HEADER_SIZE bytes"
  have len: "length bytes = HEADER_SIZE + HEADER_LEN + length data" using fr by (simp add: data_frame_def)
  have "drop HEADER_SIZE (take (length bytes) ?f) = take ?k (payload ?f)"
    using len by (simp add: payload_def drop_take)
  then have pf: "take ?k (payload ?f) = take ?k ?P" using buf(2) len by simp
  note get = header_of_prefix [OF pf]
  have src: "frame_src ?f = frame_src bytes"
    using take_header_fields(2) [of "?k" ?f] len buf(2) by (simp add: add.assoc)
  have "take (min (length data) sz) (pkt_data (payload ?f)) = take sz data"
    using get(6) fr unfolding data_frame_def by (metis min.commute take_take)
  then show ?thesis
    using inst buf(3) len get src fr by (simp add: protocol_receive_def Let_def data_frame_def)
qed

text \<open>A gateway rewrites the quadrant byte and the Ethernet addresses, and nothing else.\<close>

lemma data_frame_forwarded:
  assumes "data_frame sp dp k ts data bytes" and "length out = length bytes" and "frame_type out = PROTO"
    and "drop HEADER_SIZE out = set_quadrant q (drop HEADER_SIZE bytes)"
  shows "data_frame sp dp k ts data out" "hdr_quadrant (drop HEADER_SIZE out) = q"
  using assms by (simp_all add: data_frame_def header_consts)

lemma bus_send_and_receive:
  fixes E :: "('g, 'n, 'r, 'x) env" and p :: "('o, 'g, 'n, 'r, 'x) proto" and data :: "u8 list"
  assumes shm: "pool_ok (pr_shm p)" "in_use (pr_shm p) \<noteq> {..<BUFFER_SIZE}" "\<not> n_spatial (pr_shm p)"
    and comp: "pr_instance p" "pr_sock p = None"
    and dst: "mac_ok (a_paddr dst)" and len: "HEADER_LEN + length data \<le> MTU"
    and eng: "sp_attached (pr_shm_eng p)" "sp_slot (pr_shm_eng p) \<noteq> unat GATEWAY_SLOT"
    and ts: "in_i64 ts" "ts \<noteq> 0"
  shows "\<exists>bytes stale i. i \<notin> in_use (pr_shm p)
     \<and> data_frame (a_port src) (a_port dst) kind ts data bytes
     \<and> frame_src bytes = n_address (pr_shm p) \<and> frame_dst bytes = a_paddr dst
     \<and> stale = hdr_quadrant (payload (b_data (n_buffers (pr_shm p) ! i)))
     \<and> hdr_quadrant (drop HEADER_SIZE bytes) = stale
     \<and> pr_shm_eng (snd (snd (protocol_send E h src dst data ts kind p)))
         = (pr_shm_eng p)\<lparr>sp_ring := snd (en_bus E bytes (word_of_nat (sp_slot (pr_shm_eng p)))
                (DELIVER_TO_COMPONENTS OR DELIVER_TO_GATEWAY) (sp_ring (pr_shm_eng p)))\<rparr>
     \<and> in_use (pr_shm (snd (snd (protocol_send E h src dst data ts kind p)))) = in_use (pr_shm p)"
proof -
  obtain now x where now: "en_now E (pr_env p) = (now, x)" by (cases "en_now E (pr_env p)")
  obtain i m bytes where i: "i \<notin> in_use (pr_shm p)" "i < BUFFER_SIZE"
    and bt: "length bytes = HEADER_SIZE + HEADER_LEN + length data" "frame_dst bytes = a_paddr dst"
      "frame_src bytes = n_address (pr_shm p)" "frame_type bytes = PROTO"
      "drop HEADER_SIZE bytes = take (HEADER_LEN + length data)
          (fill_packet (a_port src) (a_port dst) kind data ts (payload (b_data (n_buffers (pr_shm p) ! i))))"
    and sd: "send_via_bus E src dst data ts kind p
        = (fst (en_bus E bytes (word_of_nat (sp_slot (pr_shm_eng p)))
                  (DELIVER_TO_COMPONENTS OR DELIVER_TO_GATEWAY) (sp_ring (pr_shm_eng p))),
           now, p\<lparr>pr_shm := m, pr_env := x, pr_shm_eng := (pr_shm_eng p)\<lparr>sp_ring :=
             snd (en_bus E bytes (word_of_nat (sp_slot (pr_shm_eng p)))
                  (DELIVER_TO_COMPONENTS OR DELIVER_TO_GATEWAY) (sp_ring (pr_shm_eng p)))\<rparr>\<rparr>)"
    and m: "in_use m = in_use (pr_shm p)"
    using send_via_bus_result [OF shm dst len eng now, of src kind ts] ts(2) by auto
  have ps: "protocol_send E h src dst data ts kind p = send_via_bus E src dst data ts kind p"
    using comp by (simp add: protocol_send_def)
  have old: "length (payload (b_data (n_buffers (pr_shm p) ! i))) = MTU"
    using pool_buffer [OF shm(1) i(2)] by simp
  note d = data_frame_fill [OF bt(1,4,5) old len ts(1)]
  show ?thesis unfolding ps sd using i m d bt(2,3) by (intro exI [of _ bytes] exI) auto
qed

text \<open>C5. What a component sends over the bus is what a receiver in the vehicle reads: whatever
  buffer the bytes \<open>write_slot\<close> was given land in, \<open>receive\<close> returns the sender's port, the
  given timestamp and the data, cut to the reader's size, and frees the buffer. The quadrant
  it returns is not the vehicle's: it is the byte the sender's pool buffer held before, from
  whatever message used it last.\<close>

theorem bus_message_roundtrip:
  fixes E :: "('g, 'n, 'r, 'x) env" and p :: "('o, 'g, 'n, 'r, 'x) proto" and data :: "u8 list"
  assumes shm: "pool_ok (pr_shm p)" "in_use (pr_shm p) \<noteq> {..<BUFFER_SIZE}" "\<not> n_spatial (pr_shm p)"
    and comp: "pr_instance p" "pr_sock p = None"
    and dst: "mac_ok (a_paddr dst)" and len: "HEADER_LEN + length data \<le> MTU"
    and eng: "sp_attached (pr_shm_eng p)" "sp_slot (pr_shm_eng p) \<noteq> unat GATEWAY_SLOT"
    and ts: "in_i64 ts" "ts \<noteq> 0"
  shows "\<exists>bytes stale i. i \<notin> in_use (pr_shm p)
     \<and> stale = hdr_quadrant (payload (b_data (n_buffers (pr_shm p) ! i)))
     \<and> pr_shm_eng (snd (snd (protocol_send E h src dst data ts kind p)))
         = (pr_shm_eng p)\<lparr>sp_ring := snd (en_bus E bytes (word_of_nat (sp_slot (pr_shm_eng p)))
                (DELIVER_TO_COMPONENTS OR DELIVER_TO_GATEWAY) (sp_ring (pr_shm_eng p)))\<rparr>
     \<and> in_use (pr_shm (snd (snd (protocol_send E h src dst data ts kind p)))) = in_use (pr_shm p)
     \<and> (\<forall>b sz (q :: ('o, 'g, 'n, 'r, 'x) proto). pr_instance q \<and> frame_ok (b_data (buffer_at b q))
          \<and> take (length bytes) (b_data (buffer_at b q)) = bytes
          \<and> b_size (buffer_at b q) = length bytes - HEADER_SIZE \<longrightarrow>
            protocol_receive b sz q
              = ((int (min (length data) sz),
                  Some (\<lparr>a_paddr = n_address (pr_shm p), a_port = a_port src\<rparr>, ts, stale, take sz data)),
                 free_buffer b q))"
proof -
  obtain bytes stale i where b: "i \<notin> in_use (pr_shm p)" "data_frame (a_port src) (a_port dst) kind ts data bytes"
    "frame_src bytes = n_address (pr_shm p)" "stale = hdr_quadrant (payload (b_data (n_buffers (pr_shm p) ! i)))"
    "hdr_quadrant (drop HEADER_SIZE bytes) = stale"
    "pr_shm_eng (snd (snd (protocol_send E h src dst data ts kind p)))
         = (pr_shm_eng p)\<lparr>sp_ring := snd (en_bus E bytes (word_of_nat (sp_slot (pr_shm_eng p)))
                (DELIVER_TO_COMPONENTS OR DELIVER_TO_GATEWAY) (sp_ring (pr_shm_eng p)))\<rparr>"
    "in_use (pr_shm (snd (snd (protocol_send E h src dst data ts kind p)))) = in_use (pr_shm p)"
    using bus_send_and_receive [OF assms, where E = E and src = src and kind = kind and h = h] by blast
  have "protocol_receive b sz q
      = ((int (min (length data) sz),
          Some (\<lparr>a_paddr = n_address (pr_shm p), a_port = a_port src\<rparr>, ts, stale, take sz data)), free_buffer b q)"
    if "pr_instance q" "frame_ok (b_data (buffer_at b q))" "take (length bytes) (b_data (buffer_at b q)) = bytes"
      "b_size (buffer_at b q) = length bytes - HEADER_SIZE" for b sz and q :: "('o, 'g, 'n, 'r, 'x) proto"
    using receive_of_frame [OF that b(2), of sz] b(3,5) by simp
  then show ?thesis using b by (intro exI [of _ bytes] exI [of _ stale] exI [of _ i]) simp
qed

subsection \<open>What the channel leaves alone\<close>

text \<open>
  \<open>pr_env\<close> also holds what a process keeps beside its clocks. \<open>f\<close> is a part of it that reading and
  setting the clock and the presence handler do not touch; then no operation of the channel does.
\<close>

definition leaves :: "('x \<Rightarrow> 'v) \<Rightarrow> ('g, 'n, 'r, 'x) env \<Rightarrow> bool" where
  "leaves f E \<longleftrightarrow> (\<forall>y t a. f (snd (en_now E y)) = f y \<and> f (snd (en_clocks E y)) = f y
     \<and> f (en_settime E t y) = f y \<and> f (en_presence E a y) = f y)"

lemma leavesD:
  assumes "leaves f E"
  shows "en_now E y = (n, y') \<Longrightarrow> f y' = f y" "en_clocks E y = (ks, y') \<Longrightarrow> f y' = f y"
    "f (en_settime E t y) = f y" "f (en_presence E a y) = f y"
  using assms unfolding leaves_def by (metis snd_conv)+

lemma leaves_nothing: "leaves (\<lambda>_. []) E"
  by (simp add: leaves_def)

definition keeps_part :: "('x \<Rightarrow> 'v) \<Rightarrow> ('o, 'g, 'n, 'r, 'x) handler \<Rightarrow> bool" where
  "keeps_part f h \<longleftrightarrow> (\<forall>p. f (pr_env (h p)) = f (pr_env p))"

lemma nic_send_part:
  assumes put: "\<And>x w. g (put x w) = g w" and chg: "\<And>w. g (snd (chg w)) = g (snd w)"
    and st: "nic_send (lift_ops get put ops) chg i (n, e) = (r, n', e')"
  shows "g e' = g e"
proof -
  obtain q e1 where 1: "eng_current_quadrant ops (get e) = (q, e1)" by (cases "eng_current_quadrant ops (get e)")
  obtain c n2 where 2: "detect_quadrant_change q (write_quadrant q i n) = (c, n2)"
    by (cases "detect_quadrant_change q (write_quadrant q i n)")
  obtain n3 e2 where 3: "(if c \<and> n_spatial n then chg (n2, put e1 e) else (n2, put e1 e)) = (n3, e2)" by fastforce
  have g2: "g e2 = g e" using 3 chg [of "(n2, put e1 e)"] put by (auto split: if_splits)
  have "\<exists>x. e' = put x e2" using st by (auto simp: nic_send_def lift_ops_def 1 2 3 Let_def split: prod.splits)
  then show ?thesis using put g2 by auto
qed

lemma bus_send_part:
  assumes "bus_send E i p = (r, p')"
  shows "pr_env p' = pr_env p"
proof -
  obtain r' n' q where q: "nic_send (bus_ops E) (\<lambda>w. w) i (pr_shm p, p) = (r', n', q)" by (metis prod_cases3)
  have "pr_env q = pr_env p"
    by (rule nic_send_part [OF _ _ q [unfolded bus_ops_def], where g = pr_env]) simp_all
  then show ?thesis using assms q by (auto simp: bus_send_def)
qed

lemma sock_send_part:
  assumes h: "keeps_part f h" and st: "sock_send E h i p = (r, p')"
  shows "f (pr_env p') = f (pr_env p)"
proof (cases "pr_sock p")
  case None
  then show ?thesis using st by (simp add: sock_send_def)
next
  case (Some n)
  let ?c = "\<lambda>w. let p1 = h ((snd w)\<lparr>pr_sock := Some (fst w)\<rparr>)
                       in (case pr_sock p1 of Some n1 \<Rightarrow> n1 | None \<Rightarrow> fst w, p1)"
  obtain r' n' q where q: "nic_send (sock_ops E) ?c i (n, p) = (r', n', q)"
    by (cases "nic_send (sock_ops E) ?c i (n, p)" rule: prod_cases3)
  have "f (pr_env q) = f (pr_env p)"
    by (rule nic_send_part [OF _ _ q [unfolded sock_ops_def], where g = "\<lambda>p. f (pr_env p)"])
       (use h in \<open>simp_all add: keeps_part_def Let_def\<close>)
  then show ?thesis using st Some q by (auto simp: sock_send_def)
qed

lemma send_via_part:
  assumes E: "leaves f E" and h: "keeps_part f h"
  shows "send_via_socket E h src dst data ts kind p = (r, tx, p') \<Longrightarrow> f (pr_env p') = f (pr_env p)"
    and "send_via_bus E src dst data ts kind p = (r, tx, p') \<Longrightarrow> f (pr_env p') = f (pr_env p)"
proof -
  obtain now x where now: "en_now E (pr_env p) = (now, x)" by (cases "en_now E (pr_env p)")
  note x = leavesD(1) [OF E now]
  show "f (pr_env p') = f (pr_env p)" if st: "send_via_socket E h src dst data ts kind p = (r, tx, p')"
    using st now x sock_send_part [OF h, of E]
    by (auto simp: send_via_socket_def Let_def split: prod.splits option.splits)
  show "f (pr_env p') = f (pr_env p)" if st: "send_via_bus E src dst data ts kind p = (r, tx, p')"
    using st now x
    by (auto simp: send_via_bus_def Let_def dest!: bus_send_part split: prod.splits option.splits)
qed

lemma protocol_send_part:
  assumes E: "leaves f E" and h: "keeps_part f h" and st: "protocol_send E h src dst data ts kind p = (r, tx, p')"
  shows "f (pr_env p') = f (pr_env p)"
  using st send_via_part [OF E h, of src dst data ts kind p r tx p'] by (auto simp: protocol_send_def split: if_splits)

lemma sptp_send_part:
  assumes "leaves f E" "keeps_part f h" and st: "sptp_send E h src dst data ts kind w = (tx, s', p')"
  shows "f (pr_env p') = f (pr_env (snd w))"
proof -
  obtain r tx' q where q: "protocol_send E h src dst data ts kind ((snd w)\<lparr>pr_sptp := Some (fst w)\<rparr>) = (r, tx', q)"
    by (metis prod_cases3)
  then have "q = p'" using st by (simp add: sptp_send_def)
  then show ?thesis using protocol_send_part [OF assms(1,2) q] by simp
qed

lemma send_sync_request_part:
  assumes "leaves f E" "keeps_part f h" and st: "send_sync_request (sptp_send E h) early w = (s', p')"
  shows "f (pr_env p') = f (pr_env (snd w))"
proof -
  obtain s x where w: "w = (s, x)" by (cases w)
  let ?s1 = "s\<lparr>s_next_seq := s_next_seq s + 1, s_pending_t2 := early, s_pending_seq := s_next_seq s\<rparr>"
  obtain tx s2 q where q: "sptp_send E h (s_own_addr ?s1) (physical_broadcast PORT_GATEWAY)
      (enc_request (s_next_seq s)) 0 SPTP_REQUEST_SYNC (?s1, x) = (tx, s2, q)" by (metis prod_cases3)
  have "q = p'" using st q by (simp add: w send_sync_request_def Let_def)
  then show ?thesis using sptp_send_part [OF assms(1,2) q] by (simp add: w)
qed

lemma send_sync_reply_part:
  assumes "leaves f E" "keeps_part f h"
  shows "f (pr_env (snd (send_sync_reply (sptp_send E h) to q t w))) = f (pr_env (snd w))"
proof -
  obtain tx s' p' where "sptp_send E h (s_own_addr (fst w)) to (enc_sync \<lparr>sp_seq_id = q, sp_t2_prime = word_of_int t\<rparr>) 0 SPTP_SYNC w
      = (tx, s', p')" by (metis prod_cases3)
  then show ?thesis using sptp_send_part [OF assms] by (simp add: send_sync_reply_def)
qed

lemma quadrant_change_part:
  fixes E :: "('g, 'n, 'r, 'x) env"
  assumes E: "leaves f E"
  shows "keeps_part f (on_quadrant_change d E :: ('o, 'g, 'n, 'r, 'x) handler)"
proof (induction d)
  case 0
  then show ?case by (simp add: keeps_part_def)
next
  case (Suc d)
  show ?case unfolding keeps_part_def
  proof
    fix p :: "('o, 'g, 'n, 'r, 'x) proto"
    show "f (pr_env (on_quadrant_change (Suc d) E p)) = f (pr_env p)"
    proof (cases "pr_sptp p")
      case (Some s)
      obtain early x where now: "en_now E (pr_env p) = (early, x)" by (cases "en_now E (pr_env p)")
      obtain s' p' where r: "request_resync (sptp_send E (on_quadrant_change d E)) early (s, p\<lparr>pr_env := x\<rparr>) = (s', p')"
        by (cases "request_resync (sptp_send E (on_quadrant_change d E)) early (s, p\<lparr>pr_env := x\<rparr>)")
      have "f (pr_env p') = f x"
        using r send_sync_request_part [OF E Suc, of early "(s\<lparr>s_resync_requests := s_resync_requests s + 1\<rparr>, p\<lparr>pr_env := x\<rparr>)" s' p']
        by (auto simp: request_resync_def split: if_splits)
      then show ?thesis using Some now r leavesD(1) [OF E now] by (auto split: bool.split)
    qed (simp split: bool.split)
  qed
qed

lemma on_receive_part:
  fixes E :: "('g, 'n, 'r, 'x) env" and h :: "('o, 'g, 'n, 'r, 'x) handler"
  assumes E: "leaves f E" and h: "keeps_part f h"
    and st: "sptp_on_receive (sptp_send E h) (Some (\<lambda>a w. (fst w, on_presence E a (snd w)))) kind src t pl ks (s, p)
       = ((s', p'), jump)"
  shows "f (pr_env p') = f (pr_env p)"
proof -
  have pres: "f (pr_env (on_presence E a q)) = f (pr_env q)" for a and q :: "('o, 'g, 'n, 'r, 'x) proto"
    by (simp add: on_presence_def leavesD(4) [OF E])
  have rep: "f (pr_env (snd (send_sync_reply (sptp_send E h) to q t (s, p)))) = f (pr_env p)" for to q t
    using send_sync_reply_part [OF E h, of to q t "(s, p)"] by simp
  have "\<lbrakk>\<not> s_is_master s; p' \<noteq> p\<rbrakk> \<Longrightarrow> False"
    using st by (auto simp: sptp_on_receive_def split: if_splits prod.splits)
  moreover have "f (pr_env p') = f (pr_env p)" if "s_is_master s"
    using st that pres rep by (auto simp: sptp_on_receive_def Let_def split: if_splits)
  ultimately show ?thesis by blast
qed

lemma sptp_deliver_part:
  assumes E: "leaves f E" and h: "keeps_part f h"
  shows "f (pr_env (sptp_deliver E h kind b p)) = f (pr_env p)"
proof (cases "pr_sptp p")
  case (Some s)
  obtain ks x where k: "en_clocks E (pr_env p) = (ks, x)" by (cases "en_clocks E (pr_env p)")
  define buf where "buf = buffer_at b p"
  define src where "src = \<lparr>a_paddr = frame_src (b_data buf), a_port = hdr_src_port (payload (b_data buf))\<rparr>"
  define pl where "pl = take (if HEADER_LEN < b_size buf then b_size buf - HEADER_LEN else 0) (pkt_data (payload (b_data buf)))"
  obtain s' p' jump where r: "sptp_on_receive (sptp_send E h) (Some (\<lambda>a w. (fst w, on_presence E a (snd w)))) kind src
      (hdr_timestamp (payload (b_data buf))) pl ks (s, p\<lparr>pr_env := x\<rparr>) = ((s', p'), jump)"
    by (cases "sptp_on_receive (sptp_send E h) (Some (\<lambda>a w. (fst w, on_presence E a (snd w)))) kind src
      (hdr_timestamp (payload (b_data buf))) pl ks (s, p\<lparr>pr_env := x\<rparr>)") fastforce
  have "f (pr_env p') = f (pr_env p)" using on_receive_part [OF E h r] leavesD(2) [OF E k] by simp
  moreover have "sptp_deliver E h kind b p = p'\<lparr>pr_sptp := Some s',
      pr_env := (case jump of None \<Rightarrow> pr_env p' | Some t \<Rightarrow> en_settime E t (pr_env p'))\<rparr>"
    using r unfolding src_def pl_def buf_def by (simp add: sptp_deliver_def Some k Let_def)
  ultimately show ?thesis using leavesD(3) [OF E] by (simp split: option.split)
qed (simp add: sptp_deliver_def)

lemma free_buffer_part [simp]: "pr_env (free_buffer b p) = pr_env p"
  by (auto simp: free_buffer_def split: bufref.splits option.splits)

lemma forward_to_bus_part:
  fixes E :: "('g, 'n, 'r, 'x) env" and p :: "('o, 'g, 'n, 'r, 'x) proto"
  shows "pr_env (forward_to_bus E buf p) = pr_env p"
proof -
  have "pr_env (snd (bus_send E i q)) = pr_env q" for i and q :: "('o, 'g, 'n, 'r, 'x) proto"
    by (rule bus_send_part) (rule prod.collapse [symmetric])
  then show ?thesis by (simp add: forward_to_bus_def split: option.split prod.split)
qed

lemma forward_to_socket_part:
  assumes "keeps_part f h"
  shows "f (pr_env (forward_to_socket E h buf p)) = f (pr_env p)"
proof -
  have "f (pr_env (snd (sock_send E h i q))) = f (pr_env q)" for i q
    by (rule sock_send_part [OF assms]) (rule prod.collapse [symmetric])
  then show ?thesis by (simp add: forward_to_socket_def split: option.split prod.split)
qed

subsection \<open>Every buffer is accounted for\<close>

definition chan_ok :: "('o, 'g, 'n, 'r, 'x) proto \<Rightarrow> bool" where
  "chan_ok p \<longleftrightarrow> pr_instance p \<and> sock_ok p \<and> pool_ok (pr_shm p)"

definition held :: "bufref \<Rightarrow> ('o, 'g, 'n, 'r, 'x) proto \<Rightarrow> bool" where
  "held b p = (case b of ShmBuf i \<Rightarrow> i \<in> in_use (pr_shm p)
     | SockBuf i \<Rightarrow> (case pr_sock p of Some n \<Rightarrow> i \<in> in_use n | None \<Rightarrow> False))"

definition usage :: "('o, 'g, 'n, 'r, 'x) proto \<Rightarrow> nat set \<times> nat set option" where
  "usage p = (in_use (pr_shm p), map_option in_use (pr_sock p))"

definition without :: "bufref \<Rightarrow> nat set \<times> nat set option \<Rightarrow> nat set \<times> nat set option" where
  "without b u = (case b of ShmBuf i \<Rightarrow> (fst u - {i}, snd u)
     | SockBuf i \<Rightarrow> (fst u, map_option (\<lambda>s. s - {i}) (snd u)))"

text \<open>Who observes the two NICs and the protocol.\<close>

definition wiring ::
  "('o, 'g, 'n, 'r, 'x) proto \<Rightarrow> (unit, u16) observers \<times> (unit, u16) observers option \<times> ('o, u16) observers"
where
  "wiring p = (n_observers (pr_shm p), map_option n_observers (pr_sock p), pr_observed p)"

text \<open>
  What becomes of a held buffer: it is back in its pool, or the process has queued it (\<open>f\<close> is the
  queue in \<open>pr_env\<close>); nothing is rewired. An observer does one of the two.
\<close>

definition settled ::
  "('x \<Rightarrow> bufref list) \<Rightarrow> bufref \<Rightarrow> ('o, 'g, 'n, 'r, 'x) proto \<Rightarrow> ('o, 'g, 'n, 'r, 'x) proto \<Rightarrow> bool" where
  "settled f b p q \<longleftrightarrow> chan_ok q \<and> wiring q = wiring p
     \<and> (usage q = without b (usage p) \<and> f (pr_env q) = f (pr_env p)
        \<or> usage q = usage p \<and> f (pr_env q) = f (pr_env p) @ [b])"

definition takes_over ::
  "('x \<Rightarrow> bufref list) \<Rightarrow> ('o \<Rightarrow> u16 \<Rightarrow> bufref \<Rightarrow> ('o, 'g, 'n, 'r, 'x) handler) \<Rightarrow> bool" where
  "takes_over f upd \<longleftrightarrow> (\<forall>ob port b p. chan_ok p \<and> held b p \<longrightarrow> settled f b p (upd ob port b p))"

lemma free_buffer_accounts:
  assumes "chan_ok p" and "held b p"
  shows "chan_ok (free_buffer b p) \<and> usage (free_buffer b p) = without b (usage p)
    \<and> wiring (free_buffer b p) = wiring p"
  using assms
  by (cases b) (auto simp: wiring_def chan_ok_def held_def usage_def without_def free_buffer_def sock_ok_def nic_free_ok
      split: option.splits)

lemma freed_settled: "chan_ok p \<Longrightarrow> held b p \<Longrightarrow> settled f b p (free_buffer b p)"
  using free_buffer_accounts [of p b] by (simp add: settled_def)

lemma settled_from:
  "settled f b q r \<Longrightarrow> usage q = usage p \<Longrightarrow> wiring q = wiring p \<Longrightarrow> f (pr_env q) = f (pr_env p) \<Longrightarrow> settled f b p r"
  by (simp add: settled_def)

lemma receive_accounts: "takes_over f (\<lambda>ob port b p. snd (protocol_receive b sz p))"
  using freed_settled by (auto simp: takes_over_def protocol_receive_def Let_def chan_ok_def)

lemma notify_or_free_accounts:
  assumes p: "chan_ok p" "held b p" and upd: "takes_over f upd"
    and one: "length (targets_of port (pr_observed p)) \<le> 1"
  shows "settled f b p (notify_or_free upd port b p)"
proof (cases "targets_of port (pr_observed p)")
  case Nil
  then show ?thesis using freed_settled [OF p] by (simp add: notify_free_none)
next
  case (Cons ob obs)
  then have "obs = []" using one by simp
  then have "notify_or_free upd port b p = upd ob port b p"
    using Cons by (simp add: notify_or_free_def co_notify_targets)
  then show ?thesis using upd p by (auto simp: takes_over_def)
qed

lemma net_step_usage:
  assumes "net_step (\<lambda>s. s) p q" and "chan_ok p"
  shows "chan_ok q \<and> usage q = usage p \<and> wiring q = wiring p"
  using assms net_step_ok [OF assms(1)]
  by (auto simp: wiring_def chan_ok_def usage_def net_step_def same_bus_def sock_step_def split: option.splits)


lemma bus_send_accounts:
  assumes pool: "pool_ok (pr_shm p)" and i: "i \<in> in_use (pr_shm p)" and send: "bus_send E i p = (r, p')"
  shows "pool_ok (pr_shm p') \<and> in_use (pr_shm p') = in_use (pr_shm p) - {i} \<and> pr_sock p' = pr_sock p
     \<and> pr_instance p' = pr_instance p \<and> pr_observed p' = pr_observed p \<and> pr_sptp p' = pr_sptp p
     \<and> n_observers (pr_shm p') = n_observers (pr_shm p)"
proof -
  obtain r' n' q where ns: "nic_send (bus_ops E) (\<lambda>w. w) i (pr_shm p, p) = (r', n', q)" by (metis prod_cases3)
  have "pool_ok n'" "in_use n' = in_use (pr_shm p) - {i}"
    using nic_send_pool [OF pool i keeps_pool_id ns] by blast+
  moreover have "pr_sock q = pr_sock p \<and> pr_instance q = pr_instance p \<and> pr_observed q = pr_observed p
      \<and> pr_sptp q = pr_sptp p"
    using ns by (auto simp: nic_send_def bus_ops_def lift_ops_def Let_def split: prod.splits if_splits)
  moreover have "p' = q\<lparr>pr_shm := n'\<rparr>" using send ns by (simp add: bus_send_def)
  moreover have "n_observers n' = n_observers (pr_shm p)"
    using ns by (auto simp: nic_send_def Let_def detect_quadrant_change_def write_quadrant_def count_tx_def
        split: prod.splits if_splits)
  ultimately show ?thesis by simp
qed

lemma forward_to_bus_accounts:
  assumes p: "chan_ok p" and fr: "frame_ok (b_data buf)"
  shows "chan_ok (forward_to_bus E buf p) \<and> usage (forward_to_bus E buf p) = usage p
     \<and> wiring (forward_to_bus E buf p) = wiring p"
proof -
  have pool: "pool_ok (pr_shm p)" using p by (simp add: chan_ok_def)
  have dst: "mac_ok (frame_dst (b_data buf))"
    using fr by (simp add: frame_dst_def slice_def mac_ok_def frame_ok_def frame_consts)
  obtain r n1 where al: "nic_alloc (frame_dst (b_data buf)) PROTO (b_size buf) (pr_shm p) = (r, n1)"
    by (cases "nic_alloc (frame_dst (b_data buf)) PROTO (b_size buf) (pr_shm p)")
  note n1 = nic_alloc_pool [OF pool dst al]
  have ob: "n_observers n1 = n_observers (pr_shm p)" using nic_alloc_keeps [OF pool dst al] by blast
  show ?thesis
  proof (cases r)
    case None
    then show ?thesis using p al n1 ob by (simp add: forward_to_bus_def wiring_def chan_ok_def usage_def sock_ok_def)
  next
    case i: (Some i)
    let ?k = "HEADER_SIZE + b_size buf"
    let ?n2 = "upd_buffer i (\<lambda>f. f\<lparr>b_data := memcpy_at 0 (take ?k (b_data buf)) (b_data f)\<rparr>) n1"
    have i': "i \<notin> in_use (pr_shm p)" "i < BUFFER_SIZE" "b_size buf \<le> MTU" using n1(3) [OF i] by auto
    have "length (take ?k (b_data buf)) \<le> FRAME_SIZE" using fr by (simp add: frame_ok_def)
    then have n2: "pool_ok ?n2" using n1(1) i'(2) by (intro pool_ok_upd) (simp_all add: frame_ok_def)
    obtain r' q where sd: "bus_send E i (p\<lparr>pr_shm := ?n2\<rparr>) = (r', q)" by (cases "bus_send E i (p\<lparr>pr_shm := ?n2\<rparr>)")
    have "i \<in> in_use ?n2" using n1(2) i by simp
    then have "pool_ok (pr_shm q) \<and> in_use (pr_shm q) = in_use (pr_shm p) \<and> pr_sock q = pr_sock p
       \<and> pr_instance q = pr_instance p \<and> pr_observed q = pr_observed p \<and> pr_sptp q = pr_sptp p
       \<and> n_observers (pr_shm q) = n_observers (pr_shm p)"
      using bus_send_accounts [OF _ _ sd] n2 n1(2) i i'(1) ob by simp
    moreover have "forward_to_bus E buf p = q" using al i sd by (simp add: forward_to_bus_def)
    ultimately show ?thesis using p by (simp add: wiring_def chan_ok_def usage_def sock_ok_def)
  qed
qed

lemma forward_to_socket_net:
  assumes ok: "sock_ok p" and fr: "frame_ok (b_data buf)"
  shows "net_step (\<lambda>s. s) p (forward_to_socket E (on_quadrant_change d E) buf p)"
proof (cases "pr_sock p")
  case None
  then show ?thesis using net_step_refl [OF ok] by (simp add: forward_to_socket_def)
next
  case (Some n)
  then have pool: "pool_ok n" using ok by (simp add: sock_ok_def)
  have dst: "mac_ok (frame_dst (b_data buf))"
    using fr by (simp add: frame_dst_def slice_def mac_ok_def frame_ok_def frame_consts)
  obtain r n1 where al: "nic_alloc (frame_dst (b_data buf)) PROTO (b_size buf) n = (r, n1)"
    by (cases "nic_alloc (frame_dst (b_data buf)) PROTO (b_size buf) n")
  note n1 = nic_alloc_pool [OF pool dst al]
  have keep: "n_address n1 = n_address n" "n_spatial n1 = n_spatial n \<and> n_observers n1 = n_observers n"
    "\<forall>j \<in> in_use n. n_buffers n1 ! j = n_buffers n ! j"
    using nic_alloc_keeps [OF pool dst al] by blast+
  let ?cond = "frame_src (b_data buf) = a_paddr (pr_address p) \<and> frame_dst (b_data buf) = BROADCAST"
  show ?thesis
  proof (cases "?cond \<and> r \<noteq> None")
    case False
    have "net_step (\<lambda>s. s) p (p\<lparr>pr_sock := Some n1\<rparr>)" if "r = None"
      using Some n1 keep that by (simp add: net_step_def same_bus_def sock_step_def)
    then show ?thesis using False Some al net_step_refl [OF ok] by (auto simp: forward_to_socket_def)
  next
    case True
    then obtain i where i: "r = Some i" by auto
    have i': "i \<notin> in_use n" "i < BUFFER_SIZE" "b_size buf \<le> MTU" using n1(3) [OF i] by auto
    let ?n2 = "upd_buffer i (\<lambda>f. f\<lparr>b_data := memcpy_at HEADER_SIZE (take (b_size buf) (payload (b_data buf))) (b_data f)\<rparr>) n1"
    have n2: "pool_ok ?n2" using n1(1) i'(2)
      by (rule pool_ok_upd) (use fr i'(3) in \<open>simp add: memcpy_payload_ok\<close>)
    let ?p2 = "p\<lparr>pr_sock := Some ?n2\<rparr>"
    have "in_use ?n2 = insert i (in_use n)" using n1(2) i by simp
    then have st: "net_step (insert i) p ?p2"
      using Some n2 keep upd_others [OF i'(1) keep(3)] by (simp add: net_step_def same_bus_def sock_step_def)
    obtain r' q where sd: "sock_send E (on_quadrant_change d E) i ?p2 = (r', q)"
      by (cases "sock_send E (on_quadrant_change d E) i ?p2")
    have "net_step (\<lambda>s. s - {i}) ?p2 q"
      by (rule on_change.sock_send_net [OF _ n2 _ sd]) (use n1(2) i in simp_all)
    then have "net_step (\<lambda>s. insert i s - {i}) p q" by (rule net_step_trans [OF st]) blast
    then have "net_step (\<lambda>s. s) p q"
      using i'(1) Some by (auto simp: net_step_def sock_step_def split: option.splits)
    then show ?thesis using True Some al i sd by (simp add: forward_to_socket_def)
  qed
qed

lemma held_frame:
  assumes "chan_ok p" and "held b p"
  shows "frame_ok (b_data (buffer_at b p))"
  using assms pool_buffer [OF _ in_use_bound]
  by (cases b) (auto simp: chan_ok_def held_def buffer_at_def sock_ok_def split: option.splits)

lemma held_same: "usage q = usage p \<Longrightarrow> held b q = held b p"
  by (cases b) (auto simp: usage_def held_def split: option.splits)

lemma update_accounts:
  assumes p: "chan_ok p" "held b p" and upd: "takes_over f upd" and E: "leaves f E"
    and one: "\<forall>port. length (targets_of port (pr_observed p)) \<le> 1"
    and ext: "frame_src (b_data (buffer_at b p)) \<noteq> INTERNAL \<or> (\<exists>i. b = ShmBuf i)"
  shows "settled f b p (protocol_update E (on_quadrant_change d E) upd b p)"
proof -
  note fr = held_frame [OF p] and h = quadrant_change_part [OF E]
  have tail: "settled f b p (notify_or_free upd port b q)"
    if "chan_ok q" "usage q = usage p" "wiring q = wiring p" "f (pr_env q) = f (pr_env p)" for port q
    using notify_or_free_accounts [OF that(1) _ upd, of b port] held_same [OF that(2)] p(2) one that settled_from
    by (simp add: wiring_def)
  show ?thesis
  proof (cases "b_size (buffer_at b p) < HEADER_LEN")
    case True
    then show ?thesis using freed_settled [OF p] by (simp add: protocol_update_def Let_def)
  next
    case False
    show ?thesis
    proof (cases b)
      case (ShmBuf i)
      have "sock_ok p" using p(1) by (simp add: chan_ok_def)
      let ?q = "forward_to_socket E (on_quadrant_change d E) (buffer_at b p) p"
      have "chan_ok ?q" "usage ?q = usage p" "wiring ?q = wiring p"
        using net_step_usage [OF forward_to_socket_net [OF \<open>sock_ok p\<close> fr] p(1)] by blast+
      from tail [OF this forward_to_socket_part [OF h]] show ?thesis
        using False ShmBuf by (simp add: protocol_update_def Let_def)
    next
      case (SockBuf i)
      show ?thesis
      proof (cases "kind_of_byte (hdr_kind (payload (b_data (buffer_at b p))))")
        case None
        then show ?thesis
          using tail [of "forward_to_bus E (buffer_at b p) p"] forward_to_bus_accounts [OF p(1) fr, of E] False SockBuf
          by (simp add: protocol_update_def Let_def forward_to_bus_part)
      next
        case (Some k)
        obtain n where n: "pr_sock p = Some n" "i \<in> in_use n"
          using p(2) SockBuf by (auto simp: held_def split: option.splits)
        have bf: "buffer_at b p = n_buffers n ! i" using n(1) SockBuf by (simp add: buffer_at_def)
        have c: "sock_ok p" "pr_instance p" "pool_ok (pr_shm p)" using p(1) by (simp_all add: chan_ok_def)
        let ?q = "protocol_update E (on_quadrant_change d E) upd (SockBuf i) p"
        have "net_step (\<lambda>s. s - {i}) p ?q"
          by (rule sptp_update_net [OF c(1,2) n]) (use False Some ext SockBuf bf in auto)
        then have "chan_ok ?q \<and> usage ?q = without b (usage p) \<and> wiring ?q = wiring p"
          using c n SockBuf net_step_ok
          by (auto simp: net_step_def same_bus_def sock_step_def chan_ok_def usage_def without_def
              wiring_def sock_ok_def split: option.splits)
        moreover have "f (pr_env ?q) = f (pr_env p)"
          using False Some SockBuf sptp_deliver_part [OF E h] by (simp add: protocol_update_def Let_def)
        ultimately show ?thesis using SockBuf by (simp add: settled_def)
      qed
    qed
  qed
qed

text \<open>C2. No path of the channel loses a buffer or frees one twice: a short frame, a frame
  forwarded or not (whatever the engines and pools answer), a synchronisation packet, a frame
  nobody or one observer listens to; after \<open>update\<close> exactly the buffer it was given is back in
  its pool. The observer here is \<open>Protocol::receive\<close>, which every observer ends in.\<close>

theorem update_returns_buffer:
  assumes "chan_ok p" and "held b p"
    and "\<forall>port. length (targets_of port (pr_observed p)) \<le> 1"
    and "frame_src (b_data (buffer_at b p)) \<noteq> INTERNAL \<or> (\<exists>i. b = ShmBuf i)"
  shows "chan_ok (protocol_update E (on_quadrant_change d E) (\<lambda>ob port b p. snd (protocol_receive b sz p)) b p)
     \<and> usage (protocol_update E (on_quadrant_change d E) (\<lambda>ob port b p. snd (protocol_receive b sz p)) b p)
        = without b (usage p)"
proof -
  have "settled (\<lambda>_. []) b p (protocol_update E (on_quadrant_change d E) (\<lambda>ob port b p. snd (protocol_receive b sz p)) b p)"
    by (rule update_accounts [OF assms(1,2) receive_accounts leaves_nothing assms(3,4)])
  then show ?thesis by (simp add: settled_def)
qed

lemma update_returns_buffer_witness:
  "usage (protocol_update demo_env (on_quadrant_change 2 demo_env) (\<lambda>ob port b p. snd (protocol_receive b 100 p)) (SockBuf 0)
     ((demo_gateway (blank_nic INTERNAL) (held_nic demo_mac (demo_frame 0 other_mac) 26))\<lparr>pr_observed := [(4, 257)]\<rparr>))
   = ({}, Some {})"
proof -
  let ?n = "held_nic demo_mac (demo_frame 0 other_mac) 26"
  let ?p = "(demo_gateway (blank_nic INTERNAL) ?n)\<lparr>pr_observed := [(4, 257)]\<rparr>"
  have nic: "pool_ok ?n" "in_use ?n = {0}" "b_data (n_buffers ?n ! 0) = demo_frame 0 other_mac"
    using held_nic_ok [OF macs(2), of 26 "demo_frame 0 other_mac"] demo_frame_fields(1) [OF macs(1), of 0]
    by (simp_all add: frame_consts)
  have "pool_ok (blank_nic INTERNAL :: unit nic)" by (rule pool_ok_blank(1)) simp
  then have "chan_ok ?p" using nic by (simp add: chan_ok_def demo_gateway_def sock_ok_def)
  moreover have "held (SockBuf 0) ?p" "usage ?p = ({}, Some {0})"
    using nic(2) by (simp_all add: held_def usage_def demo_gateway_def pool_ok_blank(2))
  ultimately show ?thesis
    using update_returns_buffer [of ?p "SockBuf 0" demo_env 2 100] nic(3) macs
    by (simp add: demo_gateway_def buffer_at_def demo_frame_fields without_def)
qed

text \<open>Two observers of one port in one process: both call \<open>receive\<close> on the same buffer, and
  the pool holds its index twice, so two later messages share it.\<close>

theorem two_observers_free_twice:
  assumes inst: "pr_instance p" and b: "b_size (n_buffers (pr_shm p) ! i) \<ge> HEADER_LEN" and sock: "pr_sock p = None"
    and two: "targets_of (hdr_dst_port (payload (b_data (n_buffers (pr_shm p) ! i)))) (pr_observed p) = [a, c]"
  shows "n_free (pr_shm (protocol_update E h (\<lambda>ob port b p. snd (protocol_receive b sz p)) (ShmBuf i) p))
     = i # i # n_free (pr_shm p)"
proof -
  let ?upd = "\<lambda>ob port b p. snd (protocol_receive b sz p)"
  have "protocol_update E h ?upd (ShmBuf i) p
      = notify_or_free ?upd (hdr_dst_port (payload (b_data (n_buffers (pr_shm p) ! i)))) (ShmBuf i) p"
    using b sock by (simp add: protocol_update_def buffer_at_def forward_to_socket_def Let_def)
  also have "\<dots> = ?upd c 0 (ShmBuf i) (?upd a 0 (ShmBuf i) p)"
    by (simp add: notify_or_free_def co_notify_targets two)
  finally show ?thesis using inst b
    by (simp add: protocol_receive_def buffer_at_def free_buffer_def nic_free_def Let_def)
qed

lemma two_observers_free_twice_witness:
  "hd (n_free (pr_shm (protocol_update demo_env (\<lambda>p. p) (\<lambda>ob port b p. snd (protocol_receive b 100 p)) (ShmBuf 0)
     ((demo_gateway (bus_nic (demo_frame 0 INTERNAL) 26) (blank_nic INTERNAL))\<lparr>pr_sock := None,
        pr_observed := [(4, 257), (5, 257)]\<rparr>)))) = 0"
proof -
  let ?s = "bus_nic (demo_frame 0 INTERNAL) 26"
  let ?p = "(demo_gateway ?s (blank_nic INTERNAL))\<lparr>pr_sock := None, pr_observed := [(4, 257), (5, 257)]\<rparr>"
  have il: "length INTERNAL = 6" by (simp add: INTERNAL_def)
  have s: "b_size (n_buffers ?s ! 0) = 26" "b_data (n_buffers ?s ! 0) = demo_frame 0 INTERNAL"
    using bus_nic_ok [of 26 "demo_frame 0 INTERNAL"] demo_frame_fields(1) [OF il, of 0] by (simp_all add: frame_consts)
  show ?thesis
    using two_observers_free_twice [of ?p 0 4 5 demo_env "\<lambda>p. p" 100] s
    by (simp add: demo_gateway_def header_consts demo_frame_fields il)
qed

definition demo_component :: "(nat, nat, u8 list list, (u8 list \<times> u16 \<times> u16) list, nat) proto" where
  "demo_component = (demo_gateway (bus_nic (demo_frame 0 INTERNAL) 26) (blank_nic INTERNAL))\<lparr>pr_sock := None,
     pr_shm_eng := \<lparr>sp_attached = True, sp_slot = 3, sp_ring = []\<rparr>\<rparr>"

lemma bus_message_roundtrip_witness:
  "\<exists>bytes. sp_ring (pr_shm_eng (snd (snd (protocol_send demo_env (\<lambda>p. p) null_address (physical_broadcast 9) [1, 2] 5 DATA
      demo_component)))) = [(bytes, 3, DELIVER_TO_COMPONENTS OR DELIVER_TO_GATEWAY)]"
proof -
  let ?s = "bus_nic (demo_frame 0 INTERNAL) 26"
  let ?p = demo_component
  have il: "length INTERNAL = 6" by (simp add: INTERNAL_def)
  have s: "pool_ok (pr_shm ?p)" "in_use (pr_shm ?p) = {0}" "\<not> n_spatial (pr_shm ?p)"
    using bus_nic_ok [of 26 "demo_frame 0 INTERNAL"] demo_frame_fields(1) [OF il, of 0]
    by (simp_all add: frame_consts demo_component_def demo_gateway_def)
  have "(1::nat) \<in> {..<BUFFER_SIZE}" by (simp add: buffer_consts)
  then have u: "in_use (pr_shm ?p) \<noteq> {..<BUFFER_SIZE}" using s(2) by auto
  have c: "pr_instance ?p" "pr_sock ?p = None" "sp_attached (pr_shm_eng ?p)" "sp_slot (pr_shm_eng ?p) = 3"
    "sp_ring (pr_shm_eng ?p) = []" "unat GATEWAY_SLOT = 0"
    by (simp_all add: demo_component_def demo_gateway_def GATEWAY_SLOT_def)
  have m: "mac_ok (a_paddr (physical_broadcast 9))" "HEADER_LEN + length [1, 2 :: u8] \<le> MTU" "in_i64 5" "(5::int) \<noteq> 0"
    by (simp_all add: physical_broadcast_def header_consts MTU_def in_i64_def)
  have sl: "sp_slot (pr_shm_eng ?p) \<noteq> unat GATEWAY_SLOT" using c by simp
  obtain bytes where "pr_shm_eng (snd (snd (protocol_send demo_env (\<lambda>p. p) null_address (physical_broadcast 9) [1, 2] 5 DATA ?p)))
         = (pr_shm_eng ?p)\<lparr>sp_ring := snd (en_bus demo_env bytes (word_of_nat (sp_slot (pr_shm_eng ?p)))
                (DELIVER_TO_COMPONENTS OR DELIVER_TO_GATEWAY) (sp_ring (pr_shm_eng ?p)))\<rparr>"
    using bus_message_roundtrip [where E = demo_env and h = "\<lambda>p. p" and src = null_address and kind = DATA,
        OF s(1) u s(3) c(1,2) m(1,2) c(3) sl m(3,4)] by blast
  then show ?thesis by (simp add: c demo_env_def)
qed

end
