(* ===== verification/Registry.thy ===== *)
theory Registry
  imports Prelude
begin

section \<open>Tables kept in vectors and ordered maps\<close>

text \<open>
  The interest tables of the program: a vector of entries with at most one entry per key,
  updated in place or appended to (\<open>Binding_Cache::_bindings\<close>, \<open>Interest_Tracker::_interests\<close>),
  and \<open>std::map\<close>, kept as an association list in key order. A vector table implements a
  partial map; the locale states what its two mutators promise and derives the behaviour of any
  history of updates.
\<close>

subsection \<open>\<open>std::map\<close>\<close>

primrec om_put :: "'k::linorder \<Rightarrow> 'v \<Rightarrow> ('k \<times> 'v) list \<Rightarrow> ('k \<times> 'v) list" where
  "om_put k v [] = [(k, v)]"
| "om_put k v (e # es) =
     (if k < fst e then (k, v) # e # es
      else if k = fst e then (k, v) # es
      else e # om_put k v es)"

definition om_del :: "'k \<Rightarrow> ('k \<times> 'v) list \<Rightarrow> ('k \<times> 'v) list" where
  "om_del k m = filter (\<lambda>e. fst e \<noteq> k) m"

definition om_ok :: "('k::linorder \<times> 'v) list \<Rightarrow> bool" where
  "om_ok m \<longleftrightarrow> sorted_wrt (<) (map fst m)"

lemma map_of_om_put [simp]: "map_of (om_put k v m) = (map_of m)(k \<mapsto> v)"
  by (induction m) auto

lemma map_of_om_del [simp]: "map_of (om_del k m) = (map_of m)(k := None)"
  by (induction m) (auto simp: om_del_def fun_eq_iff)

lemma set_om_put: "fst ` set (om_put k v m) = insert k (fst ` set m)"
  by (induction m) auto

lemma om_ok_put [simp, intro]: "om_ok m \<Longrightarrow> om_ok (om_put k v m)"
proof (induction m)
  case (Cons e m)
  then show ?case using set_om_put [of k v m] by (fastforce simp: om_ok_def)
qed (simp add: om_ok_def)

lemma om_ok_filter [simp, intro]: "om_ok m \<Longrightarrow> om_ok (filter P m)"
  by (induction m) (auto simp: om_ok_def)

lemma om_ok_del [simp, intro]: "om_ok m \<Longrightarrow> om_ok (om_del k m)"
  by (simp add: om_del_def)

lemma om_ok_Nil [simp]: "om_ok []"
  by (simp add: om_ok_def)

lemma om_ok_distinct: "om_ok m \<Longrightarrow> distinct (map fst m)"
  by (simp add: om_ok_def strict_sorted_iff)

lemma map_of_filter_fst: "map_of (filter (\<lambda>e. P (fst e)) m) k = (if P k then map_of m k else None)"
  by (induction m) auto

lemma map_of_filter_kv:
  "distinct (map fst m) \<Longrightarrow>
     map_of (filter (\<lambda>e. P (fst e) (snd e)) m) k
       = (case map_of m k of Some v \<Rightarrow> if P k v then Some v else None | None \<Rightarrow> None)"
  by (induction m) (auto simp: map_of_eq_None_iff split: option.splits)

subsection \<open>Vector tables\<close>

definition table :: "('e \<Rightarrow> 'k) \<Rightarrow> ('e \<Rightarrow> 'v) \<Rightarrow> 'e list \<Rightarrow> 'k \<rightharpoonup> 'v" where
  "table key val es = map_of (map (\<lambda>e. (key e, val e)) es)"

text \<open>A history of updates on a table, and the same history on the partial map.\<close>

datatype ('k, 'v) update_op = Put 'k 'v | Del 'k | Keep "'k \<Rightarrow> 'v \<Rightarrow> bool"

primrec map_op :: "('k, 'v) update_op \<Rightarrow> ('k \<rightharpoonup> 'v) \<Rightarrow> ('k \<rightharpoonup> 'v)" where
  "map_op (Put k v) m = m(k \<mapsto> v)"
| "map_op (Del k) m = m(k := None)"
| "map_op (Keep P) m = (\<lambda>k. case m k of Some v \<Rightarrow> if P k v then Some v else None | None \<Rightarrow> None)"

locale registry =
  fixes key :: "'e \<Rightarrow> 'k"
    and val :: "'e \<Rightarrow> 'v"
    and put :: "'k \<Rightarrow> 'v \<Rightarrow> 'e list \<Rightarrow> 'e list"
    and del :: "'k \<Rightarrow> 'e list \<Rightarrow> 'e list"
  assumes put_keys: "distinct (map key es) \<Longrightarrow> distinct (map key (put k v es))"
    and put_table: "table key val (put k v es) = (table key val es)(k \<mapsto> v)"
    and del_keys: "distinct (map key es) \<Longrightarrow> distinct (map key (del k es))"
    and del_table: "table key val (del k es) = (table key val es)(k := None)"
begin

primrec apply_op :: "('k, 'v) update_op \<Rightarrow> 'e list \<Rightarrow> 'e list" where
  "apply_op (Put k v) es = put k v es"
| "apply_op (Del k) es = del k es"
| "apply_op (Keep P) es = filter (\<lambda>e. P (key e) (val e)) es"

lemma keep_table:
  "distinct (map key es) \<Longrightarrow>
     table key val (filter (\<lambda>e. P (key e) (val e)) es) = map_op (Keep P) (table key val es)"
proof -
  assume d: "distinct (map key es)"
  let ?m = "map (\<lambda>e. (key e, val e)) es"
  have "map (\<lambda>e. (key e, val e)) (filter (\<lambda>e. P (key e) (val e)) es)
      = filter (\<lambda>p. P (fst p) (snd p)) ?m"
    by (simp add: filter_map o_def)
  moreover have "distinct (map fst ?m)" using d by (simp add: o_def)
  ultimately show ?thesis by (simp add: table_def fun_eq_iff map_of_filter_kv)
qed

lemma keep_keys: "distinct (map key es) \<Longrightarrow> distinct (map key (filter P es))"
  by (induction es) auto

lemma op_refines:
  assumes "distinct (map key es)"
  shows "distinct (map key (apply_op x es))"
    and "table key val (apply_op x es) = map_op x (table key val es)"
  using assms
  by (cases x; simp add: put_keys del_keys keep_keys put_table del_table keep_table del: map_op.simps(3))+

lemma history_refines:
  assumes "distinct (map key es)"
  shows "distinct (map key (fold apply_op xs es))
    \<and> table key val (fold apply_op xs es) = fold map_op xs (table key val es)"
  using assms
proof (induction xs arbitrary: es)
  case (Cons x xs)
  then show ?case using Cons.IH [of "apply_op x es"] op_refines [OF Cons.prems, of x] by simp
qed simp

lemma put_twice: "table key val (put k v (put k v' es)) = table key val (put k v es)"
  by (simp add: put_table)

end

lemma table_mem:
  "distinct (map key es) \<Longrightarrow> (table key val es k = Some v) = (\<exists>e \<in> set es. key e = k \<and> val e = v)"
proof -
  assume "distinct (map key es)"
  then have "distinct (map fst (map (\<lambda>e. (key e, val e)) es))" by (simp add: o_def)
  then show ?thesis unfolding table_def by (subst map_of_eq_Some_iff) auto
qed

lemma table_dom: "dom (table key val es) = key ` set es"
  by (force simp: table_def dom_map_of_conv_image_fst)

text \<open>The way both vectors are written: change the first match in place, else append.\<close>

lemma table_update_first:
  assumes "\<And>e. key (f e) = key e" and "\<And>e. val (f e) = v" and "\<exists>e \<in> set es. key e = k"
  shows "table key val (update_first (\<lambda>e. key e = k) f es) = (table key val es)(k \<mapsto> v)"
  using assms(3)
proof (induction es)
  case (Cons e es)
  show ?case
  proof (cases "key e = k")
    case True
    then show ?thesis using assms(1,2) by (auto simp: table_def fun_eq_iff)
  next
    case False
    then have "\<exists>e \<in> set es. key e = k" using Cons.prems by auto
    from Cons.IH [OF this] False show ?thesis by (auto simp: table_def fun_eq_iff)
  qed
qed simp

lemma table_append:
  assumes "\<not> (\<exists>e \<in> set es. key e = k)" and "key x = k" and "val x = v"
  shows "table key val (es @ [x]) = (table key val es)(k \<mapsto> v)"
  using assms by (induction es) (auto simp: table_def fun_eq_iff)

lemma table_remove:
  "table key val (filter (\<lambda>e. key e \<noteq> k) es) = (table key val es)(k := None)"
  by (induction es) (auto simp: table_def fun_eq_iff)

lemma keys_update_first:
  "(\<And>e. key (f e) = key e) \<Longrightarrow> map key (update_first P f es) = map key es"
  by (rule map_update_first) simp

lemma keys_remove: "distinct (map key es) \<Longrightarrow> distinct (map key (filter P es))"
  by (induction es) auto

end
