(* ===== verification/Binding_Cache.thy ===== *)
theory Binding_Cache
  imports Registry Address Clock
begin

section \<open>The producer's table of interests\<close>

text \<open>
  \<open>src/communication/smart_data/binding_cache.h\<close>: who wants which unit, how often and until
  when, and one periodic sender thread per unit. The mutex makes each operation one step, so a
  run is a sequence of operations. \<open>bc_spawned\<close> counts the sender threads ever created and
  numbers them: a thread that keeps its number was not restarted.
\<close>

subsection \<open>State\<close>

record binding =
  b_unit :: unit_code
  b_address :: address
  b_period_us :: u64
  b_expiry_ns :: int

record sender_thread =
  t_period_us :: u64
  t_number :: nat

record binding_cache =
  bc_lifetime_min_us :: u64
  bc_lifetime_factor :: u32
  bc_bindings :: "binding list"
  bc_threads :: "(unit_code \<times> sender_thread) list"
  bc_spawned :: nat

definition binding_cache_init :: "u64 \<Rightarrow> u32 \<Rightarrow> binding_cache" where
  "binding_cache_init lifetime_min_us lifetime_factor =
     \<lparr>bc_lifetime_min_us = lifetime_min_us, bc_lifetime_factor = lifetime_factor,
      bc_bindings = [], bc_threads = [], bc_spawned = 0\<rparr>"

text \<open>\<open>Smart_Config\<close>, the parameters every producer creates its cache with.\<close>

definition BINDING_LIFETIME_MIN_US :: u64 where "BINDING_LIFETIME_MIN_US = 3500000"
definition BINDING_LIFETIME_FACTOR :: u32 where "BINDING_LIFETIME_FACTOR = 4"
definition REAPER_PERIOD_US :: nat where "REAPER_PERIOD_US = 1000000"

subsection \<open>Lookups\<close>

definition find_binding :: "unit_code \<Rightarrow> address \<Rightarrow> binding list \<Rightarrow> binding option" where
  "find_binding u addr bs =
     (case filter (\<lambda>b. b_unit b = u \<and> b_address b = addr) bs of [] \<Rightarrow> None | b # _ \<Rightarrow> Some b)"

text \<open>The loop of \<open>shortest_locked\<close> over the filtered vector; 0 when nobody is interested.\<close>

primrec shortest_of :: "u64 \<Rightarrow> binding list \<Rightarrow> u64" where
  "shortest_of best [] = best"
| "shortest_of best (b # bs) =
     shortest_of (if best = 0 \<or> b_period_us b < best then b_period_us b else best) bs"

definition shortest_locked :: "unit_code \<Rightarrow> binding list \<Rightarrow> u64" where
  "shortest_locked u bs = shortest_of 0 (filter (\<lambda>b. b_unit b = u) bs)"

subsection \<open>The sender threads\<close>

text \<open>One iteration of the first loop of \<open>resync_threads\<close>: start a thread or set its period.\<close>

definition sync_thread ::
  "binding list \<Rightarrow> binding \<Rightarrow> (unit_code \<times> sender_thread) list \<times> nat
     \<Rightarrow> (unit_code \<times> sender_thread) list \<times> nat"
where
  "sync_thread bs b acc =
     (let sp = shortest_locked (b_unit b) bs in
      case map_of (fst acc) (b_unit b) of
        None \<Rightarrow> (om_put (b_unit b) \<lparr>t_period_us = sp, t_number = snd acc\<rparr> (fst acc), snd acc + 1)
      | Some t \<Rightarrow> (om_put (b_unit b) (t\<lparr>t_period_us := sp\<rparr>) (fst acc), snd acc))"

definition resync_threads :: "binding_cache \<Rightarrow> binding_cache" where
  "resync_threads c =
     (case fold (sync_thread (bc_bindings c)) (bc_bindings c) (bc_threads c, bc_spawned c) of
        (ths, n) \<Rightarrow>
          c\<lparr>bc_threads := filter (\<lambda>p. shortest_locked (fst p) (bc_bindings c) \<noteq> 0) ths,
            bc_spawned := n\<rparr>)"

subsection \<open>Operations\<close>

text \<open>
  \<open>expiry_for\<close>: the product is \<open>uint64_t\<close> and wraps; the cast and the sum are \<open>int64_t\<close>.
\<close>

definition expiry_for :: "int \<Rightarrow> u64 \<Rightarrow> binding_cache \<Rightarrow> int" where
  "expiry_for now period_us c =
     (let life = ucast (bc_lifetime_factor c) * period_us;
          life' = (if life < bc_lifetime_min_us c then bc_lifetime_min_us c else life)
      in i64 (now + i64 (sint life' * 1000)))"

definition on_interest :: "int \<Rightarrow> unit_code \<Rightarrow> address \<Rightarrow> u64 \<Rightarrow> binding_cache \<Rightarrow> binding_cache" where
  "on_interest now u addr period_us c =
     (let p = (if period_us = 0 then 1 else period_us);
          e = expiry_for now p c
      in resync_threads (c\<lparr>bc_bindings :=
           (case find_binding u addr (bc_bindings c) of
              Some _ \<Rightarrow> update_first (\<lambda>b. b_unit b = u \<and> b_address b = addr)
                          (\<lambda>b. b\<lparr>b_period_us := p, b_expiry_ns := e\<rparr>) (bc_bindings c)
            | None \<Rightarrow> bc_bindings c @
                [\<lparr>b_unit = u, b_address = addr, b_period_us = p, b_expiry_ns = e\<rparr>])\<rparr>))"

definition on_disinterest :: "unit_code \<Rightarrow> address \<Rightarrow> binding_cache \<Rightarrow> binding_cache" where
  "on_disinterest u addr c =
     resync_threads (c\<lparr>bc_bindings :=
       filter (\<lambda>b. \<not> (b_unit b = u \<and> b_address b = addr)) (bc_bindings c)\<rparr>)"

definition cache_clear :: "binding_cache \<Rightarrow> binding_cache" where
  "cache_clear c = c\<lparr>bc_bindings := [], bc_threads := []\<rparr>"

text \<open>One wake-up of the reaper thread at time \<open>now\<close>.\<close>

definition reap :: "int \<Rightarrow> binding_cache \<Rightarrow> binding_cache" where
  "reap now c =
     resync_threads (c\<lparr>bc_bindings := filter (\<lambda>b. \<not> (now > b_expiry_ns b)) (bc_bindings c)\<rparr>)"

text \<open>The reaper's sleeps between two wake-ups when nobody stops it, in microseconds.\<close>

function reap_sleeps :: "nat \<Rightarrow> nat \<Rightarrow> nat list" where
  "reap_sleeps period slept =
     (if slept < period
      then let step = min (period - slept) 50000 in step # reap_sleeps period (slept + step)
      else [])"
  by auto

termination
  by (relation "measure (\<lambda>(period, slept). period - slept)") auto

declare reap_sleeps.simps [simp del]

lemma reap_sleeps_sum:
  assumes "slept \<le> period"
  shows "sum_list (reap_sleeps period slept) + slept = period
     \<and> (\<forall>s \<in> set (reap_sleeps period slept). s \<le> 50000)"
  using assms
proof (induction "period - slept" arbitrary: slept rule: less_induct)
  case less
  show ?case
  proof (cases "slept < period")
    case True
    let ?step = "min (period - slept) 50000"
    have "reap_sleeps period slept = ?step # reap_sleeps period (slept + ?step)"
      using True by (simp add: reap_sleeps.simps [of period slept] Let_def)
    moreover have "sum_list (reap_sleeps period (slept + ?step)) + (slept + ?step) = period
        \<and> (\<forall>s \<in> set (reap_sleeps period (slept + ?step)). s \<le> 50000)"
      by (rule less.hyps) (use True in auto)
    ultimately show ?thesis by simp
  next
    case False
    then have "reap_sleeps period slept = []" by (subst reap_sleeps.simps) simp
    then show ?thesis using less.prems False by simp
  qed
qed

subsection \<open>The table behind the vector\<close>

abbreviation b_key :: "binding \<Rightarrow> unit_code \<times> address" where
  "b_key b \<equiv> (b_unit b, b_address b)"

abbreviation b_val :: "binding \<Rightarrow> u64 \<times> int" where
  "b_val b \<equiv> (b_period_us b, b_expiry_ns b)"

definition put_binding :: "unit_code \<times> address \<Rightarrow> u64 \<times> int \<Rightarrow> binding list \<Rightarrow> binding list" where
  "put_binding k v bs =
     (case find_binding (fst k) (snd k) bs of
        Some _ \<Rightarrow> update_first (\<lambda>b. b_key b = k) (\<lambda>b. b\<lparr>b_period_us := fst v, b_expiry_ns := snd v\<rparr>) bs
      | None \<Rightarrow> bs @ [\<lparr>b_unit = fst k, b_address = snd k, b_period_us = fst v, b_expiry_ns = snd v\<rparr>])"

definition del_binding :: "unit_code \<times> address \<Rightarrow> binding list \<Rightarrow> binding list" where
  "del_binding k bs = filter (\<lambda>b. b_key b \<noteq> k) bs"

lemma find_binding_None: "find_binding u a bs = None \<longleftrightarrow> \<not> (\<exists>b \<in> set bs. b_key b = (u, a))"
proof -
  have "find_binding u a bs = None \<longleftrightarrow> filter (\<lambda>b. b_unit b = u \<and> b_address b = a) bs = []"
    by (simp add: find_binding_def split: list.split)
  then show ?thesis by (auto simp: filter_empty_conv)
qed

lemma find_binding_Some: "find_binding u a bs = Some b \<Longrightarrow> b \<in> set bs \<and> b_key b = (u, a)"
proof -
  assume "find_binding u a bs = Some b"
  then obtain r where "filter (\<lambda>b. b_unit b = u \<and> b_address b = a) bs = b # r"
    by (auto simp: find_binding_def split: list.splits)
  then have "b \<in> set (filter (\<lambda>b. b_unit b = u \<and> b_address b = a) bs)" by simp
  then show ?thesis by simp
qed

interpretation bindings: registry b_key b_val put_binding del_binding
proof unfold_locales
  fix es :: "binding list" and k v
  show "distinct (map b_key (put_binding k v es))" if "distinct (map b_key es)"
    using that
    by (cases k) (auto simp: put_binding_def keys_update_first find_binding_None split: option.splits)
  show "table b_key b_val (put_binding k v es) = (table b_key b_val es)(k \<mapsto> v)"
  proof (cases "find_binding (fst k) (snd k) es")
    case None
    then have "\<not> (\<exists>e \<in> set es. b_key e = k)" by (simp add: find_binding_None)
    from table_append [OF this, of "\<lparr>b_unit = fst k, b_address = snd k, b_period_us = fst v, b_expiry_ns = snd v\<rparr>" b_val v] None
    show ?thesis by (simp add: put_binding_def)
  next
    case (Some b)
    have "\<exists>e \<in> set es. b_key e = k" using find_binding_Some [OF Some] by auto
    from table_update_first [OF _ _ this, where v = v and val = b_val] Some
    show ?thesis by (simp add: put_binding_def)
  qed
  show "distinct (map b_key (del_binding k es))" if "distinct (map b_key es)"
    using that by (simp add: del_binding_def keys_remove)
  show "table b_key b_val (del_binding k es) = (table b_key b_val es)(k := None)"
    by (simp add: del_binding_def table_remove)
qed

lemma on_interest_put:
  "on_interest now u addr p c = resync_threads (c\<lparr>bc_bindings :=
     put_binding (u, addr) (if p = 0 then 1 else p, expiry_for now (if p = 0 then 1 else p) c) (bc_bindings c)\<rparr>)"
  by (auto simp: on_interest_def put_binding_def Let_def split: option.split)

lemma on_disinterest_del:
  "on_disinterest u addr c = resync_threads (c\<lparr>bc_bindings := del_binding (u, addr) (bc_bindings c)\<rparr>)"
  by (simp add: on_disinterest_def del_binding_def)

subsection \<open>Runs\<close>

datatype cache_op =
    Interest int unit_code address u64
  | Disinterest unit_code address
  | Clear
  | Reap int

primrec cache_step :: "cache_op \<Rightarrow> binding_cache \<Rightarrow> binding_cache" where
  "cache_step (Interest now u a p) c = on_interest now u a p c"
| "cache_step (Disinterest u a) c = on_disinterest u a c"
| "cache_step Clear c = cache_clear c"
| "cache_step (Reap now) c = reap now c"

definition cache_run :: "cache_op list \<Rightarrow> binding_cache \<Rightarrow> binding_cache" where
  "cache_run ops c = fold cache_step ops c"

lemma resync_fields [simp]:
  "bc_bindings (resync_threads c) = bc_bindings c"
  "bc_lifetime_min_us (resync_threads c) = bc_lifetime_min_us c"
  "bc_lifetime_factor (resync_threads c) = bc_lifetime_factor c"
  by (simp_all add: resync_threads_def split: prod.split)

lemma cache_step_lifetimes [simp]:
  "bc_lifetime_min_us (cache_step x c) = bc_lifetime_min_us c"
  "bc_lifetime_factor (cache_step x c) = bc_lifetime_factor c"
  by (cases x; simp add: on_interest_def on_disinterest_def cache_clear_def reap_def Let_def)+

text \<open>What an operation does to the map from (unit, address) to (period, expiry).\<close>

primrec as_update :: "binding_cache \<Rightarrow> cache_op \<Rightarrow> (unit_code \<times> address, u64 \<times> int) update_op" where
  "as_update c (Interest now u a p) =
     Put (u, a) (if p = 0 then 1 else p, expiry_for now (if p = 0 then 1 else p) c)"
| "as_update c (Disinterest u a) = Del (u, a)"
| "as_update c Clear = Keep (\<lambda>_ _. False)"
| "as_update c (Reap now) = Keep (\<lambda>_ v. now \<le> snd v)"

lemma cache_step_bindings:
  "bc_bindings (cache_step x c) = bindings.apply_op (as_update c x) (bc_bindings c)"
  by (cases x) (simp_all add: on_interest_put on_disinterest_del cache_clear_def reap_def not_less)

lemma as_update_step [simp]: "as_update (cache_step x c) = as_update c"
proof
  fix y
  have "expiry_for now p (cache_step x c) = expiry_for now p c" for now p
    unfolding expiry_for_def by (simp only: cache_step_lifetimes)
  then show "as_update (cache_step x c) y = as_update c y" by (cases y) simp_all
qed

lemma cache_run_bindings:
  "bc_bindings (cache_run ops c) = fold bindings.apply_op (map (as_update c) ops) (bc_bindings c)"
  unfolding cache_run_def
  by (induction ops arbitrary: c) (simp_all add: cache_step_bindings)

abbreviation interests :: "binding_cache \<Rightarrow> unit_code \<times> address \<rightharpoonup> u64 \<times> int" where
  "interests c \<equiv> table b_key b_val (bc_bindings c)"

lemma cache_run_refines:
  assumes "distinct (map b_key (bc_bindings c))"
  shows "distinct (map b_key (bc_bindings (cache_run ops c)))"
    and "interests (cache_run ops c) = fold map_op (map (as_update c) ops) (interests c)"
  using bindings.history_refines [OF assms, of "map (as_update c) ops"] by (simp_all add: cache_run_bindings)

subsection \<open>One sender per unit, at the shortest period\<close>

lemma shortest_of_Min:
  assumes "\<forall>b \<in> set bs. b_period_us b \<noteq> 0"
  shows "shortest_of best bs =
    (if best = 0 then (if bs = [] then 0 else Min (b_period_us ` set bs))
     else Min (insert best (b_period_us ` set bs)))"
  using assms
proof (induction bs arbitrary: best)
  case (Cons b bs)
  let ?best = "if best = 0 \<or> b_period_us b < best then b_period_us b else best"
  have nz: "?best \<noteq> 0" using Cons.prems by auto
  have "shortest_of best (b # bs) = Min (insert ?best (b_period_us ` set bs))"
    using Cons.IH [of ?best] Cons.prems nz by simp
  also have "\<dots> = (if best = 0 then Min (b_period_us ` set (b # bs))
      else Min (insert best (b_period_us ` set (b # bs))))"
    by (cases "set bs = {}") (auto simp: min_def)
  finally show ?case by auto
qed simp

lemma shortest_locked_0:
  "\<forall>b \<in> set bs. b_period_us b \<noteq> 0 \<Longrightarrow> shortest_locked u bs = 0 \<longleftrightarrow> u \<notin> b_unit ` set bs"
proof -
  assume nz: "\<forall>b \<in> set bs. b_period_us b \<noteq> 0"
  let ?f = "filter (\<lambda>b. b_unit b = u) bs"
  have s: "shortest_locked u bs = (if ?f = [] then 0 else Min (b_period_us ` set ?f))"
    using shortest_of_Min [of ?f 0] nz by (simp add: shortest_locked_def)
  show ?thesis
  proof (cases "?f = []")
    case True
    then show ?thesis using s by (auto simp: filter_empty_conv)
  next
    case False
    then have "b_period_us ` set ?f \<noteq> {}" by (simp only: image_is_empty set_empty not_False_eq_True)
    then have "Min (b_period_us ` set ?f) \<in> b_period_us ` set ?f" by (intro Min_in) simp_all
    then have "Min (b_period_us ` set ?f) \<noteq> 0" using nz by auto
    moreover have "u \<in> b_unit ` set bs" using False unfolding filter_empty_conv by blast
    ultimately show ?thesis using s False by simp
  qed
qed

lemma shortest_locked_least:
  assumes "\<forall>b \<in> set bs. b_period_us b \<noteq> 0" and "u \<in> b_unit ` set bs"
  shows "p = shortest_locked u bs \<longleftrightarrow>
    (\<exists>b \<in> set bs. b_unit b = u \<and> b_period_us b = p) \<and> (\<forall>b \<in> set bs. b_unit b = u \<longrightarrow> p \<le> b_period_us b)"
proof -
  let ?f = "filter (\<lambda>b. b_unit b = u) bs"
  have ne: "?f \<noteq> []" using assms(2) by (auto simp: filter_empty_conv)
  have s: "shortest_locked u bs = Min (b_period_us ` set ?f)"
    using shortest_of_Min [of ?f 0] assms(1) ne by (simp add: shortest_locked_def)
  have fin: "finite (b_period_us ` set ?f)" "b_period_us ` set ?f \<noteq> {}"
    using ne by (simp_all only: image_is_empty set_empty not_False_eq_True List.finite_set finite_imageI)
  show ?thesis unfolding s eq_Min_iff [OF fin] by auto
qed

definition same_thread :: "sender_thread option \<Rightarrow> sender_thread \<Rightarrow> bool" where
  "same_thread old t = (case old of None \<Rightarrow> True | Some t' \<Rightarrow> t_number t' = t_number t)"

lemma sync_threads_fold:
  assumes "om_ok ths" and "fold (sync_thread bs) l (ths, n) = (ths', n')"
  shows "om_ok ths' \<and> n \<le> n'
    \<and> (\<forall>u. u \<notin> b_unit ` set l \<longrightarrow> map_of ths' u = map_of ths u)
    \<and> (\<forall>u \<in> b_unit ` set l. \<exists>t. map_of ths' u = Some t \<and> t_period_us t = shortest_locked u bs
          \<and> same_thread (map_of ths u) t)"
  using assms
proof (induction l arbitrary: ths n)
  case (Cons b l)
  obtain ths1 n1 where 1: "sync_thread bs b (ths, n) = (ths1, n1)" by (cases "sync_thread bs b (ths, n)")
  have ok1: "om_ok ths1" "n \<le> n1"
    and m1: "\<And>u. u \<noteq> b_unit b \<Longrightarrow> map_of ths1 u = map_of ths u"
    and m2: "\<exists>t. map_of ths1 (b_unit b) = Some t \<and> t_period_us t = shortest_locked (b_unit b) bs
       \<and> same_thread (map_of ths (b_unit b)) t"
    using 1 Cons.prems(1)
    by (auto simp: sync_thread_def Let_def same_thread_def split: option.splits)
  have r: "fold (sync_thread bs) l (ths1, n1) = (ths', n')" using Cons.prems(2) 1 by simp
  note IH = Cons.IH [OF ok1(1) r]
  have "\<exists>t. map_of ths' u = Some t \<and> t_period_us t = shortest_locked u bs \<and> same_thread (map_of ths u) t"
    if u: "u \<in> b_unit ` set (b # l)" for u
  proof (cases "u \<in> b_unit ` set l")
    case True
    then obtain t where t: "map_of ths' u = Some t" "t_period_us t = shortest_locked u bs"
      "same_thread (map_of ths1 u) t" using IH by blast
    have "same_thread (map_of ths u) t"
    proof (cases "u = b_unit b")
      case True
      then show ?thesis using m2 t(3) by (auto simp: same_thread_def split: option.splits)
    qed (use m1 t(3) in simp)
    with t show ?thesis by blast
  next
    case False
    then have "u = b_unit b" using u by auto
    then show ?thesis using m2 IH False by auto
  qed
  then show ?case using IH ok1 m1 by auto
qed simp

definition cache_ok :: "binding_cache \<Rightarrow> bool" where
  "cache_ok c \<longleftrightarrow> distinct (map b_key (bc_bindings c)) \<and> (\<forall>b \<in> set (bc_bindings c). b_period_us b \<noteq> 0)
     \<and> om_ok (bc_threads c)
     \<and> (\<forall>u. map_option t_period_us (map_of (bc_threads c) u)
           = (if u \<in> b_unit ` set (bc_bindings c) then Some (shortest_locked u (bc_bindings c)) else None))"

lemma resync_ok:
  assumes "distinct (map b_key (bc_bindings c))" and nz: "\<forall>b \<in> set (bc_bindings c). b_period_us b \<noteq> 0"
    and "om_ok (bc_threads c)"
  shows "cache_ok (resync_threads c)
    \<and> (\<forall>u t. map_of (bc_threads (resync_threads c)) u = Some t \<longrightarrow> same_thread (map_of (bc_threads c) u) t)"
proof -
  let ?bs = "bc_bindings c"
  obtain ths n where f: "fold (sync_thread ?bs) ?bs (bc_threads c, bc_spawned c) = (ths, n)"
    by (cases "fold (sync_thread ?bs) ?bs (bc_threads c, bc_spawned c)")
  note s = sync_threads_fold [OF assms(3) f]
  have t: "bc_threads (resync_threads c) = filter (\<lambda>p. shortest_locked (fst p) ?bs \<noteq> 0) ths"
    using f by (simp add: resync_threads_def)
  have m: "map_of (bc_threads (resync_threads c)) u = (if u \<in> b_unit ` set ?bs then map_of ths u else None)" for u
    unfolding t map_of_filter_fst [where P = "\<lambda>u. shortest_locked u ?bs \<noteq> 0"]
    using shortest_locked_0 [OF nz, of u] by simp
  have "om_ok (bc_threads (resync_threads c))" using s t by simp
  moreover have "map_option t_period_us (map_of (bc_threads (resync_threads c)) u)
      = (if u \<in> b_unit ` set ?bs then Some (shortest_locked u ?bs) else None)" for u
    using s unfolding m by auto
  moreover have "same_thread (map_of (bc_threads c) u) t"
    if "map_of (bc_threads (resync_threads c)) u = Some t" for u t
    using s that unfolding m by (auto split: if_splits)
  ultimately show ?thesis using assms by (simp add: cache_ok_def)
qed

lemma put_binding_period:
  "\<forall>b \<in> set bs. b_period_us b \<noteq> 0 \<Longrightarrow> fst v \<noteq> 0 \<Longrightarrow> \<forall>b \<in> set (put_binding k v bs). b_period_us b \<noteq> 0"
  using set_update_first_subset [of "\<lambda>b. b_key b = k" "\<lambda>b. b\<lparr>b_period_us := fst v, b_expiry_ns := snd v\<rparr>" bs]
  by (fastforce simp: put_binding_def split: option.splits)

text \<open>Every operation but \<open>clear\<close> ends in \<open>resync_threads\<close> on a well-formed vector.\<close>

lemma cache_step_resync:
  assumes c: "cache_ok c" and "x \<noteq> Clear"
  shows "\<exists>bs. cache_step x c = resync_threads (c\<lparr>bc_bindings := bs\<rparr>)
    \<and> distinct (map b_key bs) \<and> (\<forall>b \<in> set bs. b_period_us b \<noteq> 0)"
proof -
  have d: "distinct (map b_key (bc_bindings c))" and nz: "\<forall>b \<in> set (bc_bindings c). b_period_us b \<noteq> 0"
    using c by (simp_all add: cache_ok_def)
  show ?thesis
  proof (cases x)
    case (Interest now u a p)
    let ?v = "(if p = 0 then 1 else p, expiry_for now (if p = 0 then 1 else p) c)"
    have "fst ?v \<noteq> 0" by simp
    from put_binding_period [OF nz this] bindings.put_keys [OF d] show ?thesis
      unfolding Interest cache_step.simps on_interest_put by blast
  next
    case (Disinterest u a)
    then show ?thesis
      using bindings.del_keys [OF d, of "(u, a)"] nz
      by (intro exI [of _ "del_binding (u, a) (bc_bindings c)"]) (auto simp: on_disinterest_del del_binding_def)
  next
    case (Reap now)
    then show ?thesis
      using keys_remove [OF d] nz
      by (intro exI [of _ "filter (\<lambda>b. \<not> (now > b_expiry_ns b)) (bc_bindings c)"]) (simp add: reap_def)
  qed (use assms(2) in simp)
qed

lemma cache_ok_step: "cache_ok c \<Longrightarrow> cache_ok (cache_step x c)"
proof (cases "x = Clear")
  case False
  assume c: "cache_ok c"
  from cache_step_resync [OF this False] obtain bs where
    "cache_step x c = resync_threads (c\<lparr>bc_bindings := bs\<rparr>)" "distinct (map b_key bs)"
    "\<forall>b \<in> set bs. b_period_us b \<noteq> 0" by blast
  then show ?thesis using resync_ok [of "c\<lparr>bc_bindings := bs\<rparr>"] c by (simp add: cache_ok_def)
qed (simp add: cache_clear_def cache_ok_def)

lemma cache_ok_init: "cache_ok (binding_cache_init mn fac)"
  by (simp add: cache_ok_def binding_cache_init_def)

lemma cache_ok_run: "cache_ok c \<Longrightarrow> cache_ok (cache_run ops c)"
  unfolding cache_run_def by (induction ops arbitrary: c) (simp_all add: cache_ok_step)

lemma cache_ok_senders: "cache_ok c \<Longrightarrow> dom (map_of (bc_threads c)) = b_unit ` set (bc_bindings c)"
proof (rule set_eqI)
  fix u assume "cache_ok c"
  then have "map_option t_period_us (map_of (bc_threads c) u)
      = (if u \<in> b_unit ` set (bc_bindings c) then Some (shortest_locked u (bc_bindings c)) else None)"
    by (simp add: cache_ok_def)
  then show "u \<in> dom (map_of (bc_threads c)) \<longleftrightarrow> u \<in> b_unit ` set (bc_bindings c)"
    by (cases "map_of (bc_threads c) u") (simp_all add: domIff split: if_splits)
qed

text \<open>A unit that keeps at least one interest keeps its sender thread: the others coming and
  going only change its period.\<close>

lemma sender_not_restarted:
  assumes c: "cache_ok c" and "map_of (bc_threads c) u = Some t"
    and "map_of (bc_threads (cache_step x c)) u = Some t'"
  shows "t_number t' = t_number t"
proof (cases "x = Clear")
  case False
  from cache_step_resync [OF c this] obtain bs where bs: "cache_step x c = resync_threads (c\<lparr>bc_bindings := bs\<rparr>)"
    "distinct (map b_key bs)" "\<forall>b \<in> set bs. b_period_us b \<noteq> 0" by blast
  have "om_ok (bc_threads c)" using c by (simp add: cache_ok_def)
  with bs assms(3) have "same_thread (map_of (bc_threads c) u) t'"
    using resync_ok [THEN conjunct2, of "c\<lparr>bc_bindings := bs\<rparr>"] by auto
  then show ?thesis using assms(2) by (simp add: same_thread_def)
qed (use assms(3) in \<open>simp add: cache_clear_def\<close>)

subsection \<open>Properties\<close>

text \<open>C13. The vector of bindings is a map from (unit, address) to (period, expiry): after any
  history of interests, disinterests, clears and reaper wake-ups there is at most one binding
  per pair, and it is the one the history leaves in the map.\<close>

theorem cache_refines_map:
  "distinct (map b_key (bc_bindings (cache_run ops (binding_cache_init mn fac))))
   \<and> table b_key b_val (bc_bindings (cache_run ops (binding_cache_init mn fac)))
       = fold map_op (map (as_update (binding_cache_init mn fac)) ops) Map.empty"
  using cache_run_refines [of "binding_cache_init mn fac" ops]
  by (simp add: binding_cache_init_def table_def)

text \<open>C14. A producer sends each unit at the shortest period anybody asked for, from one thread,
  and has no thread for a unit nobody wants: after any history the periods of the sender
  threads are the minima over the bindings.\<close>

theorem sender_periods:
  "map_option t_period_us (map_of (bc_threads (cache_run ops (binding_cache_init mn fac))) u)
   = (if u \<in> b_unit ` set (bc_bindings (cache_run ops (binding_cache_init mn fac)))
      then Some (Min (b_period_us ` {b \<in> set (bc_bindings (cache_run ops (binding_cache_init mn fac))).
                                       b_unit b = u}))
      else None)"
proof -
  let ?c = "cache_run ops (binding_cache_init mn fac)"
  have ok: "cache_ok ?c" by (rule cache_ok_run [OF cache_ok_init])
  show ?thesis
  proof (cases "u \<in> b_unit ` set (bc_bindings ?c)")
    case True
    let ?f = "filter (\<lambda>b. b_unit b = u) (bc_bindings ?c)"
    have "?f \<noteq> []" using True by (auto simp: filter_empty_conv)
    then have "shortest_locked u (bc_bindings ?c) = Min (b_period_us ` set ?f)"
      using shortest_of_Min [of ?f 0] ok by (simp add: shortest_locked_def cache_ok_def)
    then show ?thesis using ok True by (simp add: cache_ok_def)
  next
    case False
    then show ?thesis using ok by (simp add: cache_ok_def)
  qed
qed

subsection \<open>How long an interest lives\<close>

primrec touches :: "unit_code \<times> address \<Rightarrow> cache_op \<Rightarrow> bool" where
  "touches k (Interest _ u a _) = (k = (u, a))"
| "touches k (Disinterest u a) = (k = (u, a))"
| "touches k Clear = True"
| "touches k (Reap _) = False"

lemma untouched_survives:
  assumes "m k = Some v" and "\<forall>x \<in> set ops. \<not> touches k x"
  shows "fold map_op (map (as_update c) ops) m k
    = (if \<exists>now. Reap now \<in> set ops \<and> snd v < now then None else Some v)"
  using assms
proof (induction ops arbitrary: m)
  case (Cons x ops)
  have gone: "fold map_op (map (as_update c) ops) m' k = None"
    if "m' k = None" "\<forall>x \<in> set ops. \<not> touches k x" for m' ops
    using that
  proof (induction ops arbitrary: m')
    case (Cons y ys)
    have "map_op (as_update c y) m' k = None" using Cons.prems by (cases y) auto
    then show ?case using Cons by simp
  qed simp
  show ?case
  proof (cases "\<exists>now. x = Reap now \<and> snd v < now")
    case True
    then have "map_op (as_update c x) m k = None" using Cons.prems(1) by auto
    then show ?thesis using gone [of "map_op (as_update c x) m" ops] True Cons.prems(2) by auto
  next
    case False
    then have "map_op (as_update c x) m k = Some v" using Cons.prems by (cases x) (auto split: option.splits)
    then show ?thesis using Cons.IH [of "map_op (as_update c x) m"] False Cons.prems(2) by auto
  qed
qed simp

lemma expiry_no_overflow:
  assumes "uint p < 2 ^ 50" and "0 \<le> now" and "now < 2 ^ 62"
  shows "expiry_for now p (binding_cache_init BINDING_LIFETIME_MIN_US BINDING_LIFETIME_FACTOR)
     = now + 1000 * max 3500000 (4 * uint p)"
proof -
  have u: "uint (ucast (BINDING_LIFETIME_FACTOR) * p) = 4 * uint p"
    using assms(1) by (simp add: BINDING_LIFETIME_FACTOR_def uint_word_ariths)
  let ?life = "if ucast BINDING_LIFETIME_FACTOR * p < BINDING_LIFETIME_MIN_US
      then BINDING_LIFETIME_MIN_US else ucast BINDING_LIFETIME_FACTOR * p"
  have ul: "uint ?life = max 3500000 (4 * uint p)"
    using u by (auto simp: word_less_def BINDING_LIFETIME_MIN_US_def max_def)
  have "sint ?life = uint ?life"
    unfolding sint_uint by (rule signed_take_bit_int_eq_self) (use ul assms(1) in auto)
  then have "sint ?life = max 3500000 (4 * uint p)" using ul by simp
  then have e: "expiry_for now p (binding_cache_init BINDING_LIFETIME_MIN_US BINDING_LIFETIME_FACTOR)
      = i64 (now + i64 (max 3500000 (4 * uint p) * 1000))"
    by (simp only: expiry_for_def binding_cache_init_def binding_cache.simps Let_def)
  have b: "0 \<le> max 3500000 (4 * uint p)" "max 3500000 (4 * uint p) < 2 ^ 52" using assms(1) by auto
  have "i64 (max 3500000 (4 * uint p) * 1000) = max 3500000 (4 * uint p) * 1000"
    by (rule i64_id) (use b in \<open>simp add: in_i64_def\<close>)
  moreover have "i64 (now + max 3500000 (4 * uint p) * 1000) = now + max 3500000 (4 * uint p) * 1000"
    by (rule i64_id) (use b assms(2,3) in \<open>simp add: in_i64_def\<close>)
  ultimately show ?thesis using e by simp
qed

text \<open>C40. An interest registered at \<open>t0\<close> lives for four periods, and at least 3.5 s: while
  nobody renews, withdraws or clears it, it is in the table exactly until the first reaper
  wake-up after that time, whatever happens to other interests.\<close>

theorem binding_lifetime:
  assumes "p \<noteq> 0" and "uint p < 2 ^ 50" and "0 \<le> t0" and "t0 < 2 ^ 62"
    and "\<forall>x \<in> set post. \<not> touches (u, a) x"
  shows "table b_key b_val (bc_bindings (cache_run (pre @ Interest t0 u a p # post)
        (binding_cache_init BINDING_LIFETIME_MIN_US BINDING_LIFETIME_FACTOR))) (u, a)
    = (if \<exists>now. Reap now \<in> set post \<and> t0 + 1000 * max 3500000 (4 * uint p) < now
       then None else Some (p, t0 + 1000 * max 3500000 (4 * uint p)))"
proof -
  let ?i = "binding_cache_init BINDING_LIFETIME_MIN_US BINDING_LIFETIME_FACTOR"
  let ?m = "fold map_op (map (as_update ?i) pre) Map.empty"
  have "distinct (map b_key (bc_bindings ?i))" "interests ?i = Map.empty"
    by (simp_all add: binding_cache_init_def table_def)
  then have "interests (cache_run (pre @ Interest t0 u a p # post) ?i)
      = fold map_op (map (as_update ?i) post) (?m((u, a) \<mapsto> (p, t0 + 1000 * max 3500000 (4 * uint p))))"
    using cache_run_refines(2) [of ?i "pre @ Interest t0 u a p # post"] assms(1)
      expiry_no_overflow [OF assms(2-4)] by simp
  then show ?thesis
    using untouched_survives [of "?m((u, a) \<mapsto> (p, t0 + 1000 * max 3500000 (4 * uint p)))" "(u, a)" _ post ?i]
      assms(5) by simp
qed

lemma binding_lifetime_witness:
  "table b_key b_val (bc_bindings (cache_run
     ([] @ Interest 0 SPEED null_address 100000 # [Reap 1000000000, Reap 3600000000])
     (binding_cache_init BINDING_LIFETIME_MIN_US BINDING_LIFETIME_FACTOR))) (SPEED, null_address) = None"
  by (subst binding_lifetime) auto

end
