(* ===== verification/Reaper.thy ===== *)
theory Reaper
  imports Binding_Cache
begin

section \<open>The reaper of a binding cache\<close>

text \<open>
  The thread of \<open>Binding_Cache\<close> that removes expired interests (\<open>reap_loop\<close> in
  \<open>src/communication/smart_data/binding_cache.h\<close>), beside the operations other threads run on the
  table and the destructor that stops it: a step per reading of \<open>_running\<close>, per slice of sleep and
  per critical section. Instants are those of the steady clock the sleep runs on, in nanoseconds; what the
  reaper compares the expiries with is \<open>Clock::now_ns\<close>, the clock the synchronisation sets. The period and
  \<open>slept\<close> are microseconds.
\<close>

subsection \<open>The loop\<close>

datatype reaper_pc =
    Outer
  | Inner
  | Napping nat int
  | Testing
  | Reaping int
  | Gone

text \<open>
  \<open>Reaping t\<close>: the thread has read \<open>t\<close> from \<open>Clock::now_ns\<close> and asks for the mutex. \<open>rp_reaps\<close> are the
  instants of those readings with what was read, \<open>rp_naps\<close> counts the slices slept since the last of them
  (ghosts).
\<close>

record reaper =
  rp_pc :: reaper_pc
  rp_running :: bool
  rp_slept :: nat
  rp_now :: int
  rp_cache :: binding_cache
  rp_reaps :: "(int \<times> int) list"
  rp_naps :: nat

datatype reaper_label =
    Reaper_Turn int int
  | Cache_Op cache_op
  | Reaper_Stop

text \<open>A turn at the steady instant \<open>now\<close>, when \<open>Clock::now_ns\<close> is \<open>reading\<close>.\<close>

definition reaper_turn :: "nat \<Rightarrow> int \<Rightarrow> int \<Rightarrow> reaper \<Rightarrow> reaper option" where
  "reaper_turn period now reading s =
     (if rp_now s \<le> now then
        (case rp_pc s of
           Outer \<Rightarrow> Some (if rp_running s then s\<lparr>rp_pc := Inner, rp_slept := 0, rp_naps := 0, rp_now := now\<rparr>
                          else s\<lparr>rp_pc := Gone, rp_now := now\<rparr>)
         | Inner \<Rightarrow>
             (if rp_running s \<and> rp_slept s < period
              then let step = (if period - rp_slept s > 50000 then 50000 else period - rp_slept s)
                   in Some (s\<lparr>rp_pc := Napping step (now + int step * 1000), rp_now := now\<rparr>)
              else Some (s\<lparr>rp_pc := Testing, rp_now := now\<rparr>))
         | Napping step until \<Rightarrow>
             (if until \<le> now
              then Some (s\<lparr>rp_pc := Inner, rp_slept := rp_slept s + step, rp_naps := rp_naps s + 1, rp_now := now\<rparr>)
              else None)
         | Testing \<Rightarrow>
             (if \<not> rp_running s then Some (s\<lparr>rp_pc := Gone, rp_now := now\<rparr>)
              else Some (s\<lparr>rp_pc := Reaping reading, rp_reaps := rp_reaps s @ [(now, reading)], rp_now := now\<rparr>))
         | Reaping t \<Rightarrow> Some (s\<lparr>rp_pc := Outer, rp_cache := reap t (rp_cache s), rp_now := now\<rparr>)
         | Gone \<Rightarrow> None)
      else None)"

definition reaper_step :: "nat \<Rightarrow> reaper_label \<Rightarrow> reaper \<Rightarrow> reaper option" where
  "reaper_step period l s =
     (case l of
        Reaper_Turn now reading \<Rightarrow> reaper_turn period now reading s
      | Cache_Op op \<Rightarrow> Some (s\<lparr>rp_cache := cache_step op (rp_cache s)\<rparr>)
      | Reaper_Stop \<Rightarrow> Some (s\<lparr>rp_running := False\<rparr>))"

primrec reaper_run :: "nat \<Rightarrow> reaper_label list \<Rightarrow> reaper \<Rightarrow> reaper option" where
  "reaper_run period [] s = Some s"
| "reaper_run period (l # ls) s = (case reaper_step period l s of None \<Rightarrow> None | Some s' \<Rightarrow> reaper_run period ls s')"


text \<open>The destructor, once the thread has returned.\<close>

definition binding_cache_close :: "reaper \<Rightarrow> reaper option" where
  "binding_cache_close s =
     (if rp_pc s = Gone then Some (s\<lparr>rp_cache := cache_clear (rp_cache s)\<rparr>) else None)"


subsection \<open>The destructor\<close>

definition wake_by :: "reaper \<Rightarrow> int" where
  "wake_by s = (case rp_pc s of Napping _ until \<Rightarrow> max (rp_now s) until | _ \<Rightarrow> rp_now s)"

text \<open>Once \<open>_running\<close> is cleared, three turns at the end of the current slice are enough for the join, and the
  destructor leaves neither bindings nor sender threads.\<close>

lemma reaper_closes:
  assumes "\<not> rp_running s"
  shows "\<exists>n s' s''. n \<le> 3 \<and> reaper_run period (replicate n (Reaper_Turn (wake_by s) reading)) s = Some s'
     \<and> binding_cache_close s' = Some s'' \<and> bc_bindings (rp_cache s'') = [] \<and> bc_threads (rp_cache s'') = []"
proof -
  let ?t = "Reaper_Turn (wake_by s) reading"
  note d = reaper_step_def reaper_turn_def wake_by_def
  have "\<exists>n \<le> 3. \<exists>s'. reaper_run period (replicate n ?t) s = Some s' \<and> rp_pc s' = Gone"
  proof (cases "rp_pc s")
    case Outer
    then show ?thesis using assms by (intro exI [of _ "1 :: nat"]) (simp add: d)
  next
    case Inner
    then show ?thesis using assms by (intro exI [of _ "2 :: nat"]) (simp add: d numeral_eq_Suc)
  next
    case (Napping st until)
    then show ?thesis using assms by (intro exI [of _ "3 :: nat"]) (simp add: d numeral_eq_Suc)
  next
    case Testing
    then show ?thesis using assms by (intro exI [of _ "1 :: nat"]) (simp add: d)
  next
    case (Reaping t)
    then show ?thesis using assms by (intro exI [of _ "2 :: nat"]) (simp add: d numeral_eq_Suc)
  next
    case Gone
    then show ?thesis by (intro exI [of _ "0 :: nat"]) simp
  qed
  then obtain n s' where "n \<le> 3" "reaper_run period (replicate n ?t) s = Some s'" "rp_pc s' = Gone" by blast
  then show ?thesis by (intro exI [of _ n] exI [of _ s'] exI [of _ "s'\<lparr>rp_cache := cache_clear (rp_cache s')\<rparr>"])
    (simp add: binding_cache_close_def cache_clear_def)
qed

subsection \<open>How often it runs\<close>
























end
