(* ===== verification/Communicator.thy ===== *)
theory Communicator
  imports "HOL-Library.Multiset" Observers Address Clock
begin

section \<open>Messages and the communicator\<close>

text \<open>
  \<open>src/communication/message/message_header.h\<close>, \<open>message.h\<close> and \<open>src/communication/communicator.h\<close>.
  A \<open>TypedMessage\<close> is its header fields and the bytes of its payload object; a \<open>Message *\<close> is an
  index into a heap that remembers every \<open>delete\<close>, so that leaks and double deletes can be
  stated. The communicator is generic in its channel, as the class is.
\<close>

subsection \<open>Messages\<close>

definition MESSAGE_MAX_SIZE :: nat where "MESSAGE_MAX_SIZE = 1400"
definition MESSAGE_QUADRANT_NONE :: u8 where "MESSAGE_QUADRANT_NONE = 0xFF"
definition MESSAGE_STANDARD :: u8 where "MESSAGE_STANDARD = 0x00"

record message =
  m_address :: address
  m_quadrant :: u8
  m_timestamp :: int
  m_type :: u8
  m_size :: u32
  m_payload :: "u8 list"

text \<open>
  The constructors leave quadrant and timestamp of the origin uninitialised: \<open>junk\<close> is what is
  there. \<open>size_of\<close> is \<open>sizeof(PayloadType)\<close>.
\<close>

definition message_default :: "u8 \<times> int \<Rightarrow> nat \<Rightarrow> message" where
  "message_default junk size_of =
     \<lparr>m_address = null_address, m_quadrant = fst junk, m_timestamp = snd junk,
      m_type = MESSAGE_STANDARD, m_size = of_nat MESSAGE_MAX_SIZE, m_payload = replicate size_of 0\<rparr>"

text \<open>\<open>TypedMessage(data, size)\<close> for the raw payload; \<open>data\<close> holds at least \<open>size\<close> bytes.\<close>

definition message_of_bytes :: "u8 \<times> int \<Rightarrow> u8 list option \<Rightarrow> nat \<Rightarrow> message" where
  "message_of_bytes junk data sz =
     (let m = (message_default junk MESSAGE_MAX_SIZE)\<lparr>m_size := of_nat sz\<rparr> in
      case data of
        None \<Rightarrow> m
      | Some bs \<Rightarrow>
          if sz = 0 then m
          else let n = min sz MESSAGE_MAX_SIZE
               in m\<lparr>m_size := of_nat n, m_payload := memcpy_at 0 (take n bs) (m_payload m)\<rparr>)"

definition message_of_payload :: "u8 \<times> int \<Rightarrow> u8 list \<Rightarrow> message" where
  "message_of_payload junk bs =
     (message_default junk (length bs))\<lparr>m_size := of_nat (length bs), m_payload := bs\<rparr>"

definition message_bytes :: "message \<Rightarrow> u8 list" where
  "message_bytes m = take (unat (m_size m)) (m_payload m)"

lemma message_of_payload_bytes:
  "length bs \<le> MESSAGE_MAX_SIZE \<Longrightarrow> message_bytes (message_of_payload junk bs) = bs"
  by (simp add: message_bytes_def message_of_payload_def message_default_def MESSAGE_MAX_SIZE_def
      unat_of_nat)

lemma message_of_bytes_bytes:
  "sz \<le> length bs \<Longrightarrow> sz < 2 ^ 32 \<Longrightarrow>
     message_bytes (message_of_bytes junk (Some bs) sz) = take (min sz MESSAGE_MAX_SIZE) bs"
  by (auto simp: message_bytes_def message_of_bytes_def message_default_def MESSAGE_MAX_SIZE_def
      unat_of_nat Let_def memcpy_at_def min_def)

subsection \<open>Messages on the heap\<close>

record heap =
  h_cells :: "message list"
  h_deleted :: "nat list"

definition new_message :: "message \<Rightarrow> heap \<Rightarrow> nat \<times> heap" where
  "new_message m h = (length (h_cells h), h\<lparr>h_cells := h_cells h @ [m]\<rparr>)"

definition delete_message :: "nat \<Rightarrow> heap \<Rightarrow> heap" where
  "delete_message i h = h\<lparr>h_deleted := h_deleted h @ [i]\<rparr>"

subsection \<open>The channel\<close>

text \<open>
  What the communicator calls on its channel: \<open>'w\<close> is the state of the channel, \<open>'b\<close> its
  buffers. \<open>receive\<close> returns its result and, unless it is -1 for want of a buffer or header,
  source, timestamp, quadrant and the bytes copied.
\<close>

record ('b, 'w) channel_ops =
  ch_send :: "address \<Rightarrow> address \<Rightarrow> u8 list \<Rightarrow> int \<Rightarrow> 'w \<Rightarrow> int \<times> 'w"
  ch_receive :: "'b \<Rightarrow> nat \<Rightarrow> 'w \<Rightarrow> (int \<times> (address \<times> int \<times> u8 \<times> u8 list) option) \<times> 'w"
  ch_attach :: "u16 \<Rightarrow> 'w \<Rightarrow> 'w"
  ch_detach :: "u16 \<Rightarrow> 'w \<Rightarrow> 'w"

text \<open>
  The communicator with what its calls reach: its observers, the queue of the legacy
  \<open>receive\<close>, the heap, the static last stamp of the clock, the channel and, as \<open>'x\<close>, the state
  of its observers.
\<close>

record ('s, 'b, 'w, 'x) communicator =
  cm_address :: address
  cm_subscribed :: bool
  cm_observers :: "('s, u16) observers"
  cm_queue :: "'b observer_queue"
  cm_heap :: heap
  cm_stamp :: int
  cm_channel :: 'w
  cm_clients :: 'x

definition comm_init ::
  "('b, 'w) channel_ops \<Rightarrow> address \<Rightarrow> bool \<Rightarrow> heap \<Rightarrow> int \<Rightarrow> 'w \<Rightarrow> 'x \<Rightarrow> ('s, 'b, 'w, 'x) communicator"
where
  "comm_init ops addr subscribe h stamp w x =
     (let w1 = ch_attach ops (a_port addr) w;
          w2 = (if subscribe then ch_attach ops (a_port logical_broadcast) w1 else w1)
      in \<lparr>cm_address = addr, cm_subscribed = subscribe, cm_observers = [],
          cm_queue = \<lparr>q_sem = 0, q_data = []\<rparr>, cm_heap = h, cm_stamp = stamp,
          cm_channel = w2, cm_clients = x\<rparr>)"

definition comm_close :: "('b, 'w) channel_ops \<Rightarrow> ('s, 'b, 'w, 'x) communicator \<Rightarrow> 'w" where
  "comm_close ops c =
     (let w1 = ch_detach ops (a_port (cm_address c)) (cm_channel c)
      in if cm_subscribed c then ch_detach ops (a_port logical_broadcast) w1 else w1)"

definition broadcast_condition :: u16 where
  "broadcast_condition = a_port logical_broadcast"

subsection \<open>Sending\<close>

definition comm_send ::
  "('b, 'w) channel_ops \<Rightarrow> int \<Rightarrow> message \<Rightarrow> ('s, 'b, 'w, 'x) communicator
     \<Rightarrow> bool \<times> message \<times> ('s, 'b, 'w, 'x) communicator"
where
  "comm_send ops now m c =
     (case monotonic_stamp now (cm_stamp c) of (ts, last_ts) \<Rightarrow>
        let m1 = m\<lparr>m_timestamp := ts\<rparr> in
        case ch_send ops (cm_address c) logical_broadcast (message_bytes m1) (m_timestamp m1) (cm_channel c) of
          (r, w) \<Rightarrow> (r > 0, m1, c\<lparr>cm_stamp := last_ts, cm_channel := w\<rparr>))"

subsection \<open>Receiving\<close>

text \<open>What \<open>receive\<close> and \<open>update\<close> store in a message after the channel's \<open>receive\<close>.\<close>

definition fill_message ::
  "int \<Rightarrow> (address \<times> int \<times> u8 \<times> u8 list) option \<Rightarrow> message \<Rightarrow> message"
where
  "fill_message sz got m =
     (case got of
        None \<Rightarrow> m\<lparr>m_size := of_int sz, m_address := null_address, m_timestamp := 0,
                  m_quadrant := MESSAGE_QUADRANT_NONE\<rparr>
      | Some (from_addr, ts, q, data) \<Rightarrow>
          m\<lparr>m_size := of_int sz, m_address := from_addr, m_timestamp := ts, m_quadrant := q,
            m_payload := memcpy_at 0 data (m_payload m)\<rparr>)"

text \<open>
  The blocking \<open>receive\<close>: \<open>None\<close> when the queue is empty and the call does not return.
  \<open>size_of\<close> is \<open>sizeof(Payload)\<close>.
\<close>

definition comm_receive ::
  "('b, 'w) channel_ops \<Rightarrow> nat \<Rightarrow> message \<Rightarrow> ('s, 'b, 'w, 'x) communicator
     \<Rightarrow> (bool \<times> message \<times> ('s, 'b, 'w, 'x) communicator) option"
where
  "comm_receive ops size_of m c =
     (case co_updated (-1) (cm_queue c) of
        None \<Rightarrow> None
      | Some (None, q) \<Rightarrow> Some (False, m, c\<lparr>cm_queue := q\<rparr>)
      | Some (Some buf, q) \<Rightarrow>
          (case ch_receive ops buf size_of (cm_channel c) of ((sz, got), w) \<Rightarrow>
             Some (sz > 0, fill_message sz got m, c\<lparr>cm_queue := q, cm_channel := w\<rparr>)))"

text \<open>\<open>update\<close>, called by the channel; \<open>upd\<close> is the observers' \<open>update\<close>.\<close>

definition comm_update ::
  "('b, 'w) channel_ops \<Rightarrow> ('s \<Rightarrow> u16 \<Rightarrow> nat \<Rightarrow> ('s, 'b, 'w, 'x) communicator \<Rightarrow> ('s, 'b, 'w, 'x) communicator)
     \<Rightarrow> u8 \<times> int \<Rightarrow> u16 \<Rightarrow> 'b \<Rightarrow> ('s, 'b, 'w, 'x) communicator \<Rightarrow> ('s, 'b, 'w, 'x) communicator"
where
  "comm_update ops upd junk cond buf c =
     (if has_observer cond (cm_observers c)
      then (case ch_receive ops buf MESSAGE_MAX_SIZE (cm_channel c) of ((sz, got), w) \<Rightarrow>
              case new_message (fill_message sz got (message_default junk MESSAGE_MAX_SIZE)) (cm_heap c) of
                (i, h) \<Rightarrow>
                  let c1 = c\<lparr>cm_channel := w, cm_heap := h\<rparr> in
                  if sz \<le> 0 then c1\<lparr>cm_heap := delete_message i (cm_heap c1)\<rparr>
                  else case co_notify cm_observers upd cond i c1 of (notified, c2) \<Rightarrow>
                    if \<not> notified then c2\<lparr>cm_heap := delete_message i (cm_heap c2)\<rparr> else c2)
      else c\<lparr>cm_queue := co_update buf (cm_queue c)\<rparr>)"

subsection \<open>What the channel promises\<close>

text \<open>
  \<open>ok w\<close> is the channel's invariant, \<open>holds b w\<close> that buffer \<open>b\<close> is with the communicator. The
  bytes \<open>receive\<close> reports are the bytes it copied, never more than asked for; the buffer is no
  longer held afterwards, and other buffers are.
\<close>

locale channel =
  fixes ops :: "('b, 'w) channel_ops"
    and ok :: "'w \<Rightarrow> bool"
    and holds :: "'b \<Rightarrow> 'w \<Rightarrow> bool"
  assumes recv_data: "ok w \<Longrightarrow> holds b w \<Longrightarrow> ch_receive ops b sz w = ((n, Some (a, t, q, d)), w')
      \<Longrightarrow> n = int (length d) \<and> length d \<le> sz"
    and recv_none: "ok w \<Longrightarrow> holds b w \<Longrightarrow> ch_receive ops b sz w = ((n, None), w') \<Longrightarrow> n = -1"
    and recv_ok: "ok w \<Longrightarrow> holds b w \<Longrightarrow> ch_receive ops b sz w = (r, w')
      \<Longrightarrow> ok w' \<and> \<not> holds b w' \<and> (\<forall>b'. b' \<noteq> b \<longrightarrow> holds b' w' = holds b' w)"
begin

text \<open>A message filled by the channel: the size field counts payload bytes that are there.\<close>

lemma filled_message:
  assumes "ok w" and "holds b w" and "sz \<le> MESSAGE_MAX_SIZE"
    and "ch_receive ops b sz w = ((n, got), w')" and "0 < n" and "length (m_payload m) = MESSAGE_MAX_SIZE"
  shows "\<exists>a t q d. got = Some (a, t, q, d) \<and> message_bytes (fill_message n got m) = d
     \<and> length (m_payload (fill_message n got m)) = MESSAGE_MAX_SIZE"
proof (cases got)
  case None
  then show ?thesis using recv_none [OF assms(1,2)] assms(4,5) by fastforce
next
  case (Some g)
  obtain a t q d where g: "g = (a, t, q, d)" by (cases g) auto
  have n: "n = int (length d)" "length d \<le> MESSAGE_MAX_SIZE"
    using recv_data [OF assms(1,2)] assms(3,4) Some g by fastforce+
  then have "unat (of_int n :: u32) = length d" by (simp add: MESSAGE_MAX_SIZE_def unat_of_nat)
  then show ?thesis using Some g n(2) assms(6)
    by (simp add: fill_message_def message_bytes_def memcpy_at_def)
qed

end

subsection \<open>What the observers promise\<close>

text \<open>
  An observer's \<open>update\<close> either deletes the message it is given or queues it: \<open>pending\<close> are the
  messages in the queues of the observers.
\<close>

definition accounted :: "('x \<Rightarrow> nat list) \<Rightarrow> ('s, 'b, 'w, 'x) communicator \<Rightarrow> nat multiset" where
  "accounted pending c = mset (h_deleted (cm_heap c)) + mset (pending (cm_clients c))"

locale message_observer =
  fixes upd :: "'s \<Rightarrow> u16 \<Rightarrow> nat \<Rightarrow> ('s, 'b, 'w, 'x) communicator \<Rightarrow> ('s, 'b, 'w, 'x) communicator"
    and pending :: "'x \<Rightarrow> nat list"
    and here :: "'s \<Rightarrow> ('s, 'b, 'w, 'x) communicator \<Rightarrow> bool"
  assumes takes: "here ob c \<Longrightarrow> accounted pending (upd ob cond i c) = add_mset i (accounted pending c)"
    and stays: "here ob c \<Longrightarrow> here ob' c \<Longrightarrow> here ob' (upd ob cond i c)"
    and keeps: "here ob c \<Longrightarrow> h_cells (cm_heap (upd ob cond i c)) = h_cells (cm_heap c)"
begin

lemma notified_all:
  assumes "\<forall>ob \<in> set obs. here ob c"
  shows "accounted pending (fold (\<lambda>ob. upd ob cond i) obs c)
      = accounted pending c + replicate_mset (length obs) i
    \<and> h_cells (cm_heap (fold (\<lambda>ob. upd ob cond i) obs c)) = h_cells (cm_heap c)"
  using assms
proof (induction obs arbitrary: c)
  case (Cons ob obs)
  then show ?case using Cons.IH [of "upd ob cond i c"] by (simp add: takes stays keeps)
qed simp

lemma update_accounts_messages:
  assumes "\<forall>ob \<in> set (targets_of cond (cm_observers c)). here ob c"
    and here_frame: "\<And>ob w h. here ob c \<Longrightarrow> here ob (c\<lparr>cm_channel := w, cm_heap := h\<rparr>)"
    and seen: "has_observer cond (cm_observers c)"
    and recv: "ch_receive ops buf MESSAGE_MAX_SIZE (cm_channel c) = ((sz, got), w)"
  shows "accounted pending (comm_update ops upd junk cond buf c)
      = accounted pending c
        + replicate_mset (if sz \<le> 0 then 1 else length (targets_of cond (cm_observers c)))
            (length (h_cells (cm_heap c)))"
proof -
  let ?m = "fill_message sz got (message_default junk MESSAGE_MAX_SIZE)"
  let ?h = "(cm_heap c)\<lparr>h_cells := h_cells (cm_heap c) @ [?m]\<rparr>"
  let ?c1 = "c\<lparr>cm_channel := w, cm_heap := ?h\<rparr>"
  have ne: "targets_of cond (cm_observers c) \<noteq> []" using seen by (simp add: has_observer_targets)
  have acc: "accounted pending ?c1 = accounted pending c" by (simp add: accounted_def)
  have "accounted pending (fold (\<lambda>ob. upd ob cond (length (h_cells (cm_heap c))))
      (targets_of cond (cm_observers c)) ?c1)
    = accounted pending c + replicate_mset (length (targets_of cond (cm_observers c))) (length (h_cells (cm_heap c)))"
    using notified_all [of "targets_of cond (cm_observers c)" ?c1] assms(1) here_frame acc by simp
  then show ?thesis
    using seen recv ne
    by (auto simp: comm_update_def new_message_def co_notify_targets Let_def delete_message_def accounted_def)
qed

end

end
