(* ===== verification/Message_Header.thy ===== *)
theory Message_Header
  imports Communicator
begin

section \<open>The accessors of a message\<close>

text \<open>
  The read and write operations of \<open>src/communication/message/message_header.h\<close> and \<open>message.h\<close> on
  the record \<open>message\<close> of \<open>Communicator\<close>. What the code expects of a pair of accessors is a locale;
  two of them that do not overlap may be called in any order.
\<close>

subsection \<open>The interface\<close>

locale field =
  fixes get :: "'s \<Rightarrow> 'v" and put :: "'v \<Rightarrow> 's \<Rightarrow> 's"
  assumes get_put: "get (put v s) = v"
    and put_get: "put (get s) s = s"
    and put_put: "put v (put w s) = put v s"
begin

lemma put_same: "put v s = s \<longleftrightarrow> get s = v"
  using get_put put_get by metis

lemma put_cong: "put v s = put w s \<longleftrightarrow> v = w"
  using get_put by metis

end

locale disjoint_fields = a: field get_a put_a + b: field get_b put_b
  for get_a :: "'s \<Rightarrow> 'v" and put_a and get_b :: "'s \<Rightarrow> 'w" and put_b +
  assumes commute: "put_a v (put_b w s) = put_b w (put_a v s)"
begin

lemma get_a_put_b: "get_a (put_b w s) = get_a s"
  using commute a.get_put a.put_get by metis

lemma get_b_put_a: "get_b (put_a v s) = get_b s"
  using commute b.get_put b.put_get by metis

end

subsection \<open>The origin\<close>

record origin =
  og_address :: address
  og_quadrant :: u8

definition origin_port :: "origin \<Rightarrow> u16" where
  "origin_port o1 = a_port (og_address o1)"

definition origin_physical_address :: "origin \<Rightarrow> mac" where
  "origin_physical_address o1 = a_paddr (og_address o1)"

definition message_origin :: "message \<Rightarrow> origin" where
  "message_origin m = \<lparr>og_address = m_address m, og_quadrant = m_quadrant m\<rparr>"

definition message_set_origin :: "origin \<Rightarrow> message \<Rightarrow> message" where
  "message_set_origin o1 m = m\<lparr>m_address := og_address o1, m_quadrant := og_quadrant o1\<rparr>"

subsection \<open>The other fields\<close>

definition message_get_size :: "message \<Rightarrow> u32" where "message_get_size m = m_size m"
definition message_get_address :: "message \<Rightarrow> address" where "message_get_address m = og_address (message_origin m)"
definition message_get_quadrant :: "message \<Rightarrow> u8" where "message_get_quadrant m = og_quadrant (message_origin m)"
definition message_get_timestamp :: "message \<Rightarrow> int" where "message_get_timestamp m = m_timestamp m"
definition message_get_type :: "message \<Rightarrow> u8" where "message_get_type m = m_type m"
definition message_data :: "message \<Rightarrow> u8 list" where "message_data m = m_payload m"

definition message_set_type :: "u8 \<Rightarrow> message \<Rightarrow> message" where "message_set_type t m = m\<lparr>m_type := t\<rparr>"
definition message_set_size :: "u32 \<Rightarrow> message \<Rightarrow> message" where "message_set_size n m = m\<lparr>m_size := n\<rparr>"
definition message_set_address :: "address \<Rightarrow> message \<Rightarrow> message" where
  "message_set_address a m = message_set_origin ((message_origin m)\<lparr>og_address := a\<rparr>) m"
definition message_set_quadrant :: "u8 \<Rightarrow> message \<Rightarrow> message" where
  "message_set_quadrant q m = message_set_origin ((message_origin m)\<lparr>og_quadrant := q\<rparr>) m"
definition message_set_timestamp :: "int \<Rightarrow> message \<Rightarrow> message" where "message_set_timestamp t m = m\<lparr>m_timestamp := t\<rparr>"

text \<open>\<open>MessageHeader(size)\<close>, which the constructors with a size start from.\<close>

definition message_header_sized :: "u8 \<times> int \<Rightarrow> u32 \<Rightarrow> message" where
  "message_header_sized junk sz = (message_default junk 0)\<lparr>m_size := sz, m_type := MESSAGE_STANDARD\<rparr>"

lemmas accessor_defs = message_get_size_def message_get_address_def message_get_quadrant_def
  message_get_timestamp_def message_get_type_def message_set_type_def message_set_size_def message_set_address_def
  message_set_quadrant_def message_set_timestamp_def message_origin_def message_set_origin_def

interpretation origin_field: field message_origin message_set_origin
  by unfold_locales (simp_all add: accessor_defs)

interpretation type_field: field message_get_type message_set_type
  by unfold_locales (simp_all add: accessor_defs)

interpretation size_address: disjoint_fields message_get_size message_set_size message_get_address message_set_address
  by unfold_locales (simp_all add: accessor_defs)

interpretation timestamp_quadrant: disjoint_fields
  message_get_timestamp message_set_timestamp message_get_quadrant message_set_quadrant
  by unfold_locales (simp_all add: accessor_defs)

interpretation address_quadrant: disjoint_fields
  message_get_address message_set_address message_get_quadrant message_set_quadrant
  by unfold_locales (simp_all add: accessor_defs)

subsection \<open>Filling a received message\<close>

text \<open>\<open>Communicator::receive\<close> and \<open>update\<close> fill a message with four calls; the bytes go where
  \<open>data()\<close> points.\<close>

definition set_received :: "int \<Rightarrow> address \<Rightarrow> int \<Rightarrow> u8 \<Rightarrow> message \<Rightarrow> message" where
  "set_received sz from_addr ts q m =
     message_set_quadrant q (message_set_timestamp ts (message_set_address from_addr (message_set_size (of_int sz) m)))"

lemma fill_message_by_setters:
  "fill_message sz None m = set_received sz null_address 0 MESSAGE_QUADRANT_NONE m"
  "fill_message sz (Some (from_addr, ts, q, bs)) m
     = set_received sz from_addr ts q (m\<lparr>m_payload := memcpy_at 0 bs (message_data m)\<rparr>)"
  by (simp_all add: fill_message_def set_received_def accessor_defs message_data_def)

lemma message_of_payload_header:
  "message_get_size (message_of_payload junk bs) = message_get_size (message_header_sized junk (of_nat (length bs)))"
  "message_get_type (message_of_payload junk bs) = message_get_type (message_header_sized junk (of_nat (length bs)))"
  by (simp_all add: message_of_payload_def message_header_sized_def message_default_def accessor_defs)

end
