(* ===== verification/Smart_Data.thy ===== *)
theory Smart_Data
  imports Communicator Wire Binding_Cache
begin

section \<open>Smart data: producers and consumers\<close>

text \<open>
  \<open>src/communication/smart_data/smart_data.h\<close> with the data types of \<open>data_types.h\<close> (every
  \<open>Value\<close> is 8 bytes, kept as its bits) and \<open>drain_and_free\<close> of \<open>smart_helpers.h\<close>. The SmartData
  objects of a process are a list; an observer is a position in it. Clock readings are
  arguments. The callbacks only tests install (\<open>_on_response_sent\<close>, \<open>_on_disinterest\<close>) are left
  out.
\<close>

subsection \<open>State\<close>

definition INTEREST_REFRESH_US :: u64 where "INTEREST_REFRESH_US = 1000000"
definition VALUE_TTL_FACTOR :: int where "VALUE_TTL_FACTOR = 3"

definition Speed_Data :: unit_code where "Speed_Data = SPEED"
definition Lidar_Data :: unit_code where "Lidar_Data = LIDAR_DISTANCE"
definition Radar_Data :: unit_code where "Radar_Data = RADAR_DISTANCE"
definition Counter_Data :: unit_code where "Counter_Data = TEST_COUNTER"

datatype role = PRODUCER | CONSUMER

record smart_data =
  sd_unit :: unit_code
  sd_role :: role
  sd_cache :: "binding_cache option"
  sd_responses_sent :: nat
  sd_last_seen_quad :: u8
  sd_period_us :: u64
  sd_last_response_ns :: int
  sd_reissues :: nat
  sd_refresh :: bool
  sd_unsubscribed :: bool
  sd_producers :: "(u64 \<times> unit) list"
  sd_responses_received :: nat
  sd_value_mode :: bool
  sd_last_value :: u64
  sd_last_value_ns :: int
  sd_has_value :: bool
  sd_queue :: "nat observer_queue"

type_synonym ('b, 'w) process = "(nat, 'b, 'w, smart_data list) communicator"

definition smart_blank :: "unit_code \<Rightarrow> smart_data" where
  "smart_blank u =
     \<lparr>sd_unit = u, sd_role = CONSUMER, sd_cache = None, sd_responses_sent = 0, sd_last_seen_quad = 0xff,
      sd_period_us = 0, sd_last_response_ns = 0, sd_reissues = 0, sd_refresh = False,
      sd_unsubscribed = False, sd_producers = [], sd_responses_received = 0, sd_value_mode = False,
      sd_last_value = 0, sd_last_value_ns = 0, sd_has_value = False,
      sd_queue = \<lparr>q_sem = 0, q_data = []\<rparr>\<rparr>"

abbreviation smart_at :: "nat \<Rightarrow> ('b, 'w) process \<Rightarrow> smart_data" where
  "smart_at i c \<equiv> cm_clients c ! i"

definition upd_smart :: "nat \<Rightarrow> (smart_data \<Rightarrow> smart_data) \<Rightarrow> ('b, 'w) process \<Rightarrow> ('b, 'w) process" where
  "upd_smart i f c = c\<lparr>cm_clients := (cm_clients c)[i := f (cm_clients c ! i)]\<rparr>"

subsection \<open>Sending\<close>

definition interest_bytes :: "bool \<Rightarrow> smart_data \<Rightarrow> u8 list" where
  "interest_bytes disinterest sd =
     enc_interest \<lparr>im_header = \<lparr>sh_kind = INTEREST, sh_unit = sd_unit sd\<rparr>,
       im_period_us = sd_period_us sd, im_disinterest = (if disinterest then 1 else 0)\<rparr>"

definition response_bytes :: "u64 \<Rightarrow> smart_data \<Rightarrow> u8 list" where
  "response_bytes value sd =
     enc_response \<lparr>rm_header = \<lparr>sh_kind = RESPONSE, sh_unit = sd_unit sd\<rparr>, rm_value = value\<rparr>"

definition send_interest ::
  "('b, 'w) channel_ops \<Rightarrow> int \<Rightarrow> bool \<Rightarrow> nat \<Rightarrow> ('b, 'w) process \<Rightarrow> ('b, 'w) process"
where
  "send_interest ops now disinterest i c =
     snd (snd (comm_send ops now (message_of_payload (0, 0) (interest_bytes disinterest (smart_at i c))) c))"

text \<open>\<open>respond\<close>, the job of a sender thread; \<open>value\<close> is what \<open>produce()\<close> returned.\<close>

definition respond ::
  "('b, 'w) channel_ops \<Rightarrow> int \<Rightarrow> u64 \<Rightarrow> nat \<Rightarrow> ('b, 'w) process \<Rightarrow> ('b, 'w) process"
where
  "respond ops now value i c =
     upd_smart i (\<lambda>sd. sd\<lparr>sd_responses_sent := sd_responses_sent sd + 1\<rparr>)
       (snd (snd (comm_send ops now (message_of_payload (0, 0) (response_bytes value (smart_at i c))) c)))"

subsection \<open>Receiving\<close>

definition header_of :: "message \<Rightarrow> smart_header option" where
  "header_of m = (if unat (m_size m) < SMART_HEADER_LEN then None else Some (dec_smart_header (m_payload m)))"

text \<open>
  \<open>update\<close> without the pointer: whether the message is kept for the queue (otherwise the code
  deletes it), and the new state. \<open>now\<close> is read on entry to the response branch, \<open>now'\<close> for the
  value.
\<close>

definition on_interest_message :: "int \<Rightarrow> message \<Rightarrow> smart_data \<Rightarrow> smart_data" where
  "on_interest_message now m sd =
     (if unat (m_size m) \<ge> INTEREST_LEN then
        let q = m_quadrant m;
            cache = (if sd_last_seen_quad sd \<noteq> q then map_option cache_clear (sd_cache sd) else sd_cache sd);
            im = dec_interest (m_payload m)
        in sd\<lparr>sd_last_seen_quad := q,
              sd_cache := (if im_disinterest im \<noteq> 0
                           then map_option (on_disinterest (sd_unit sd) (m_address m)) cache
                           else map_option (on_interest now (sd_unit sd) (m_address m) (im_period_us im)) cache)\<rparr>
      else sd)"

definition on_response_message :: "int \<Rightarrow> int \<Rightarrow> message \<Rightarrow> smart_data \<Rightarrow> smart_data" where
  "on_response_message now now' m sd =
     (let sd1 = sd\<lparr>sd_last_response_ns := now,
                   sd_producers := om_put (mac_key (a_paddr (m_address m))) () (sd_producers sd),
                   sd_responses_received := sd_responses_received sd + 1\<rparr>
      in if unat (m_size m) \<ge> RESPONSE_LEN
         then sd1\<lparr>sd_last_value := rm_value (dec_response (m_payload m)), sd_last_value_ns := now',
                  sd_has_value := True\<rparr>
         else sd1)"

definition smart_handle :: "int \<Rightarrow> int \<Rightarrow> message \<Rightarrow> smart_data \<Rightarrow> bool \<times> smart_data" where
  "smart_handle now now' m sd =
     (case header_of m of
        None \<Rightarrow> (False, sd)
      | Some h \<Rightarrow>
          if sh_unit h \<noteq> sd_unit sd then (False, sd)
          else if sd_role sd = PRODUCER \<and> sh_kind h = INTEREST then (False, on_interest_message now m sd)
          else if sd_role sd = CONSUMER \<and> sh_kind h = RESPONSE
          then (\<not> sd_value_mode sd, on_response_message now now' m sd)
          else (False, sd))"

definition smart_update ::
  "int \<Rightarrow> int \<Rightarrow> nat \<Rightarrow> u16 \<Rightarrow> nat \<Rightarrow> ('b, 'w) process \<Rightarrow> ('b, 'w) process"
where
  "smart_update now now' i cond k c =
     (case smart_handle now now' (h_cells (cm_heap c) ! k) (smart_at i c) of
        (keep, sd) \<Rightarrow>
          if keep then upd_smart i (\<lambda>_. sd\<lparr>sd_queue := co_update k (sd_queue sd)\<rparr>) c
          else upd_smart i (\<lambda>_. sd) (c\<lparr>cm_heap := delete_message k (cm_heap c)\<rparr>))"

subsection \<open>Construction and destruction\<close>

definition smart_attach :: "nat \<Rightarrow> ('b, 'w) process \<Rightarrow> ('b, 'w) process" where
  "smart_attach i c = c\<lparr>cm_observers := co_attach i broadcast_condition (cm_observers c)\<rparr>"

definition new_producer :: "unit_code \<Rightarrow> ('b, 'w) process \<Rightarrow> ('b, 'w) process" where
  "new_producer u c =
     (let i = length (cm_clients c);
          sd = (smart_blank u)\<lparr>sd_role := PRODUCER,
                 sd_cache := Some (binding_cache_init BINDING_LIFETIME_MIN_US BINDING_LIFETIME_FACTOR)\<rparr>
      in smart_attach i (c\<lparr>cm_clients := cm_clients c @ [sd]\<rparr>))"

text \<open>
  \<open>now\<close> is read for \<open>_last_response_ns\<close>, \<open>n1\<close>, \<open>n2\<close>, \<open>n3\<close> are the clock at the one or three
  announcements.
\<close>

definition new_consumer ::
  "('b, 'w) channel_ops \<Rightarrow> int \<times> int \<times> int \<times> int \<Rightarrow> unit_code \<Rightarrow> u64 \<Rightarrow> bool \<Rightarrow> bool
     \<Rightarrow> ('b, 'w) process \<Rightarrow> ('b, 'w) process"
where
  "new_consumer ops clock u period_us auto_refresh value_mode c =
     (case clock of (now, n1, n2, n3) \<Rightarrow>
        let i = length (cm_clients c);
            sd = (smart_blank u)\<lparr>sd_period_us := (if period_us \<noteq> 0 then period_us else 1),
                                 sd_value_mode := value_mode\<rparr>;
            c1 = smart_attach i (c\<lparr>cm_clients := cm_clients c @ [sd]\<rparr>);
            c2 = upd_smart i (\<lambda>sd. sd\<lparr>sd_last_response_ns := now\<rparr>) c1;
            c3 = send_interest ops n1 False i c2
        in if auto_refresh then upd_smart i (\<lambda>sd. sd\<lparr>sd_refresh := True\<rparr>) c3
           else send_interest ops n3 False i (send_interest ops n2 False i c3))"

definition delete_all :: "nat list \<Rightarrow> heap \<Rightarrow> heap" where
  "delete_all ks h = fold delete_message ks h"

text \<open>\<open>drain_and_free\<close>: \<open>updated(0)\<close> until it returns \<open>nullptr\<close>.\<close>

primrec drain_and_free :: "nat \<Rightarrow> nat observer_queue \<Rightarrow> heap \<Rightarrow> (nat observer_queue \<times> heap) option" where
  "drain_and_free 0 q h = None"
| "drain_and_free (Suc fuel) q h =
     (case co_updated 0 q of
        None \<Rightarrow> None
      | Some (None, q') \<Rightarrow> Some (q', h)
      | Some (Some k, q') \<Rightarrow> drain_and_free fuel q' (delete_message k h))"

definition smart_close ::
  "('b, 'w) channel_ops \<Rightarrow> int \<Rightarrow> nat \<Rightarrow> ('b, 'w) process \<Rightarrow> ('b, 'w) process option"
where
  "smart_close ops now i c =
     (let c1 = c\<lparr>cm_observers := co_detach i broadcast_condition (cm_observers c)\<rparr>;
          c2 = (if sd_role (smart_at i c1) = CONSUMER \<and> \<not> sd_unsubscribed (smart_at i c1)
                then send_interest ops now True i c1 else c1);
          sd = (smart_at i c2)\<lparr>sd_refresh := False, sd_cache := None\<rparr>
      in case drain_and_free (Suc (q_sem (sd_queue sd))) (sd_queue sd) (cm_heap c2) of
           None \<Rightarrow> None
         | Some (q, h) \<Rightarrow> Some (upd_smart i (\<lambda>_. sd\<lparr>sd_queue := q\<rparr>) (c2\<lparr>cm_heap := h\<rparr>)))"

subsection \<open>The consumer's interface\<close>

definition smart_expired :: "int \<Rightarrow> smart_data \<Rightarrow> bool" where
  "smart_expired now sd =
     (if \<not> sd_has_value sd then True
      else i64 (now - sd_last_value_ns sd) > i64 (i64 (VALUE_TTL_FACTOR * sint (sd_period_us sd)) * 1000))"

definition smart_value :: "smart_data \<Rightarrow> u64" where
  "smart_value sd = sd_last_value sd"

definition producer_count :: "smart_data \<Rightarrow> nat" where
  "producer_count sd = length (sd_producers sd)"

definition receive_response :: "int \<Rightarrow> nat \<Rightarrow> ('b, 'w) process \<Rightarrow> (nat option \<times> ('b, 'w) process) option" where
  "receive_response timeout_ms i c =
     map_option (\<lambda>(r, q). (r, upd_smart i (\<lambda>sd. sd\<lparr>sd_queue := q\<rparr>) c))
       (co_updated timeout_ms (sd_queue (smart_at i c)))"

definition unsubscribe ::
  "('b, 'w) channel_ops \<Rightarrow> int \<times> int \<times> int \<Rightarrow> nat \<Rightarrow> ('b, 'w) process \<Rightarrow> ('b, 'w) process"
where
  "unsubscribe ops clock i c =
     (if sd_role (smart_at i c) \<noteq> CONSUMER \<or> sd_unsubscribed (smart_at i c) then c
      else case clock of (n1, n2, n3) \<Rightarrow>
        send_interest ops n3 True i (send_interest ops n2 True i (send_interest ops n1 True i
          (upd_smart i (\<lambda>sd. sd\<lparr>sd_refresh := False, sd_unsubscribed := True\<rparr>) c))))"

definition abandon :: "nat \<Rightarrow> ('b, 'w) process \<Rightarrow> ('b, 'w) process" where
  "abandon i c =
     (if sd_role (smart_at i c) \<noteq> CONSUMER then c
      else upd_smart i (\<lambda>sd. sd\<lparr>sd_refresh := False, sd_unsubscribed := True\<rparr>) c)"

text \<open>One run of the refresh thread's job; the clock is read for the test and again by the send.\<close>

definition reactive_tick ::
  "('b, 'w) channel_ops \<Rightarrow> int \<Rightarrow> int \<Rightarrow> nat \<Rightarrow> ('b, 'w) process \<Rightarrow> ('b, 'w) process"
where
  "reactive_tick ops now now' i c =
     (if i64 (now - sd_last_response_ns (smart_at i c)) \<ge> sint INTEREST_REFRESH_US * 1000
      then send_interest ops now' False i (upd_smart i (\<lambda>sd. sd\<lparr>sd_reissues := sd_reissues sd + 1\<rparr>) c)
      else c)"

end
