(* ===== verification/Smart_Behaviour.thy ===== *)
theory Smart_Behaviour
  imports Smart_Data
begin

section \<open>What producers and consumers guarantee\<close>

text \<open>
  The theorems about \<open>smart_data.h\<close>: who frees a message, what a producer makes of the interests
  it hears, what a consumer knows of the responses, and when it announces its interest again.
\<close>

subsection \<open>Where the messages are\<close>

definition smart_pending :: "smart_data list \<Rightarrow> nat list" where
  "smart_pending sds = concat (map (\<lambda>sd. q_data (sd_queue sd)) sds)"

lemma smart_pending_update:
  "i < length sds \<Longrightarrow> mset (smart_pending (sds[i := sd])) + mset (q_data (sd_queue (sds ! i)))
     = mset (smart_pending sds) + mset (q_data (sd_queue sd))"
proof (induction sds arbitrary: i)
  case (Cons x xs)
  show ?case
  proof (cases i)
    case (Suc j)
    then show ?thesis using Cons.IH [of j] Cons.prems by (simp add: smart_pending_def ac_simps)
  qed (simp add: smart_pending_def)
qed simp

lemma smart_handle_queue [simp]: "sd_queue (snd (smart_handle now now' m sd)) = sd_queue sd"
  by (simp add: smart_handle_def on_interest_message_def on_response_message_def Let_def split: option.split)

lemma upd_smart_fields [simp]:
  "cm_heap (upd_smart i f c) = cm_heap c" "cm_observers (upd_smart i f c) = cm_observers c"
  "cm_channel (upd_smart i f c) = cm_channel c" "length (cm_clients (upd_smart i f c)) = length (cm_clients c)"
  "i < length (cm_clients c) \<Longrightarrow> smart_at i (upd_smart i f c) = f (smart_at i c)"
  "j \<noteq> i \<Longrightarrow> smart_at j (upd_smart i f c) = smart_at j c"
  by (simp_all add: upd_smart_def)

lemma smart_update_accounts:
  assumes "i < length (cm_clients c)"
  shows "accounted smart_pending (smart_update now now' i cond k c) = add_mset k (accounted smart_pending c)"
proof -
  obtain keep sd where h: "smart_handle now now' (h_cells (cm_heap c) ! k) (smart_at i c) = (keep, sd)"
    by (cases "smart_handle now now' (h_cells (cm_heap c) ! k) (smart_at i c)")
  have q: "sd_queue sd = sd_queue (smart_at i c)" using h smart_handle_queue by (metis snd_conv)
  show ?thesis
  proof (cases keep)
    case True
    let ?sd = "sd\<lparr>sd_queue := co_update k (sd_queue sd)\<rparr>"
    have "mset (smart_pending ((cm_clients c)[i := ?sd])) = add_mset k (mset (smart_pending (cm_clients c)))"
      using smart_pending_update [OF assms, of ?sd] q by (simp add: co_update_def)
    then show ?thesis using h True by (simp add: smart_update_def upd_smart_def accounted_def)
  next
    case False
    have "mset (smart_pending ((cm_clients c)[i := sd])) = mset (smart_pending (cm_clients c))"
      using smart_pending_update [OF assms, of sd] q by simp
    then show ?thesis using h False by (simp add: smart_update_def upd_smart_def accounted_def delete_message_def)
  qed
qed

interpretation smart: message_observer "smart_update now now'" smart_pending
    "\<lambda>i c. i < length (cm_clients c)"
  by unfold_locales
     (simp_all add: smart_update_accounts, simp_all add: smart_update_def delete_message_def split: prod.split)

text \<open>C16. A message made from a received buffer is deleted or queued once for every SmartData
  attached to the communicator (once by the communicator itself when the buffer held no data):
  with one it is neither lost nor deleted twice, and with two or more, each of which deletes or
  keeps the same pointer, it is.\<close>

theorem messages_accounted:
  assumes "\<forall>i \<in> set (targets_of cond (cm_observers c)). i < length (cm_clients c)"
    and "has_observer cond (cm_observers c)"
    and "ch_receive ops buf MESSAGE_MAX_SIZE (cm_channel c) = ((sz, got), w)"
  shows "accounted smart_pending (comm_update ops (smart_update now now') junk cond buf c)
    = accounted smart_pending c
      + replicate_mset (if sz \<le> 0 then 1 else length (targets_of cond (cm_observers c)))
          (length (h_cells (cm_heap c)))"
  by (rule smart.update_accounts_messages [OF assms(1) _ assms(2,3)]) simp

definition demo_ops :: "(nat, unit) channel_ops" where
  "demo_ops = \<lparr>ch_send = (\<lambda>_ _ _ _ w. (1, w)),
     ch_receive = (\<lambda>b sz w. ((1, Some (null_address, 5, 0, [0])), w)),
     ch_attach = (\<lambda>_ w. w), ch_detach = (\<lambda>_ w. w)\<rparr>"

definition demo_process :: "nat \<Rightarrow> (nat, unit) process" where
  "demo_process n = fold (\<lambda>_. new_producer SPEED) [0..<n]
     (comm_init demo_ops null_address True \<lparr>h_cells = [], h_deleted = []\<rparr> 0 () [])"

lemma messages_accounted_witness:
  "accounted smart_pending
     (comm_update demo_ops (smart_update 1 2) (0, 0) broadcast_condition 0 (demo_process 2)) = {#0, 0#}"
  by (subst messages_accounted)
     (auto simp: demo_process_def demo_ops_def comm_init_def new_producer_def smart_attach_def Let_def
        co_attach_def accounted_def smart_pending_def smart_blank_def upt_rec)

subsection \<open>Closing\<close>

lemma drain_all:
  "queue_ok q \<Longrightarrow> q_sem q < n \<Longrightarrow>
     drain_and_free n q h = Some (q\<lparr>q_sem := 0, q_data := []\<rparr>, delete_all (q_data q) h)"
proof (induction n arbitrary: q h)
  case (Suc n)
  show ?case
  proof (cases "q_data q")
    case Nil
    then show ?thesis using Suc.prems co_updated_empty [of q 0] by (simp add: delete_all_def queue_ok_def)
  next
    case (Cons k ks)
    let ?q = "q\<lparr>q_sem := length ks, q_data := ks\<rparr>"
    have "queue_ok ?q" "q_sem ?q < n" using Suc.prems Cons by (simp_all add: queue_ok_def)
    from Suc.IH [OF this] show ?thesis
      using co_updated_head [OF Suc.prems(1) Cons] Cons by (simp add: delete_all_def)
  qed
qed simp

lemma delete_all_deleted [simp]:
  "h_deleted (delete_all ks h) = h_deleted h @ ks" "h_cells (delete_all ks h) = h_cells h"
  by (induction ks arbitrary: h) (simp_all add: delete_all_def delete_message_def)

lemma send_interest_fields [simp]:
  "cm_heap (send_interest ops now d i c) = cm_heap c"
  "cm_observers (send_interest ops now d i c) = cm_observers c"
  "cm_clients (send_interest ops now d i c) = cm_clients c"
  by (simp_all add: send_interest_def comm_send_def Let_def split: prod.split)

text \<open>Destroying a SmartData ends: it empties its queue, deletes each message that was still
  in it once, leaves every other message as it is, and is not notified again.\<close>

theorem smart_close_frees:
  assumes "i < length (cm_clients c)" and "queue_ok (sd_queue (smart_at i c))"
  shows "\<exists>c'. smart_close ops now i c = Some c' \<and> q_data (sd_queue (smart_at i c')) = []
     \<and> h_deleted (cm_heap c') = h_deleted (cm_heap c) @ q_data (sd_queue (smart_at i c))
     \<and> accounted smart_pending c' = accounted smart_pending c
     \<and> i \<notin> set (targets_of broadcast_condition (cm_observers c'))
     \<and> sd_cache (smart_at i c') = None"
proof -
  let ?sd = "smart_at i c"
  let ?q = "(sd_queue ?sd)\<lparr>q_sem := 0, q_data := []\<rparr>"
  let ?c1 = "c\<lparr>cm_observers := co_detach i broadcast_condition (cm_observers c)\<rparr>"
  let ?c2 = "if sd_role ?sd = CONSUMER \<and> \<not> sd_unsubscribed ?sd then send_interest ops now True i ?c1 else ?c1"
  let ?sd' = "?sd\<lparr>sd_refresh := False, sd_cache := None, sd_queue := ?q\<rparr>"
  let ?c' = "upd_smart i (\<lambda>_. ?sd') (?c2\<lparr>cm_heap := delete_all (q_data (sd_queue ?sd)) (cm_heap c)\<rparr>)"
  have f: "cm_clients ?c2 = cm_clients c" "cm_heap ?c2 = cm_heap c"
    "cm_observers ?c2 = co_detach i broadcast_condition (cm_observers c)" by simp_all
  have cl: "smart_close ops now i c = Some ?c'"
    using drain_all [OF assms(2), of "Suc (q_sem (sd_queue ?sd))" "cm_heap c"]
    by (simp add: smart_close_def Let_def f del: drain_and_free.simps)
  have "mset (smart_pending ((cm_clients c)[i := ?sd'])) + mset (q_data (sd_queue ?sd)) = mset (smart_pending (cm_clients c))"
    using smart_pending_update [OF assms(1), of ?sd'] by simp
  then have "accounted smart_pending ?c' = accounted smart_pending c"
    using f by (simp add: accounted_def upd_smart_def ac_simps)
  then show ?thesis using cl assms(1) f co.detach_silences by (intro exI [of _ ?c']) simp
qed

lemma smart_close_frees_witness:
  "\<exists>c'. smart_close demo_ops 3 1 (demo_process 2) = Some c' \<and> sd_cache (smart_at 1 c') = None"
proof -
  have "1 < length (cm_clients (demo_process 2))" "queue_ok (sd_queue (smart_at 1 (demo_process 2)))"
    by (simp_all add: demo_process_def demo_ops_def comm_init_def new_producer_def smart_attach_def Let_def
        smart_blank_def upt_rec queue_ok_def)
  from smart_close_frees [OF this] show ?thesis by blast
qed

subsection \<open>The producer\<close>

definition is_interest :: "unit_code \<Rightarrow> message \<Rightarrow> bool" where
  "is_interest u m \<longleftrightarrow> INTEREST_LEN \<le> unat (m_size m)
     \<and> sh_unit (dec_smart_header (m_payload m)) = u \<and> sh_kind (dec_smart_header (m_payload m)) = INTEREST"

definition is_response :: "unit_code \<Rightarrow> message \<Rightarrow> bool" where
  "is_response u m \<longleftrightarrow> SMART_HEADER_LEN \<le> unat (m_size m)
     \<and> sh_unit (dec_smart_header (m_payload m)) = u \<and> sh_kind (dec_smart_header (m_payload m)) = RESPONSE"

text \<open>The messages a SmartData is given, with the clock at each.\<close>

definition smart_run :: "(int \<times> message) list \<Rightarrow> smart_data \<Rightarrow> smart_data" where
  "smart_run ms sd = fold (\<lambda>(now, m) sd. snd (smart_handle now now m sd)) ms sd"

text \<open>What a producer asks of its cache for a sequence of messages.\<close>

primrec producer_ops :: "unit_code \<Rightarrow> u8 \<Rightarrow> (int \<times> message) list \<Rightarrow> cache_op list" where
  "producer_ops u seen [] = []"
| "producer_ops u seen (e # es) =
     (let m = snd e; im = dec_interest (m_payload m) in
      if is_interest u m
      then (if seen \<noteq> m_quadrant m then [Clear] else [])
           @ (if im_disinterest im \<noteq> 0 then Disinterest u (m_address m)
              else Interest (fst e) u (m_address m) (im_period_us im))
           # producer_ops u (m_quadrant m) es
      else producer_ops u seen es)"

lemma kinds_differ [simp]: "INTEREST \<noteq> RESPONSE" "RESPONSE \<noteq> INTEREST"
  by (simp_all add: INTEREST_def RESPONSE_def)

lemma interest_is_long: "INTEREST_LEN \<le> n \<Longrightarrow> SMART_HEADER_LEN \<le> n"
  by (simp add: wire_lens)

lemma producer_handles:
  assumes "sd_role sd = PRODUCER"
  shows "snd (smart_handle now now' m sd)
    = (if is_interest (sd_unit sd) m then on_interest_message now m sd else sd)"
  using assms interest_is_long [of "unat (m_size m)"]
  by (auto simp: smart_handle_def header_of_def is_interest_def on_interest_message_def)

lemma on_interest_message_fields [simp]:
  "sd_role (on_interest_message now m sd) = sd_role sd" "sd_unit (on_interest_message now m sd) = sd_unit sd"
  by (simp_all add: on_interest_message_def Let_def)

lemma on_interest_message_cache:
  assumes "is_interest u m" and "sd_unit sd = u" and "sd_cache sd = Some c"
  shows "sd_last_seen_quad (on_interest_message now m sd) = m_quadrant m"
    and "sd_cache (on_interest_message now m sd)
      = Some (cache_run (producer_ops u (sd_last_seen_quad sd) [(now, m)]) c)"
  using assms by (simp_all add: on_interest_message_def is_interest_def Let_def cache_run_def)

lemma cache_run_append: "cache_run (xs @ ys) c = cache_run ys (cache_run xs c)"
  by (simp add: cache_run_def)

lemma producer_ops_Cons:
  "producer_ops u seen (e # es) = producer_ops u seen [e]
     @ producer_ops u (if is_interest u (snd e) then m_quadrant (snd e) else seen) es"
  by (simp add: Let_def)

text \<open>C15. A producer's table is what its cache makes of the interests among the messages it was
  given, in their order; anything else (another unit, a response, a message too short) changes
  nothing; and a message whose quadrant byte differs from the previous one clears the table
  first.\<close>

theorem producer_refines_cache:
  assumes "sd_role sd = PRODUCER" and "sd_cache sd = Some c"
  shows "sd_cache (smart_run ms sd)
    = Some (cache_run (producer_ops (sd_unit sd) (sd_last_seen_quad sd) ms) c)"
  using assms
proof (induction ms arbitrary: sd c)
  case Nil
  then show ?case by (simp add: smart_run_def cache_run_def)
next
  case (Cons e ms)
  obtain now m where e: "e = (now, m)" by (cases e)
  let ?sd = "snd (smart_handle now now m sd)"
  have run: "smart_run (e # ms) sd = smart_run ms ?sd" by (simp add: smart_run_def e)
  show ?case
  proof (cases "is_interest (sd_unit sd) m")
    case True
    then have sd: "?sd = on_interest_message now m sd" using producer_handles [OF Cons.prems(1)] by simp
    note k = on_interest_message_cache [OF True refl Cons.prems(2), of now]
    have ih: "sd_cache (smart_run ms ?sd) = Some (cache_run (producer_ops (sd_unit sd) (m_quadrant m) ms)
        (cache_run (producer_ops (sd_unit sd) (sd_last_seen_quad sd) [(now, m)]) c))"
      unfolding sd
      using Cons.IH [of "on_interest_message now m sd", OF _ k(2)] Cons.prems(1) k(1)
      by (simp del: producer_ops.simps(2))
    show ?thesis
      unfolding run producer_ops_Cons [of _ _ e ms] cache_run_append
      using ih True by (simp add: e del: producer_ops.simps(2))
  next
    case False
    then have "?sd = sd" using producer_handles [OF Cons.prems(1)] by simp
    then show ?thesis unfolding run using Cons.IH [OF Cons.prems] False by (simp add: e)
  qed
qed

definition demo_interest :: "u8 \<Rightarrow> address \<Rightarrow> message" where
  "demo_interest q a = (message_of_payload (q, 0)
     (interest_bytes False ((smart_blank SPEED)\<lparr>sd_period_us := 100\<rparr>)))\<lparr>m_address := a\<rparr>"

definition demo_producer :: smart_data where
  "demo_producer = (smart_blank SPEED)\<lparr>sd_role := PRODUCER,
     sd_cache := Some (binding_cache_init BINDING_LIFETIME_MIN_US BINDING_LIFETIME_FACTOR)\<rparr>"

lemma length_enc_interest: "length (enc_interest im) = INTEREST_LEN"
  by (rule interest_wire.enc_size)

lemma dec_enc_interest: "dec_interest (enc_interest im) = im"
  by (rule interest_wire.dec_enc_exact)

lemma dec_header_interest: "dec_smart_header (enc_interest im) = im_header im"
  by (simp add: enc_interest_def)

lemma demo_interest_fields:
  "is_interest SPEED (demo_interest q a)" "m_quadrant (demo_interest q a) = q" "m_address (demo_interest q a) = a"
  "dec_interest (m_payload (demo_interest q a)) = \<lparr>im_header = \<lparr>sh_kind = INTEREST, sh_unit = SPEED\<rparr>,
     im_period_us = 100, im_disinterest = 0\<rparr>"
  by (simp_all add: is_interest_def demo_interest_def message_of_payload_def message_default_def
      interest_bytes_def length_enc_interest dec_enc_interest dec_header_interest wire_lens smart_blank_def
      unat_of_nat)

lemma producer_refines_cache_witness:
  "\<exists>c. sd_cache (smart_run [(5, demo_interest 2 null_address)] demo_producer) = Some c
     \<and> c = cache_run [Clear, Interest 5 SPEED null_address 100]
             (binding_cache_init BINDING_LIFETIME_MIN_US BINDING_LIFETIME_FACTOR)"
proof -
  have "sd_role demo_producer = PRODUCER" "sd_unit demo_producer = SPEED" "sd_last_seen_quad demo_producer = 255"
    "sd_cache demo_producer = Some (binding_cache_init BINDING_LIFETIME_MIN_US BINDING_LIFETIME_FACTOR)"
    by (simp_all add: demo_producer_def smart_blank_def)
  then show ?thesis
    using producer_refines_cache [of demo_producer _ "[(5, demo_interest 2 null_address)]"]
    by (simp add: demo_interest_fields)
qed

text \<open>One interest with a quadrant byte other than the previous one's leaves its sender as
  the only subscriber, whoever was in the table: two subscribers whose messages carry
  different bytes evict each other with every message.\<close>

theorem quadrant_change_evicts:
  assumes "sd_role sd = PRODUCER" and "sd_cache sd = Some c" and "is_interest (sd_unit sd) m"
    and "m_quadrant m \<noteq> sd_last_seen_quad sd" and "im_disinterest (dec_interest (m_payload m)) = 0"
  shows "\<exists>c'. sd_cache (snd (smart_handle now now' m sd)) = Some c'
    \<and> map b_key (bc_bindings c') = [(sd_unit sd, m_address m)]
    \<and> dom (map_of (bc_threads c')) = {sd_unit sd}"
proof -
  let ?p = "im_period_us (dec_interest (m_payload m))"
  have "sd_cache (snd (smart_handle now now' m sd))
      = Some (on_interest now (sd_unit sd) (m_address m) ?p (cache_clear c))"
    using producer_handles [OF assms(1)] assms(2-5)
    by (simp add: on_interest_message_def is_interest_def Let_def)
  moreover
  let ?p1 = "if ?p = 0 then 1 else ?p"
  let ?b = "\<lparr>b_unit = sd_unit sd, b_address = m_address m, b_period_us = ?p1,
      b_expiry_ns = expiry_for now ?p1 (cache_clear c)\<rparr>"
  have e: "on_interest now (sd_unit sd) (m_address m) ?p (cache_clear c)
      = resync_threads ((cache_clear c)\<lparr>bc_bindings := [?b]\<rparr>)"
    unfolding on_interest_put by (simp add: put_binding_def find_binding_def cache_clear_def)
  moreover have "cache_ok (resync_threads ((cache_clear c)\<lparr>bc_bindings := [?b]\<rparr>))"
    by (rule resync_ok [THEN conjunct1]) (simp_all add: cache_clear_def)
  then have "dom (map_of (bc_threads (resync_threads ((cache_clear c)\<lparr>bc_bindings := [?b]\<rparr>)))) = {sd_unit sd}"
    by (simp add: cache_ok_senders)
  ultimately show ?thesis
    by (intro exI [of _ "resync_threads ((cache_clear c)\<lparr>bc_bindings := [?b]\<rparr>)"]) simp
qed

lemma quadrant_change_evicts_witness:
  "\<exists>c'. sd_cache (snd (smart_handle 9 9 (demo_interest 1 logical_broadcast)
        (smart_run [(5, demo_interest 2 null_address)] demo_producer))) = Some c'
     \<and> map b_key (bc_bindings c') = [(SPEED, logical_broadcast)]"
proof -
  let ?sd = "smart_run [(5, demo_interest 2 null_address)] demo_producer"
  have p: "sd_role demo_producer = PRODUCER" "sd_unit demo_producer = SPEED"
    "sd_cache demo_producer = Some (binding_cache_init BINDING_LIFETIME_MIN_US BINDING_LIFETIME_FACTOR)"
    by (simp_all add: demo_producer_def smart_blank_def)
  have "?sd = on_interest_message 5 (demo_interest 2 null_address) demo_producer"
    using producer_handles [OF p(1)] p(2) by (simp add: smart_run_def demo_interest_fields)
  then have "sd_role ?sd = PRODUCER" "sd_unit ?sd = SPEED" "sd_last_seen_quad ?sd = 2" "\<exists>c. sd_cache ?sd = Some c"
    using on_interest_message_cache [OF demo_interest_fields(1) p(2,3)] p by (simp_all add: demo_interest_fields)
  then show ?thesis
    using quadrant_change_evicts [of ?sd _ "demo_interest 1 logical_broadcast" 9 9]
    by (auto simp: demo_interest_fields)
qed

subsection \<open>The consumer\<close>

lemma consumer_handles:
  assumes "sd_role sd = CONSUMER"
  shows "snd (smart_handle now now' m sd)
    = (if is_response (sd_unit sd) m then on_response_message now now' m sd else sd)"
  using assms by (auto simp: smart_handle_def header_of_def is_response_def)

lemma on_response_message_fields [simp]:
  "sd_role (on_response_message now now' m sd) = sd_role sd" "sd_unit (on_response_message now now' m sd) = sd_unit sd"
  "sd_reissues (on_response_message now now' m sd) = sd_reissues sd"
  "sd_last_response_ns (on_response_message now now' m sd) = now"
  by (simp_all add: on_response_message_def Let_def)

definition responses_in :: "unit_code \<Rightarrow> (int \<times> message) list \<Rightarrow> (int \<times> message) list" where
  "responses_in u ms = filter (\<lambda>e. is_response u (snd e)) ms"

definition values_in :: "unit_code \<Rightarrow> (int \<times> message) list \<Rightarrow> (int \<times> message) list" where
  "values_in u ms = filter (\<lambda>e. RESPONSE_LEN \<le> unat (m_size (snd e))) (responses_in u ms)"

abbreviation sender_key :: "message \<Rightarrow> u64" where
  "sender_key m \<equiv> mac_key (a_paddr (m_address m))"

lemma consumer_run:
  assumes "sd_role sd = CONSUMER"
  shows "sd_responses_received (smart_run ms sd) = sd_responses_received sd + length (responses_in (sd_unit sd) ms)
    \<and> fst ` set (sd_producers (smart_run ms sd))
        = fst ` set (sd_producers sd) \<union> (sender_key \<circ> snd) ` set (responses_in (sd_unit sd) ms)
    \<and> sd_has_value (smart_run ms sd) = (sd_has_value sd \<or> values_in (sd_unit sd) ms \<noteq> [])
    \<and> smart_value (smart_run ms sd)
        = (if values_in (sd_unit sd) ms = [] then smart_value sd
           else rm_value (dec_response (m_payload (snd (last (values_in (sd_unit sd) ms))))))
    \<and> sd_last_value_ns (smart_run ms sd)
        = (if values_in (sd_unit sd) ms = [] then sd_last_value_ns sd else fst (last (values_in (sd_unit sd) ms)))"
  using assms
proof (induction ms arbitrary: sd)
  case Nil
  then show ?case by (simp add: smart_run_def responses_in_def values_in_def)
next
  case (Cons e ms)
  obtain now m where e: "e = (now, m)" by (cases e)
  let ?sd = "snd (smart_handle now now m sd)"
  have run: "smart_run (e # ms) sd = smart_run ms ?sd" by (simp add: smart_run_def e)
  have r: "responses_in u (e # ms) = (if is_response u m then [e] else []) @ responses_in u ms" for u
    by (simp add: responses_in_def e)
  have v: "values_in u (e # ms)
      = (if is_response u m \<and> RESPONSE_LEN \<le> unat (m_size m) then [e] else []) @ values_in u ms" for u
    by (simp add: values_in_def responses_in_def e)
  show ?case
  proof (cases "is_response (sd_unit sd) m")
    case True
    then have sd: "?sd = on_response_message now now m sd" using consumer_handles [OF Cons.prems] by simp
    have "sd_role ?sd = CONSUMER" using Cons.prems sd by simp
    note ih = Cons.IH [OF this]
    show ?thesis
      unfolding run r v using ih True
      by (auto simp: sd on_response_message_def Let_def e set_om_put smart_value_def)
  next
    case False
    then have "?sd = sd" using consumer_handles [OF Cons.prems] by simp
    then show ?thesis unfolding run r v using Cons.IH [OF Cons.prems] False by simp
  qed
qed

text \<open>A consumer read as a variable holds the value of the last response of its unit that
  was long enough to carry one, with the time it came; it counts every response of its unit,
  and its producers are the stations any of them came from; messages of other units, and
  interests, change nothing.\<close>

theorem consumer_tracks_responses:
  assumes "sd_role sd = CONSUMER"
  shows "sd_responses_received (smart_run ms sd) = sd_responses_received sd + length (responses_in (sd_unit sd) ms)
    \<and> fst ` set (sd_producers (smart_run ms sd))
        = fst ` set (sd_producers sd) \<union> (sender_key \<circ> snd) ` set (responses_in (sd_unit sd) ms)
    \<and> sd_has_value (smart_run ms sd) = (sd_has_value sd \<or> values_in (sd_unit sd) ms \<noteq> [])
    \<and> smart_value (smart_run ms sd)
        = (if values_in (sd_unit sd) ms = [] then smart_value sd
           else rm_value (dec_response (m_payload (snd (last (values_in (sd_unit sd) ms))))))
    \<and> sd_last_value_ns (smart_run ms sd)
        = (if values_in (sd_unit sd) ms = [] then sd_last_value_ns sd else fst (last (values_in (sd_unit sd) ms)))"
  by (rule consumer_run [OF assms])

definition demo_response :: "u64 \<Rightarrow> message" where
  "demo_response v = message_of_payload (0, 0) (response_bytes v (smart_blank SPEED))"

lemma demo_response_fields:
  "is_response SPEED (demo_response v)" "unat (m_size (demo_response v)) = RESPONSE_LEN"
  "rm_value (dec_response (m_payload (demo_response v))) = v"
proof -
  have l: "length (enc_response r) = RESPONSE_LEN" "dec_response (enc_response r) = r"
    "dec_smart_header (enc_response r) = rm_header r" for r
    by (rule response_wire.enc_size, rule response_wire.dec_enc_exact) (simp add: enc_response_def)
  show "is_response SPEED (demo_response v)" "unat (m_size (demo_response v)) = RESPONSE_LEN"
    "rm_value (dec_response (m_payload (demo_response v))) = v"
    by (simp_all add: is_response_def demo_response_def message_of_payload_def message_default_def
        response_bytes_def l wire_lens smart_blank_def unat_of_nat)
qed

lemma consumer_tracks_responses_witness:
  "smart_value (smart_run [(3, demo_response 7), (4, demo_response 9), (5, demo_interest 0 null_address)]
     (smart_blank SPEED)) = 9"
proof -
  have "sd_role (smart_blank SPEED) = CONSUMER" "sd_unit (smart_blank SPEED) = SPEED"
    by (simp_all add: smart_blank_def)
  moreover have "\<not> is_response SPEED (demo_interest 0 null_address)"
    using demo_interest_fields(1) [of 0 null_address] by (simp add: is_response_def is_interest_def)
  ultimately show ?thesis
    using consumer_tracks_responses [of "smart_blank SPEED"
        "[(3, demo_response 7), (4, demo_response 9), (5, demo_interest 0 null_address)]"]
    by (simp add: values_in_def responses_in_def demo_response_fields)
qed

subsection \<open>Reactive refresh\<close>

text \<open>Message \<open>k\<close> of the heap arrives, or the refresh thread wakes up, at the given time.\<close>

datatype consumer_event = Arrives int nat | Tick int

primrec consumer_step ::
  "('b, 'w) channel_ops \<Rightarrow> nat \<Rightarrow> consumer_event \<Rightarrow> ('b, 'w) process \<Rightarrow> ('b, 'w) process"
where
  "consumer_step ops i (Arrives now k) c = smart_update now now i broadcast_condition k c"
| "consumer_step ops i (Tick now) c = reactive_tick ops now now i c"

definition consumer_run ::
  "('b, 'w) channel_ops \<Rightarrow> nat \<Rightarrow> consumer_event list \<Rightarrow> ('b, 'w) process \<Rightarrow> ('b, 'w) process"
where
  "consumer_run ops i es c = fold (consumer_step ops i) es c"

primrec event_time :: "consumer_event \<Rightarrow> int" where
  "event_time (Arrives now _) = now"
| "event_time (Tick now) = now"

text \<open>The wake-ups that find no response in the last second.\<close>

primrec late_ticks :: "message list \<Rightarrow> unit_code \<Rightarrow> int \<Rightarrow> consumer_event list \<Rightarrow> nat" where
  "late_ticks cells u seen [] = 0"
| "late_ticks cells u seen (e # es) =
     (case e of
        Arrives now k \<Rightarrow> late_ticks cells u (if is_response u (cells ! k) then now else seen) es
      | Tick now \<Rightarrow> (if now - seen \<ge> 1000000000 then 1 else 0) + late_ticks cells u seen es)"

lemma smart_update_state:
  assumes "i < length (cm_clients c)" and "sd_role (smart_at i c) = CONSUMER"
  shows "let c' = smart_update now now' i cond k c in
    sd_role (smart_at i c') = CONSUMER \<and> sd_unit (smart_at i c') = sd_unit (smart_at i c)
    \<and> sd_reissues (smart_at i c') = sd_reissues (smart_at i c)
    \<and> sd_last_response_ns (smart_at i c') = (if is_response (sd_unit (smart_at i c)) (h_cells (cm_heap c) ! k)
          then now else sd_last_response_ns (smart_at i c))
    \<and> h_cells (cm_heap c') = h_cells (cm_heap c) \<and> length (cm_clients c') = length (cm_clients c)
    \<and> cm_channel c' = cm_channel c"
proof -
  obtain keep sd where h: "smart_handle now now' (h_cells (cm_heap c) ! k) (smart_at i c) = (keep, sd)"
    by (cases "smart_handle now now' (h_cells (cm_heap c) ! k) (smart_at i c)")
  have "sd = (if is_response (sd_unit (smart_at i c)) (h_cells (cm_heap c) ! k)
      then on_response_message now now' (h_cells (cm_heap c) ! k) (smart_at i c) else smart_at i c)"
    using consumer_handles [OF assms(2), of now now' "h_cells (cm_heap c) ! k"] h by simp
  then show ?thesis using h assms
    by (cases keep) (simp_all add: smart_update_def upd_smart_def Let_def delete_message_def)
qed

lemma reactive_tick_state:
  assumes "i < length (cm_clients c)" and "in_i64 (now - sd_last_response_ns (smart_at i c))"
  shows "let c' = reactive_tick ops now now' i c; late = (now - sd_last_response_ns (smart_at i c) \<ge> 1000000000) in
    sd_role (smart_at i c') = sd_role (smart_at i c) \<and> sd_unit (smart_at i c') = sd_unit (smart_at i c)
    \<and> sd_reissues (smart_at i c') = sd_reissues (smart_at i c) + (if late then 1 else 0)
    \<and> sd_last_response_ns (smart_at i c') = sd_last_response_ns (smart_at i c)
    \<and> h_cells (cm_heap c') = h_cells (cm_heap c) \<and> length (cm_clients c') = length (cm_clients c)
    \<and> (late \<or> cm_channel c' = cm_channel c)"
proof -
  have "sint INTEREST_REFRESH_US * 1000 = 1000000000" by (simp add: INTEREST_REFRESH_US_def)
  then show ?thesis using assms by (simp add: reactive_tick_def i64_id Let_def)
qed

text \<open>A consumer announces its interest again at exactly the wake-ups that find no response of
  its unit in the last second; as long as any producer answers more often, it sends nothing at
  all.\<close>

theorem reactive_refresh_exact:
  assumes "i < length (cm_clients c)" and "sd_role (smart_at i c) = CONSUMER"
    and "0 \<le> sd_last_response_ns (smart_at i c)" and "sd_last_response_ns (smart_at i c) < 2 ^ 62"
    and "\<forall>e \<in> set es. 0 \<le> event_time e \<and> event_time e < 2 ^ 62"
  defines "late \<equiv> late_ticks (h_cells (cm_heap c)) (sd_unit (smart_at i c)) (sd_last_response_ns (smart_at i c)) es"
  shows "sd_reissues (smart_at i (consumer_run ops i es c)) = sd_reissues (smart_at i c) + late
    \<and> (late = 0 \<longrightarrow> cm_channel (consumer_run ops i es c) = cm_channel c)"
  using assms(1-5) unfolding late_def
proof (induction es arbitrary: c)
  case Nil
  then show ?case by (simp add: consumer_run_def)
next
  case (Cons e es)
  have run: "consumer_run ops i (e # es) c = consumer_run ops i es (consumer_step ops i e c)"
    by (simp add: consumer_run_def)
  show ?case
  proof (cases e)
    case (Arrives now k)
    let ?c = "smart_update now now i broadcast_condition k c"
    note st = smart_update_state [OF Cons.prems(1,2), of now now broadcast_condition k, unfolded Let_def]
    have t: "0 \<le> now" "now < 2 ^ 62" using Cons.prems(5) Arrives by auto
    have "sd_reissues (smart_at i (consumer_run ops i es ?c)) = sd_reissues (smart_at i ?c)
        + late_ticks (h_cells (cm_heap ?c)) (sd_unit (smart_at i ?c)) (sd_last_response_ns (smart_at i ?c)) es
      \<and> (late_ticks (h_cells (cm_heap ?c)) (sd_unit (smart_at i ?c)) (sd_last_response_ns (smart_at i ?c)) es = 0
          \<longrightarrow> cm_channel (consumer_run ops i es ?c) = cm_channel ?c)"
      by (rule Cons.IH) (use st t Cons.prems in \<open>simp_all split: if_splits\<close>)
    then show ?thesis unfolding run using st by (simp add: Arrives)
  next
    case (Tick now)
    let ?c = "reactive_tick ops now now i c"
    have t: "0 \<le> now" "now < 2 ^ 62" using Cons.prems(5) Tick by auto
    have "in_i64 (now - sd_last_response_ns (smart_at i c))" using t Cons.prems(3,4) by (simp add: in_i64_def)
    note st = reactive_tick_state [OF Cons.prems(1) this, of ops now, unfolded Let_def]
    have "sd_reissues (smart_at i (consumer_run ops i es ?c)) = sd_reissues (smart_at i ?c)
        + late_ticks (h_cells (cm_heap ?c)) (sd_unit (smart_at i ?c)) (sd_last_response_ns (smart_at i ?c)) es
      \<and> (late_ticks (h_cells (cm_heap ?c)) (sd_unit (smart_at i ?c)) (sd_last_response_ns (smart_at i ?c)) es = 0
          \<longrightarrow> cm_channel (consumer_run ops i es ?c) = cm_channel ?c)"
      by (rule Cons.IH) (use st t Cons.prems in simp_all)
    then show ?thesis unfolding run using st by (auto simp: Tick)
  qed
qed

lemma reactive_refresh_exact_witness:
  "sd_reissues (smart_at 0 (consumer_run demo_ops 0 [Tick 400000000, Tick 1400000000]
     ((demo_process 0)\<lparr>cm_clients := [smart_blank SPEED]\<rparr>))) = 1"
proof -
  let ?c = "(demo_process 0)\<lparr>cm_clients := [smart_blank SPEED]\<rparr>"
  have "sd_role (smart_at 0 ?c) = CONSUMER" "sd_last_response_ns (smart_at 0 ?c) = 0"
    "sd_reissues (smart_at 0 ?c) = 0" by (simp_all add: smart_blank_def)
  then show ?thesis
    using reactive_refresh_exact [of 0 ?c "[Tick 400000000, Tick 1400000000]" demo_ops] by simp
qed

end
