(* ===== verification/Refresh_Timing.thy ===== *)
theory Refresh_Timing
  imports Periodic Smart_Behaviour
begin

section \<open>How long a silence lasts\<close>

text \<open>
  The refresh of a consumer (\<open>reactive_tick\<close> of \<open>src/communication/smart_data/smart_data.h\<close>) is the
  job of a \<open>Periodic_Thread\<close> of \<open>src/core/periodic_thread.h\<close>. \<open>Periodic\<close> shows that the thread never
  runs too often; here, that it runs often enough when the scheduler keeps its promises, and what
  this makes of a silence of the producers.
\<close>

subsection \<open>A scheduler that is late by at most m\<close>

text \<open>The thread is ready at its last reading of the clock, or at the end of its sleep; its next
  step, and the second reading of the step, come at most \<open>m\<close> nanoseconds later.\<close>

definition ready_at :: "periodic \<Rightarrow> int" where
  "ready_at s = (case pt_pc s of Sleeping t \<Rightarrow> max t (pt_now s) | _ \<Rightarrow> pt_now s)"

definition timely :: "int \<Rightarrow> periodic \<Rightarrow> periodic_label \<Rightarrow> bool" where
  "timely m s l = (case l of Turn now now' \<Rightarrow> now \<le> ready_at s + m \<and> now' \<le> now + m
     | Set_Period _ \<Rightarrow> True | Stop \<Rightarrow> False)"

primrec timely_run :: "int \<Rightarrow> periodic_label list \<Rightarrow> periodic \<Rightarrow> bool" where
  "timely_run m [] s = True"
| "timely_run m (l # ls) s =
     (timely m s l \<and> (case periodic_step l s of None \<Rightarrow> True | Some s' \<Rightarrow> timely_run m ls s'))"

text \<open>\<open>q\<close> bounds the periods from above; the steady clock stays below \<open>2^62\<close> ns.\<close>

definition periods_upto :: "int \<Rightarrow> periodic_label \<Rightarrow> bool" where
  "periods_upto q l = (case l of Set_Period p \<Rightarrow> uint p \<le> q | Turn _ now' \<Rightarrow> now' < 2 ^ 62 | Stop \<Rightarrow> True)"

text \<open>The last call of the job, or the start; the calls and the start.\<close>

definition calls :: "int \<Rightarrow> periodic \<Rightarrow> int list" where
  "calls start s = start # pt_jobs s"

definition gaps_upto :: "int \<Rightarrow> int list \<Rightarrow> bool" where
  "gaps_upto g xs = (\<forall>k. Suc k < length xs \<longrightarrow> xs ! Suc k \<le> xs ! k + g)"

lemma gaps_upto_snoc:
  assumes "gaps_upto g xs" and "xs \<noteq> []" and "x \<le> last xs + g"
  shows "gaps_upto g (xs @ [x])"
  unfolding gaps_upto_def
proof (intro allI impI)
  fix k assume k: "Suc k < length (xs @ [x])"
  show "(xs @ [x]) ! Suc k \<le> (xs @ [x]) ! k + g"
  proof (cases "Suc k < length xs")
    case False
    then have "k = length xs - 1" "Suc k = length xs" using k by auto
    then show ?thesis using assms(2,3) by (simp add: nth_append last_conv_nth)
  qed (use assms(1) in \<open>simp add: gaps_upto_def nth_append\<close>)
qed

definition pace_limit :: "int \<Rightarrow> int \<Rightarrow> int \<Rightarrow> periodic \<Rightarrow> bool" where
  "pace_limit m q j s = (case pt_pc s of
       Head \<Rightarrow> pt_next s \<le> pt_now s \<and> pt_now s \<le> j + q * 1000 + 4 * m
     | Calling \<Rightarrow> pt_next s \<le> pt_now s \<and> pt_now s \<le> j + q * 1000 + 5 * m
     | Called \<Rightarrow> pt_next s \<le> j \<and> pt_now s = j
     | Waiting \<Rightarrow> pt_next s \<le> j + q * 1000 + m \<and> pt_now s \<le> j + q * 1000 + 3 * m
     | Sleeping t \<Rightarrow> t \<le> j + q * 1000 + m \<and> pt_next s \<le> j + q * 1000 + m \<and> pt_now s \<le> j + q * 1000 + 2 * m
     | Returned \<Rightarrow> False)"

definition on_pace :: "int \<Rightarrow> int \<Rightarrow> int \<Rightarrow> periodic \<Rightarrow> bool" where
  "on_pace start m q s = (pt_running s \<and> uint (pt_period_us s) \<le> q \<and> 0 \<le> pt_next s \<and> 0 \<le> pt_now s
     \<and> pace_limit m q (last (calls start s)) s
     \<and> gaps_upto (q * 1000 + 6 * m) (calls start s))"

lemma on_pace_step:
  assumes inv: "on_pace start m q s" and st: "periodic_step l s = Some s'" and t: "timely m s l" "periods_upto q l"
    and pos: "0 \<le> m" "0 \<le> q" "q < 2 ^ 52"
  shows "on_pace start m q s'"
proof (cases l)
  case (Set_Period p)
  then have "s' = s\<lparr>pt_period_us := p\<rparr>" using st by (simp add: periodic_step_def)
  then show ?thesis using inv t(2) Set_Period
    by (simp add: on_pace_def pace_limit_def calls_def periods_upto_def cong: periodic_pc.case_cong)
next
  case Stop
  then show ?thesis using t(1) by (simp add: timely_def)
next
  case (Turn now now')
  let ?j = "last (calls start s)"
  have tm: "now \<le> ready_at s + m" "now' \<le> now + m" "pt_now s \<le> now" "now \<le> now'" "now' < 2 ^ 62" and st': "periodic_turn now now' s = Some s'"
    using t st Turn by (auto simp: timely_def periods_upto_def periodic_step_def periodic_turn_def split: if_splits)
  have run: "pt_running s" "uint (pt_period_us s) \<le> q" "gaps_upto (q * 1000 + 6 * m) (calls start s)"
    and z: "0 \<le> pt_next s" "0 \<le> pt_now s" and lim: "pace_limit m q ?j s" using inv by (simp_all add: on_pace_def)
  show ?thesis
  proof (cases "pt_pc s")
    case Head
    then show ?thesis using st' tm run z lim by (auto simp: periodic_turn_def on_pace_def pace_limit_def calls_def ready_at_def)
  next
    case Calling
    then have "now \<le> ?j + (q * 1000 + 6 * m)" using tm(1) lim by (simp add: ready_at_def pace_limit_def)
    then have "gaps_upto (q * 1000 + 6 * m) (calls start s @ [now])"
      using gaps_upto_snoc [OF run(3)] by (simp add: calls_def)
    then show ?thesis using Calling st' tm run z lim
      by (auto simp: periodic_turn_def on_pace_def pace_limit_def calls_def ready_at_def)
  next
    case Called
    have p: "0 \<le> uint (pt_period_us s)" by simp
    let ?p = "uint (pt_period_us s)"
    have j: "pt_next s \<le> now" "pt_next s \<le> ?j" "now \<le> ?j + m"
      using Called tm lim by (simp_all add: pace_limit_def ready_at_def)
    have "next_deadline (pt_next s) now ?p = (if pt_next s + ?p * 1000 < now then now + ?p * 1000 else pt_next s + ?p * 1000)"
      by (rule next_deadline_small) (use p run(2) pos z tm j in linarith)+
    then have "next_deadline (pt_next s) now ?p \<le> ?j + q * 1000 + m" "0 \<le> next_deadline (pt_next s) now ?p"
      using p run(2) pos z tm j by (auto split: if_splits)
    then show ?thesis using Called st' tm run lim pos z j(3)
      by (auto simp: periodic_turn_def on_pace_def pace_limit_def calls_def)
  next
    case Waiting
    then have n: "pt_next s \<le> ?j + q * 1000 + m" "now \<le> ?j + q * 1000 + 4 * m"
      using tm(1) lim by (simp_all add: pace_limit_def ready_at_def)
    show ?thesis
    proof (cases "now < pt_next s")
      case True
      then have "s' = s\<lparr>pt_pc := Sleeping (now' + min (pt_next s - now') SLICE_NS), pt_now := now'\<rparr>"
        using Waiting st' tm run(1) by (simp add: periodic_turn_def)
      then show ?thesis using True n tm z run by (simp add: on_pace_def pace_limit_def calls_def)
    next
      case False
      then have "s' = s\<lparr>pt_pc := Head, pt_now := now\<rparr>" using Waiting st' tm by (simp add: periodic_turn_def)
      then show ?thesis using False n tm z run by (simp add: on_pace_def pace_limit_def calls_def)
    qed
  next
    case (Sleeping t)
    then have "now \<le> ?j + q * 1000 + 3 * m" using tm(1) lim pos by (auto simp: pace_limit_def ready_at_def max_def split: if_splits)
    then show ?thesis using Sleeping st' tm run z lim
      by (auto simp: periodic_turn_def on_pace_def pace_limit_def calls_def split: if_splits)
  next
    case Returned
    then show ?thesis using lim by (simp add: pace_limit_def)
  qed
qed

lemma on_pace_run:
  assumes "periodic_run ls s = Some s'" and "on_pace start m q s" and "timely_run m ls s"
    and "\<forall>l \<in> set ls. periods_upto q l" and "0 \<le> m" "0 \<le> q" "q < 2 ^ 52"
  shows "on_pace start m q s'"
  using assms
proof (induction ls arbitrary: s)
  case (Cons l ls)
  then obtain s1 where s1: "periodic_step l s = Some s1" "periodic_run ls s1 = Some s'" by (auto split: option.splits)
  have "on_pace start m q s1" by (rule on_pace_step [OF Cons.prems(2) s1(1)]) (use Cons.prems in simp_all)
  then show ?case using Cons s1 by simp
qed simp

lemma on_pace_start: "0 \<le> m \<Longrightarrow> 0 \<le> now \<Longrightarrow> uint p \<le> q \<Longrightarrow> on_pace now m q (periodic_start now p)"
  using order.trans [OF uint_ge_0 [of p], of q]
  by (simp add: on_pace_def pace_limit_def periodic_start_def calls_def gaps_upto_def)

lemma pace_limit_now: "pace_limit m q j s \<Longrightarrow> 0 \<le> m \<Longrightarrow> 0 \<le> q \<Longrightarrow> pt_now s \<le> j + (q * 1000 + 6 * m)"
  by (auto simp: pace_limit_def split: periodic_pc.splits)

text \<open>A periodic thread that is never stopped, whose periods are at most \<open>q\<close> microseconds and
  whose steps (its job among them) are late by at most \<open>m\<close>, calls its job again within the
  period and six delays, each time and forever.\<close>

theorem periodic_progress:
  assumes "periodic_run ls (periodic_start now p) = Some s" and "timely_run m ls (periodic_start now p)"
    and "uint p \<le> q" and "\<forall>l \<in> set ls. periods_upto q l" and "0 \<le> m" and "q < 2 ^ 52" and "0 \<le> now"
  shows "gaps_upto (q * 1000 + 6 * m) (now # pt_jobs s @ [pt_now s])"
proof -
  have q: "0 \<le> q" using assms(3) uint_ge_0 [of p] by linarith
  have "on_pace now m q s" by (rule on_pace_run [OF assms(1) on_pace_start [OF assms(5,7,3)] assms(2,4,5) q assms(6)])
  then show ?thesis
    using gaps_upto_snoc [of "q * 1000 + 6 * m" "calls now s" "pt_now s"] pace_limit_now [OF _ assms(5) q]
    by (simp add: on_pace_def calls_def)
qed

subsection \<open>A silent consumer announces itself again\<close>

lemma gap_hits:
  assumes "gaps_upto g (xs @ [z])" and "xs \<noteq> []" and "hd xs < a" and "a + g \<le> z"
  shows "\<exists>x \<in> set (tl xs). a \<le> x \<and> x < a + g"
  using assms
proof (induction xs)
  case (Cons y ys)
  show ?case
  proof (cases ys)
    case Nil
    then have "z \<le> y + g" using Cons.prems(1) by (auto simp: gaps_upto_def dest: spec [of _ 0])
    then show ?thesis using Cons.prems(3,4) by simp
  next
    case (Cons y' ys')
    have y': "y' \<le> y + g" using Cons.prems(1) Cons by (auto simp: gaps_upto_def dest: spec [of _ 0])
    show ?thesis
    proof (cases "a \<le> y'")
      case False
      have "gaps_upto g (ys @ [z])" using Cons.prems(1) unfolding gaps_upto_def by fastforce
      then have "\<exists>x \<in> set (tl ys). a \<le> x \<and> x < a + g" using Cons.IH Cons.prems(4) False Cons by simp
      then show ?thesis using Cons by auto
    qed (use y' Cons.prems(3) Cons in auto)
  qed
qed simp

text \<open>
  The thread runs on the steady clock, the consumer reads \<open>Clock::now_ns\<close>, which is
  \<open>CLOCK_REALTIME\<close> and is set by SPTP. \<open>rt t\<close> is what \<open>Clock::now_ns\<close> reads at the steady time \<open>t\<close>.
\<close>

definition announces :: "('b, 'w) channel_ops \<Rightarrow> nat \<Rightarrow> ('b, 'w) process \<Rightarrow> int \<Rightarrow> bool" where
  "announces ops i c now = (reactive_tick ops now now i c =
     send_interest ops now False i (upd_smart i (\<lambda>sd. sd\<lparr>sd_reissues := sd_reissues sd + 1\<rparr>) c))"

lemma late_tick_announces:
  assumes "sd_last_response_ns (smart_at i c) + 1000000000 \<le> now" and "in_i64 (now - sd_last_response_ns (smart_at i c))"
  shows "announces ops i c now"
proof -
  have "sint INTEREST_REFRESH_US * 1000 = 1000000000" by (simp add: INTEREST_REFRESH_US_def)
  then show ?thesis using assms by (simp add: announces_def reactive_tick_def i64_id)
qed

text \<open>From the steady time \<open>seen\<close> to each of the given times the clock was set back by at most \<open>back\<close> in all.\<close>

definition set_back_upto :: "int \<Rightarrow> (int \<Rightarrow> int) \<Rightarrow> int \<Rightarrow> int list \<Rightarrow> bool" where
  "set_back_upto back rt seen js =
     (\<forall>j \<in> set js. seen \<le> j \<longrightarrow> j - seen - back \<le> rt j - rt seen \<and> in_i64 (rt j - rt seen))"

text \<open>C27. The refresh thread of a consumer is not stopped, its steps (its job among them) are late by at most
  \<open>m\<close>, and no response arrives after the one at the steady time \<open>seen\<close>; meanwhile corrections set
  the clock \<open>CLOCK_REALTIME\<close>, on which the consumer measures the silence, back by at most \<open>back\<close> in all
  (one correction of SPTP stays below a second). Then the interest is sent in every window of one second
  and six delays that begins at least one second and \<open>back\<close> after the last response. With a clock that
  is not set back, a vehicle that comes into reach is sent the interest within two seconds and six delays.
  (The readings since the last response are less than 2^63 ns apart.)\<close>

theorem silence_reannounced:
  assumes "periodic_run ls (periodic_start start INTEREST_REFRESH_US) = Some s"
    and "timely_run m ls (periodic_start start INTEREST_REFRESH_US)" and "\<forall>l \<in> set ls. periods_upto 1000000 l" and "0 \<le> m"
    and "0 \<le> start" and "start \<le> seen"
    and "\<forall>j \<in> set (pt_jobs s). seen \<le> j \<longrightarrow> sd_last_response_ns (smart_at i (c j)) = rt seen"
    and "set_back_upto back rt seen (pt_jobs s)" and "0 \<le> back"
    and "seen + 1000000000 + back \<le> a" and "a + 1000000000 + 6 * m \<le> pt_now s"
  shows "\<exists>j \<in> set (pt_jobs s). a \<le> j \<and> j < a + 1000000000 + 6 * m \<and> announces ops i (c j) (rt j)"
proof -
  have "uint INTEREST_REFRESH_US \<le> 1000000" by (simp add: INTEREST_REFRESH_US_def)
  from periodic_progress [OF assms(1,2) this assms(3,4) _ assms(5)]
  have "gaps_upto (1000000000 + 6 * m) ((start # pt_jobs s) @ [pt_now s])" by simp
  then obtain j where j: "j \<in> set (pt_jobs s)" "a \<le> j" "j < a + (1000000000 + 6 * m)"
    using gap_hits [of "1000000000 + 6 * m" "start # pt_jobs s" "pt_now s" a] assms(6,9,10,11) by auto
  have sj: "seen \<le> j" using j(2) assms(9,10) by linarith
  then have r: "j - seen - back \<le> rt j - rt seen" "in_i64 (rt j - rt seen)" "sd_last_response_ns (smart_at i (c j)) = rt seen"
    using j(1) assms(7,8) by (auto simp: set_back_upto_def)
  have "announces ops i (c j) (rt j)"
    by (rule late_tick_announces) (use j(2) r assms(10) in simp_all)
  then show ?thesis using j by (auto simp: add.assoc)
qed

subsection \<open>A concrete silence\<close>

text \<open>Each step of the refresh thread is a second late: nine seconds with two announcements.\<close>

definition demo_silence :: "periodic_label list" where
  "demo_silence = map (\<lambda>n. Turn (n * 1000000000) (n * 1000000000)) [1, 2, 3, 4, 5, 6, 7, 8, 9]"

lemma demo_silence_runs:
  "\<exists>s. periodic_run demo_silence (periodic_start 0 INTEREST_REFRESH_US) = Some s \<and> pt_jobs s = [2000000000, 6000000000]
     \<and> pt_now s = 9000000000"
  by (simp add: demo_silence_def periodic_start_def periodic_step_def periodic_turn_def
      next_deadline_small SLICE_NS_def INTEREST_REFRESH_US_def)

lemma demo_silence_timely:
  "timely_run 1000000000 demo_silence (periodic_start 0 INTEREST_REFRESH_US)"
  "\<forall>l \<in> set demo_silence. periods_upto 1000000 l"
  by (simp_all add: demo_silence_def periodic_start_def periodic_step_def periodic_turn_def periods_upto_def
      next_deadline_small SLICE_NS_def INTEREST_REFRESH_US_def timely_def ready_at_def)

lemma periodic_progress_witness:
  "gaps_upto 7000000000 [0, 2000000000, 6000000000, 9000000000]"
proof -
  obtain s where "periodic_run demo_silence (periodic_start 0 INTEREST_REFRESH_US) = Some s"
    "pt_jobs s = [2000000000, 6000000000]" "pt_now s = 9000000000" using demo_silence_runs by blast
  with periodic_progress [OF this(1) demo_silence_timely(1) _ demo_silence_timely(2)] show ?thesis
    by (simp add: INTEREST_REFRESH_US_def)
qed

text \<open>The last response came at the start; a second later the clock is set back by half a second.\<close>

lemma silence_reannounced_witness:
  "announces demo_ops 0 ((demo_process 0)\<lparr>cm_clients := [smart_blank SPEED]\<rparr>) 1500000000
   \<or> announces demo_ops 0 ((demo_process 0)\<lparr>cm_clients := [smart_blank SPEED]\<rparr>) 5500000000"
proof -
  let ?c = "\<lambda>_. (demo_process 0)\<lparr>cm_clients := [smart_blank SPEED]\<rparr>"
  define rt :: "int \<Rightarrow> int" where "rt t = (if t < 1000000000 then t else t - 500000000)" for t
  obtain s where s: "periodic_run demo_silence (periodic_start 0 INTEREST_REFRESH_US) = Some s"
    "pt_jobs s = [2000000000, 6000000000]" "pt_now s = 9000000000" using demo_silence_runs by blast
  have l: "\<forall>j \<in> set (pt_jobs s). 0 \<le> j \<longrightarrow> sd_last_response_ns (smart_at 0 (?c j)) = rt 0"
    by (simp add: smart_blank_def rt_def)
  have b: "set_back_upto 500000000 rt 0 (pt_jobs s)" by (simp add: s(2) set_back_upto_def rt_def in_i64_def)
  have r: "rt 2000000000 = 1500000000" "rt 6000000000 = 5500000000" by (simp_all add: rt_def)
  have "\<exists>j \<in> set (pt_jobs s). 1500000000 \<le> j \<and> j < 1500000000 + 1000000000 + 6 * 1000000000 \<and> announces demo_ops 0 (?c j) (rt j)"
    by (rule silence_reannounced [OF s(1) demo_silence_timely _ _ _ l b]) (simp_all add: s(3))
  then show ?thesis by (auto simp: s(2) r)
qed

end
