(* ===== verification/Clock_Effects.thy ===== *)
theory Clock_Effects
  imports Sptp Smart_Data
begin

section \<open>What a corrected clock does to the ages that are measured with it\<close>

text \<open>
  \<open>Clock::now_ns\<close> reads \<open>CLOCK_REALTIME\<close>, which SPTP sets. Its watchdog uses the steady clock for
  that reason (\<open>src/channel/sptp_protocol.h\<close>); the age of a value
  (\<open>src/communication/smart_data/smart_data.h\<close>, \<open>expired\<close>) is a difference of two readings of
  \<open>now_ns\<close>. Here the clock of a vehicle runs and is corrected, and the two are compared.
\<close>

subsection \<open>A clock that is corrected\<close>

text \<open>The time that really passed, and the reading of \<open>CLOCK_REALTIME\<close>.\<close>

record vehicle_clock =
  vc_elapsed :: int
  vc_realtime :: timespec

text \<open>Time passes, or a SYNC reaches the slave: any payload, in any state of the object.\<close>

datatype clock_event =
  Passes int
| Sync_Received sync_clocks int "u8 list" sptp

definition ts_ns :: "timespec \<Rightarrow> int" where
  "ts_ns ts = tv_sec ts * 1000000000 + tv_nsec ts"

definition advance :: "int \<Rightarrow> timespec \<Rightarrow> timespec" where
  "advance d ts = (let t = ts_ns ts + d in \<lparr>tv_sec = t div 1000000000, tv_nsec = t mod 1000000000\<rparr>)"

fun clock_step :: "clock_event \<Rightarrow> vehicle_clock \<Rightarrow> vehicle_clock" where
  "clock_step (Passes d) c = c\<lparr>vc_elapsed := vc_elapsed c + d, vc_realtime := advance d (vc_realtime c)\<rparr>"
| "clock_step (Sync_Received k h p s) c =
     (case snd (slave_sync (k\<lparr>k_realtime := vc_realtime c\<rparr>) h p s) of
        None \<Rightarrow> c
      | Some ts \<Rightarrow> c\<lparr>vc_realtime := ts\<rparr>)"

definition clock_run :: "clock_event list \<Rightarrow> vehicle_clock \<Rightarrow> vehicle_clock" where
  "clock_run = fold clock_step"

definition vc_now :: "vehicle_clock \<Rightarrow> int" where
  "vc_now c = now_ns (vc_realtime c)"

fun time_passed :: "clock_event list \<Rightarrow> int" where
  "time_passed [] = 0"
| "time_passed (Passes d # es) = d + time_passed es"
| "time_passed (Sync_Received _ _ _ _ # es) = time_passed es"

fun syncs :: "clock_event list \<Rightarrow> nat" where
  "syncs [] = 0"
| "syncs (Passes _ # es) = syncs es"
| "syncs (Sync_Received _ _ _ _ # es) = Suc (syncs es)"

definition forward :: "clock_event \<Rightarrow> bool" where
  "forward e = (case e of Passes d \<Rightarrow> 0 \<le> d | _ \<Rightarrow> True)"

lemma clock_run_simps [simp]: "clock_run [] c = c" "clock_run (e # es) c = clock_run es (clock_step e c)"
  by (simp_all add: clock_run_def)

lemma now_ns_exact: "in_i64 (ts_ns ts) \<Longrightarrow> now_ns ts = ts_ns ts"
  by (simp add: now_ns_def ts_ns_def i64_id)

lemma advance_exact: "ts_ns (advance d ts) = ts_ns ts + d \<and> timespec_ok (advance d ts)"
  by (simp add: advance_def ts_ns_def timespec_ok_def Let_def)

subsection \<open>One correction\<close>

lemma correction_bounded:
  assumes "timespec_ok rt" and "1000000000 \<le> ts_ns rt" and "ts_ns rt < 2 ^ 62"
    and "snd (slave_sync (k\<lparr>k_realtime := rt\<rparr>) h p s) = Some ts"
  shows "timespec_ok ts \<and> \<bar>ts_ns ts - ts_ns rt\<bar> \<le> MAX_OFFSET_NS - 1"
proof -
  obtain s' where "slave_sync (k\<lparr>k_realtime := rt\<rparr>) h p s = (s', Some ts)" using assms(4) by (metis prod.collapse)
  then obtain off where off: "\<bar>off\<bar> < MAX_OFFSET_NS" and ts: "ts = adjust_clock_jump rt (- off)"
    using slave_sync_jump by fastforce
  have t: "0 \<le> ts_ns rt - off" "ts_ns rt - off < 2 ^ 63"
    using assms(2,3) off by (simp_all add: MAX_OFFSET_NS_def abs_less_iff)
  then have "i64 (tv_sec rt * 1000000000 + tv_nsec rt + - off) = ts_ns rt - off"
    by (simp add: i64_id in_i64_def ts_ns_def)
  then have "ts = \<lparr>tv_sec = (ts_ns rt - off) div 1000000000, tv_nsec = (ts_ns rt - off) mod 1000000000\<rparr>"
    using t(1) by (simp add: ts adjust_clock_jump_def Let_def sdiv_nonneg smod_nonneg)
  then have "ts_ns ts = ts_ns rt - off" "timespec_ok ts" by (simp_all add: ts_ns_def timespec_ok_def)
  then show ?thesis using off by (simp add: abs_le_iff abs_less_iff)
qed

subsection \<open>The distance between the clock and the time that passed\<close>

definition drift_ok :: "int \<Rightarrow> nat \<Rightarrow> vehicle_clock \<Rightarrow> vehicle_clock \<Rightarrow> bool" where
  "drift_ok d n c c' = (timespec_ok (vc_realtime c') \<and> vc_elapsed c' = vc_elapsed c + d
     \<and> \<bar>ts_ns (vc_realtime c') - ts_ns (vc_realtime c) - d\<bar> \<le> int n * (MAX_OFFSET_NS - 1))"

lemma drift_ok_trans:
  assumes "drift_ok d n c c1" and "drift_ok d' n' c1 c2"
  shows "drift_ok (d + d') (n + n') c c2"
proof -
  have "\<bar>ts_ns (vc_realtime c2) - ts_ns (vc_realtime c) - (d + d')\<bar>
      \<le> \<bar>ts_ns (vc_realtime c1) - ts_ns (vc_realtime c) - d\<bar> + \<bar>ts_ns (vc_realtime c2) - ts_ns (vc_realtime c1) - d'\<bar>"
    by linarith
  then show ?thesis using assms by (simp add: drift_ok_def distrib_right)
qed

lemma time_passed_nonneg: "\<forall>e \<in> set es. forward e \<Longrightarrow> 0 \<le> time_passed es"
  by (induction es rule: time_passed.induct) (simp_all add: forward_def)

lemma clock_run_drift:
  assumes "timespec_ok (vc_realtime c)" and "\<forall>e \<in> set es. forward e"
    and "int (Suc (syncs es)) * 1000000000 \<le> ts_ns (vc_realtime c)"
    and "ts_ns (vc_realtime c) + time_passed es + int (syncs es) * 1000000000 < 2 ^ 62"
  shows "drift_ok (time_passed es) (syncs es) c (clock_run es c)"
  using assms
proof (induction es arbitrary: c)
  case Nil
  then show ?case by (simp add: drift_ok_def)
next
  case (Cons e es)
  have fw: "\<forall>e \<in> set es. forward e" and p: "0 \<le> time_passed es" using Cons.prems(2) time_passed_nonneg by auto
  show ?case
  proof (cases e)
    case (Passes d)
    let ?c = "clock_step e c"
    have c: "ts_ns (vc_realtime ?c) = ts_ns (vc_realtime c) + d" "timespec_ok (vc_realtime ?c)"
      "vc_elapsed ?c = vc_elapsed c + d" using advance_exact by (simp_all add: Passes)
    have "0 \<le> d" using Cons.prems(2) Passes by (simp add: forward_def)
    then have "drift_ok (time_passed es) (syncs es) ?c (clock_run es ?c)"
      by (intro Cons.IH [OF c(2) fw]) (use Cons.prems(3,4) c(1) Passes in simp_all)
    moreover have "drift_ok d 0 c ?c" using c by (simp add: drift_ok_def)
    ultimately have "drift_ok (d + time_passed es) (0 + syncs es) c (clock_run es ?c)" using drift_ok_trans by blast
    then show ?thesis by (simp add: Passes)
  next
    case (Sync_Received k h pl s)
    let ?c = "clock_step e c"
    have big: "1000000000 \<le> ts_ns (vc_realtime c)" "ts_ns (vc_realtime c) < 2 ^ 62"
      using Cons.prems(3,4) p Sync_Received by (simp_all add: algebra_simps)
    have c: "timespec_ok (vc_realtime ?c)" "vc_elapsed ?c = vc_elapsed c"
      "\<bar>ts_ns (vc_realtime ?c) - ts_ns (vc_realtime c)\<bar> \<le> MAX_OFFSET_NS - 1"
      using correction_bounded [OF Cons.prems(1) big, of k h pl s] Cons.prems(1)
      by (simp_all add: Sync_Received MAX_OFFSET_NS_def split: option.splits)
    have "- 1000000000 < ts_ns (vc_realtime ?c) - ts_ns (vc_realtime c)"
      "ts_ns (vc_realtime ?c) - ts_ns (vc_realtime c) < 1000000000"
      using c(3) by (simp_all add: MAX_OFFSET_NS_def abs_le_iff)
    then have "drift_ok (time_passed es) (syncs es) ?c (clock_run es ?c)"
      by (intro Cons.IH [OF c(1) fw]) (use Cons.prems(3,4) Sync_Received in \<open>simp_all add: algebra_simps\<close>)
    moreover have "drift_ok 0 1 c ?c" using c by (simp add: drift_ok_def)
    ultimately have "drift_ok (0 + time_passed es) (1 + syncs es) c (clock_run es ?c)" using drift_ok_trans by blast
    then show ?thesis by (simp add: Sync_Received)
  qed
qed

subsection \<open>Freshness\<close>

text \<open>C26. The age a consumer computes and the true age differ by less than a second for each
  correction in between: a value it calls fresh is at most three periods and that much old, and one
  it calls expired is older than three periods less that much.\<close>

theorem freshness_bounded:
  assumes "timespec_ok (vc_realtime c)" and "\<forall>e \<in> set es. forward e"
    and "int (Suc (syncs es)) * 1000000000 \<le> ts_ns (vc_realtime c)"
    and "ts_ns (vc_realtime c) + time_passed es + int (syncs es) * 1000000000 < 2 ^ 62"
    and "sd_has_value sd" and "sd_last_value_ns sd = vc_now c" and "0 \<le> sint (sd_period_us sd)" and "sint (sd_period_us sd) < 2 ^ 50"
    and "c' = clock_run es c" and "slack = int (syncs es) * (MAX_OFFSET_NS - 1)" and "age = vc_elapsed c' - vc_elapsed c"
  shows "if smart_expired (vc_now c') sd then 3 * sint (sd_period_us sd) * 1000 - slack < age
     else age \<le> 3 * sint (sd_period_us sd) * 1000 + slack"
proof -
  have d: "age = time_passed es" "\<bar>ts_ns (vc_realtime c') - ts_ns (vc_realtime c) - time_passed es\<bar> \<le> slack"
    using clock_run_drift [OF assms(1-4)] by (simp_all add: drift_ok_def assms(9-11))
  have p: "0 \<le> time_passed es" by (rule time_passed_nonneg [OF assms(2)])
  have s: "0 \<le> slack" "slack \<le> int (syncs es) * 1000000000" by (simp_all add: assms(10) MAX_OFFSET_NS_def)
  have r: "0 \<le> ts_ns (vc_realtime c')" "ts_ns (vc_realtime c') < 2 ^ 62" "0 \<le> ts_ns (vc_realtime c)" "ts_ns (vc_realtime c) < 2 ^ 62"
    using d(2) s p assms(3,4) by (simp_all add: abs_le_iff algebra_simps)
  have n: "vc_now c' = ts_ns (vc_realtime c')" "vc_now c = ts_ns (vc_realtime c)"
    using r by (simp_all add: vc_now_def now_ns_exact in_i64_def)
  have t: "i64 (i64 (VALUE_TTL_FACTOR * sint (sd_period_us sd)) * 1000) = 3 * sint (sd_period_us sd) * 1000"
    using assms(7,8) by (simp add: VALUE_TTL_FACTOR_def i64_id in_i64_def)
  have "i64 (vc_now c' - sd_last_value_ns sd) = ts_ns (vc_realtime c') - ts_ns (vc_realtime c)"
    using r by (simp add: assms(6) n i64_id in_i64_def)
  then have "smart_expired (vc_now c') sd = (3 * sint (sd_period_us sd) * 1000 < ts_ns (vc_realtime c') - ts_ns (vc_realtime c))"
    using assms(5) t by (simp add: smart_expired_def)
  then show ?thesis using d by (simp add: abs_le_iff)
qed

subsection \<open>A stale value that becomes fresh\<close>

definition demo_vehicle_clock :: vehicle_clock where
  "demo_vehicle_clock = \<lparr>vc_elapsed = 0, vc_realtime = \<lparr>tv_sec = 10, tv_nsec = 0\<rparr>\<rparr>"

text \<open>A value of a consumer with a period of 1 ms, received at 10 s.\<close>

definition demo_reading :: smart_data where
  "demo_reading = (smart_blank SPEED)\<lparr>sd_has_value := True, sd_last_value_ns := 10000000000, sd_period_us := 1000\<rparr>"

text \<open>A slave 4.5 ms ahead hears its master.\<close>

definition demo_correction :: clock_event where
  "demo_correction = Sync_Received demo_clocks 3000000 (enc_sync \<lparr>sp_seq_id = 1, sp_t2_prime = 2000000\<rparr>) demo_slave"

lemma demo_correction_step:
  "vc_realtime (clock_step demo_correction (clock_step (Passes 3000001) demo_vehicle_clock))
     = \<lparr>tv_sec = 9, tv_nsec = 998500001\<rparr>"
proof -
  have st: "s_pending_t2 demo_slave = 5000000" "s_pending_seq demo_slave = 1" "s_delay_ns demo_slave = 100000"
    by (simp_all add: demo_slave_def sptp_init_def INITIAL_DELAY_NS_def)
  have k: "k_now demo_clocks = 9000000" by (simp add: demo_clocks_def)
  show ?thesis
    by (simp add: demo_correction_def demo_vehicle_clock_def advance_def ts_ns_def slave_sync_def st k demo_sync demo_values
        Let_def sptp_consts i64_id in_i64_def adjust_clock_jump_def signed_divide_int_def signed_modulo_int_def)
qed

text \<open>The value has expired, 1 ns after its three periods; the correction makes it fresh again, and it
  stays so for another 4.5 ms.\<close>

theorem correction_revives_value:
  "smart_expired (vc_now (clock_run [Passes 3000001] demo_vehicle_clock)) demo_reading
   \<and> \<not> smart_expired (vc_now (clock_run [Passes 3000001, demo_correction, Passes 4499999] demo_vehicle_clock)) demo_reading"
proof -
  have "vc_now (clock_run [Passes 3000001] demo_vehicle_clock) = 10003000001"
    by (simp add: vc_now_def demo_vehicle_clock_def advance_def ts_ns_def now_ns_def i64_id in_i64_def)
  moreover have "vc_now (clock_run [Passes 3000001, demo_correction, Passes 4499999] demo_vehicle_clock) = 10003000000"
  proof -
    have "vc_realtime (clock_step (Passes 4499999) c) = advance 4499999 (vc_realtime c)" for c by simp
    then have "vc_realtime (clock_run [Passes 3000001, demo_correction, Passes 4499999] demo_vehicle_clock)
        = advance 4499999 \<lparr>tv_sec = 9, tv_nsec = 998500001\<rparr>"
      unfolding clock_run_simps by (simp only: demo_correction_step)
    then show ?thesis unfolding vc_now_def by (simp add: advance_def ts_ns_def now_ns_def i64_id in_i64_def)
  qed
  ultimately show ?thesis
    by (simp add: smart_expired_def demo_reading_def smart_blank_def VALUE_TTL_FACTOR_def i64_id in_i64_def)
qed

lemma freshness_bounded_witness:
  "vc_elapsed (clock_run [Passes 3000001, demo_correction, Passes 4499999] demo_vehicle_clock) - vc_elapsed demo_vehicle_clock
     \<le> 3 * 1000 * 1000 + 999999999"
proof -
  let ?es = "[Passes 3000001, demo_correction, Passes 4499999]"
  have f: "\<not> smart_expired (vc_now (clock_run ?es demo_vehicle_clock)) demo_reading" using correction_revives_value by blast
  have h: "timespec_ok (vc_realtime demo_vehicle_clock)" "\<forall>e \<in> set ?es. forward e"
    "int (Suc (syncs ?es)) * 1000000000 \<le> ts_ns (vc_realtime demo_vehicle_clock)"
    "ts_ns (vc_realtime demo_vehicle_clock) + time_passed ?es + int (syncs ?es) * 1000000000 < 2 ^ 62"
    "sd_has_value demo_reading" "sd_last_value_ns demo_reading = vc_now demo_vehicle_clock"
    "0 \<le> sint (sd_period_us demo_reading)" "sint (sd_period_us demo_reading) < 2 ^ 50"
    by (simp_all add: demo_vehicle_clock_def timespec_ok_def forward_def demo_correction_def ts_ns_def demo_reading_def
        vc_now_def now_ns_def i64_id in_i64_def smart_blank_def)
  have "sint (sd_period_us demo_reading) = 1000" "int (syncs ?es) = 1" by (simp_all add: demo_reading_def demo_correction_def)
  then show ?thesis using freshness_bounded [OF h refl refl refl] f by (simp add: MAX_OFFSET_NS_def)
qed

end
