(* ===== verification/Lease_Gap.thy ===== *)
theory Lease_Gap
  imports Smart_Behaviour
begin

section \<open>A consumer, a producer, and the lease between them\<close>

text \<open>
  \<open>src/communication/smart_data/smart_data.h\<close> announces an interest again only after a second
  without responses; \<open>binding_cache.h\<close> forgets an interest 3.5 s (or four periods) after it was
  announced, whether it answers it or not. Here one consumer and one producer of a unit are put
  together, with nobody else interested and no roadside unit that repeats interests. Messages
  take no time: what is shown is due to the two rules, not to the network.
\<close>

subsection \<open>The two objects\<close>

text \<open>The producer's table, the consumer, and the instants at which the consumer started or was
  answered (newest last).\<close>

record service =
  sv_cache :: binding_cache
  sv_consumer :: smart_data
  sv_marks :: "int list"

text \<open>The refresh thread ticks; the reaper wakes up; the sender thread's period has come.\<close>

datatype service_event =
  Refresh int
| Reaped int
| Answer int message

primrec service_time :: "service_event \<Rightarrow> int" where
  "service_time (Refresh now) = now"
| "service_time (Reaped now) = now"
| "service_time (Answer now m) = now"

text \<open>The test of \<open>reactive_tick\<close>.\<close>

definition refresh_due :: "int \<Rightarrow> smart_data \<Rightarrow> bool" where
  "refresh_due now sd = (i64 (now - sd_last_response_ns sd) \<ge> sint INTEREST_REFRESH_US * 1000)"

primrec service_step :: "address \<Rightarrow> service_event \<Rightarrow> service \<Rightarrow> service" where
  "service_step a (Refresh now) s =
     (if refresh_due now (sv_consumer s)
      then s\<lparr>sv_cache := on_interest now (sd_unit (sv_consumer s)) a (sd_period_us (sv_consumer s)) (sv_cache s),
             sv_consumer := (sv_consumer s)\<lparr>sd_reissues := sd_reissues (sv_consumer s) + 1\<rparr>\<rparr>
      else s)"
| "service_step a (Reaped now) s = s\<lparr>sv_cache := reap now (sv_cache s)\<rparr>"
| "service_step a (Answer now m) s =
     (case map_of (bc_threads (sv_cache s)) (sd_unit (sv_consumer s)) of
        None \<Rightarrow> s
      | Some _ \<Rightarrow> s\<lparr>sv_consumer := snd (smart_handle now now m (sv_consumer s)), sv_marks := sv_marks s @ [now]\<rparr>)"

definition service_run :: "address \<Rightarrow> service_event list \<Rightarrow> service \<Rightarrow> service" where
  "service_run a = fold (service_step a)"

text \<open>The consumer is constructed at \<open>t0\<close> and its first interest registered.\<close>

definition service_start :: "int \<Rightarrow> unit_code \<Rightarrow> address \<Rightarrow> u64 \<Rightarrow> service" where
  "service_start t0 u a p =
     \<lparr>sv_cache = on_interest t0 u a p (binding_cache_init BINDING_LIFETIME_MIN_US BINDING_LIFETIME_FACTOR),
      sv_consumer = (smart_blank u)\<lparr>sd_period_us := p, sd_last_response_ns := t0\<rparr>, sv_marks = [t0]\<rparr>"

text \<open>Time goes on, and every answer is a response of the unit.\<close>

primrec service_ok :: "unit_code \<Rightarrow> int \<Rightarrow> service_event list \<Rightarrow> bool" where
  "service_ok u now [] = True"
| "service_ok u now (e # es) = (now \<le> service_time e \<and> service_time e < 2 ^ 62
     \<and> (case e of Answer _ m \<Rightarrow> is_response u m | _ \<Rightarrow> True) \<and> service_ok u (service_time e) es)"

definition has_gap :: "int list \<Rightarrow> bool" where
  "has_gap ts = (\<exists>k. Suc k < length ts \<and> ts ! k + 1000000000 \<le> ts ! Suc k)"

lemma has_gap_snoc: "has_gap ts \<Longrightarrow> has_gap (ts @ [t])"
  unfolding has_gap_def by (elim exE) (rule_tac x = k in exI, simp add: nth_append)

lemma has_gap_last: "ts \<noteq> [] \<Longrightarrow> last ts + 1000000000 \<le> t \<Longrightarrow> has_gap (ts @ [t])"
  unfolding has_gap_def by (rule exI [of _ "length ts - 1"]) (simp add: nth_append last_conv_nth)

lemma service_run_simps [simp]:
  "service_run a [] s = s" "service_run a (e # es) s = service_run a es (service_step a e s)"
  "service_run a (es @ es') s = service_run a es' (service_run a es s)"
  by (simp_all add: service_run_def)

subsection \<open>The invariant\<close>

text \<open>What never changes, and that the marks are what the consumer remembers.\<close>

definition service_inv :: "unit_code \<Rightarrow> int \<Rightarrow> service \<Rightarrow> bool" where
  "service_inv u now s = (cache_ok (sv_cache s) \<and> sd_role (sv_consumer s) = CONSUMER \<and> sd_unit (sv_consumer s) = u
     \<and> sv_marks s \<noteq> [] \<and> last (sv_marks s) = sd_last_response_ns (sv_consumer s)
     \<and> 0 \<le> sd_last_response_ns (sv_consumer s) \<and> sd_last_response_ns (sv_consumer s) \<le> now)"

text \<open>The interest was not announced again, and every lease ends by \<open>e\<close>; or it was announced a second
  after the last answer.\<close>

definition not_renewed :: "int \<Rightarrow> service \<Rightarrow> bool" where
  "not_renewed e s = (\<forall>b \<in> set (bc_bindings (sv_cache s)). b_expiry_ns b \<le> e)"

definition silent_second :: "int \<Rightarrow> service \<Rightarrow> bool" where
  "silent_second now s = (sd_last_response_ns (sv_consumer s) + 1000000000 \<le> now)"

lemma refresh_due_exact:
  assumes "service_inv u t s" and "t \<le> now" and "now < 2 ^ 62"
  shows "refresh_due now (sv_consumer s) = silent_second now s"
proof -
  have "sint INTEREST_REFRESH_US * 1000 = 1000000000" by (simp add: INTEREST_REFRESH_US_def)
  moreover have "i64 (now - sd_last_response_ns (sv_consumer s)) = now - sd_last_response_ns (sv_consumer s)"
    using assms by (simp add: service_inv_def i64_id in_i64_def)
  ultimately show ?thesis by (auto simp: refresh_due_def silent_second_def)
qed

lemma answer_needs_binding:
  assumes "service_inv u t s" and "map_of (bc_threads (sv_cache s)) (sd_unit (sv_consumer s)) = Some th"
  shows "bc_bindings (sv_cache s) \<noteq> []"
  using cache_ok_senders [of "sv_cache s"] assms by (auto simp: service_inv_def)

lemma service_inv_step:
  assumes "service_inv u t s" and "service_ok u t (e # es)"
  shows "service_inv u (service_time e) (service_step a e s)"
proof (cases e)
  case (Refresh now)
  then show ?thesis using assms cache_ok_step [of "sv_cache s" "Interest now (sd_unit (sv_consumer s)) a (sd_period_us (sv_consumer s))"]
    by (simp add: service_inv_def)
next
  case (Reaped now)
  then show ?thesis using assms cache_ok_step [of "sv_cache s" "Reap now"] by (simp add: service_inv_def)
next
  case (Answer now m)
  have "snd (smart_handle now now m (sv_consumer s)) = on_response_message now now m (sv_consumer s)"
    using assms Answer consumer_handles [of "sv_consumer s" now now m] by (simp add: service_inv_def)
  then show ?thesis using assms Answer by (auto simp: service_inv_def split: option.split)
qed

text \<open>One step: a gap stays; a silent second becomes a gap at the next answer; and without either the
  table is not renewed.\<close>

definition service_mode :: "int \<Rightarrow> int \<Rightarrow> service \<Rightarrow> bool" where
  "service_mode e now s = (has_gap (sv_marks s) \<or> silent_second now s \<or> not_renewed e s)"

lemma silent_second_mono: "silent_second t s \<Longrightarrow> t \<le> t' \<Longrightarrow> silent_second t' s"
  by (simp add: silent_second_def)

lemma reap_bindings: "bc_bindings (reap now c) = filter (\<lambda>b. \<not> (now > b_expiry_ns b)) (bc_bindings c)"
  by (simp add: reap_def)

lemma service_mode_step:
  assumes "service_mode e t s" and "service_inv u t s" and "service_ok u t (ev # es)"
  shows "service_mode e (service_time ev) (service_step a ev s)"
proof (cases ev)
  case (Refresh now)
  have n: "t \<le> now" "now < 2 ^ 62" using assms(3) Refresh by simp_all
  show ?thesis
  proof (cases "silent_second now s")
    case True
    then show ?thesis by (simp add: Refresh service_mode_def silent_second_def)
  next
    case False
    then have "\<not> refresh_due now (sv_consumer s)" using refresh_due_exact [OF assms(2) n] by simp
    then show ?thesis using assms(1) False silent_second_mono [OF _ n(1)] by (auto simp: Refresh service_mode_def)
  qed
next
  case (Reaped now)
  then show ?thesis using assms(1,3)
    by (auto simp: service_mode_def silent_second_def not_renewed_def reap_bindings)
next
  case (Answer now m)
  have n: "t \<le> now" using assms(3) Answer by simp
  have l: "sv_marks s \<noteq> []" "last (sv_marks s) = sd_last_response_ns (sv_consumer s)" using assms(2) by (simp_all add: service_inv_def)
  show ?thesis
    using assms(1) silent_second_mono [OF _ n, of s] has_gap_snoc [of "sv_marks s" now] has_gap_last [OF l(1), of now] l(2)
    by (auto simp: Answer service_mode_def silent_second_def not_renewed_def split: option.split)
qed

lemma service_run_inv:
  assumes "service_mode e t s" and "service_inv u t s" and "service_ok u t es"
  shows "\<exists>t'. service_mode e t' (service_run a es s) \<and> service_inv u t' (service_run a es s)
     \<and> (es \<noteq> [] \<longrightarrow> t' = service_time (last es)) \<and> (es = [] \<longrightarrow> t' = t)"
  using assms
proof (induction es arbitrary: s t)
  case (Cons ev es)
  have "service_ok u (service_time ev) es" using Cons.prems(3) by simp
  from Cons.IH [OF service_mode_step [OF Cons.prems, of a] service_inv_step [OF Cons.prems(2,3), of a] this]
  show ?case by auto
qed auto

subsection \<open>After the lease\<close>

definition after_lease :: "nat \<Rightarrow> int \<Rightarrow> service \<Rightarrow> bool" where
  "after_lease n now s = (has_gap (sv_marks s)
     \<or> length (sv_marks s) = n \<and> (silent_second now s \<or> bc_bindings (sv_cache s) = []))"

lemma after_lease_step:
  assumes "after_lease n t s" and "service_inv u t s" and "service_ok u t (ev # es)"
  shows "after_lease n (service_time ev) (service_step a ev s)"
proof (cases ev)
  case (Refresh now)
  have n: "t \<le> now" "now < 2 ^ 62" using assms(3) Refresh by simp_all
  show ?thesis
  proof (cases "silent_second now s")
    case True
    then show ?thesis using assms(1) by (auto simp: Refresh after_lease_def silent_second_def)
  next
    case False
    then have "\<not> refresh_due now (sv_consumer s)" using refresh_due_exact [OF assms(2) n] by simp
    then show ?thesis using assms(1) False silent_second_mono [OF _ n(1)] by (auto simp: Refresh after_lease_def)
  qed
next
  case (Reaped now)
  then show ?thesis using assms(1,3)
    by (auto simp: after_lease_def silent_second_def reap_bindings)
next
  case (Answer now m)
  have n: "t \<le> now" using assms(3) Answer by simp
  have l: "sv_marks s \<noteq> []" "last (sv_marks s) = sd_last_response_ns (sv_consumer s)" using assms(2) by (simp_all add: service_inv_def)
  show ?thesis
  proof (cases "map_of (bc_threads (sv_cache s)) (sd_unit (sv_consumer s))")
    case None
    then show ?thesis using assms(1) silent_second_mono [OF _ n, of s] by (auto simp: Answer after_lease_def)
  next
    case (Some th)
    then have "has_gap (sv_marks s) \<or> silent_second t s"
      using assms(1) answer_needs_binding [OF assms(2) Some] by (auto simp: after_lease_def)
    then have "has_gap (sv_marks s @ [now])"
      using has_gap_snoc has_gap_last [OF l(1), of now] l(2) silent_second_mono [OF _ n, of s] by (auto simp: silent_second_def)
    then show ?thesis using Some by (simp add: Answer after_lease_def)
  qed
qed

lemma after_lease_run:
  "after_lease n t s \<Longrightarrow> service_inv u t s \<Longrightarrow> service_ok u t es
    \<Longrightarrow> has_gap (sv_marks (service_run a es s)) \<or> length (sv_marks (service_run a es s)) = n"
proof (induction es arbitrary: s t)
  case (Cons ev es)
  have "service_ok u (service_time ev) es" using Cons.prems(3) by simp
  from Cons.IH [OF after_lease_step [OF Cons.prems, of a] service_inv_step [OF Cons.prems(2,3), of a] this]
  show ?case by simp
qed (auto simp: after_lease_def)

lemma service_ok_append:
  "service_ok u t (es @ es') = (service_ok u t es \<and> service_ok u (if es = [] then t else service_time (last es)) es')"
  by (induction es arbitrary: t) auto

lemma service_start_ok:
  assumes "0 \<le> t0" and "t0 < 2 ^ 62" and "p \<noteq> 0" and "uint p < 2 ^ 50"
  shows "service_inv u t0 (service_start t0 u a p)"
    and "service_mode (t0 + 1000 * max 3500000 (4 * uint p)) t0 (service_start t0 u a p)"
proof -
  let ?i = "binding_cache_init BINDING_LIFETIME_MIN_US BINDING_LIFETIME_FACTOR"
  have "cache_ok (on_interest t0 u a p ?i)"
    using cache_ok_step [OF cache_ok_init, of "Interest t0 u a p"] by simp
  then show "service_inv u t0 (service_start t0 u a p)"
    using assms(1) by (simp add: service_inv_def service_start_def smart_blank_def)
  have "bc_bindings (on_interest t0 u a p ?i) = [\<lparr>b_unit = u, b_address = a, b_period_us = p,
      b_expiry_ns = t0 + 1000 * max 3500000 (4 * uint p)\<rparr>]"
    using assms(3) expiry_no_overflow [OF assms(4,1,2)]
    by (simp add: on_interest_def Let_def find_binding_def) (simp add: binding_cache_init_def)
  then show "service_mode (t0 + 1000 * max 3500000 (4 * uint p)) t0 (service_start t0 u a p)"
    by (simp add: service_mode_def not_renewed_def service_start_def)
qed

text \<open>C23. With nobody else interested and no roadside unit, no consumer is served beyond the first wake-up of the
  reaper after its lease without a silence of at least a second: however often the producer
  answers and the refresh thread ticks, an answer after that wake-up means such a gap.\<close>

theorem service_interrupted:
  assumes "0 \<le> t0" and "t0 < 2 ^ 62" and "p \<noteq> 0" and "uint p < 2 ^ 50"
    and "service_ok u t0 (es @ Reaped r # es')" and "t0 + 1000 * max 3500000 (4 * uint p) < r"
    and "before = sv_marks (service_run a es (service_start t0 u a p))"
    and "whole = sv_marks (service_run a (es @ Reaped r # es') (service_start t0 u a p))"
    and "length before < length whole"
  shows "has_gap whole"
proof -
  let ?e = "t0 + 1000 * max 3500000 (4 * uint p)" and ?s = "service_run a es (service_start t0 u a p)"
  let ?s1 = "service_step a (Reaped r) ?s"
  have ok: "service_ok u t0 es" "service_ok u (if es = [] then t0 else service_time (last es)) (Reaped r # es')"
    using assms(5) unfolding service_ok_append by blast+
  define t where "t = (if es = [] then t0 else service_time (last es))"
  have m: "service_mode ?e t ?s" "service_inv u t ?s"
    using service_run_inv [OF service_start_ok(2,1) [OF assms(1-4)] ok(1), of a] by (auto simp: t_def)
  have i1: "service_inv u r ?s1" using service_inv_step [OF m(2) ok(2) [folded t_def], of a] by simp
  have "after_lease (length before) r ?s1"
    using m(1) assms(6,7) ok(2) [folded t_def]
    by (auto simp: after_lease_def service_mode_def silent_second_def not_renewed_def reap_bindings filter_empty_conv)
  from after_lease_run [OF this i1, of es' a]
  have "has_gap (sv_marks (service_run a es' ?s1)) \<or> length (sv_marks (service_run a es' ?s1)) = length before"
    using ok(2) by simp
  then show ?thesis using assms(8,9) by (simp del: service_step.simps)
qed

subsection \<open>A concrete service\<close>

text \<open>A period of 0.9 s: answers up to 4.5 s, the reaper at 4 s, nothing more until the tick at
  5.5 s, answers again.\<close>

definition demo_service :: "service_event list" where
  "demo_service = map (\<lambda>k. Answer (k * 900000000) (demo_response 7)) [1, 2, 3, 4]"

definition demo_service_rest :: "service_event list" where
  "demo_service_rest = [Answer 4500000000 (demo_response 7), Refresh 4500000000, Refresh 5500000000, Answer 5500000000 (demo_response 8)]"

abbreviation demo_start :: service where
  "demo_start \<equiv> service_start 0 SPEED null_address 900000"

lemma demo_service_ok: "service_ok SPEED 0 (demo_service @ Reaped 4000000000 # demo_service_rest)"
  by (simp add: demo_service_def demo_service_rest_def demo_response_fields)

lemmas service_eval = service_start_def on_interest_def expiry_for_def find_binding_def resync_threads_def sync_thread_def
  shortest_locked_def binding_cache_init_def BINDING_LIFETIME_MIN_US_def BINDING_LIFETIME_FACTOR_def reap_def Let_def
  refresh_due_def INTEREST_REFRESH_US_def i64_id in_i64_def smart_blank_def consumer_handles demo_response_fields

lemma demo_before: "sv_marks (service_run null_address demo_service demo_start)
    = [0, 900000000, 1800000000, 2700000000, 3600000000]"
  by (simp add: demo_service_def service_eval)

lemma demo_whole: "sv_marks (service_run null_address (demo_service @ Reaped 4000000000 # demo_service_rest) demo_start)
    = [0, 900000000, 1800000000, 2700000000, 3600000000, 5500000000]"
  by (simp add: demo_service_def demo_service_rest_def service_eval)

lemma service_interrupted_witness: "has_gap [0, 900000000, 1800000000, 2700000000, 3600000000, 5500000000]"
  by (rule service_interrupted [OF _ _ _ _ demo_service_ok _ demo_before [symmetric] demo_whole [symmetric]]) simp_all

subsection \<open>With someone who repeats the interest\<close>

text \<open>
  The interest of \<open>a\<close> in \<open>u\<close> arrives again no later than the lease of 3.5 s after the time before
  (\<open>prev\<close>): no wake-up of the reaper comes later than that after the last arrival, and nobody withdraws
  it. This is what a roadside unit does for a present vehicle at every tick. An interest from another
  quadrant clears the table (\<open>None\<close>), until this one arrives again.
\<close>

primrec last_arrival :: "unit_code \<times> address \<Rightarrow> int option \<Rightarrow> cache_op list \<Rightarrow> int option" where
  "last_arrival k prev [] = prev"
| "last_arrival k prev (x # xs) = last_arrival k
     (case x of Interest now u a p \<Rightarrow> if (u, a) = k then Some now else prev | Clear \<Rightarrow> None | _ \<Rightarrow> prev) xs"

primrec renewed :: "unit_code \<times> address \<Rightarrow> int option \<Rightarrow> cache_op list \<Rightarrow> bool" where
  "renewed k prev [] = True"
| "renewed k prev (x # xs) =
     (case x of
        Interest now u a p \<Rightarrow> 0 \<le> now \<and> now < 2 ^ 62 \<and> uint p < 2 ^ 50 \<and> renewed k (if (u, a) = k then Some now else prev) xs
      | Disinterest u a \<Rightarrow> (u, a) \<noteq> k \<and> renewed k prev xs
      | Clear \<Rightarrow> renewed k None xs
      | Reap now \<Rightarrow> (case prev of None \<Rightarrow> True | Some t \<Rightarrow> now \<le> t + 3500000000) \<and> renewed k prev xs)"

definition default_lifetimes :: "binding_cache \<Rightarrow> bool" where
  "default_lifetimes c = (bc_lifetime_min_us c = BINDING_LIFETIME_MIN_US \<and> bc_lifetime_factor c = BINDING_LIFETIME_FACTOR)"

lemma expiry_default:
  assumes "default_lifetimes c" and "uint p < 2 ^ 50" and "0 \<le> now" and "now < 2 ^ 62"
  shows "now + 3500000000 \<le> expiry_for now p c"
proof -
  have "expiry_for now p c = expiry_for now p (binding_cache_init BINDING_LIFETIME_MIN_US BINDING_LIFETIME_FACTOR)"
    using assms(1) by (simp add: expiry_for_def default_lifetimes_def binding_cache_init_def Let_def)
  then show ?thesis using expiry_no_overflow [OF assms(2-4)] by simp
qed

definition leased :: "unit_code \<times> address \<Rightarrow> int option \<Rightarrow> binding_cache \<Rightarrow> bool" where
  "leased k prev c = (cache_ok c \<and> default_lifetimes c
     \<and> (case prev of None \<Rightarrow> True | Some t \<Rightarrow> \<exists>v. interests c k = Some v \<and> t + 3500000000 \<le> snd v))"

lemma interests_step:
  "cache_ok c \<Longrightarrow> interests (cache_step x c) = map_op (as_update c x) (interests c)"
  using cache_run_refines(2) [of c "[x]"] by (simp add: cache_run_def cache_ok_def)

lemma leased_interest:
  assumes "leased k prev c" and "0 \<le> now" "now < 2 ^ 62" "uint p < 2 ^ 50"
  shows "leased k (if (u, a) = k then Some now else prev) (cache_step (Interest now u a p) c)"
proof -
  let ?p = "if p = 0 then 1 else p"
  have "uint ?p < 2 ^ 50" using assms(4) by simp
  then have "now + 3500000000 \<le> expiry_for now ?p c"
    using expiry_default assms(1-3) unfolding leased_def by blast
  moreover have "interests (cache_step (Interest now u a p) c) = (interests c)((u, a) \<mapsto> (?p, expiry_for now ?p c))"
    using interests_step [of c "Interest now u a p"] assms(1) by (simp add: leased_def)
  ultimately show ?thesis
    using assms(1) cache_ok_step [of c "Interest now u a p"] cache_step_lifetimes [of "Interest now u a p" c]
    unfolding leased_def default_lifetimes_def by (auto split: option.split)
qed

lemma leased_other:
  assumes "leased k prev c" and "renewed k prev (x # xs)" and "\<And>now u a p. x \<noteq> Interest now u a p" and "x \<noteq> Clear"
  shows "leased k prev (cache_step x c)"
proof -
  have "interests (cache_step x c) k = interests c k" if "prev \<noteq> None"
    using assms that interests_step [of c x] by (cases x) (auto simp: leased_def)
  then show ?thesis
    using assms(1) cache_ok_step [of c x] cache_step_lifetimes [of x c] unfolding leased_def default_lifetimes_def
    by (auto split: option.splits)
qed

lemma leased_serves:
  assumes "leased (u, a) (Some t) c"
  shows "\<exists>th. map_of (bc_threads c) u = Some th"
proof -
  have "(u, a) \<in> b_key ` set (bc_bindings c)"
  proof (rule ccontr)
    assume "(u, a) \<notin> b_key ` set (bc_bindings c)"
    then have "interests c (u, a) = None" by (auto simp: table_def map_of_eq_None_iff)
    then show False using assms by (simp add: leased_def)
  qed
  then have "u \<in> dom (map_of (bc_threads c))" using cache_ok_senders [of c] assms by (force simp: leased_def)
  then show ?thesis by blast
qed

lemma leased_step:
  assumes "leased k prev c" and "renewed k prev (x # xs)"
  shows "leased k (last_arrival k prev [x]) (cache_step x c) \<and> renewed k (last_arrival k prev [x]) xs"
proof (cases x)
  case (Interest now u a p)
  then show ?thesis using leased_interest [OF assms(1), of now p u a] assms(2) by simp
next
  case Clear
  then show ?thesis using assms cache_ok_step [of c x] cache_step_lifetimes [of x c] by (simp add: leased_def default_lifetimes_def)
qed (use leased_other [OF assms] assms(2) in \<open>auto split: if_splits\<close>)

lemma leased_run:
  "leased k prev c \<Longrightarrow> renewed k prev ops \<Longrightarrow> leased k (last_arrival k prev ops) (cache_run ops c)"
proof (induction ops arbitrary: prev c)
  case (Cons x xs)
  note s = leased_step [OF Cons.prems]
  have "cache_run (x # xs) c = cache_run xs (cache_step x c)" by (simp add: cache_run_def)
  moreover have "last_arrival k prev (x # xs) = last_arrival k (last_arrival k prev [x]) xs" by simp
  ultimately show ?case using Cons.IH s by metis
qed (simp add: cache_run_def)

lemma last_arrival_kept: "Clear \<notin> set ops \<Longrightarrow> last_arrival k (Some t) ops \<noteq> None"
  by (induction ops arbitrary: t) (auto split: cache_op.splits)

lemma same_sender:
  assumes "leased (u, a) (Some t) c" and "renewed (u, a) (Some t) ops" and "map_of (bc_threads c) u = Some th" and "Clear \<notin> set ops"
  shows "\<exists>th'. map_of (bc_threads (cache_run ops c)) u = Some th' \<and> t_number th' = t_number th"
  using assms
proof (induction ops arbitrary: t c th)
  case (Cons x xs)
  note s = leased_step [OF Cons.prems(1,2)]
  obtain t' where t': "last_arrival (u, a) (Some t) [x] = Some t'" using last_arrival_kept [of "[x]" "(u, a)" t] Cons.prems(4) by auto
  obtain th1 where th1: "map_of (bc_threads (cache_step x c)) u = Some th1" using leased_serves s t' by metis
  have "cache_ok c" using Cons.prems(1) by (simp add: leased_def)
  then have "t_number th1 = t_number th" by (rule sender_not_restarted [OF _ Cons.prems(3) th1])
  moreover have "cache_run (x # xs) c = cache_run xs (cache_step x c)" by (simp add: cache_run_def)
  ultimately show ?case using Cons.IH [OF _ _ th1] s Cons.prems(4) unfolding t' by auto
qed (simp add: cache_run_def)

text \<open>C24. An interest that arrives again within its lease of 3.5 s, and is not withdrawn, keeps a sender thread,
  whatever other interests come and go: after any history there is one, unless the table was cleared (by an
  interest from another quadrant) since it last arrived; and when the table was never cleared, the thread that
  answers is the one started first. (Instants are below 2^62 ns and periods below 2^50 us; the table was made
  with the default lifetimes.)\<close>

theorem renewed_lease_serves:
  assumes "cache_ok c" and "default_lifetimes c" and "0 \<le> t0" and "t0 < 2 ^ 62" and "uint p < 2 ^ 50"
    and "renewed (u, a) (Some t0) ops" and "c' = cache_run ops (on_interest t0 u a p c)"
  shows "(last_arrival (u, a) (Some t0) ops \<noteq> None \<longrightarrow> (\<exists>th. map_of (bc_threads c') u = Some th))
    \<and> (Clear \<notin> set ops \<longrightarrow> (\<exists>th th'. map_of (bc_threads (on_interest t0 u a p c)) u = Some th
         \<and> map_of (bc_threads c') u = Some th' \<and> t_number th' = t_number th))"
proof -
  let ?p = "if p = 0 then 1 else p" and ?c = "cache_step (Interest t0 u a p) c"
  have "uint ?p < 2 ^ 50" using assms(5) by simp
  then have "t0 + 3500000000 \<le> expiry_for t0 ?p c" by (rule expiry_default [OF assms(2) _ assms(3,4)])
  then have l: "leased (u, a) (Some t0) ?c"
    using interests_step [OF assms(1), of "Interest t0 u a p"] cache_ok_step [OF assms(1), of "Interest t0 u a p"]
      cache_step_lifetimes [of "Interest t0 u a p" c] assms(2)
    unfolding leased_def default_lifetimes_def by auto
  have c: "c' = cache_run ops ?c" by (simp add: assms(7))
  obtain th where th: "map_of (bc_threads ?c) u = Some th" using leased_serves [OF l] by blast
  have "\<exists>th. map_of (bc_threads c') u = Some th" if "last_arrival (u, a) (Some t0) ops \<noteq> None"
    using leased_run [OF l assms(6)] leased_serves that unfolding c by (metis option.exhaust)
  moreover have "\<exists>th'. map_of (bc_threads c') u = Some th' \<and> t_number th' = t_number th" if "Clear \<notin> set ops"
    using same_sender [OF l assms(6) th that] unfolding c .
  ultimately show ?thesis using th by simp
qed

text \<open>Renewed at 3.4 s; then the table is cleared and the interest arrives again.\<close>

definition demo_renewed :: "cache_op list" where
  "demo_renewed = [Reap 3000000000, Interest 3400000000 SPEED null_address 900000, Reap 6000000000]"

definition demo_cleared :: "cache_op list" where
  "demo_cleared = [Clear, Interest 9000000000 GPS_POSITION null_address 5, Reap 9500000000, Interest 9900000000 SPEED null_address 900000]"

lemma renewed_lease_serves_witness:
  "(\<exists>th th'. map_of (bc_threads (sv_cache demo_start)) SPEED = Some th
      \<and> map_of (bc_threads (cache_run demo_renewed (sv_cache demo_start))) SPEED = Some th' \<and> t_number th' = t_number th)
   \<and> (\<exists>th. map_of (bc_threads (cache_run (demo_renewed @ demo_cleared) (sv_cache demo_start))) SPEED = Some th)"
proof -
  let ?i = "binding_cache_init BINDING_LIFETIME_MIN_US BINDING_LIFETIME_FACTOR"
  have c: "sv_cache demo_start = on_interest 0 SPEED null_address 900000 ?i" by (simp add: service_start_def)
  have d: "default_lifetimes ?i" by (simp add: default_lifetimes_def binding_cache_init_def)
  have r: "renewed (SPEED, null_address) (Some 0) demo_renewed" "renewed (SPEED, null_address) (Some 0) (demo_renewed @ demo_cleared)"
    "Clear \<notin> set demo_renewed" "last_arrival (SPEED, null_address) (Some 0) (demo_renewed @ demo_cleared) \<noteq> None"
    by (simp_all add: demo_renewed_def demo_cleared_def)
  have "uint (900000 :: u64) < 2 ^ 50" "0 \<le> (0 :: int)" "(0 :: int) < 2 ^ 62" by simp_all
  note n = this
  show ?thesis unfolding c
    using renewed_lease_serves [OF cache_ok_init d n(2,3,1) r(1) refl] renewed_lease_serves [OF cache_ok_init d n(2,3,1) r(2) refl] r(3,4)
    by blast
qed

end
