(* ===== verification/Interest_Tracker.thy ===== *)
theory Interest_Tracker
  imports Communicator Wire Registry
begin

section \<open>The interest broker of the roadside unit\<close>

text \<open>
  \<open>src/communication/smart_data/interest_tracker.h\<close>: the tracker hears every interest on the
  gateway's communicator and every synchronisation request, repeats the interests of the
  vehicles it has seen in the last four seconds, and tells producers to stop when a unit has no
  interested vehicle left. Its mutex makes each operation one step.
\<close>

subsection \<open>State\<close>

definition PRESENCE_LEASE_NS :: int where "PRESENCE_LEASE_NS = 4000000000"

record entry =
  e_unit :: unit_code
  e_address :: address
  e_period_us :: u64

record tracker =
  it_interests :: "entry list"
  it_presence :: "(u64 \<times> int) list"
  it_active_units :: "(unit_code \<times> unit) list"
  it_disinterests_sent :: nat

definition tracker_init :: tracker where
  "tracker_init = \<lparr>it_interests = [], it_presence = [], it_active_units = [], it_disinterests_sent = 0\<rparr>"

abbreviation vehicle_of :: "address \<Rightarrow> u64" where
  "vehicle_of a \<equiv> mac_key (a_paddr a)"

subsection \<open>Operations\<close>

definition tracker_presence :: "int \<Rightarrow> address \<Rightarrow> tracker \<Rightarrow> tracker" where
  "tracker_presence now a t = t\<lparr>it_presence := om_put (vehicle_of a) now (it_presence t)\<rparr>"

definition remove_entry :: "unit_code \<times> address \<Rightarrow> entry list \<Rightarrow> entry list" where
  "remove_entry k es = filter (\<lambda>e. \<not> (e_unit e = fst k \<and> e_address e = snd k)) es"

text \<open>The search loop with its \<open>break\<close>, and the insertion when nothing was found.\<close>

definition record_entry :: "unit_code \<times> address \<Rightarrow> u64 \<Rightarrow> entry list \<Rightarrow> entry list" where
  "record_entry k p es =
     (if \<exists>e \<in> set es. e_unit e = fst k \<and> e_address e = snd k
      then update_first (\<lambda>e. e_unit e = fst k \<and> e_address e = snd k) (\<lambda>e. e\<lparr>e_period_us := p\<rparr>) es
      else es @ [\<lparr>e_unit = fst k, e_address = snd k, e_period_us = p\<rparr>])"

text \<open>\<open>update\<close> up to \<open>delete m\<close>, which every path reaches.\<close>

definition tracker_handle :: "int \<Rightarrow> message \<Rightarrow> tracker \<Rightarrow> tracker" where
  "tracker_handle now m t =
     (if unat (m_size m) \<ge> INTEREST_LEN then
        let h = dec_smart_header (m_payload m); im = dec_interest (m_payload m); addr = m_address m in
        if sh_kind h = INTEREST then
          if im_disinterest im \<noteq> 0
          then t\<lparr>it_interests := remove_entry (sh_unit h, addr) (it_interests t)\<rparr>
          else t\<lparr>it_presence := om_put (vehicle_of addr) now (it_presence t),
                 it_interests := record_entry (sh_unit h, addr) (im_period_us im) (it_interests t)\<rparr>
        else t
      else t)"

type_synonym ('b, 'w) broker = "(unit, 'b, 'w, tracker) communicator"

definition tracker_update :: "int \<Rightarrow> unit \<Rightarrow> u16 \<Rightarrow> nat \<Rightarrow> ('b, 'w) broker \<Rightarrow> ('b, 'w) broker" where
  "tracker_update now ob cond k c =
     c\<lparr>cm_clients := tracker_handle now (h_cells (cm_heap c) ! k) (cm_clients c),
       cm_heap := delete_message k (cm_heap c)\<rparr>"

text \<open>The tick under the lock: units to stop, units to repeat with their period, the new state.\<close>

definition expire_presence :: "int \<Rightarrow> tracker \<Rightarrow> tracker" where
  "expire_presence now t =
     fold (\<lambda>mac t. t\<lparr>it_presence := om_del mac (it_presence t),
                    it_interests := filter (\<lambda>e. vehicle_of (e_address e) \<noteq> mac) (it_interests t)\<rparr>)
       (map fst (filter (\<lambda>kv. now - snd kv > PRESENCE_LEASE_NS) (it_presence t))) t"

primrec active_map :: "entry list \<Rightarrow> (unit_code \<times> u64) list \<Rightarrow> (unit_code \<times> u64) list" where
  "active_map [] m = m"
| "active_map (e # es) m =
     active_map es
       (case map_of m (e_unit e) of
          None \<Rightarrow> om_put (e_unit e) (e_period_us e) m
        | Some p \<Rightarrow> if e_period_us e < p then om_put (e_unit e) (e_period_us e) m else m)"

definition broker_tick :: "int \<Rightarrow> tracker \<Rightarrow> unit_code list \<times> (unit_code \<times> u64) list \<times> tracker" where
  "broker_tick now t =
     (let t1 = expire_presence now t;
          active = active_map (it_interests t1) [];
          to_stop = filter (\<lambda>u. map_of active u = None) (map fst (it_active_units t1));
          to_repeat = active
      in (to_stop, to_repeat,
          t1\<lparr>it_active_units := fold (\<lambda>kv s. om_put (fst kv) () s) active [],
             it_disinterests_sent := it_disinterests_sent t1 + length to_stop\<rparr>))"

text \<open>\<open>send_msg\<close>, and the whole tick: first the disinterests, then the interests. \<open>clk i\<close> is the
  clock at the i-th send.\<close>

definition announcement :: "unit_code \<Rightarrow> u64 \<Rightarrow> bool \<Rightarrow> message" where
  "announcement u period disinterest =
     message_of_payload (0, 0) (enc_interest \<lparr>im_header = \<lparr>sh_kind = INTEREST, sh_unit = u\<rparr>,
       im_period_us = period, im_disinterest = (if disinterest then 1 else 0)\<rparr>)"

definition tracker_tick ::
  "('b, 'w) channel_ops \<Rightarrow> int \<Rightarrow> (nat \<Rightarrow> int) \<Rightarrow> ('b, 'w) broker \<Rightarrow> ('b, 'w) broker"
where
  "tracker_tick ops now clk c =
     (case broker_tick now (cm_clients c) of
        (to_stop, to_repeat, t) \<Rightarrow>
          let msgs = map (\<lambda>u. announcement u 0 True) to_stop
                   @ map (\<lambda>kv. announcement (fst kv) (snd kv) False) to_repeat
          in fold (\<lambda>(i, m) c. snd (snd (comm_send ops (clk i) m c)))
               (zip [0..<length msgs] msgs) (c\<lparr>cm_clients := t\<rparr>))"

text \<open>
  Construction and destruction; \<open>handler\<close> is \<open>set_presence_handler\<close> of the channel, given whether
  there is one. The tracker's own queue is never filled, so its draining has nothing to free.
\<close>

definition tracker_open :: "(bool \<Rightarrow> 'w \<Rightarrow> 'w) \<Rightarrow> ('b, 'w) broker \<Rightarrow> ('b, 'w) broker" where
  "tracker_open handler c = c\<lparr>cm_observers := co_attach () broadcast_condition (cm_observers c),
     cm_channel := handler True (cm_channel c), cm_clients := tracker_init\<rparr>"

definition tracker_close :: "(bool \<Rightarrow> 'w \<Rightarrow> 'w) \<Rightarrow> ('b, 'w) broker \<Rightarrow> ('b, 'w) broker" where
  "tracker_close handler c = c\<lparr>cm_channel := handler False (cm_channel c),
     cm_observers := co_detach () broadcast_condition (cm_observers c)\<rparr>"

subsection \<open>The table of interests\<close>

abbreviation e_key :: "entry \<Rightarrow> unit_code \<times> address" where
  "e_key e \<equiv> (e_unit e, e_address e)"

interpretation tracked: registry e_key e_period_us record_entry remove_entry
proof unfold_locales
  fix es :: "entry list" and k :: "unit_code \<times> address" and v
  have p: "(\<lambda>e. e_unit e = fst k \<and> e_address e = snd k) = (\<lambda>e. e_key e = k)" by (auto simp: prod_eq_iff)
  have p': "(\<exists>e \<in> set es. e_unit e = fst k \<and> e_address e = snd k) = (\<exists>e \<in> set es. e_key e = k)"
    by (auto simp: prod_eq_iff)
  show "distinct (map e_key (record_entry k v es))" if "distinct (map e_key es)"
    using that by (cases k) (auto simp: record_entry_def keys_update_first)
  show "table e_key e_period_us (record_entry k v es) = (table e_key e_period_us es)(k \<mapsto> v)"
  proof (cases "\<exists>e \<in> set es. e_key e = k")
    case True
    then show ?thesis
      using table_update_first [of e_key "\<lambda>e. e\<lparr>e_period_us := v\<rparr>" e_period_us v es k]
      by (simp only: record_entry_def p p' if_True) simp
  next
    case False
    then show ?thesis
      using table_append [OF False, of "\<lparr>e_unit = fst k, e_address = snd k, e_period_us = v\<rparr>" e_period_us v]
      by (simp only: record_entry_def p' if_False) simp
  qed
  show "distinct (map e_key (remove_entry k es))" if "distinct (map e_key es)"
    using that by (simp add: remove_entry_def keys_remove)
  have "remove_entry k es = filter (\<lambda>e. e_key e \<noteq> k) es" by (cases k) (simp add: remove_entry_def)
  then show "table e_key e_period_us (remove_entry k es) = (table e_key e_period_us es)(k := None)"
    by (simp add: table_remove)
qed

interpretation tracker: message_observer "tracker_update now" "\<lambda>_. []" "\<lambda>_ _. True"
  by unfold_locales (simp_all add: tracker_update_def accounted_def delete_message_def)

subsection \<open>One tick\<close>

lemma expire_fold:
  "fold (\<lambda>mac t. t\<lparr>it_presence := om_del mac (it_presence t),
                  it_interests := filter (\<lambda>e. vehicle_of (e_address e) \<noteq> mac) (it_interests t)\<rparr>) ds t
   = t\<lparr>it_presence := filter (\<lambda>kv. fst kv \<notin> set ds) (it_presence t),
       it_interests := filter (\<lambda>e. vehicle_of (e_address e) \<notin> set ds) (it_interests t)\<rparr>"
  by (induction ds arbitrary: t) (auto simp: om_del_def intro!: filter_cong arg_cong2 [where f = it_presence_update])

definition tracker_ok :: "tracker \<Rightarrow> bool" where
  "tracker_ok t \<longleftrightarrow> om_ok (it_presence t) \<and> distinct (map e_key (it_interests t))
     \<and> (\<forall>e \<in> set (it_interests t). vehicle_of (e_address e) \<in> dom (map_of (it_presence t)))"

lemma tracker_ok_init: "tracker_ok tracker_init"
  by (simp add: tracker_ok_def tracker_init_def)

lemma dead_keys:
  assumes "om_ok m"
  shows "k \<in> set (map fst (filter (\<lambda>kv. now - snd kv > PRESENCE_LEASE_NS) m))
    \<longleftrightarrow> (\<exists>s. map_of m k = Some s \<and> now - s > PRESENCE_LEASE_NS)"
  using map_of_eq_Some_iff [OF om_ok_distinct [OF assms]] by force

lemma expire_presence_lease:
  assumes "tracker_ok t"
  shows "it_interests (expire_presence now t) = filter (\<lambda>e. \<exists>s. map_of (it_presence t) (vehicle_of (e_address e)) = Some s
        \<and> now - s \<le> PRESENCE_LEASE_NS) (it_interests t)"
    and "map_of (it_presence (expire_presence now t)) k
       = (case map_of (it_presence t) k of Some s \<Rightarrow> if now - s \<le> PRESENCE_LEASE_NS then Some s else None | None \<Rightarrow> None)"
    and "om_ok (it_presence (expire_presence now t))"
    and "it_active_units (expire_presence now t) = it_active_units t"
proof -
  have om: "om_ok (it_presence t)" using assms by (simp add: tracker_ok_def)
  let ?ds = "map fst (filter (\<lambda>kv. now - snd kv > PRESENCE_LEASE_NS) (it_presence t))"
  have e: "expire_presence now t = t\<lparr>it_presence := filter (\<lambda>kv. fst kv \<notin> set ?ds) (it_presence t),
       it_interests := filter (\<lambda>e. vehicle_of (e_address e) \<notin> set ?ds) (it_interests t)\<rparr>"
    unfolding expire_presence_def expire_fold ..
  note dk = dead_keys [OF om, of _ now]
  show "it_interests (expire_presence now t) = filter (\<lambda>e. \<exists>s. map_of (it_presence t) (vehicle_of (e_address e)) = Some s
        \<and> now - s \<le> PRESENCE_LEASE_NS) (it_interests t)"
  proof -
    have "vehicle_of (e_address e) \<notin> set ?ds \<longleftrightarrow>
        (\<exists>s. map_of (it_presence t) (vehicle_of (e_address e)) = Some s \<and> now - s \<le> PRESENCE_LEASE_NS)"
      if "e \<in> set (it_interests t)" for e
    proof -
      have "vehicle_of (e_address e) \<in> dom (map_of (it_presence t))"
        using assms that by (simp add: tracker_ok_def)
      then obtain s where "map_of (it_presence t) (vehicle_of (e_address e)) = Some s" by blast
      then show ?thesis unfolding dk by auto
    qed
    then show ?thesis unfolding e by (simp cong: filter_cong)
  qed
  show "map_of (it_presence (expire_presence now t)) k
       = (case map_of (it_presence t) k of Some s \<Rightarrow> if now - s \<le> PRESENCE_LEASE_NS then Some s else None | None \<Rightarrow> None)"
    unfolding e using dk [of k]
    by (auto simp: map_of_filter_fst [where P = "\<lambda>k. k \<notin> set ?ds"] simp del: set_map split: option.splits)
  show "om_ok (it_presence (expire_presence now t))" "it_active_units (expire_presence now t) = it_active_units t"
    unfolding e using om by simp_all
qed

lemma active_map_ok: "om_ok m \<Longrightarrow> om_ok (active_map es m)"
  by (induction es arbitrary: m) (auto split: option.split)

lemma Min_insert_insert:
  "finite P \<Longrightarrow> Min (insert p (insert q P)) = Min (insert (min p q) P)"
  by (cases "P = {}") (simp_all add: min.assoc)

lemma active_map_Min:
  "map_of (active_map es m) u
    = (case map_of m u of
         None \<Rightarrow> if u \<in> e_unit ` set es then Some (Min (e_period_us ` {e \<in> set es. e_unit e = u})) else None
       | Some p \<Rightarrow> Some (Min (insert p (e_period_us ` {e \<in> set es. e_unit e = u}))))"
proof (induction es arbitrary: m)
  case Nil
  then show ?case by (simp split: option.split)
next
  case (Cons e es)
  have c: "{x \<in> set (e # es). e_unit x = u}
      = (if e_unit e = u then insert e {x \<in> set es. e_unit x = u} else {x \<in> set es. e_unit x = u})" by auto
  let ?P = "e_period_us ` {x \<in> set es. e_unit x = u}"
  have fin: "finite ?P" by simp
  show ?case
  proof (cases "e_unit e = u")
    case True
    show ?thesis
    proof (cases "map_of m u")
      case None
      then show ?thesis unfolding c using True Cons.IH [of "om_put u (e_period_us e) m"] by simp
    next
      case (Some p)
      have "Min (insert p (insert (e_period_us e) ?P)) = Min (insert (min p (e_period_us e)) ?P)"
        using fin by (rule Min_insert_insert)
      moreover have "map_of (case map_of m (e_unit e) of None \<Rightarrow> om_put (e_unit e) (e_period_us e) m
          | Some p \<Rightarrow> if e_period_us e < p then om_put (e_unit e) (e_period_us e) m else m) u
          = Some (min p (e_period_us e))"
        using Some True by (auto simp: min_def)
      ultimately show ?thesis
        unfolding c active_map.simps Cons.IH using Some True by simp
    qed
  next
    case False
    then have "map_of (case map_of m (e_unit e) of None \<Rightarrow> om_put (e_unit e) (e_period_us e) m
        | Some p \<Rightarrow> if e_period_us e < p then om_put (e_unit e) (e_period_us e) m else m) u = map_of m u"
      by (auto split: option.split)
    moreover have "u \<in> e_unit ` set (e # es) \<longleftrightarrow> u \<in> e_unit ` set es" using False by auto
    ultimately show ?thesis using Cons.IH False by (simp only: active_map.simps c if_False)
  qed
qed

lemma units_of_active:
  "om_ok s \<Longrightarrow> om_ok (fold (\<lambda>kv s. om_put (fst kv) () s) m s)
     \<and> fst ` set (fold (\<lambda>kv s. om_put (fst kv) () s) m s) = fst ` set s \<union> fst ` set m"
  by (induction m arbitrary: s) (auto simp: set_om_put)

lemma broker_tick_state:
  assumes "broker_tick now t = (stop, rep, t')"
  shows "it_interests t' = it_interests (expire_presence now t)"
    and "it_presence t' = it_presence (expire_presence now t)"
    and "om_ok (it_active_units t')" and "fst ` set (it_active_units t') = fst ` set rep"
    and "om_ok rep"
    and "map_of rep u = (if u \<in> e_unit ` set (it_interests t')
          then Some (Min (e_period_us ` {e \<in> set (it_interests t'). e_unit e = u})) else None)"
    and "stop = filter (\<lambda>u. u \<notin> fst ` set rep) (map fst (it_active_units (expire_presence now t)))"
proof -
  let ?t = "expire_presence now t"
  have rep: "rep = active_map (it_interests ?t) []"
    and stop: "stop = filter (\<lambda>u. map_of rep u = None) (map fst (it_active_units ?t))"
    and t': "it_interests t' = it_interests ?t" "it_presence t' = it_presence ?t"
      "it_active_units t' = fold (\<lambda>kv s. om_put (fst kv) () s) rep []"
    using assms by (auto simp: broker_tick_def Let_def)
  show "it_interests t' = it_interests ?t" "it_presence t' = it_presence ?t" by (fact t')+
  show "om_ok (it_active_units t')" "fst ` set (it_active_units t') = fst ` set rep"
    using units_of_active [of "[]" rep] t'(3) by simp_all
  show "om_ok rep" unfolding rep by (rule active_map_ok) simp
  show "map_of rep u = (if u \<in> e_unit ` set (it_interests t')
          then Some (Min (e_period_us ` {e \<in> set (it_interests t'). e_unit e = u})) else None)"
    unfolding rep t'(1) active_map_Min by simp
  show "stop = filter (\<lambda>u. u \<notin> fst ` set rep) (map fst (it_active_units ?t))"
    unfolding stop map_of_eq_None_iff ..
qed

subsection \<open>Runs\<close>

datatype broker_event = Heard int message | Seen int address

primrec broker_hear :: "broker_event \<Rightarrow> tracker \<Rightarrow> tracker" where
  "broker_hear (Heard now m) t = tracker_handle now m t"
| "broker_hear (Seen now a) t = tracker_presence now a t"

definition broker_hears :: "broker_event list \<Rightarrow> tracker \<Rightarrow> tracker" where
  "broker_hears es t = fold broker_hear es t"

lemma broker_hear_active [simp]: "it_active_units (broker_hear e t) = it_active_units t"
  by (cases e) (simp_all add: tracker_handle_def tracker_presence_def Let_def)

lemma broker_hears_active [simp]: "it_active_units (broker_hears es t) = it_active_units t"
  unfolding broker_hears_def by (induction es arbitrary: t) simp_all

text \<open>C17. At each tick the broker repeats every unit somebody present wants, once, at the
  shortest period wanted, in ascending order, and tells producers to stop exactly the units it
  repeated at the tick before and no longer does, each once, whatever it heard in between.\<close>

theorem broker_announcements:
  assumes "broker_tick n1 t = (stop1, rep1, t1)"
    and "broker_tick n2 (broker_hears es t1) = (stop2, rep2, t2)"
  shows "sorted_wrt (<) (map fst rep2)
    \<and> map_of rep2 u = (if u \<in> e_unit ` set (it_interests t2)
         then Some (Min (e_period_us ` {e \<in> set (it_interests t2). e_unit e = u})) else None)
    \<and> sorted_wrt (<) stop2 \<and> set stop2 = fst ` set rep1 - fst ` set rep2"
proof -
  note s1 = broker_tick_state [OF assms(1)] and s2 = broker_tick_state [OF assms(2)]
  have a: "it_active_units (expire_presence n2 (broker_hears es t1)) = it_active_units t1"
    unfolding expire_presence_def expire_fold by simp
  have "sorted_wrt (<) (map fst (it_active_units t1))" using s1(3) by (simp add: om_ok_def)
  then have "sorted_wrt (<) stop2" unfolding s2(7) a by (rule sorted_wrt_filter)
  moreover have "set stop2 = fst ` set rep1 - fst ` set rep2" unfolding s2(7) a using s1(4) by auto
  ultimately show ?thesis using s2(5) s2(6) [of u] by (simp add: om_ok_def)
qed

definition demo_wish :: "unit_code \<Rightarrow> u64 \<Rightarrow> address \<Rightarrow> message" where
  "demo_wish u p a = (announcement u p False)\<lparr>m_address := a\<rparr>"

lemma demo_wish_handled:
  "tracker_handle now (demo_wish u p a) t
     = t\<lparr>it_presence := om_put (vehicle_of a) now (it_presence t),
         it_interests := record_entry (u, a) p (it_interests t)\<rparr>"
proof -
  let ?im = "\<lparr>im_header = \<lparr>sh_kind = INTEREST, sh_unit = u\<rparr>, im_period_us = p, im_disinterest = 0\<rparr>"
  have "length (enc_interest ?im) = INTEREST_LEN" by (rule interest_wire.enc_size)
  moreover have "dec_interest (enc_interest ?im) = ?im" by (rule interest_wire.dec_enc_exact)
  moreover have "dec_smart_header (enc_interest ?im) = im_header ?im" by (simp add: enc_interest_def)
  ultimately show ?thesis
    by (simp add: tracker_handle_def demo_wish_def announcement_def message_of_payload_def
        message_default_def wire_lens unat_of_nat Let_def)
qed

lemma broker_announcements_witness:
  "\<exists>stop rep t. broker_tick 9000000000
       (broker_hears [] (snd (snd (broker_tick 2000000000 (broker_hears [Heard 1000000000 (demo_wish SPEED 100 null_address)] tracker_init)))))
     = (stop, rep, t) \<and> set stop = {SPEED}"
proof -
  let ?t = "broker_hears [Heard 1000000000 (demo_wish SPEED 100 null_address)] tracker_init"
  obtain s1 r1 t1 where 1: "broker_tick 2000000000 ?t = (s1, r1, t1)" by (cases "broker_tick 2000000000 ?t") auto
  have t: "it_interests ?t = [\<lparr>e_unit = SPEED, e_address = null_address, e_period_us = 100\<rparr>]"
    "it_presence ?t = [(vehicle_of null_address, 1000000000)]"
    by (simp_all add: broker_hears_def demo_wish_handled tracker_init_def record_entry_def)
  then have r1: "fst ` set r1 = {SPEED}" and i1: "it_presence t1 = [(vehicle_of null_address, 1000000000)]"
    "it_interests t1 = it_interests ?t"
    using 1 by (auto simp: broker_tick_def Let_def expire_presence_def PRESENCE_LEASE_NS_def)
  obtain s2 r2 t2 where 2: "broker_tick 9000000000 (broker_hears [] t1) = (s2, r2, t2)"
    by (cases "broker_tick 9000000000 (broker_hears [] t1)") auto
  have "r2 = []" using 2 i1 t
    by (auto simp: broker_tick_def Let_def expire_presence_def PRESENCE_LEASE_NS_def broker_hears_def)
  then have "set s2 = {SPEED}" using broker_announcements [OF 1 2] r1 by simp
  then show ?thesis using 1 2 by auto
qed

subsection \<open>The presence lease\<close>

datatype broker_op = Hear broker_event | Broker_Tick int

primrec broker_step :: "broker_op \<Rightarrow> tracker \<Rightarrow> tracker" where
  "broker_step (Hear e) t = broker_hear e t"
| "broker_step (Broker_Tick now) t = snd (snd (broker_tick now t))"

definition broker_run :: "broker_op list \<Rightarrow> tracker \<Rightarrow> tracker" where
  "broker_run xs t = fold broker_step xs t"

text \<open>A message that registers an interest; and when a vehicle was last heard of.\<close>

definition wishes :: "message \<Rightarrow> bool" where
  "wishes m \<longleftrightarrow> INTEREST_LEN \<le> unat (m_size m) \<and> sh_kind (dec_smart_header (m_payload m)) = INTEREST
     \<and> im_disinterest (dec_interest (m_payload m)) = 0"

primrec heard_at :: "u64 \<Rightarrow> broker_op \<Rightarrow> int option" where
  "heard_at k (Hear e) =
     (case e of
        Heard now m \<Rightarrow> if wishes m \<and> vehicle_of (m_address m) = k then Some now else None
      | Seen now a \<Rightarrow> if vehicle_of a = k then Some now else None)"
| "heard_at k (Broker_Tick now) = None"

definition last_heard :: "u64 \<Rightarrow> broker_op list \<Rightarrow> int option" where
  "last_heard k xs = fold (\<lambda>x r. case heard_at k x of None \<Rightarrow> r | Some s \<Rightarrow> Some s) xs None"

lemma record_entry_addresses:
  "e_address ` set (record_entry k p es) \<subseteq> insert (snd k) (e_address ` set es)"
proof -
  have "map e_address (update_first (\<lambda>e. e_unit e = fst k \<and> e_address e = snd k) (\<lambda>e. e\<lparr>e_period_us := p\<rparr>) es)
      = map e_address es" by (rule map_update_first) simp
  from arg_cong [OF this, of set] show ?thesis by (auto simp: record_entry_def)
qed

lemma broker_hear_ok: "tracker_ok t \<Longrightarrow> tracker_ok (broker_hear e t)"
proof (cases e)
  case (Seen now a)
  assume "tracker_ok t"
  then show ?thesis using Seen by (auto simp: tracker_ok_def tracker_presence_def)
next
  case (Heard now m)
  assume t: "tracker_ok t"
  let ?k = "(sh_unit (dec_smart_header (m_payload m)), m_address m)"
  let ?p = "im_period_us (dec_interest (m_payload m))"
  have del: "tracker_ok (t\<lparr>it_interests := remove_entry ?k (it_interests t)\<rparr>)"
    using t tracked.del_keys [of "it_interests t" ?k] by (auto simp: tracker_ok_def remove_entry_def)
  have "vehicle_of (e_address e) \<in> dom (map_of (om_put (vehicle_of (m_address m)) now (it_presence t)))"
    if "e \<in> set (record_entry ?k ?p (it_interests t))" for e
    using that record_entry_addresses [of ?k ?p "it_interests t"] t by (fastforce simp: tracker_ok_def)
  then have put: "tracker_ok (t\<lparr>it_presence := om_put (vehicle_of (m_address m)) now (it_presence t),
      it_interests := record_entry ?k ?p (it_interests t)\<rparr>)"
    using t tracked.put_keys [of "it_interests t" ?k ?p] by (simp add: tracker_ok_def)
  show ?thesis using del put t by (simp add: Heard tracker_handle_def Let_def)
qed

lemma broker_tick_ok: "tracker_ok t \<Longrightarrow> tracker_ok (snd (snd (broker_tick now t)))"
proof -
  assume t: "tracker_ok t"
  obtain s r t' where k: "broker_tick now t = (s, r, t')" by (cases "broker_tick now t") auto
  note st = broker_tick_state [OF k] and ex = expire_presence_lease [OF t, of now]
  have "distinct (map e_key (it_interests t'))" unfolding st(1) ex(1)
    using t by (simp add: tracker_ok_def keys_remove)
  moreover have "om_ok (it_presence t')" unfolding st(2) by (rule ex(3))
  moreover have "vehicle_of (e_address e) \<in> dom (map_of (it_presence t'))" if "e \<in> set (it_interests t')" for e
  proof -
    obtain s where "map_of (it_presence t) (vehicle_of (e_address e)) = Some s" "now - s \<le> PRESENCE_LEASE_NS"
      using \<open>e \<in> set (it_interests t')\<close> unfolding st(1) ex(1) by auto
    then show ?thesis unfolding st(2) domIff ex(2) by simp
  qed
  ultimately show ?thesis using k by (simp add: tracker_ok_def)
qed

lemma broker_run_ok: "tracker_ok t \<Longrightarrow> tracker_ok (broker_run xs t)"
  unfolding broker_run_def
proof (induction xs arbitrary: t)
  case (Cons x xs)
  then show ?case by (cases x) (simp_all add: broker_hear_ok broker_tick_ok)
qed simp

lemma broker_run_snoc: "broker_run (xs @ [x]) t = broker_step x (broker_run xs t)"
  by (simp add: broker_run_def)

lemma presence_is_last_heard:
  "map_of (it_presence (broker_run xs tracker_init)) k = Some s \<Longrightarrow> last_heard k xs = Some s"
proof (induction xs arbitrary: s rule: rev_induct)
  case Nil
  then show ?case by (simp add: broker_run_def tracker_init_def)
next
  case (snoc x xs)
  let ?t = "broker_run xs tracker_init"
  have lh: "last_heard k (xs @ [x]) = (case heard_at k x of None \<Rightarrow> last_heard k xs | Some s \<Rightarrow> Some s)"
    by (simp add: last_heard_def split: option.split)
  show ?case
  proof (cases x)
    case (Hear e)
    then show ?thesis using snoc lh
      by (cases e) (auto simp: broker_run_snoc tracker_handle_def tracker_presence_def wishes_def Let_def
          split: if_splits)
  next
    case (Broker_Tick now)
    obtain st r t' where k: "broker_tick now ?t = (st, r, t')" by (cases "broker_tick now ?t") auto
    have "map_of (it_presence t') k = Some s"
      using snoc.prems k by (simp add: broker_run_snoc Broker_Tick)
    then have "map_of (it_presence ?t) k = Some s"
      unfolding broker_tick_state(2) [OF k] expire_presence_lease(2) [OF broker_run_ok [OF tracker_ok_init]]
      by (simp split: option.splits if_splits)
    then show ?thesis using snoc.IH lh Broker_Tick by simp
  qed
qed

text \<open>C18. The presence lease is exact: whatever the broker heard and however often it ticked, a
  tick keeps precisely the interests of the vehicles that announced an interest or asked for a
  synchronisation within the last four seconds, and forgets those of every other vehicle.\<close>

theorem tracker_lease_exact:
  "it_interests (snd (snd (broker_tick now (broker_run xs tracker_init))))
   = filter (\<lambda>e. case last_heard (vehicle_of (e_address e)) xs of
               None \<Rightarrow> False | Some s \<Rightarrow> now - s \<le> PRESENCE_LEASE_NS)
       (it_interests (broker_run xs tracker_init))"
proof -
  let ?t = "broker_run xs tracker_init"
  have ok: "tracker_ok ?t" by (rule broker_run_ok [OF tracker_ok_init])
  obtain s r t' where k: "broker_tick now ?t = (s, r, t')" by (cases "broker_tick now ?t") auto
  have "it_interests t' = filter (\<lambda>e. \<exists>s. map_of (it_presence ?t) (vehicle_of (e_address e)) = Some s
      \<and> now - s \<le> PRESENCE_LEASE_NS) (it_interests ?t)"
    using broker_tick_state(1) [OF k] expire_presence_lease(1) [OF ok] by simp
  also have "\<dots> = filter (\<lambda>e. case last_heard (vehicle_of (e_address e)) xs of
      None \<Rightarrow> False | Some s \<Rightarrow> now - s \<le> PRESENCE_LEASE_NS) (it_interests ?t)"
  proof (rule filter_cong [OF refl])
    fix e assume "e \<in> set (it_interests ?t)"
    then obtain s where "map_of (it_presence ?t) (vehicle_of (e_address e)) = Some s"
      using ok unfolding tracker_ok_def by blast
    then show "(\<exists>s. map_of (it_presence ?t) (vehicle_of (e_address e)) = Some s \<and> now - s \<le> PRESENCE_LEASE_NS)
        = (case last_heard (vehicle_of (e_address e)) xs of None \<Rightarrow> False | Some s \<Rightarrow> now - s \<le> PRESENCE_LEASE_NS)"
      using presence_is_last_heard by simp
  qed
  finally show ?thesis using k by simp
qed

end
