(* ===== verification/Presence_Lease.thy ===== *)
theory Presence_Lease
  imports Sptp Interest_Tracker
begin

section \<open>A vehicle that synchronises stays present\<close>

text \<open>
  The roadside unit takes every REQUEST_SYNC as a sign of life of the vehicle
  (\<open>_on_presence\<close> in \<open>src/channel/sptp_protocol.h\<close>, \<open>on_presence\<close> in
  \<open>src/communication/smart_data/interest_tracker.h\<close>) and forgets a vehicle and its interests after
  four seconds without one. The vehicle sends one only when its watchdog finds no SYNC in two
  seconds. Here the watchdog of a vehicle and the tracker of the unit run together: the sending of a
  request and its hearing are two steps, each with its own clock.
\<close>

subsection \<open>The two together\<close>

text \<open>
  Instants are those of the vehicle's steady clock; \<open>py_requests\<close> are the instants of its requests (newest
  last), \<open>py_flight\<close> those of the requests the unit has not heard, \<open>py_heard\<close> whether it heard one.
\<close>

record presence_sys =
  py_slave :: sptp
  py_unit :: tracker
  py_requests :: "int list"
  py_flight :: "int list"
  py_heard :: bool

text \<open>
  A wake-up of the watchdog, a request because of a change of quadrant, a reply; the unit hears a request,
  ticks, hears something else. The reading in the last three is the unit's \<open>Clock::now_ns\<close>.
\<close>

datatype presence_event =
  Watchdog int int int
| Resync int int int
| Reply sync_clocks int "u8 list"
| Hears int int int
| Broker int int
| Traffic int broker_event

primrec heard_time :: "broker_event \<Rightarrow> int" where
  "heard_time (Heard now m) = now"
| "heard_time (Seen now a) = now"

primrec presence_time :: "presence_event \<Rightarrow> int" where
  "presence_time (Watchdog now early tx) = now"
| "presence_time (Resync now early tx) = now"
| "presence_time (Reply k h pl) = k_steady k"
| "presence_time (Hears now sent reading) = now"
| "presence_time (Broker now reading) = now"
| "presence_time (Traffic now e) = now"

primrec unit_reading :: "presence_event \<Rightarrow> int option" where
  "unit_reading (Watchdog now early tx) = None"
| "unit_reading (Resync now early tx) = None"
| "unit_reading (Reply k h pl) = None"
| "unit_reading (Hears now sent reading) = Some reading"
| "unit_reading (Broker now reading) = Some reading"
| "unit_reading (Traffic now e) = Some (heard_time e)"

text \<open>\<open>Protocol::send\<close> of a request: it is on its way.\<close>

definition send_to_unit :: "int \<Rightarrow> int \<Rightarrow> (int list \<times> int list) send_fn" where
  "send_to_unit now tx src dst data ts kind w =
     (case w of (s, reqs, fl) \<Rightarrow> (tx, s, if kind = SPTP_REQUEST_SYNC then (reqs @ [now], fl @ [now]) else (reqs, fl)))"

definition by_vehicle ::
  "(sptp \<times> int list \<times> int list \<Rightarrow> sptp \<times> int list \<times> int list) \<Rightarrow> presence_sys \<Rightarrow> presence_sys" where
  "by_vehicle op p = (case op (py_slave p, py_requests p, py_flight p) of (s, reqs, fl) \<Rightarrow>
     p\<lparr>py_slave := s, py_requests := reqs, py_flight := fl\<rparr>)"

primrec presence_step :: "address \<Rightarrow> presence_event \<Rightarrow> presence_sys \<Rightarrow> presence_sys" where
  "presence_step v (Watchdog now early tx) p = by_vehicle (watchdog_tick (send_to_unit now tx) now early) p"
| "presence_step v (Resync now early tx) p = by_vehicle (request_resync (send_to_unit now tx) early) p"
| "presence_step v (Reply k h pl) p = p\<lparr>py_slave := fst (slave_sync k h pl (py_slave p))\<rparr>"
| "presence_step v (Hears now sent reading) p =
     p\<lparr>py_unit := tracker_presence reading v (py_unit p), py_flight := remove1 sent (py_flight p), py_heard := True\<rparr>"
| "presence_step v (Broker now reading) p = p\<lparr>py_unit := snd (snd (broker_tick reading (py_unit p)))\<rparr>"
| "presence_step v (Traffic now e) p = p\<lparr>py_unit := broker_hear e (py_unit p)\<rparr>"

definition presence_run :: "address \<Rightarrow> presence_event list \<Rightarrow> presence_sys \<Rightarrow> presence_sys" where
  "presence_run v = fold (presence_step v)"

text \<open>\<open>start\<close> at \<open>t0\<close>, with the unit in any state.\<close>

definition presence_start :: "int \<Rightarrow> int \<Rightarrow> int \<Rightarrow> address \<Rightarrow> tracker \<Rightarrow> presence_sys" where
  "presence_start t0 early tx own t = by_vehicle (sptp_start (send_to_unit t0 tx) t0 early)
     \<lparr>py_slave = sptp_init own False None, py_unit = t, py_requests = [], py_flight = [], py_heard = False\<rparr>"

text \<open>
  The conditions: time goes on; the watchdog is never more than \<open>g\<close> away; a reply that is accepted comes
  within \<open>rtt\<close> of the last request; every request is heard, within \<open>d\<close> (none stays in flight longer);
  and the unit's clock stays \<open>o1\<close> to \<open>o1 + w\<close> ahead of the vehicle's steady clock.
\<close>

record timing =
  tm_pause :: int
  tm_round_trip :: int
  tm_delay :: int
  tm_ahead :: int
  tm_wander :: int

fun presence_ok :: "timing \<Rightarrow> int \<Rightarrow> int \<Rightarrow> presence_event list \<Rightarrow> presence_sys \<Rightarrow> address \<Rightarrow> bool" where
  "presence_ok tm tick now [] p v = True"
| "presence_ok tm tick now (e # es) p v =
     (now \<le> presence_time e \<and> presence_time e \<le> tick + tm_pause tm
      \<and> (\<forall>r \<in> set (py_flight p). presence_time e \<le> r + tm_delay tm)
      \<and> (case unit_reading e of None \<Rightarrow> True
         | Some u \<Rightarrow> presence_time e + tm_ahead tm \<le> u \<and> u \<le> presence_time e + tm_ahead tm + tm_wander tm)
      \<and> (case e of Reply k h pl \<Rightarrow> fst (slave_sync k h pl (py_slave p)) \<noteq> py_slave p
             \<longrightarrow> k_steady k \<le> last (py_requests p) + tm_round_trip tm
         | Hears _ sent _ \<Rightarrow> sent \<in> set (py_flight p) | _ \<Rightarrow> True)
      \<and> presence_ok tm (case e of Watchdog _ _ _ \<Rightarrow> presence_time e | _ \<Rightarrow> tick) (presence_time e) es (presence_step v e p) v)"

text \<open>What the lease must cover.\<close>

definition covers :: "timing \<Rightarrow> bool" where
  "covers tm \<longleftrightarrow> 0 \<le> tm_round_trip tm \<and> 0 \<le> tm_delay tm
     \<and> tm_round_trip tm + 2000000000 + tm_pause tm + tm_delay tm + tm_wander tm \<le> PRESENCE_LEASE_NS"

subsection \<open>The invariant\<close>

text \<open>The slave: its watchdog woke up no later than two seconds after the last SYNC it may have got.\<close>

definition slave_ok :: "timing \<Rightarrow> int \<Rightarrow> int \<Rightarrow> sptp \<Rightarrow> bool" where
  "slave_ok tm tick req s = (\<not> s_is_master s \<and> s_running s \<and> s_max_silence s = 2
     \<and> s_last_sync s \<le> req + tm_round_trip tm \<and> tick \<le> req + tm_round_trip tm + 2000000000)"

text \<open>The unit heard of the vehicle at \<open>h\<close> or later; since \<open>h\<close> it sent nothing, or something soon after that is in flight.\<close>

abbreviation longest :: "timing \<Rightarrow> int" where
  "longest tm \<equiv> tm_round_trip tm + 2000000000 + tm_pause tm"

definition seen_since :: "address \<Rightarrow> int \<Rightarrow> tracker \<Rightarrow> bool" where
  "seen_since v req t = (tracker_ok t \<and> (\<exists>s. map_of (it_presence t) (vehicle_of v) = Some s \<and> req \<le> s))"

definition presence_inv :: "address \<Rightarrow> timing \<Rightarrow> int \<Rightarrow> int \<Rightarrow> presence_sys \<Rightarrow> bool" where
  "presence_inv v tm tick now p \<longleftrightarrow> py_requests p \<noteq> [] \<and> last (py_requests p) \<le> now
     \<and> slave_ok tm tick (last (py_requests p)) (py_slave p) \<and> tracker_ok (py_unit p)
     \<and> (py_heard p \<longrightarrow> (\<exists>h \<le> now. seen_since v (h + tm_ahead tm) (py_unit p)
          \<and> (last (py_requests p) \<le> h \<or> (\<exists>r \<in> set (py_flight p). r \<le> h + longest tm))))"

lemma seen_since_hear:
  assumes "seen_since v req t" and "req \<le> heard_time e"
  shows "seen_since v req (broker_hear e t)"
proof (cases e)
  case (Seen now a)
  then show ?thesis using assms broker_hear_ok [of t e] by (auto simp: seen_since_def tracker_presence_def tracker_ok_def)
next
  case (Heard now m)
  then show ?thesis using assms broker_hear_ok [of t e]
    by (auto simp: seen_since_def tracker_handle_def Let_def tracker_ok_def)
qed

lemma seen_since_presence:
  "tracker_ok t \<Longrightarrow> seen_since v now (tracker_presence now v t)"
  using broker_hear_ok [of t "Seen now v"] by (simp add: seen_since_def tracker_presence_def tracker_ok_def)

lemma broker_tick_presence:
  assumes "tracker_ok t"
  shows "map_of (it_presence (snd (snd (broker_tick now t)))) k
       = (case map_of (it_presence t) k of Some s \<Rightarrow> if now - s \<le> PRESENCE_LEASE_NS then Some s else None | None \<Rightarrow> None)"
    and "it_interests (snd (snd (broker_tick now t))) = filter (\<lambda>e. \<exists>s. map_of (it_presence t) (vehicle_of (e_address e)) = Some s
        \<and> now - s \<le> PRESENCE_LEASE_NS) (it_interests t)"
proof -
  obtain x y t' where k: "broker_tick now t = (x, y, t')" by (cases "broker_tick now t") auto
  note st = broker_tick_state [OF k] and ex = expire_presence_lease [OF assms, of now]
  show "map_of (it_presence (snd (snd (broker_tick now t)))) k
       = (case map_of (it_presence t) k of Some s \<Rightarrow> if now - s \<le> PRESENCE_LEASE_NS then Some s else None | None \<Rightarrow> None)"
    using st(2) ex(2) k by simp
  show "it_interests (snd (snd (broker_tick now t))) = filter (\<lambda>e. \<exists>s. map_of (it_presence t) (vehicle_of (e_address e)) = Some s
        \<and> now - s \<le> PRESENCE_LEASE_NS) (it_interests t)"
    using st(1) ex(1) k by simp
qed

lemma seen_since_tick:
  assumes "seen_since v req t" and "now - req \<le> PRESENCE_LEASE_NS"
  shows "seen_since v req (snd (snd (broker_tick now t)))"
  using assms broker_tick_presence(1) [of t now "vehicle_of v"] broker_tick_ok [of t now] by (auto simp: seen_since_def)

text \<open>A request leaves what the watchdog looks at; one is sent, or the last SYNC is at most two seconds old.\<close>

definition asks_at :: "sptp \<Rightarrow> sptp \<Rightarrow> bool" where
  "asks_at s s' \<longleftrightarrow> s_last_sync s' = s_last_sync s \<and> \<not> s_is_master s' \<and> s_running s' \<and> s_max_silence s' = 2"

lemma request_asks:
  assumes "\<not> s_is_master s" "s_running s" "s_max_silence s = 2"
    and "send_sync_request (send_to_unit now tx) early (s, reqs, fl) = (s', reqs', fl')"
  shows "asks_at s s' \<and> reqs' = reqs @ [now] \<and> fl' = fl @ [now]"
  using assms by (auto simp: asks_at_def send_sync_request_def send_to_unit_def Let_def split: if_splits)

lemma watchdog_asks:
  assumes s: "slave_ok tm tick req s" and "watchdog_tick (send_to_unit now tx) now early (s, reqs, fl) = (s', reqs', fl')"
  shows "asks_at s s' \<and> reqs' = reqs @ [now] \<and> fl' = fl @ [now]
     \<or> reqs' = reqs \<and> fl' = fl \<and> s' = s \<and> now \<le> s_last_sync s + 2000000000"
proof -
  have quiet: "now \<le> s_last_sync s + 2000000000" if "\<not> silent s now"
  proof -
    have "\<not> (2 :: rat) * 1000000000 < of_int (now - s_last_sync s)"
      using that s by (simp add: silent_def slave_ok_def pos_less_divide_eq)
    then have "of_int (now - s_last_sync s) \<le> (of_int 2000000000 :: rat)" by simp
    then have "now - s_last_sync s \<le> 2000000000" unfolding of_int_le_iff .
    then show ?thesis by linarith
  qed
  show ?thesis using assms(2) request_asks [of s now tx early reqs fl] quiet s by (auto simp: watchdog_tick_def slave_ok_def split: if_splits)
qed

lemma resync_asks:
  assumes "slave_ok tm tick req s" and "request_resync (send_to_unit now tx) early (s, reqs, fl) = (s', reqs', fl')"
  shows "asks_at s s' \<and> reqs' = reqs @ [now] \<and> fl' = fl @ [now]"
  using assms request_asks [of "s\<lparr>s_resync_requests := s_resync_requests s + 1\<rparr>" now tx early reqs fl s' reqs' fl']
  by (auto simp: request_resync_def slave_ok_def asks_at_def)

lemma slave_sync_keeps:
  "s_is_master (fst (slave_sync k h pl s)) = s_is_master s" "s_running (fst (slave_sync k h pl s)) = s_running s"
  "s_max_silence (fst (slave_sync k h pl s)) = s_max_silence s"
  "s_last_sync (fst (slave_sync k h pl s)) = s_last_sync s \<or> s_last_sync (fst (slave_sync k h pl s)) = k_steady k"
  by (simp_all add: slave_sync_def Let_def)

abbreviation next_tick :: "int \<Rightarrow> presence_event \<Rightarrow> int" where
  "next_tick tick e \<equiv> (case e of Watchdog _ _ _ \<Rightarrow> presence_time e | _ \<Rightarrow> tick)"

text \<open>A request is sent at \<open>now\<close>.\<close>

lemma presence_inv_asks:
  assumes inv: "presence_inv v tm tick now p" and t: "now \<le> t" "t \<le> tick + tm_pause tm" and tm: "covers tm"
    and a: "asks_at (py_slave p) s'" and tick': "tick' \<le> t + tm_round_trip tm + 2000000000"
  shows "presence_inv v tm tick' t (p\<lparr>py_slave := s', py_requests := py_requests p @ [t], py_flight := py_flight p @ [t]\<rparr>)"
proof -
  let ?R = "last (py_requests p)"
  have i: "?R \<le> now" "slave_ok tm tick ?R (py_slave p)" "tracker_ok (py_unit p)" using inv by (simp_all add: presence_inv_def)
  have "t \<le> ?R + longest tm" using i(2) t(2) by (simp add: slave_ok_def)
  moreover have "slave_ok tm tick' t s'" using a i t tm tick' by (simp add: slave_ok_def asks_at_def covers_def)
  moreover have "\<exists>h \<le> t. seen_since v (h + tm_ahead tm) (py_unit p) \<and> (t \<le> h \<or> (\<exists>r \<in> set (py_flight p @ [t]). r \<le> h + longest tm))"
    if hd: "py_heard p"
  proof -
    obtain h where h: "h \<le> now" "seen_since v (h + tm_ahead tm) (py_unit p)" "?R \<le> h \<or> (\<exists>r \<in> set (py_flight p). r \<le> h + longest tm)"
      using inv hd by (auto simp: presence_inv_def)
    then show ?thesis using t(1) calculation(1) by (intro exI [of _ h]) auto
  qed
  ultimately show ?thesis using i(3) by (simp add: presence_inv_def)
qed

lemma presence_inv_step:
  assumes inv: "presence_inv v tm tick now p" and ok: "presence_ok tm tick now (e # es) p v" and tm: "covers tm"
  shows "presence_inv v tm (next_tick tick e) (presence_time e) (presence_step v e p)"
proof -
  let ?R = "last (py_requests p)"
  have i: "py_requests p \<noteq> []" "?R \<le> now" "slave_ok tm tick ?R (py_slave p)" "tracker_ok (py_unit p)"
    using inv by (simp_all add: presence_inv_def)
  have time: "now \<le> presence_time e" "presence_time e \<le> tick + tm_pause tm" using ok by simp_all
  have hd: "\<exists>h \<le> presence_time e. seen_since v (h + tm_ahead tm) (py_unit p) \<and> (?R \<le> h \<or> (\<exists>r \<in> set (py_flight p). r \<le> h + longest tm))"
    if hp: "py_heard p"
  proof -
    obtain h where "h \<le> now" "seen_since v (h + tm_ahead tm) (py_unit p)" "?R \<le> h \<or> (\<exists>r \<in> set (py_flight p). r \<le> h + longest tm)"
      using inv hp unfolding presence_inv_def by blast
    then show ?thesis using time(1) by (intro exI [of _ h]) simp
  qed
  show ?thesis
  proof (cases e)
    case (Watchdog t early tx)
    obtain s' reqs' fl' where w: "watchdog_tick (send_to_unit t tx) t early (py_slave p, py_requests p, py_flight p) = (s', reqs', fl')"
      by (cases "watchdog_tick (send_to_unit t tx) t early (py_slave p, py_requests p, py_flight p)" rule: prod_cases3)
    from watchdog_asks [OF i(3) w] show ?thesis
    proof
      assume "asks_at (py_slave p) s' \<and> reqs' = py_requests p @ [t] \<and> fl' = py_flight p @ [t]"
      then show ?thesis using presence_inv_asks [OF inv _ _ tm, of t s' t] time tm by (simp add: Watchdog by_vehicle_def w covers_def)
    next
      assume a: "reqs' = py_requests p \<and> fl' = py_flight p \<and> s' = py_slave p \<and> t \<le> s_last_sync (py_slave p) + 2000000000"
      then have "slave_ok tm t ?R (py_slave p)" using i(3) by (simp add: slave_ok_def)
      then show ?thesis using a i time(1) hd by (simp add: Watchdog by_vehicle_def w presence_inv_def)
    qed
  next
    case (Resync t early tx)
    obtain s' reqs' fl' where w: "request_resync (send_to_unit t tx) early (py_slave p, py_requests p, py_flight p) = (s', reqs', fl')"
      by (cases "request_resync (send_to_unit t tx) early (py_slave p, py_requests p, py_flight p)" rule: prod_cases3)
    have "tick \<le> t + tm_round_trip tm + 2000000000" using i(2,3) time(1) by (simp add: Resync slave_ok_def)
    then show ?thesis using presence_inv_asks [OF inv _ _ tm, of t s' tick] resync_asks [OF i(3) w] time
      by (simp add: Resync by_vehicle_def w)
  next
    case (Reply k h pl)
    let ?s = "fst (slave_sync k h pl (py_slave p))"
    have "?s \<noteq> py_slave p \<longrightarrow> k_steady k \<le> ?R + tm_round_trip tm" using ok by (simp add: Reply)
    then have "s_last_sync ?s \<le> ?R + tm_round_trip tm"
      using slave_sync_keeps(4) [of k h pl "py_slave p"] i(3) by (auto simp: slave_ok_def)
    then have "slave_ok tm tick ?R ?s" using i(3) slave_sync_keeps(1-3) by (simp add: slave_ok_def)
    then show ?thesis using i time(1) hd by (simp add: Reply presence_inv_def)
  next
    case (Hears t sent u)
    have "t + tm_ahead tm \<le> u" using ok by (simp add: Hears)
    then have "seen_since v (t + tm_ahead tm) (tracker_presence u v (py_unit p))"
      using seen_since_presence [OF i(4), of v u] by (auto simp: seen_since_def)
    then show ?thesis using i time(1) by (auto simp: Hears presence_inv_def seen_since_def)
  next
    case (Broker t u)
    have u: "u \<le> t + tm_ahead tm + tm_wander tm" "\<forall>r \<in> set (py_flight p). t \<le> r + tm_delay tm" using ok by (simp_all add: Broker)
    have t: "t \<le> ?R + longest tm" using time(2) i(3) by (simp add: Broker slave_ok_def)
    have "\<exists>h \<le> t. seen_since v (h + tm_ahead tm) (snd (snd (broker_tick u (py_unit p))))
        \<and> (?R \<le> h \<or> (\<exists>r \<in> set (py_flight p). r \<le> h + longest tm))" if hp: "py_heard p"
    proof -
      obtain h where h: "h \<le> t" "seen_since v (h + tm_ahead tm) (py_unit p)" "?R \<le> h \<or> (\<exists>r \<in> set (py_flight p). r \<le> h + longest tm)"
        using hd [OF hp] by (auto simp: Broker)
      have "t \<le> h + longest tm + tm_delay tm" using h(3) t u(2) tm by (auto simp: covers_def)
      then have "u - (h + tm_ahead tm) \<le> PRESENCE_LEASE_NS" using u(1) tm by (simp add: covers_def)
      from seen_since_tick [OF h(2) this] h(1,3) show ?thesis by blast
    qed
    then show ?thesis using i time(1) broker_tick_ok [OF i(4), of u] by (simp add: Broker presence_inv_def)
  next
    case (Traffic t b)
    have b: "t + tm_ahead tm \<le> heard_time b" using ok by (simp add: Traffic)
    have "\<exists>h \<le> t. seen_since v (h + tm_ahead tm) (broker_hear b (py_unit p))
        \<and> (?R \<le> h \<or> (\<exists>r \<in> set (py_flight p). r \<le> h + longest tm))" if hp: "py_heard p"
    proof -
      obtain h where h: "h \<le> t" "seen_since v (h + tm_ahead tm) (py_unit p)" "?R \<le> h \<or> (\<exists>r \<in> set (py_flight p). r \<le> h + longest tm)"
        using hd [OF hp] by (auto simp: Traffic)
      have "h + tm_ahead tm \<le> heard_time b" using h(1) b by simp
      from seen_since_hear [OF h(2) this] h(1,3) show ?thesis by blast
    qed
    then show ?thesis using i time(1) broker_hear_ok [OF i(4), of b] by (simp add: Traffic presence_inv_def)
  qed
qed

lemma presence_inv_last:
  assumes "presence_inv v tm tick now p" and "presence_ok tm tick now (es @ [e]) p v" and "covers tm"
  shows "\<exists>tick' now'. presence_inv v tm tick' now' (presence_run v es p) \<and> presence_ok tm tick' now' [e] (presence_run v es p) v"
  using assms
proof (induction es arbitrary: tick now p)
  case (Cons e' es)
  have st: "presence_ok tm tick now (e' # (es @ [e])) p v" using Cons.prems(2) by simp
  then have "presence_ok tm (next_tick tick e') (presence_time e') (es @ [e]) (presence_step v e' p) v" by simp
  from Cons.IH [OF presence_inv_step [OF Cons.prems(1) st Cons.prems(3)] this Cons.prems(3)]
  show ?case by (simp add: presence_run_def)
qed (auto simp: presence_run_def)

lemma presence_start_inv:
  assumes "tracker_ok t" and "covers tm"
  shows "presence_inv v tm t0 t0 (presence_start t0 early tx own t)"
proof -
  have "sptp_start (send_to_unit t0 tx) t0 early (sptp_init own False None, [], [])
      = (let s1 = (sptp_init own False None)\<lparr>s_last_sync := t0, s_running := True, s_next_seq := 2,
                    s_pending_t2 := (if tx \<noteq> 0 then tx else early), s_pending_seq := 1\<rparr>
         in (s1, [t0], [t0]))"
    by (simp add: sptp_start_def send_sync_request_def send_to_unit_def sptp_init_def Let_def)
  then show ?thesis using assms
    by (simp add: presence_inv_def presence_start_def by_vehicle_def slave_ok_def covers_def sptp_init_def load_max_silence_def MAX_SILENCE_S_def Let_def)
qed

text \<open>C25. A vehicle whose synchronisation runs is not dropped while the unit hears it: when every request it sends is
  heard within \<open>d\<close> (so none is lost, fails to be sent or is filtered out by its quadrant), accepted replies come
  within \<open>rtt\<close> of the last request, the watchdog wakes up at least every \<open>g\<close>, the unit's clock stays within
  \<open>w\<close> of a fixed distance to the vehicle's steady clock, and \<open>rtt\<close> + 2 s + \<open>g\<close> + \<open>d\<close> + \<open>w\<close> are at most the four
  seconds of the lease, then from the first request the unit heard on no tick of the broker, whatever else it
  heard, removes an interest of the vehicle.\<close>

theorem synchronising_vehicle_stays:
  assumes "tracker_ok t" and "covers tm"
    and "presence_ok tm t0 t0 (es @ [Broker now reading]) (presence_start t0 early tx own t) v"
    and "p = presence_run v es (presence_start t0 early tx own t)" and "py_heard p"
  shows "filter (\<lambda>e. vehicle_of (e_address e) = vehicle_of v) (it_interests (py_unit (presence_step v (Broker now reading) p)))
      = filter (\<lambda>e. vehicle_of (e_address e) = vehicle_of v) (it_interests (py_unit p))"
proof -
  obtain tick' now' where inv: "presence_inv v tm tick' now' p" and ok: "presence_ok tm tick' now' [Broker now reading] p v"
    using presence_inv_last [OF presence_start_inv [OF assms(1,2)] assms(3,2)] unfolding assms(4) by blast
  have "presence_inv v tm tick' now (presence_step v (Broker now reading) p)"
    using presence_inv_step [OF inv ok assms(2)] by simp
  then have "\<exists>h. seen_since v h (snd (snd (broker_tick reading (py_unit p))))" using assms(5) by (auto simp: presence_inv_def)
  then obtain x where x: "map_of (it_presence (snd (snd (broker_tick reading (py_unit p))))) (vehicle_of v) = Some x"
    by (auto simp: seen_since_def)
  have tr: "tracker_ok (py_unit p)" using inv by (simp add: presence_inv_def)
  obtain y where "map_of (it_presence (py_unit p)) (vehicle_of v) = Some y" "reading - y \<le> PRESENCE_LEASE_NS"
    using x unfolding broker_tick_presence(1) [OF tr] by (auto split: option.splits if_splits)
  then show ?thesis by (simp add: broker_tick_presence(2) [OF tr]) (rule filter_cong, auto)
qed

subsection \<open>A concrete vehicle\<close>

text \<open>
  A consumer of the vehicle wants SPEED; its watchdog asks every second, unanswered; a request takes 0.1 s, and
  the unit's clock is half a second ahead.
\<close>

definition demo_timing :: timing where
  "demo_timing = \<lparr>tm_pause = 1200000000, tm_round_trip = 0, tm_delay = 200000000, tm_ahead = 500000000, tm_wander = 100000000\<rparr>"

definition demo_presence :: "presence_event list" where
  "demo_presence = Hears 100000000 0 600000000 # Traffic 200000000 (Heard 700000000 (demo_wish SPEED 900000 null_address))
     # concat (map (\<lambda>k. [Watchdog (k * 1000000000) 0 1, Hears (k * 1000000000 + 100000000) (k * 1000000000) (k * 1000000000 + 600000000)])
         [1, 2, 3, 4, 5])"

definition demo_presence_start :: presence_sys where
  "demo_presence_start = presence_start 0 0 1 null_address tracker_init"

lemmas presence_eval = demo_presence_def demo_presence_start_def presence_start_def sptp_start_def sptp_init_def by_vehicle_def
  send_sync_request_def send_to_unit_def Let_def watchdog_tick_def tracker_presence_def tracker_init_def demo_wish_handled
  record_entry_def demo_timing_def

lemma demo_presence_ok:
  "presence_ok demo_timing 0 0 (demo_presence @ [Broker 5200000000 5800000000]) demo_presence_start null_address"
  by (simp add: presence_eval)

lemma demo_presence_run:
  "py_heard (presence_run null_address demo_presence demo_presence_start)"
  "map e_unit (filter (\<lambda>e. vehicle_of (e_address e) = vehicle_of null_address)
     (it_interests (py_unit (presence_run null_address demo_presence demo_presence_start)))) = [SPEED]"
  by (simp_all add: presence_eval presence_run_def)

lemma synchronising_vehicle_stays_witness:
  "map e_unit (filter (\<lambda>e. vehicle_of (e_address e) = vehicle_of null_address)
     (it_interests (py_unit (presence_step null_address (Broker 5200000000 5800000000) (presence_run null_address demo_presence demo_presence_start))))) = [SPEED]"
proof -
  have "covers demo_timing" by (simp add: covers_def demo_timing_def PRESENCE_LEASE_NS_def)
  from synchronising_vehicle_stays [OF tracker_ok_init this demo_presence_ok [unfolded demo_presence_start_def] refl
      demo_presence_run(1) [unfolded demo_presence_start_def]] demo_presence_run(2)
  show ?thesis unfolding demo_presence_start_def by simp
qed

end
