(* ===== verification/Endpoint.thy ===== *)
theory Endpoint
  imports Channel Smart_Behaviour Interest_Tracker
begin

section \<open>Communicators on the channel protocol\<close>

text \<open>
  The communicator over \<open>Vehicle_Protocol\<close> (\<open>src/channel/vehicle_protocol.h\<close>): the channel
  protocol discharges the communicator's contract, and a message or a smart datum is followed
  from one process of a vehicle to another.
\<close>

definition protocol_channel ::
  "('g, 'n, 'r, 'x) env \<Rightarrow> ('o, 'g, 'n, 'r, 'x) handler \<Rightarrow> 'o \<Rightarrow> (bufref, ('o, 'g, 'n, 'r, 'x) proto) channel_ops"
where
  "protocol_channel E h ob =
     \<lparr>ch_send = (\<lambda>src dst data ts p. case protocol_send E h src dst data ts DATA p of (r, tx, p') \<Rightarrow> (r, p')),
      ch_receive = protocol_receive,
      ch_attach = protocol_attach ob,
      ch_detach = protocol_detach ob\<rparr>"

lemma held_usage:
  "held b p = (case b of ShmBuf i \<Rightarrow> i \<in> fst (usage p)
     | SockBuf i \<Rightarrow> (case snd (usage p) of Some s \<Rightarrow> i \<in> s | None \<Rightarrow> False))"
  by (cases b) (simp_all add: held_def usage_def split: option.split)

lemma held_without:
  assumes "usage p' = without b (usage p)"
  shows "held b' p' = (held b' p \<and> b' \<noteq> b)"
  unfolding held_usage assms without_def by (cases b; cases b') (auto split: option.splits)

lemma held_size: "chan_ok p \<Longrightarrow> held b p \<Longrightarrow> b_size (buffer_at b p) \<le> MTU"
  using pool_buffer [OF _ in_use_bound]
  by (cases b) (auto simp: chan_ok_def held_def buffer_at_def sock_ok_def split: option.splits)

interpretation vehicle: channel "protocol_channel E h ob" chan_ok held
  for E :: "('g, 'n, 'r, 'x) env" and h :: "('o, 'g, 'n, 'r, 'x) handler" and ob :: 'o
proof unfold_locales
  fix w w' :: "('o, 'g, 'n, 'r, 'x) proto" and b sz n a t q d r
  assume ok: "chan_ok w" and hb: "held b w"
  have fr: "frame_ok (b_data (buffer_at b w))" by (rule held_frame [OF ok hb])
  show "n = int (length d) \<and> length d \<le> sz"
    if "ch_receive (protocol_channel E h ob) b sz w = ((n, Some (a, t, q, d)), w')"
    using that fr held_size [OF ok hb]
    by (auto simp: protocol_channel_def protocol_receive_def Let_def pkt_data_def header_consts MTU_def
        split: if_splits)
  show "n = -1" if "ch_receive (protocol_channel E h ob) b sz w = ((n, None), w')"
    using that by (auto simp: protocol_channel_def protocol_receive_def Let_def split: if_splits)
  show "chan_ok w' \<and> \<not> held b w' \<and> (\<forall>b'. b' \<noteq> b \<longrightarrow> held b' w' = held b' w)"
    if "ch_receive (protocol_channel E h ob) b sz w = (r, w')"
  proof -
    have w': "w' = free_buffer b w"
      using that ok by (auto simp: protocol_channel_def protocol_receive_def Let_def chan_ok_def split: if_splits)
    have "chan_ok w'" "usage w' = without b (usage w)"
      using free_buffer_accounts [OF ok hb] unfolding w' by simp_all
    then show ?thesis using held_without [of w' b w] by simp
  qed
qed

subsection \<open>A message from one process to another\<close>

text \<open>What a receiver's buffer holds after the NIC took a frame from the ring.\<close>

definition holds_frame :: "u8 list \<Rightarrow> bufref \<Rightarrow> ('o, 'g, 'n, 'r, 'x) proto \<Rightarrow> bool" where
  "holds_frame bytes b q \<longleftrightarrow> pr_instance q \<and> frame_ok (b_data (buffer_at b q))
     \<and> take (length bytes) (b_data (buffer_at b q)) = bytes
     \<and> b_size (buffer_at b q) = length bytes - HEADER_SIZE"

text \<open>The writing of a frame \<open>bytes\<close> to the bus by a component.\<close>

definition writes_to_bus ::
  "('g, 'n, 'r, 'x) env \<Rightarrow> u8 list \<Rightarrow> ('o, 'g, 'n, 'r, 'x) proto \<Rightarrow> ('o, 'g, 'n, 'r, 'x) proto \<Rightarrow> bool"
where
  "writes_to_bus E bytes p p' \<longleftrightarrow> pr_shm_eng p' = (pr_shm_eng p)\<lparr>sp_ring := snd (en_bus E bytes
     (word_of_nat (sp_slot (pr_shm_eng p))) (DELIVER_TO_COMPONENTS OR DELIVER_TO_GATEWAY)
     (sp_ring (pr_shm_eng p)))\<rparr>"

text \<open>A component process ready to send: a free buffer, the bus attached, no socket NIC.\<close>

definition can_send :: "('o, 'g, 'n, 'r, 'x) proto \<Rightarrow> bool" where
  "can_send p \<longleftrightarrow> pool_ok (pr_shm p) \<and> in_use (pr_shm p) \<noteq> {..<BUFFER_SIZE} \<and> \<not> n_spatial (pr_shm p)
     \<and> pr_instance p \<and> pr_sock p = None
     \<and> sp_attached (pr_shm_eng p) \<and> sp_slot (pr_shm_eng p) \<noteq> unat GATEWAY_SLOT"

definition arrived :: "address \<Rightarrow> u8 \<Rightarrow> int \<Rightarrow> u8 list \<Rightarrow> message" where
  "arrived a q ts data =
     \<lparr>m_address = a, m_quadrant = q, m_timestamp = ts, m_type = MESSAGE_STANDARD,
      m_size = of_nat (length data), m_payload = data @ replicate (MESSAGE_MAX_SIZE - length data) 0\<rparr>"

text \<open>What \<open>receive\<close> reports as the sender: the MAC of the bus NIC and the port of the communicator.\<close>

definition sender_address :: "('s, 'b, ('o, 'g, 'n, 'r, 'x) proto, 'y) communicator \<Rightarrow> address" where
  "sender_address c = \<lparr>a_paddr = n_address (pr_shm (cm_channel c)), a_port = a_port (cm_address c)\<rparr>"

lemma message_sent:
  fixes E :: "('g, 'n, 'r, 'x) env" and c :: "('s, bufref, ('o, 'g, 'n, 'r, 'x) proto, 'y) communicator"
    and h :: "('o, 'g, 'n, 'r, 'x) handler" and ob :: 'o
  assumes snd: "can_send (cm_channel c)" and data: "length (message_bytes m) \<le> MESSAGE_MAX_SIZE"
    and ts: "in_i64 (stamp_of now (cm_stamp c))" "stamp_of now (cm_stamp c) \<noteq> 0"
  shows "\<exists>bytes. writes_to_bus E bytes (cm_channel c)
        (cm_channel (snd (snd (comm_send (protocol_channel E h ob) now m c))))
     \<and> data_frame (a_port (cm_address c)) (a_port logical_broadcast) DATA (stamp_of now (cm_stamp c)) (message_bytes m) bytes
     \<and> frame_src bytes = n_address (pr_shm (cm_channel c)) \<and> frame_dst bytes = a_paddr logical_broadcast"
proof -
  let ?p = "cm_channel c" and ?ts = "stamp_of now (cm_stamp c)" and ?d = "message_bytes m"
  have p: "pool_ok (pr_shm ?p)" "in_use (pr_shm ?p) \<noteq> {..<BUFFER_SIZE}" "\<not> n_spatial (pr_shm ?p)"
    "pr_instance ?p" "pr_sock ?p = None" "sp_attached (pr_shm_eng ?p)" "sp_slot (pr_shm_eng ?p) \<noteq> unat GATEWAY_SLOT"
    using snd by (simp_all add: can_send_def)
  have mac: "mac_ok (a_paddr logical_broadcast)"
    by (simp add: logical_broadcast_def physical_broadcast_def)
  have fit: "HEADER_LEN + length ?d \<le> MTU"
    using data by (simp add: header_consts MTU_def MESSAGE_MAX_SIZE_def)
  have send: "cm_channel (snd (snd (comm_send (protocol_channel E h ob) now m c)))
      = snd (snd (protocol_send E h (cm_address c) logical_broadcast ?d ?ts DATA ?p))"
    by (simp add: comm_send_def monotonic_stamp_def protocol_channel_def message_bytes_def Let_def split: prod.split)
  show ?thesis
    using bus_send_and_receive [OF p(1-5) mac fit p(6,7) ts, where E = E and h = h and src = "cm_address c" and kind = DATA]
    unfolding writes_to_bus_def send by blast
qed

text \<open>\<open>update\<close> on a buffer with a frame: one message of its data for the observers.\<close>

lemma message_received:
  fixes E :: "('g, 'n, 'r, 'x) env" and r :: "('s, bufref, ('o, 'g, 'n, 'r, 'x) proto, 'y) communicator"
  assumes fr: "data_frame sp dp k ts d bytes" and d: "d \<noteq> []" "length d \<le> MESSAGE_MAX_SIZE"
    and r: "holds_frame bytes b (cm_channel r)" and seen: "has_observer cond (cm_observers r)"
  shows "comm_update (protocol_channel E h ob) upd junk cond b r
      = snd (co_notify cm_observers upd cond (length (h_cells (cm_heap r)))
          (r\<lparr>cm_channel := free_buffer b (cm_channel r),
             cm_heap := (cm_heap r)\<lparr>h_cells := h_cells (cm_heap r) @
               [arrived \<lparr>a_paddr = frame_src bytes, a_port = sp\<rparr> (hdr_quadrant (drop HEADER_SIZE bytes)) ts d]\<rparr>\<rparr>))"
proof -
  let ?from = "\<lparr>a_paddr = frame_src bytes, a_port = sp\<rparr>" and ?q = "hdr_quadrant (drop HEADER_SIZE bytes)"
  have m: "fill_message (int (length d)) (Some (?from, ts, ?q, d)) (message_default junk MESSAGE_MAX_SIZE)
      = arrived ?from ?q ts d"
    using d(2) by (simp add: fill_message_def message_default_def arrived_def memcpy_at_def)
  have "pr_instance (cm_channel r)" "frame_ok (b_data (buffer_at b (cm_channel r)))"
    "take (length bytes) (b_data (buffer_at b (cm_channel r))) = bytes"
    "b_size (buffer_at b (cm_channel r)) = length bytes - HEADER_SIZE"
    using r by (simp_all add: holds_frame_def)
  from receive_of_frame [OF this fr, of MESSAGE_MAX_SIZE]
  have recv: "ch_receive (protocol_channel E h ob) b MESSAGE_MAX_SIZE (cm_channel r)
      = ((int (length d), Some (?from, ts, ?q, d)), free_buffer b (cm_channel r))"
    using d(2) by (simp add: protocol_channel_def)
  let ?r = "r\<lparr>cm_channel := free_buffer b (cm_channel r), cm_heap := (cm_heap r)\<lparr>h_cells := h_cells (cm_heap r) @
      [arrived ?from ?q ts d]\<rparr>\<rparr>"
  obtain c2 where cn: "co_notify cm_observers upd cond (length (h_cells (cm_heap r))) ?r = (True, c2)"
    using seen by (simp add: co_notify_targets has_observer_targets)
  have "\<not> int (length d) \<le> 0" using d(1) by simp
  then show ?thesis
    unfolding comm_update_def new_message_def recv prod.case m Let_def using seen cn by simp
qed

subsection \<open>A smart datum from producer to consumer, an interest from consumer to producer\<close>

lemma arrived_prefix:
  "take n data = x \<Longrightarrow> n \<le> length data \<Longrightarrow> take n (m_payload (arrived a q ts data)) = x"
  by (simp add: arrived_def)

lemma arrived_response:
  fixes v u
  defines "bs \<equiv> enc_response \<lparr>rm_header = \<lparr>sh_kind = RESPONSE, sh_unit = u\<rparr>, rm_value = v\<rparr>"
  shows "is_response u (arrived a q ts bs)" "RESPONSE_LEN \<le> unat (m_size (arrived a q ts bs))"
    "rm_value (dec_response (m_payload (arrived a q ts bs))) = v"
proof -
  have l: "length bs = RESPONSE_LEN" unfolding bs_def by (rule response_wire.enc_size)
  have d: "dec_response (bs @ rest) = \<lparr>rm_header = \<lparr>sh_kind = RESPONSE, sh_unit = u\<rparr>, rm_value = v\<rparr>" for rest
    unfolding bs_def by (rule response_wire.dec_enc)
  have e: "dec_smart_header (bs @ rest) = \<lparr>sh_kind = RESPONSE, sh_unit = u\<rparr>" for rest
    by (simp add: bs_def enc_response_def)
  show "is_response u (arrived a q ts bs)" "RESPONSE_LEN \<le> unat (m_size (arrived a q ts bs))"
    "rm_value (dec_response (m_payload (arrived a q ts bs))) = v"
    by (simp_all add: is_response_def arrived_def l d e wire_lens unat_of_nat)
qed

lemma arrived_interest:
  fixes p u w
  defines "bs \<equiv> enc_interest \<lparr>im_header = \<lparr>sh_kind = INTEREST, sh_unit = u\<rparr>, im_period_us = p, im_disinterest = w\<rparr>"
  shows "is_interest u (arrived a q ts bs)" "m_address (arrived a q ts bs) = a" "m_quadrant (arrived a q ts bs) = q"
    "im_period_us (dec_interest (m_payload (arrived a q ts bs))) = p"
    "im_disinterest (dec_interest (m_payload (arrived a q ts bs))) = w"
proof -
  have l: "length bs = INTEREST_LEN" unfolding bs_def by (rule interest_wire.enc_size)
  have d: "dec_interest (bs @ rest)
      = \<lparr>im_header = \<lparr>sh_kind = INTEREST, sh_unit = u\<rparr>, im_period_us = p, im_disinterest = w\<rparr>" for rest
    unfolding bs_def by (rule interest_wire.dec_enc)
  have e: "dec_smart_header (bs @ rest) = \<lparr>sh_kind = INTEREST, sh_unit = u\<rparr>" for rest
    by (simp add: bs_def enc_interest_def)
  show "is_interest u (arrived a q ts bs)" "m_address (arrived a q ts bs) = a" "m_quadrant (arrived a q ts bs) = q"
    "im_period_us (dec_interest (m_payload (arrived a q ts bs))) = p"
    "im_disinterest (dec_interest (m_payload (arrived a q ts bs))) = w"
    by (simp_all add: is_interest_def arrived_def l d e wire_lens unat_of_nat)
qed

text \<open>The SmartData \<open>j\<close> of a process after the only message it was given.\<close>

lemma smart_update_at:
  "j < length (cm_clients c) \<Longrightarrow> smart_at j (smart_update now now' j cond k c)
     = (case smart_handle now now' (h_cells (cm_heap c) ! k) (smart_at j c) of
          (keep, sd) \<Rightarrow> if keep then sd\<lparr>sd_queue := co_update k (sd_queue sd)\<rparr> else sd)"
  by (simp add: smart_update_def upd_smart_def split: prod.split)


text \<open>
  A frame given to a process with one observer: whatever handling its message establishes, up to
  the message's place in the queue, holds of the observer.
\<close>

lemma datum_received:
  fixes E :: "('g, 'n, 'r, 'x) env" and r :: "(bufref, ('o, 'g, 'n, 'r, 'x) proto) process"
  assumes "data_frame sp dp k ts bs bytes" and bs: "0 < length bs" "length bs \<le> MESSAGE_MAX_SIZE"
    and r: "holds_frame bytes b (cm_channel r)" "targets_of broadcast_condition (cm_observers r) = [j]"
      "j < length (cm_clients r)"
    and handled: "after (snd (smart_handle n n'
        (arrived \<lparr>a_paddr = frame_src bytes, a_port = sp\<rparr> (hdr_quadrant (drop HEADER_SIZE bytes)) ts bs) (smart_at j r)))"
    and queue: "\<And>sd q. after sd \<Longrightarrow> after (sd\<lparr>sd_queue := q\<rparr>)"
  shows "after (smart_at j (comm_update (protocol_channel E h ob) (smart_update n n') junk broadcast_condition b r))"
proof -
  have "bs \<noteq> []" using bs(1) by auto
  moreover have "has_observer broadcast_condition (cm_observers r)" using r(2) by (simp add: has_observer_targets)
  ultimately show ?thesis
    unfolding message_received [OF assms(1) _ bs(2) r(1)] using r(2,3) handled queue
    by (auto simp: co_notify_targets smart_update_at message_received [OF assms(1) _ bs(2) r(1)] split: prod.split)
qed

lemma response_length: "length (response_bytes v sd) = RESPONSE_LEN" "RESPONSE_LEN \<le> MESSAGE_MAX_SIZE" "0 < RESPONSE_LEN"
  unfolding response_bytes_def by (rule response_wire.enc_size) (simp_all add: wire_lens MESSAGE_MAX_SIZE_def)

lemma interest_length: "length (interest_bytes w sd) = INTEREST_LEN" "INTEREST_LEN \<le> MESSAGE_MAX_SIZE" "0 < INTEREST_LEN"
  unfolding interest_bytes_def by (rule interest_wire.enc_size) (simp_all add: wire_lens MESSAGE_MAX_SIZE_def)

lemma datum_sent:
  fixes E :: "('g, 'n, 'r, 'x) env" and c :: "(bufref, ('o, 'g, 'n, 'r, 'x) proto) process"
  assumes "can_send (cm_channel c)" and "in_i64 (stamp_of now (cm_stamp c))" and "stamp_of now (cm_stamp c) \<noteq> 0"
    and "length bs \<le> MESSAGE_MAX_SIZE"
  shows "\<exists>bytes. writes_to_bus E bytes (cm_channel c)
        (cm_channel (snd (snd (comm_send (protocol_channel E h ob) now (message_of_payload (0, 0) bs) c))))
     \<and> data_frame (a_port (cm_address c)) (a_port logical_broadcast) DATA (stamp_of now (cm_stamp c)) bs bytes
     \<and> frame_src bytes = n_address (pr_shm (cm_channel c)) \<and> frame_dst bytes = a_paddr logical_broadcast"
proof -
  have mb: "message_bytes (message_of_payload (0, 0) bs) = bs" using assms(4) by (rule message_of_payload_bytes)
  then have "length (message_bytes (message_of_payload (0, 0) bs)) \<le> MESSAGE_MAX_SIZE" using assms(4) by simp
  from message_sent [OF assms(1) this assms(2,3), of E h ob] show ?thesis unfolding mb .
qed

text \<open>A response is the value the consumer of its unit reads.\<close>

lemma response_received:
  fixes E :: "('g, 'n, 'r, 'x) env" and r :: "(bufref, ('o, 'g, 'n, 'r, 'x) proto) process"
  assumes "data_frame sp dp k ts (response_bytes v s) bytes" and "holds_frame bytes b (cm_channel r)"
    and "targets_of broadcast_condition (cm_observers r) = [j]" and "j < length (cm_clients r)"
    and "sd_role (smart_at j r) = CONSUMER" and "sd_unit (smart_at j r) = sd_unit s"
  shows "smart_value (smart_at j (comm_update (protocol_channel E h ob) (smart_update n n') junk broadcast_condition b r)) = v"
proof -
  note a = arrived_response [where v = v and u = "sd_unit s", folded response_bytes_def]
  have h: "smart_value (snd (smart_handle n n' (arrived ad q ts (response_bytes v s)) (smart_at j r))) = v" for ad q
    using consumer_handles [OF assms(5)] a assms(6) by (simp add: on_response_message_def Let_def smart_value_def)
  show ?thesis
    by (rule datum_received [OF assms(1) _ _ assms(2-4), where after = "\<lambda>sd. smart_value sd = v"])
       (simp_all add: response_length h, simp add: smart_value_def)
qed

text \<open>An interest is an entry of the table of the producer of its unit, under the sender's address.\<close>

lemma interest_received:
  fixes E :: "('g, 'n, 'r, 'x) env" and r :: "(bufref, ('o, 'g, 'n, 'r, 'x) proto) process"
  assumes "data_frame sp dp k ts (interest_bytes False s) bytes" and "holds_frame bytes b (cm_channel r)"
    and "targets_of broadcast_condition (cm_observers r) = [j]" and "j < length (cm_clients r)"
    and "sd_role (smart_at j r) = PRODUCER" and "sd_unit (smart_at j r) = sd_unit s"
    and "sd_cache (smart_at j r) = Some t" and "distinct (map b_key (bc_bindings t))" and "sd_period_us s \<noteq> 0"
  shows "\<exists>t'. sd_cache (smart_at j (comm_update (protocol_channel E h ob) (smart_update n n') junk broadcast_condition b r)) = Some t'
     \<and> interests t' (sd_unit s, \<lparr>a_paddr = frame_src bytes, a_port = sp\<rparr>)
       = Some (sd_period_us s, expiry_for n (sd_period_us s) t')"
proof -
  let ?bs = "interest_bytes False s" and ?p = "sd_period_us s" and ?sd = "smart_at j r"
  note a = arrived_interest [where p = ?p and u = "sd_unit s" and w = "if False then 1 else 0", folded interest_bytes_def]
  have h: "\<exists>t'. sd_cache (snd (smart_handle n n' (arrived ad q ts ?bs) ?sd)) = Some t'
      \<and> interests t' (sd_unit s, ad) = Some (?p, expiry_for n ?p t')" for ad q
  proof -
    let ?t = "if sd_last_seen_quad ?sd \<noteq> q then cache_clear t else t"
    have "distinct (map b_key (bc_bindings ?t))" using assms(8) by (simp add: cache_clear_def)
    then have "interests (on_interest n (sd_unit ?sd) ad ?p ?t) (sd_unit ?sd, ad)
        = Some (?p, expiry_for n ?p (on_interest n (sd_unit ?sd) ad ?p ?t))"
      using cache_run_refines(2) [of ?t "[Interest n (sd_unit ?sd) ad ?p]"] assms(9)
      by (simp add: cache_run_def expiry_for_def on_interest_def Let_def)
    moreover have "sd_cache (snd (smart_handle n n' (arrived ad q ts ?bs) ?sd)) = Some (on_interest n (sd_unit ?sd) ad ?p ?t)"
      using producer_handles [OF assms(5)] a assms(6,7) by (simp add: on_interest_message_def is_interest_def Let_def)
    ultimately show ?thesis using assms(6) by simp
  qed
  show ?thesis
    by (rule datum_received [OF assms(1) _ _ assms(2-4), where after = "\<lambda>sd. \<exists>t'. sd_cache sd = Some t'
         \<and> interests t' (sd_unit s, \<lparr>a_paddr = frame_src bytes, a_port = sp\<rparr>) = Some (?p, expiry_for n ?p t')"])
       (simp_all add: interest_length h)
qed

end
