(* ===== verification/Components.thy ===== *)
theory Components
  imports Complex_Main Address
begin

section \<open>Sensors, actuators and thread priorities\<close>

text \<open>
  \<open>src/application/components\<close> and \<open>src/core/rt_priority.cpp\<close>. A \<open>double\<close> is a rational, an infinity
  or NaN, compared as IEEE 754 does; the sums of the GPS sensor are exact (rounding is left out).
  What \<open>rand\<close> and the scheduler calls answer is an argument.
\<close>

subsection \<open>Kinds and ports\<close>

datatype component_kind =
    GPS_Sensor | Lidar_Sensor | Radar_Sensor | Braking_Actuator | Powertrain_Actuator | Steering_Actuator

fun logical_port :: "component_kind \<Rightarrow> u16" where
  "logical_port GPS_Sensor = PORT_GPS_SENSOR"
| "logical_port Lidar_Sensor = PORT_LIDAR_SENSOR"
| "logical_port Radar_Sensor = PORT_RADAR_SENSOR"
| "logical_port Braking_Actuator = PORT_BRAKING_ACTUATOR"
| "logical_port Powertrain_Actuator = PORT_POWERTRAIN_ACTUATOR"
| "logical_port Steering_Actuator = PORT_STEERING_ACTUATOR"

lemma logical_ports_distinct:
  "(logical_port a = logical_port b) = (a = b)" "logical_port a \<noteq> PORT_GATEWAY" "logical_port a \<noteq> PORT_BROADCAST"
  by (cases a; cases b; simp add: port_defs) (cases a; simp add: port_defs)+

subsection \<open>Actuators\<close>

datatype double = NaN | Minus_Inf | Finite rat | Plus_Inf

text \<open>The comparisons of the code: every one with NaN is false.\<close>

instantiation double :: ord
begin

fun less_double :: "double \<Rightarrow> double \<Rightarrow> bool" where
  "less_double NaN _ = False"
| "less_double _ NaN = False"
| "less_double Minus_Inf y = (y \<noteq> Minus_Inf)"
| "less_double (Finite x) (Finite y) = (x < y)"
| "less_double (Finite _) y = (y = Plus_Inf)"
| "less_double Plus_Inf _ = False"

definition less_eq_double :: "double \<Rightarrow> double \<Rightarrow> bool" where
  "less_eq_double x y = (x < y \<or> x = y \<and> x \<noteq> NaN)"

instance ..

end

record braking_actuator =
  pressure_bar :: double

record powertrain_actuator =
  power_kw :: double

record steering_actuator =
  angle_deg :: double

definition braking_initialize :: "braking_actuator \<Rightarrow> braking_actuator" where
  "braking_initialize a = a\<lparr>pressure_bar := Finite 0\<rparr>"

definition braking_apply :: "double \<Rightarrow> braking_actuator \<Rightarrow> braking_actuator" where
  "braking_apply v0 a =
     (let v1 = (if v0 < Finite 0 then Finite 0 else v0);
          v2 = (if v1 > Finite 150 then Finite 150 else v1)
      in a\<lparr>pressure_bar := v2\<rparr>)"

definition powertrain_initialize :: "powertrain_actuator \<Rightarrow> powertrain_actuator" where
  "powertrain_initialize a = a\<lparr>power_kw := Finite 0\<rparr>"

definition powertrain_apply :: "double \<Rightarrow> powertrain_actuator \<Rightarrow> powertrain_actuator" where
  "powertrain_apply v0 a = a\<lparr>power_kw := (if v0 < Finite 0 then Finite 0 else v0)\<rparr>"

definition steering_initialize :: "steering_actuator \<Rightarrow> steering_actuator" where
  "steering_initialize a = a\<lparr>angle_deg := Finite 0\<rparr>"

definition steering_apply :: "double \<Rightarrow> steering_actuator \<Rightarrow> steering_actuator" where
  "steering_apply v0 a =
     (let v1 = (if v0 < Finite (- 45) then Finite (- 45) else v0);
          v2 = (if v1 > Finite 45 then Finite 45 else v1)
      in a\<lparr>angle_deg := v2\<rparr>)"

text \<open>A command reaches the actuator clamped to its range (0 to 150 bar, -45 to 45 degrees, not
  negative power), unchanged when it lies inside; the only value that passes both comparisons
  without being in range is NaN, and an infinite power is kept.\<close>

theorem actuator_commands_clamped:
  "(case pressure_bar (braking_apply v a) of
      Finite p \<Rightarrow> 0 \<le> p \<and> p \<le> 150 \<and> (\<forall>x. v = Finite x \<longrightarrow> p = max 0 (min x 150)) | d \<Rightarrow> d = NaN \<and> v = NaN)
   \<and> (case angle_deg (steering_apply v s) of
      Finite p \<Rightarrow> -45 \<le> p \<and> p \<le> 45 \<and> (\<forall>x. v = Finite x \<longrightarrow> p = max (-45) (min x 45)) | d \<Rightarrow> d = NaN \<and> v = NaN)
   \<and> (case power_kw (powertrain_apply v t) of
      Finite p \<Rightarrow> 0 \<le> p \<and> (\<forall>x. v = Finite x \<longrightarrow> p = max 0 x) | d \<Rightarrow> d = v \<and> (d = NaN \<or> d = Plus_Inf))"
  by (cases v) (auto simp: braking_apply_def steering_apply_def powertrain_apply_def Let_def)

lemma actuator_commands_clamped_witness:
  "pressure_bar (braking_apply (Finite 200) (braking_initialize a)) = Finite 150"
  using actuator_commands_clamped [of "Finite 200" "braking_initialize a", THEN conjunct1]
  by (simp split: double.splits)

subsection \<open>Sensors\<close>

text \<open>The five iterations of each \<open>run\<close>; the arguments are the values of successive \<open>rand()\<close>.\<close>

definition lidar_step :: "int \<Rightarrow> int \<Rightarrow> int" where
  "lidar_step r point_count = 500 + r mod 1500"

definition radar_step :: "int \<times> int \<Rightarrow> rat \<times> rat \<Rightarrow> rat \<times> rat" where
  "radar_step r s = (5 + of_int (fst r mod 200), of_int (snd r mod 60 - 30) * (1 / 2))"

definition gps_step :: "int \<times> int \<Rightarrow> rat \<times> rat \<Rightarrow> rat \<times> rat" where
  "gps_step r s = (fst s + of_int (fst r mod 100 - 50) * (1 / 10000), snd s + of_int (snd r mod 100 - 50) * (1 / 10000))"

definition gps_start :: "rat \<times> rat" where
  "gps_start = (- 275954 / 10000, - 485480 / 10000)"

definition sensor_run :: "('r \<Rightarrow> 's \<Rightarrow> 's) \<Rightarrow> 'r list \<Rightarrow> 's \<Rightarrow> 's" where
  "sensor_run step rands s = fold step (take 5 rands) s"

lemma fold_last: "xs \<noteq> [] \<Longrightarrow> (\<And>x s. P (f x s)) \<Longrightarrow> P (fold f xs s)"
  by (cases xs rule: rev_cases) simp_all

lemma lidar_range: "rands \<noteq> [] \<Longrightarrow> sensor_run lidar_step rands n \<in> {500..<2000}"
  unfolding sensor_run_def by (rule fold_last) (simp_all add: lidar_step_def)

lemma radar_range:
  assumes "rands \<noteq> []"
  shows "5 \<le> fst (sensor_run radar_step rands s) \<and> fst (sensor_run radar_step rands s) \<le> 204
     \<and> - 15 \<le> snd (sensor_run radar_step rands s) \<and> snd (sensor_run radar_step rands s) \<le> 29 / 2"
proof -
  have "5 \<le> fst (radar_step r s) \<and> fst (radar_step r s) \<le> 204 \<and> - 15 \<le> snd (radar_step r s) \<and> snd (radar_step r s) \<le> 29 / 2"
    for r s
  proof -
    have "fst r mod 200 \<le> 199" "0 \<le> snd r mod 60" "snd r mod 60 \<le> 59" by simp_all
    then have "of_int (fst r mod 200) \<le> (199 :: rat)" "(0 :: rat) \<le> of_int (snd r mod 60)" "of_int (snd r mod 60) \<le> (59 :: rat)"
      by linarith+
    then show ?thesis by (simp add: radar_step_def field_simps)
  qed
  then show ?thesis unfolding sensor_run_def
    using assms fold_last [of "take 5 rands" "\<lambda>s. 5 \<le> fst s \<and> fst s \<le> 204 \<and> - 15 \<le> snd s \<and> snd s \<le> 29 / 2" radar_step s]
    by simp
qed

subsection \<open>Real-time priorities\<close>

definition MAIN_THREAD_PRIORITY :: int where "MAIN_THREAD_PRIORITY = 98"
definition SERVICE_THREAD_PRIORITY :: int where "SERVICE_THREAD_PRIORITY = 99"

text \<open>
  \<open>low\<close> and \<open>high\<close> are the answers of \<open>sched_get_priority_min\<close> and \<open>_max\<close>, \<open>accepts\<close> tells whether
  \<open>sched_setscheduler\<close> takes a priority; the priority set is the second result.
\<close>

definition set_current_thread_fifo :: "int \<Rightarrow> int \<Rightarrow> (int \<Rightarrow> bool) \<Rightarrow> int \<Rightarrow> bool \<times> int option" where
  "set_current_thread_fifo low high accepts priority0 =
     (if low < 0 \<or> high < 0 then (False, None)
      else let priority = (if priority0 < low then low else if priority0 > high then high else priority0)
           in if \<not> accepts priority then (False, None) else (True, Some priority))"

definition set_main_thread_priority :: "int \<Rightarrow> int \<Rightarrow> (int \<Rightarrow> bool) \<Rightarrow> bool \<times> int option" where
  "set_main_thread_priority low high accepts = set_current_thread_fifo low high accepts MAIN_THREAD_PRIORITY"

definition set_service_thread_priority :: "int \<Rightarrow> int \<Rightarrow> (int \<Rightarrow> bool) \<Rightarrow> bool \<times> int option" where
  "set_service_thread_priority low high accepts = set_current_thread_fifo low high accepts SERVICE_THREAD_PRIORITY"

text \<open>A priority that is set lies in the system's range, and a service thread never runs below a
  main thread.\<close>

lemma priority_in_range:
  "low \<le> high \<Longrightarrow> set_current_thread_fifo low high accepts p = (True, Some q) \<Longrightarrow> low \<le> q \<and> q \<le> high"
  by (auto simp: set_current_thread_fifo_def Let_def split: if_splits)

lemma service_above_main:
  "low \<le> high \<Longrightarrow> set_main_thread_priority low high accepts = (True, Some p) \<Longrightarrow>
     set_service_thread_priority low high accepts = (True, Some q) \<Longrightarrow> p \<le> q"
  by (auto simp: set_main_thread_priority_def set_service_thread_priority_def set_current_thread_fifo_def Let_def
      MAIN_THREAD_PRIORITY_def SERVICE_THREAD_PRIORITY_def split: if_splits)

end
