(* ===== verification/Vehicle.thy ===== *)
theory Vehicle
  imports Endpoint
begin

section \<open>The processes of a vehicle\<close>

text \<open>
  \<open>src/application/vehicle.cpp\<close>, \<open>gateway.cpp\<close> and \<open>components/component.h\<close>: the gateway process
  creates the shared memory, forks one process per component, starts the protocol, waits for
  every child and removes the shared memory. What \<open>fork\<close> and \<open>waitpid\<close> answer are arguments; the
  calls that matter outside the process are a trace.
\<close>

subsection \<open>Components\<close>

record component =
  cp_id :: string
  cp_logical_port :: u16
  cp_subscribes :: bool

record 'p gateway =
  gw_context :: ipc_context
  gw_master :: bool
  gw_protocol :: "'p option"

record 'p vehicle =
  vh_components :: "(component \<times> u16) list"
  vh_gateway :: "'p gateway"
  vh_master :: bool

definition gateway_new :: "'p gateway" where
  "gateway_new = \<lparr>gw_context = \<lparr>shmid = -1, semid = -1\<rparr>, gw_master = False, gw_protocol = None\<rparr>"

definition vehicle_new :: "bool \<Rightarrow> 'p vehicle" where
  "vehicle_new master = \<lparr>vh_components = [], vh_gateway = gateway_new, vh_master = master\<rparr>"

definition add_component_port :: "component \<Rightarrow> u16 \<Rightarrow> 'p vehicle \<Rightarrow> 'p vehicle" where
  "add_component_port c port v = v\<lparr>vh_components := vh_components v @ [(c, port)]\<rparr>"

definition add_component :: "component \<Rightarrow> 'p vehicle \<Rightarrow> 'p vehicle" where
  "add_component c v = add_component_port c (cp_logical_port c) v"

text \<open>\<open>init\<close> is the component's own \<open>initialize\<close>.\<close>

definition vehicle_initialize :: "(component \<Rightarrow> component) \<Rightarrow> 'p vehicle \<Rightarrow> 'p vehicle" where
  "vehicle_initialize init v =
     v\<lparr>vh_gateway := (vh_gateway v)\<lparr>gw_master := vh_master v\<rparr>,
       vh_components := map (\<lambda>cp. (init (fst cp), snd cp)) (vh_components v)\<rparr>"

definition component_ports :: "'p vehicle \<Rightarrow> u16 list" where
  "component_ports v = map snd (vh_components v)"

subsection \<open>The protocol of a process\<close>

text \<open>
  \<open>Vehicle_Protocol()\<close> after \<open>SharedMemoryEngine::configure(conf)\<close>: the bus NIC always, the socket
  NIC in the gateway process only. \<open>bufs\<close> and \<open>bufs'\<close> are the uninitialised buffers of the two,
  \<open>mac\<close> the address of the socket NIC. \<open>obs\<close> is the static list of observers.
\<close>

definition new_protocol ::
  "bool \<Rightarrow> 'r \<Rightarrow> buffer list \<Rightarrow> buffer list \<Rightarrow> mac \<Rightarrow> ('g, 'n) raw_engine \<Rightarrow> ('o, u16) observers \<Rightarrow> 'x
     \<Rightarrow> configuration option \<Rightarrow> ('o, 'g, 'n, 'r, 'x) proto"
where
  "new_protocol attached ring bufs bufs' mac raw obs x conf =
     protocol_init (nic_init shm_address bufs)
       \<lparr>sp_attached = (attached \<and> conf \<noteq> None),
        sp_slot = (case conf of None \<Rightarrow> unat INVALID_SLOT | Some cf \<Rightarrow> cf_slot cf), sp_ring = ring\<rparr>
       (if is_gateway_process conf then Some (nic_init mac bufs') else None) raw obs x"

text \<open>The destructor; the static \<open>_instance\<close> keeps pointing at the dead object.\<close>

definition protocol_close :: "('o, 'g, 'n, 'r, 'x) handler" where
  "protocol_close p =
     (let p1 = disable_sync p
      in p1\<lparr>pr_shm := nic_detach () PROTO (pr_shm p1), pr_sock := None\<rparr>)"

subsection \<open>The gateway\<close>

definition gateway_configuration :: "ipc_context \<Rightarrow> configuration" where
  "gateway_configuration ctx = \<lparr>cf_context = ctx, cf_slot = unat GATEWAY_SLOT, cf_port = PORT_GATEWAY\<rparr>"

text \<open>\<open>run\<close>; \<open>build\<close> is \<open>Vehicle_Protocol()\<close> and \<open>sync\<close> is \<open>enable_sync\<close>.\<close>

definition gateway_run ::
  "(configuration option \<Rightarrow> 'p) \<Rightarrow> (bool \<Rightarrow> 'p \<Rightarrow> 'p) \<Rightarrow> 'p gateway \<Rightarrow> 'p gateway"
where
  "gateway_run build sync g =
     (if shmid (gw_context g) < 0 \<or> semid (gw_context g) < 0 then g
      else g\<lparr>gw_protocol := Some (sync (gw_master g) (build (Some (gateway_configuration (gw_context g)))))\<rparr>)"

text \<open>
  \<open>stop\<close> runs \<open>~Protocol\<close> when there is one, which joins the threads of the SPTP, of the socket
  engine and of the bus engine; \<open>joined\<close> is whether those joins end. They need not: the thread of the
  socket engine may be in \<open>write_slot\<close>, waiting for a slot behind a reader that takes no step
  (\<open>stopped_reader_blocks_writers\<close>, \<open>join_never_ends\<close>). \<open>None\<close>: \<open>stop\<close> never returns.
\<close>

definition gateway_stop :: "bool \<Rightarrow> 'p gateway \<Rightarrow> 'p gateway option" where
  "gateway_stop joined g =
     (case gw_protocol g of
        None \<Rightarrow> Some g
      | Some _ \<Rightarrow> if joined then Some (g\<lparr>gw_protocol := None\<rparr>) else None)"

subsection \<open>A component process\<close>

definition component_configuration :: "nat \<Rightarrow> ipc_context \<Rightarrow> 'p vehicle \<Rightarrow> configuration" where
  "component_configuration i ctx v =
     \<lparr>cf_context = ctx, cf_slot = unat (of_nat (i + 1) :: u16), cf_port = snd (vh_components v ! i)\<rparr>"

text \<open>What \<open>run_component_process\<close> sets up before the component's own \<open>run\<close>; it then returns 0.\<close>

definition run_component_process ::
  "(bufref, ('o, 'g, 'n, 'r, 'x) proto) channel_ops \<Rightarrow> (configuration option \<Rightarrow> ('o, 'g, 'n, 'r, 'x) proto)
     \<Rightarrow> heap \<Rightarrow> 'y \<Rightarrow> nat \<Rightarrow> ipc_context \<Rightarrow> 'p vehicle
     \<Rightarrow> ('s, bufref, ('o, 'g, 'n, 'r, 'x) proto, 'y) communicator"
where
  "run_component_process ops build h y i ctx v =
     (case vh_components v ! i of (c, port) \<Rightarrow>
        let p = build (Some (component_configuration i ctx v))
        in comm_init ops (create_address port p) (cp_subscribes c) h 0 p y)"

subsection \<open>The gateway process\<close>

datatype wait_status = Exited int | Killed int

datatype os_event =
    Forked nat int
  | Started bool
  | Stopped
  | Signalled int
  | Waited int
  | Removed ipc_id

text \<open>
  The answers of the system: \<open>fork\<close> for the i-th component; how each child ends, \<open>None\<close> if never;
  whether \<open>Gateway::run\<close> returns (\<open>engine_init\<close> waits for the mutex of the ring, which a process that
  died inside its critical section keeps); whether the joins of \<open>Gateway::stop\<close> end.
\<close>

record os_answers =
  os_ipc :: ipc_answers
  os_fork :: "nat \<Rightarrow> int"
  os_ends :: "int \<Rightarrow> wait_status option"
  os_started :: bool
  os_joined :: bool

text \<open>
  \<open>spawn_component_process\<close> in the process that sees \<open>fork\<close> return \<open>pid\<close>: the child (0) ends with
  what \<open>run\<close> of its component returns, the parent gets the pid.
\<close>

definition spawn_component_process :: "(nat \<Rightarrow> int) \<Rightarrow> int \<Rightarrow> nat \<Rightarrow> wait_status + int" where
  "spawn_component_process run pid index = (if pid = 0 then Inl (Exited (run index)) else Inr pid)"

text \<open>The loop over the components: the pids so far, whether \<open>fork\<close> failed.\<close>

primrec spawn_components :: "os_answers \<Rightarrow> nat list \<Rightarrow> int list \<Rightarrow> int list \<times> bool" where
  "spawn_components os [] pids = (pids, False)"
| "spawn_components os (i # is) pids =
     (let pid = os_fork os i in
      if pid > 0 then spawn_components os is (pids @ [pid]) else (pids, True))"

text \<open>The \<open>waitpid\<close> loop: \<open>None\<close> when a child never ends, else the status of each.\<close>

fun wait_children :: "os_answers \<Rightarrow> int list \<Rightarrow> wait_status list option" where
  "wait_children os [] = Some []"
| "wait_children os (pid # pids) =
     (case os_ends os pid of
        None \<Rightarrow> None
      | Some st \<Rightarrow> map_option ((#) st) (wait_children os pids))"

definition child_failed :: "wait_status \<Rightarrow> bool" where
  "child_failed st = (case st of Exited n \<Rightarrow> n \<noteq> 0 | Killed _ \<Rightarrow> True)"

text \<open>
  The exit code of the process with the trace of its calls; \<open>None\<close> when it waits for ever:
  for a child, for the mutex of the ring, or for a thread of its own.
\<close>

definition run_gateway_process ::
  "(configuration option \<Rightarrow> 'p) \<Rightarrow> (bool \<Rightarrow> 'p \<Rightarrow> 'p) \<Rightarrow> os_answers \<Rightarrow> 'p vehicle
     \<Rightarrow> (int \<times> os_event list \<times> 'p vehicle) option"
where
  "run_gateway_process build sync os v =
     (let ports = component_ports v in
      case create (os_ipc os) (Some ports) (length ports) of (ctx, bus, removed) \<Rightarrow>
        let tr0 = map Removed removed in
        if shmid ctx < 0 \<or> semid ctx < 0 then Some (1, tr0, v)
        else
          let v1 = v\<lparr>vh_gateway := (vh_gateway v)\<lparr>gw_context := ctx\<rparr>\<rparr> in
          case spawn_components os [0..<length (vh_components v)] [] of (pids, spawn_failed) \<Rightarrow>
            let tr1 = tr0 @ map (\<lambda>i. Forked i (pids ! i)) [0..<length pids] in
            if spawn_failed
            then (case wait_children os pids of
                    None \<Rightarrow> None
                  | Some _ \<Rightarrow> Some (1, tr1 @ map Signalled pids @ map Waited pids @ map Removed (destroy ctx), v1))
            else if \<not> os_started os then None
            else
              let v2 = v1\<lparr>vh_gateway := gateway_run build sync (vh_gateway v1)\<rparr> in
              case wait_children os pids of
                None \<Rightarrow> None
              | Some sts \<Rightarrow>
                  let failed = (\<exists>st \<in> set sts. child_failed st)
                  in (case gateway_stop (os_joined os) (vh_gateway v2) of
                        None \<Rightarrow> None
                      | Some g \<Rightarrow>
                          Some (if failed then 1 else 0,
                                tr1 @ [Started (gw_master (vh_gateway v2))] @ map Waited pids @ [Stopped]
                                  @ map Removed (destroy ctx), v2\<lparr>vh_gateway := g\<rparr>)))"

text \<open>\<open>Vehicle::run\<close>: \<open>None\<close> when the gateway process never ends; 1 is \<open>std::exit(1)\<close>.\<close>

definition vehicle_run :: "int \<Rightarrow> wait_status option \<Rightarrow> int option" where
  "vehicle_run gateway_pid gateway_status =
     (if gateway_pid < 0 then Some 1
      else case gateway_status of
        None \<Rightarrow> None
      | Some st \<Rightarrow> Some (if child_failed st then 1 else 0))"

subsection \<open>What the gateway process leaves behind\<close>

definition waited :: "os_event list \<Rightarrow> int list" where
  "waited tr = concat (map (\<lambda>e. case e of Waited p \<Rightarrow> [p] | _ \<Rightarrow> []) tr)"

definition forked :: "os_event list \<Rightarrow> int list" where
  "forked tr = concat (map (\<lambda>e. case e of Forked _ p \<Rightarrow> [p] | _ \<Rightarrow> []) tr)"

definition removals :: "os_event list \<Rightarrow> ipc_id list" where
  "removals tr = concat (map (\<lambda>e. case e of Removed x \<Rightarrow> [x] | _ \<Rightarrow> []) tr)"

lemma trace_simps [simp]:
  "waited (a @ b) = waited a @ waited b" "forked (a @ b) = forked a @ forked b"
  "removals (a @ b) = removals a @ removals b"
  "waited (map Waited ps) = ps" "waited (map Removed xs) = []" "waited (map Signalled ps) = []"
  "waited (map (\<lambda>i. Forked i (f i)) is) = []" "waited [] = []"
  "forked (map Waited ps) = []" "forked (map Removed xs) = []" "forked (map Signalled ps) = []"
  "forked (map (\<lambda>i. Forked i (f i)) is) = map f is" "forked [] = []"
  "removals (map Waited ps) = []" "removals (map Removed xs) = xs" "removals (map Signalled ps) = []"
  "removals (map (\<lambda>i. Forked i (f i)) is) = []" "removals [] = []"
  "waited (Started m # tr) = waited tr" "forked (Started m # tr) = forked tr" "removals (Started m # tr) = removals tr"
  "waited (Stopped # tr) = waited tr" "forked (Stopped # tr) = forked tr" "removals (Stopped # tr) = removals tr"
  by (simp_all add: waited_def forked_def removals_def comp_def concat_map_singleton)

lemma create_accounts:
  assumes "create a (Some ps) n = (c, bus, removed)" and "n < MAX_COMPONENTS"
  shows "set removed \<union> set (destroy c) = obtained a" "distinct (removed @ destroy c)"
  using assms by (auto simp: create_def destroy_def obtained_def Let_def split: if_splits)

lemma create_invalid:
  "create a (Some ps) n = (c, bus, removed) \<Longrightarrow> shmid c < 0 \<or> semid c < 0 \<Longrightarrow> destroy c = []"
  by (auto simp: create_def destroy_def Let_def split: if_splits)

lemma create_valid: "create a (Some ps) n = (c, Some bus, removed) \<Longrightarrow> 0 \<le> shmid c \<and> 0 \<le> semid c"
  by (auto simp: create_def Let_def split: if_splits)

lemma takeWhile_all_upt: "(\<forall>i < n. P i) \<longleftrightarrow> \<not> length (takeWhile P [0..<n]) < n"
proof -
  have "\<not> length (takeWhile P [0..<n]) < n \<longleftrightarrow> takeWhile P [0..<n] = [0..<n]"
    by (metis length_takeWhile_le length_upt minus_nat.diff_0 nat_less_le takeWhile_eq_take take_all_iff order_refl)
  then show ?thesis by (auto simp: takeWhile_eq_all_conv)
qed

lemma takeWhile_upt: "takeWhile P [0..<n] = [0..<length (takeWhile P [0..<n])]"
  using length_takeWhile_le [of P "[0..<n]"] by (subst takeWhile_eq_take) (simp add: take_upt)

lemma spawn_takeWhile:
  "spawn_components os is pids = (pids', failed) \<Longrightarrow>
     pids' = pids @ map (os_fork os) (takeWhile (\<lambda>i. 0 < os_fork os i) is)
     \<and> (failed \<longleftrightarrow> length (takeWhile (\<lambda>i. 0 < os_fork os i) is) < length is)"
proof (induction "is" arbitrary: pids)
  case (Cons i "is")
  then show ?case using Cons.IH [of "pids @ [os_fork os i]"] by (auto simp: Let_def split: if_splits)
qed simp

lemma wait_children_None: "wait_children os pids = None \<longleftrightarrow> (\<exists>p \<in> set pids. os_ends os p = None)"
  by (induction pids) (auto split: option.splits)

lemma wait_children_Some: "wait_children os pids = Some sts \<Longrightarrow> map Some sts = map (os_ends os) pids"
  by (induction pids arbitrary: sts) (auto split: option.splits)

lemma child_failed_iff: "child_failed st \<longleftrightarrow> st \<noteq> Exited 0"
  by (cases st) (auto simp: child_failed_def)

text \<open>The outcomes of the process, once the shared memory exists.\<close>

lemma gateway_process_cases:
  assumes "create (os_ipc os) (Some (component_ports v)) (length (component_ports v)) = (ctx, bus, removed)"
    and "0 \<le> shmid ctx" and "0 \<le> semid ctx"
    and "spawn_components os [0..<length (vh_components v)] [] = (pids, failed)"
  shows "run_gateway_process build sync os v =
     (case wait_children os pids of
        None \<Rightarrow> None
      | Some sts \<Rightarrow> if \<not> failed \<and> \<not> (os_started os \<and> os_joined os) then None else Some
         (if failed \<or> (\<exists>st \<in> set sts. child_failed st) then 1 else 0,
          map Removed removed @ map (\<lambda>i. Forked i (pids ! i)) [0..<length pids]
            @ (if failed then map Signalled pids @ map Waited pids
               else Started (gw_master (vh_gateway v)) # map Waited pids @ [Stopped])
            @ map Removed (destroy ctx),
          if failed then v\<lparr>vh_gateway := (vh_gateway v)\<lparr>gw_context := ctx\<rparr>\<rparr>
          else v\<lparr>vh_gateway := (vh_gateway v)\<lparr>gw_context := ctx, gw_protocol := None\<rparr>\<rparr>))"
  using assms
  by (auto simp: run_gateway_process_def Let_def gateway_run_def gateway_stop_def split: option.split)

text \<open>C19. Every child the gateway process forked is waited for, once and in order, and every segment
  and semaphore set it obtained is removed once, on every path that returns: a failed \<open>create\<close>, a
  failed \<open>fork\<close> after some children, a child that failed, and success.\<close>

theorem vehicle_cleans_up:
  assumes "run_gateway_process build sync os v = Some (code, tr, v')"
    and "length (vh_components v) < MAX_COMPONENTS"
  shows "waited tr = forked tr \<and> set (removals tr) = obtained (os_ipc os) \<and> distinct (removals tr)"
proof -
  obtain ctx bus removed where c: "create (os_ipc os) (Some (component_ports v)) (length (component_ports v)) = (ctx, bus, removed)"
    by (cases "create (os_ipc os) (Some (component_ports v)) (length (component_ports v))")
  have n: "length (component_ports v) = length (vh_components v)" by (simp add: component_ports_def)
  have leak: "set removed \<union> set (destroy ctx) = obtained (os_ipc os)" "distinct (removed @ destroy ctx)"
    using create_accounts [OF c] assms(2) n by auto
  show ?thesis
  proof (cases "shmid ctx < 0 \<or> semid ctx < 0")
    case True
    then have "tr = map Removed removed" using assms(1) c by (simp add: run_gateway_process_def Let_def)
    moreover have "destroy ctx = []" using True create_invalid [OF c] by (auto simp: destroy_def)
    ultimately show ?thesis using leak by simp
  next
    case False
    obtain pids failed where sp: "spawn_components os [0..<length (vh_components v)] [] = (pids, failed)"
      by (cases "spawn_components os [0..<length (vh_components v)] []")
    show ?thesis
      using assms(1) gateway_process_cases [OF c _ _ sp, of build sync] False leak
      by (auto split: option.splits if_splits simp: map_nth)
  qed
qed

text \<open>C20. When the shared memory could be created, the gateway process returns exactly when every child it
  forked ends and, if all were forked, \<open>Gateway::run\<close> returns and the joins of \<open>Gateway::stop\<close> end
  (which the end of the children does not ensure, \<open>join_never_ends\<close>); its exit code is then 0 exactly
  when every component was forked and every child exited with 0, and 1 otherwise.\<close>

theorem vehicle_exit_code:
  assumes "create (os_ipc os) (Some (component_ports v)) (length (component_ports v)) = (ctx, Some bus, removed)"
    and "length (vh_components v) < MAX_COMPONENTS"
    and "n = length (takeWhile (\<lambda>i. 0 < os_fork os i) [0..<length (vh_components v)])"
    and "returns = ((\<forall>i < n. os_ends os (os_fork os i) \<noteq> None)
           \<and> (n = length (vh_components v) \<longrightarrow> os_started os \<and> os_joined os))"
  shows "case run_gateway_process build sync os v of
       None \<Rightarrow> \<not> returns
     | Some (code, _, v') \<Rightarrow> returns
         \<and> (code = 0 \<longleftrightarrow> (\<forall>i < length (vh_components v). 0 < os_fork os i \<and> os_ends os (os_fork os i) = Some (Exited 0)))
         \<and> (code = 0 \<or> code = 1)
         \<and> gw_context (vh_gateway v') = ctx"
proof -
  let ?is = "[0..<length (vh_components v)]"
  have valid: "0 \<le> shmid ctx" "0 \<le> semid ctx" using create_valid [OF assms(1)] by simp_all
  obtain pids failed where sp: "spawn_components os ?is [] = (pids, failed)"
    by (cases "spawn_components os ?is []")
  have tw: "pids = map (os_fork os) [0..<n]" "failed \<longleftrightarrow> n < length (vh_components v)" "n \<le> length (vh_components v)"
    using spawn_takeWhile [OF sp] assms(3) length_takeWhile_le [of "\<lambda>i. 0 < os_fork os i" ?is]
      takeWhile_upt [of "\<lambda>i. 0 < os_fork os i" "length (vh_components v)"] by simp_all
  have pos: "(\<forall>i < length (vh_components v). 0 < os_fork os i) \<longleftrightarrow> \<not> failed"
    using tw(2) takeWhile_all_upt [of "length (vh_components v)" "\<lambda>i. 0 < os_fork os i"] assms(3) by simp
  show ?thesis
  proof (cases "wait_children os pids")
    case None
    then show ?thesis using gateway_process_cases [OF assms(1) valid sp] wait_children_None [of os pids] tw(1) assms(4) by auto
  next
    case (Some sts)
    have st: "map Some sts = map (\<lambda>i. os_ends os (os_fork os i)) [0..<n]"
      using wait_children_Some [OF Some] tw(1) by simp
    then have l: "length sts = n" by (metis length_map length_upt minus_nat.diff_0)
    have e: "os_ends os (os_fork os i) = Some (sts ! i)" if "i < n" for i
      using arg_cong [OF st, of "\<lambda>xs. xs ! i"] that l by simp
    have cf: "(\<exists>st \<in> set sts. child_failed st) \<longleftrightarrow> (\<exists>i < n. sts ! i \<noteq> Exited 0)"
      using l child_failed_iff by (metis in_set_conv_nth)
    show ?thesis
      using gateway_process_cases [OF assms(1) valid sp, of build sync] Some e cf pos tw(2,3) assms(4)
      by (auto split: if_splits)
  qed
qed

subsection \<open>What a component process can rely on\<close>

lemma component_slot:
  assumes "i + 1 < 2 ^ 16"
  shows "cf_slot (component_configuration i ctx v) = i + 1"
proof -
  have "unat (of_nat (i + 1) :: u16) = i + 1" using assms by (subst unat_of_nat) simp
  then show ?thesis unfolding component_configuration_def by (simp only: configuration.simps)
qed

text \<open>The process of the \<open>i\<close>-th component joins the bus under the slot whose table entry the gateway
  filled with that component's port: the entry is registered, it is no other component's and it
  is not the gateway's.\<close>

theorem component_slots_match:
  assumes "create a (Some (component_ports v)) (length (component_ports v)) = (ctx, Some (r, sems), removed)"
    and "i < length (vh_components v)"
  shows "cf_slot (component_configuration i ctx v) = i + 1
     \<and> i + 1 < component_count r
     \<and> c_port (components r ! (i + 1)) = cf_port (component_configuration i ctx v)
     \<and> c_slot (components r ! (i + 1)) = of_nat (i + 1)
     \<and> cf_context (component_configuration i ctx v) = ctx
     \<and> \<not> is_gateway_process (Some (component_configuration i ctx v))"
proof -
  have n: "length (component_ports v) < MAX_COMPONENTS" "r = init_region (component_ports v) (length (component_ports v))"
    using assms(1) by (auto simp: create_def Let_def split: if_splits)
  have i: "i + 1 < MAX_COMPONENTS" "i + 1 < 2 ^ 16" "i < length (component_ports v)"
    using assms(2) n(1) by (simp_all add: component_ports_def MAX_COMPONENTS_def)
  note slot = component_slot [OF i(2), of ctx v]
  have "components r ! (i + 1) = zero_component\<lparr>c_port := component_ports v ! i, c_slot := word_of_nat (i + 1)\<rparr>"
    using i n(2) by (simp add: init_region_def Let_def)
  then show ?thesis
    using i n slot assms(2)
    by (simp add: init_region_def Let_def is_gateway_process_def GATEWAY_SLOT_def component_configuration_def
        component_ports_def)
qed

text \<open>What \<open>run_component_process\<close> builds is a process that can send: its protocol has the bus NIC with
  every buffer free and no socket NIC, its slot is not the gateway's, and its communicator uses
  the port the vehicle registered for it.\<close>

theorem component_process_can_send:
  fixes E :: "('g, 'n, 'r, 'x) env" and h :: "('o, 'g, 'n, 'r, 'x) handler"
  assumes "length bufs = BUFFER_SIZE" and "\<forall>b \<in> set bufs. frame_ok (b_data b) \<and> b_size b \<le> MTU"
    and "length (vh_components v) < MAX_COMPONENTS" and "i < length (vh_components v)"
  shows "can_send (cm_channel (run_component_process (protocol_channel E h ob)
        (new_protocol True ring bufs bufs' mac raw obs x) hp y i ctx v))
     \<and> a_port (cm_address (run_component_process (protocol_channel E h ob)
        (new_protocol True ring bufs bufs' mac raw obs x) hp y i ctx v)) = component_ports v ! i"
proof -
  have i: "i + 1 < 2 ^ 16" using assms(3,4) by (simp add: MAX_COMPONENTS_def)
  note slot = component_slot [OF i, of ctx v]
  have m: "mac_ok shm_address" by (simp add: shm_address_def mac_ok_def)
  have nic: "pool_ok (nic_init shm_address bufs :: unit nic)"
    "in_use (nic_init shm_address bufs :: unit nic) = {}"
    by (rule pool_ok_init [OF m assms(1,2)])+
  have "(0::nat) \<in> {..<BUFFER_SIZE}" by (simp add: buffer_consts)
  then have ne: "in_use (nic_init shm_address bufs :: unit nic) \<noteq> {..<BUFFER_SIZE}" using nic(2) by blast
  let ?p = "new_protocol True ring bufs bufs' mac raw obs x (Some (component_configuration i ctx v)) :: ('o, 'g, 'n, 'r, 'x) proto"
  have p: "pool_ok (pr_shm ?p)" "in_use (pr_shm ?p) \<noteq> {..<BUFFER_SIZE}" "\<not> n_spatial (pr_shm ?p)"
    "pr_instance ?p" "pr_sock ?p = None" "sp_attached (pr_shm_eng ?p)" "sp_slot (pr_shm_eng ?p) = i + 1"
    using nic ne slot
    by (simp_all add: new_protocol_def protocol_init_def nic_attach_def pool_ok_def in_use_def is_gateway_process_def
        GATEWAY_SLOT_def) (simp_all add: nic_init_def)
  show ?thesis
    using p assms(4)
    by (simp add: run_component_process_def comm_init_def Let_def can_send_def protocol_channel_def protocol_attach_def
        GATEWAY_SLOT_def create_address_def component_ports_def split: prod.split)
qed

text \<open>After \<open>Gateway::run\<close> on a valid context the gateway has a protocol with clock synchronisation,
  in the master's role and under the socket NIC's address on the roadside unit; on an invalid
  context nothing is started; and in a component process \<open>enable_sync\<close> starts nothing.\<close>

theorem gateway_run_starts_sync:
  fixes E :: "('g, 'n, 'r, 'x) env" and h :: "('o, 'g, 'n, 'r, 'x) handler" and g :: "('o, 'g, 'n, 'r, 'x) proto gateway"
  assumes "build = new_protocol True ring bufs bufs' mac raw obs x"
    and "sync = enable_sync E h set_fixed silence steady early"
  shows "(case gw_protocol (gateway_run build sync g) of
        None \<Rightarrow> gw_protocol g = None \<and> (shmid (gw_context g) < 0 \<or> semid (gw_context g) < 0)
      | Some p \<Rightarrow> gw_protocol g = Some p \<and> (shmid (gw_context g) < 0 \<or> semid (gw_context g) < 0)
          \<or> (\<exists>s. pr_sptp p = Some s \<and> (gw_master g \<longrightarrow> s_is_master s \<and> a_paddr (s_own_addr s) = mac)))
     \<and> (cf_slot cf \<noteq> unat GATEWAY_SLOT \<longrightarrow> sync m (build (Some cf)) = build (Some cf))"
proof -
  have "\<exists>s. pr_sptp (sync m (build (Some (gateway_configuration c)))) = Some s
      \<and> (m \<longrightarrow> s_is_master s \<and> a_paddr (s_own_addr s) = mac)" for m c
    by (auto simp: assms enable_sync_def new_protocol_def protocol_init_def is_gateway_process_def sptp_start_def
        gateway_configuration_def Let_def setup_quadrant_def nic_attach_def nic_init_def sptp_init_def split: prod.split)
  moreover have "cf_slot cf \<noteq> unat GATEWAY_SLOT \<longrightarrow> sync m (build (Some cf)) = build (Some cf)"
    by (simp add: assms enable_sync_def new_protocol_def protocol_init_def is_gateway_process_def)
  ultimately show ?thesis by (auto simp: gateway_run_def split: option.split)
qed

subsection \<open>A vehicle with two components\<close>

definition demo_vehicle :: "unit vehicle" where
  "demo_vehicle = add_component \<lparr>cp_id = ''lidar'', cp_logical_port = PORT_LIDAR_SENSOR, cp_subscribes = True\<rparr>
     (add_component_port \<lparr>cp_id = ''brake'', cp_logical_port = PORT_BRAKING_ACTUATOR, cp_subscribes = False\<rparr> 9
       (vehicle_new False))"

definition demo_answers :: os_answers where
  "demo_answers = \<lparr>os_ipc = \<lparr>a_shmget = 7, a_semget = 9, a_shmat = True, a_setall = True\<rparr>,
     os_fork = (\<lambda>i. if i = 1 then -1 else 100), os_ends = (\<lambda>_. Some (Killed 15)),
     os_started = True, os_joined = True\<rparr>"

lemma demo_vehicle_components:
  "length (vh_components demo_vehicle) = 2" "component_ports demo_vehicle = [9, PORT_LIDAR_SENSOR]"
  by (simp_all add: demo_vehicle_def add_component_def add_component_port_def vehicle_new_def component_ports_def)

lemma demo_create:
  "\<exists>r sems. create (os_ipc demo_answers) (Some (component_ports demo_vehicle)) (length (component_ports demo_vehicle))
     = (\<lparr>shmid = 7, semid = 9\<rparr>, Some (r, sems), [])"
  by (simp add: create_def demo_answers_def demo_vehicle_components MAX_COMPONENTS_def Let_def)

lemma demo_gateway_process:
  "\<exists>v'. run_gateway_process (\<lambda>_. ()) (\<lambda>_ p. p) demo_answers demo_vehicle
     = Some (1, [Forked 0 100, Signalled 100, Waited 100, Removed (Sem 9), Removed (Shm 7)], v')"
proof -
  obtain r sems where c: "create (os_ipc demo_answers) (Some (component_ports demo_vehicle))
      (length (component_ports demo_vehicle)) = (\<lparr>shmid = 7, semid = 9\<rparr>, Some (r, sems), [])"
    using demo_create by blast
  have s: "spawn_components demo_answers [0..<length (vh_components demo_vehicle)] [] = ([100], True)"
    by (simp add: demo_vehicle_components upt_rec demo_answers_def)
  show ?thesis
    using gateway_process_cases [OF c _ _ s, of "\<lambda>_. ()" "\<lambda>_ p. p"]
    by (simp add: demo_answers_def destroy_def)
qed

lemma vehicle_cleans_up_witness:
  "set (removals [Forked 0 100, Signalled 100, Waited 100, Removed (Sem 9), Removed (Shm 7)])
     = obtained (os_ipc demo_answers)"
proof -
  obtain v' where "run_gateway_process (\<lambda>_. ()) (\<lambda>_ p. p) demo_answers demo_vehicle
     = Some (1, [Forked 0 100, Signalled 100, Waited 100, Removed (Sem 9), Removed (Shm 7)], v')"
    using demo_gateway_process by blast
  from vehicle_cleans_up [OF this] show ?thesis by (simp add: demo_vehicle_components MAX_COMPONENTS_def)
qed

lemma vehicle_exit_code_witness:
  "run_gateway_process (\<lambda>_. ()) (\<lambda>_ p. p) demo_answers demo_vehicle \<noteq> None"
proof -
  obtain r sems where c: "create (os_ipc demo_answers) (Some (component_ports demo_vehicle))
      (length (component_ports demo_vehicle)) = (\<lparr>shmid = 7, semid = 9\<rparr>, Some (r, sems), [])"
    using demo_create by blast
  have n: "length (vh_components demo_vehicle) < MAX_COMPONENTS"
    by (simp add: demo_vehicle_components MAX_COMPONENTS_def)
  have "os_ends demo_answers p = Some (Killed 15)" for p by (simp add: demo_answers_def)
  then show ?thesis
    using vehicle_exit_code [OF c n refl refl, of "\<lambda>_. ()" "\<lambda>_ p. p"] by (auto simp: demo_answers_def split: option.splits)
qed

lemma component_slots_match_witness:
  "\<exists>ctx (r :: region). c_port (components r ! 2) = PORT_LIDAR_SENSOR \<and> 2 < component_count r
     \<and> cf_slot (component_configuration 1 ctx demo_vehicle) = 2"
proof -
  obtain r sems where c: "create (os_ipc demo_answers) (Some (component_ports demo_vehicle))
      (length (component_ports demo_vehicle)) = (\<lparr>shmid = 7, semid = 9\<rparr>, Some (r, sems), [])"
    using demo_create by blast
  have "cf_port (component_configuration 1 ctx demo_vehicle) = PORT_LIDAR_SENSOR" for ctx
    by (simp add: component_configuration_def demo_vehicle_def add_component_def add_component_port_def vehicle_new_def)
  then show ?thesis
    using component_slots_match [OF c, of 1]
    by (simp add: demo_vehicle_components numeral_2_eq_2) blast
qed

lemma component_process_can_send_witness:
  "can_send (cm_channel (run_component_process (protocol_channel demo_env (\<lambda>p. p) 0)
     (new_protocol True [] blank_buffers blank_buffers demo_mac \<lparr>r_sockfd = -1, r_ifindex = 0, r_gps = 0, r_net = []\<rparr> [] 0)
     \<lparr>h_cells = [], h_deleted = []\<rparr> () 1 \<lparr>shmid = 7, semid = 9\<rparr> demo_vehicle))"
  by (rule component_process_can_send [THEN conjunct1])
     (simp_all add: blank_buffers_def frame_ok_def demo_vehicle_components MAX_COMPONENTS_def)

lemma gateway_run_starts_sync_witness:
  "(enable_sync demo_env (\<lambda>p. p) (\<lambda>_ g. g) None 0 0) m
     (new_protocol True [] blank_buffers blank_buffers demo_mac \<lparr>r_sockfd = -1, r_ifindex = 0, r_gps = 0, r_net = []\<rparr> [] 0
        (Some \<lparr>cf_context = \<lparr>shmid = 7, semid = 9\<rparr>, cf_slot = 1, cf_port = 9\<rparr>))
   = new_protocol True [] blank_buffers blank_buffers demo_mac \<lparr>r_sockfd = -1, r_ifindex = 0, r_gps = 0, r_net = []\<rparr> []
        (0 :: nat) (Some \<lparr>cf_context = \<lparr>shmid = 7, semid = 9\<rparr>, cf_slot = 1, cf_port = 9\<rparr>)"
  by (rule gateway_run_starts_sync [OF refl refl, THEN conjunct2, rule_format]) (simp add: GATEWAY_SLOT_def)

end
