(* ===== verification/Component_Objects.thy ===== *)
theory Component_Objects
  imports Components Vehicle
begin

section \<open>The component classes\<close>

text \<open>
  The class hierarchy of \<open>src/application/components\<close>: \<open>Component\<close> with its constructor and setters,
  \<open>Sensor\<close> and \<open>Actuator\<close>, and the six classes of devices. Inheritance is extension of records;
  \<open>'c\<close> is the communicator. \<open>Components\<close> has what the devices compute, \<open>Vehicle\<close> the
  processes; here, the objects that the two share.
\<close>

subsection \<open>Base classes\<close>

record 'c device =
  dv_id :: string
  dv_port :: u16
  dv_communicator :: "'c option"

record 'c sensor = "'c device" +
  sn_interval_ms :: u32

record 'c lidar = "'c sensor" +
  ld_point_count :: int

record 'c radar = "'c sensor" +
  rd_reading :: "rat \<times> rat"

record 'c gps_device = "'c sensor" +
  gd_position :: "rat \<times> rat"

record 'c braking = "'c device" +
  bk_actuator :: braking_actuator

record 'c powertrain = "'c device" +
  pw_actuator :: powertrain_actuator

record 'c steering = "'c device" +
  st_actuator :: steering_actuator

definition component_new :: "string \<Rightarrow> 'c device" where
  "component_new i = \<lparr>dv_id = i, dv_port = 0, dv_communicator = None\<rparr>"

definition component_id :: "('c, 'z) device_scheme \<Rightarrow> string" where
  "component_id d = dv_id d"

definition set_communicator :: "'c option \<Rightarrow> ('c, 'z) device_scheme \<Rightarrow> ('c, 'z) device_scheme" where
  "set_communicator c d = d\<lparr>dv_communicator := c\<rparr>"

definition set_port :: "u16 \<Rightarrow> ('c, 'z) device_scheme \<Rightarrow> ('c, 'z) device_scheme" where
  "set_port p d = d\<lparr>dv_port := p\<rparr>"

definition subscribe_logical_broadcast :: "('c, 'z) device_scheme \<Rightarrow> bool" where
  "subscribe_logical_broadcast d = True"

definition sensor_new :: "string \<Rightarrow> u32 \<Rightarrow> 'c sensor" where
  "sensor_new i interval = device.extend (component_new i) (sensor.fields interval)"

definition actuator_new :: "string \<Rightarrow> 'c device" where
  "actuator_new i = component_new i"

subsection \<open>Devices: construction\<close>

text \<open>The default intervals are those of the headers.\<close>

definition LIDAR_INTERVAL_MS :: u32 where "LIDAR_INTERVAL_MS = 100"
definition RADAR_INTERVAL_MS :: u32 where "RADAR_INTERVAL_MS = 200"
definition GPS_INTERVAL_MS :: u32 where "GPS_INTERVAL_MS = 1000"

definition lidar_new :: "string \<Rightarrow> u32 \<Rightarrow> 'c lidar" where
  "lidar_new i interval = sensor.extend (sensor_new i interval) (lidar.fields 0)"

definition radar_new :: "string \<Rightarrow> u32 \<Rightarrow> 'c radar" where
  "radar_new i interval = sensor.extend (sensor_new i interval) (radar.fields (0, 0))"

definition gps_device_new :: "string \<Rightarrow> u32 \<Rightarrow> 'c gps_device" where
  "gps_device_new i interval = sensor.extend (sensor_new i interval) (gps_device.fields (0, 0))"

definition braking_new :: "string \<Rightarrow> 'c braking" where
  "braking_new i = device.extend (actuator_new i) (braking.fields \<lparr>pressure_bar = Finite 0\<rparr>)"

definition powertrain_new :: "string \<Rightarrow> 'c powertrain" where
  "powertrain_new i = device.extend (actuator_new i) (powertrain.fields \<lparr>power_kw = Finite 0\<rparr>)"

definition steering_new :: "string \<Rightarrow> 'c steering" where
  "steering_new i = device.extend (actuator_new i) (steering.fields \<lparr>angle_deg = Finite 0\<rparr>)"

subsection \<open>Devices: initialize, run and logical port\<close>

definition lidar_initialize :: "'c lidar \<Rightarrow> 'c lidar" where
  "lidar_initialize d = d\<lparr>ld_point_count := 0\<rparr>"

definition radar_initialize :: "'c radar \<Rightarrow> 'c radar" where
  "radar_initialize d = d\<lparr>rd_reading := (0, 0)\<rparr>"

definition gps_device_initialize :: "'c gps_device \<Rightarrow> 'c gps_device" where
  "gps_device_initialize d = d\<lparr>gd_position := gps_start\<rparr>"

text \<open>\<open>rands\<close> are the values of successive calls of \<open>rand\<close>, or pairs of them.\<close>

definition lidar_run :: "int list \<Rightarrow> 'c lidar \<Rightarrow> 'c lidar" where
  "lidar_run rands d = d\<lparr>ld_point_count := sensor_run lidar_step rands (ld_point_count d)\<rparr>"

definition radar_run :: "(int \<times> int) list \<Rightarrow> 'c radar \<Rightarrow> 'c radar" where
  "radar_run rands d = d\<lparr>rd_reading := sensor_run radar_step rands (rd_reading d)\<rparr>"

definition gps_device_run :: "(int \<times> int) list \<Rightarrow> 'c gps_device \<Rightarrow> 'c gps_device" where
  "gps_device_run rands d = d\<lparr>gd_position := sensor_run gps_step rands (gd_position d)\<rparr>"

text \<open>The actuators give the processor away five times.\<close>

primrec yields :: "nat \<Rightarrow> 's \<Rightarrow> 's" where
  "yields 0 s = s"
| "yields (Suc n) s = yields n s"

definition braking_run :: "'c braking \<Rightarrow> 'c braking" where "braking_run d = yields 5 d"
definition powertrain_run :: "'c powertrain \<Rightarrow> 'c powertrain" where "powertrain_run d = yields 5 d"
definition steering_run :: "'c steering \<Rightarrow> 'c steering" where "steering_run d = yields 5 d"

definition radar_port :: u16 where "radar_port = logical_port Radar_Sensor"
definition gps_device_port :: u16 where "gps_device_port = logical_port GPS_Sensor"
definition braking_port :: u16 where "braking_port = logical_port Braking_Actuator"
definition powertrain_port :: u16 where "powertrain_port = logical_port Powertrain_Actuator"
definition steering_port :: u16 where "steering_port = logical_port Steering_Actuator"
definition gateway_port :: u16 where "gateway_port = PORT_GATEWAY"

lemmas device_defs = component_new_def sensor_new_def actuator_new_def lidar_new_def radar_new_def gps_device_new_def
  braking_new_def powertrain_new_def steering_new_def lidar_initialize_def radar_initialize_def gps_device_initialize_def
  lidar_run_def radar_run_def gps_device_run_def braking_run_def powertrain_run_def steering_run_def
  device.defs sensor.defs lidar.defs radar.defs gps_device.defs braking.defs powertrain.defs steering.defs

lemma yields_same [simp]: "yields n s = s"
  by (induction n) simp_all

subsection \<open>The objects in a vehicle\<close>

text \<open>What a vehicle sees of an object: \<open>component\<close> of \<open>Vehicle\<close>.\<close>

definition seen_as :: "u16 \<Rightarrow> ('c, 'z) device_scheme \<Rightarrow> component" where
  "seen_as p d = \<lparr>cp_id = component_id d, cp_logical_port = p, cp_subscribes = subscribe_logical_broadcast d\<rparr>"

text \<open>\<open>run_component_process\<close> before \<open>run\<close>.\<close>

definition hand_over :: "'c \<Rightarrow> u16 \<Rightarrow> ('c, 'z) device_scheme \<Rightarrow> ('c, 'z) device_scheme" where
  "hand_over c p d = set_port p (set_communicator (Some c) d)"

lemma operations_keep_component:
  "seen_as p (lidar_initialize l) = seen_as p l" "seen_as p (lidar_run rs l) = seen_as p l"
  "seen_as p (radar_initialize r) = seen_as p r" "seen_as p (radar_run rs' r) = seen_as p r"
  "seen_as p (gps_device_initialize g) = seen_as p g" "seen_as p (gps_device_run rs' g) = seen_as p g"
  "seen_as p (braking_run b) = seen_as p b" "seen_as p (hand_over c q d) = seen_as p d"
  by (simp_all add: seen_as_def component_id_def subscribe_logical_broadcast_def hand_over_def set_port_def set_communicator_def device_defs)

text \<open>A process that starts its device hands it the communicator and its port before \<open>run\<close>, and
  \<open>run\<close> leaves both alone.\<close>

lemma run_keeps_hand_over:
  "dv_communicator (lidar_run rs (hand_over c p l)) = Some c \<and> dv_port (lidar_run rs (hand_over c p l)) = p"
  "dv_communicator (radar_run rs' (hand_over c p r)) = Some c \<and> dv_port (radar_run rs' (hand_over c p r)) = p"
  "dv_communicator (gps_device_run rs' (hand_over c p g)) = Some c \<and> dv_port (gps_device_run rs' (hand_over c p g)) = p"
  by (simp_all add: hand_over_def set_port_def set_communicator_def device_defs)

text \<open>A lidar that ran shows between 500 and 1999 points, whatever it showed before.\<close>

lemma lidar_run_range: "rands \<noteq> [] \<Longrightarrow> ld_point_count (lidar_run rands d) \<in> {500..<2000}"
  using lidar_range by (simp add: lidar_run_def)

text \<open>A vehicle with one device of each class has six different ports, none of them the gateway's or
  the broadcast port.\<close>

definition full_vehicle :: "bool \<Rightarrow> 'p vehicle" where
  "full_vehicle master =
     fold add_component
       [seen_as gps_device_port (gps_device_new ''gps'' GPS_INTERVAL_MS :: unit gps_device),
        seen_as (logical_port Lidar_Sensor) (lidar_new ''lidar'' LIDAR_INTERVAL_MS :: unit lidar),
        seen_as radar_port (radar_new ''radar'' RADAR_INTERVAL_MS :: unit radar),
        seen_as braking_port (braking_new ''braking'' :: unit braking),
        seen_as powertrain_port (powertrain_new ''powertrain'' :: unit powertrain),
        seen_as steering_port (steering_new ''steering'' :: unit steering)]
       (vehicle_new master)"

lemma full_vehicle_ports:
  "distinct (component_ports (full_vehicle master)) \<and> gateway_port \<notin> set (component_ports (full_vehicle master))
   \<and> PORT_BROADCAST \<notin> set (component_ports (full_vehicle master)) \<and> length (component_ports (full_vehicle master)) = 6"
  using logical_ports_distinct(2,3)
  by (simp add: full_vehicle_def component_ports_def add_component_def add_component_port_def vehicle_new_def seen_as_def
      radar_port_def gps_device_port_def braking_port_def powertrain_port_def steering_port_def gateway_port_def port_defs)

subsection \<open>The end of a vehicle\<close>

text \<open>\<open>~Vehicle\<close> deletes the first of every pair; the objects are named by their addresses.\<close>

definition vehicle_deletes :: "(nat \<times> u16) list \<Rightarrow> nat list" where
  "vehicle_deletes cs = map fst cs"

text \<open>Every object is deleted as often as it was added: an object added under two ports is
  deleted twice.\<close>

lemma vehicle_deletes_count:
  "count_list (vehicle_deletes cs) x = length (filter (\<lambda>c. fst c = x) cs)"
  "distinct (map fst cs) \<Longrightarrow> x \<in> set (map fst cs) \<Longrightarrow> count_list (vehicle_deletes cs) x = 1"
  "count_list (vehicle_deletes [(x, p), (x, q)]) x = 2"
proof -
  show "count_list (vehicle_deletes cs) x = length (filter (\<lambda>c. fst c = x) cs)"
    by (induction cs) (auto simp: vehicle_deletes_def)
  show "count_list (vehicle_deletes cs) x = 1" if "distinct (map fst cs)" "x \<in> set (map fst cs)"
    using that unfolding vehicle_deletes_def by (induction cs) (auto simp: count_notin)
qed (simp add: vehicle_deletes_def)

subsection \<open>The gateway as a component\<close>

definition gateway_set_context :: "ipc_context \<Rightarrow> 'p gateway \<Rightarrow> 'p gateway" where
  "gateway_set_context ctx g = g\<lparr>gw_context := ctx\<rparr>"

definition gateway_set_master :: "bool \<Rightarrow> 'p gateway \<Rightarrow> 'p gateway" where
  "gateway_set_master master g = g\<lparr>gw_master := master\<rparr>"

definition gateway_initialize :: "'p gateway \<Rightarrow> 'p gateway" where
  "gateway_initialize g = g"

definition gateway_close :: "bool \<Rightarrow> 'p gateway \<Rightarrow> 'p gateway option" where
  "gateway_close joined g = gateway_stop joined g"

definition vehicle_initialize_gateway :: "bool \<Rightarrow> 'p gateway \<Rightarrow> 'p gateway" where
  "vehicle_initialize_gateway master g = gateway_initialize (gateway_set_master master g)"

lemma vehicle_initialize_uses:
  "vh_gateway (vehicle_initialize init v) = vehicle_initialize_gateway (vh_master v) (vh_gateway v)"
  by (simp add: vehicle_initialize_def vehicle_initialize_gateway_def gateway_initialize_def gateway_set_master_def)

text \<open>A gateway whose context was set runs, and its destructor, if it returns, leaves it without a protocol.\<close>

lemma gateway_life:
  assumes "0 \<le> shmid ctx" "0 \<le> semid ctx"
  shows "gw_protocol (gateway_run build sync (gateway_set_context ctx gateway_new)) \<noteq> None"
    and "gw_protocol (gateway_run build sync gateway_new) = None"
    and "gateway_close joined g = (if gw_protocol g \<noteq> None \<and> \<not> joined then None else Some (g\<lparr>gw_protocol := None\<rparr>))"
  using assms
  by (auto simp: gateway_run_def gateway_set_context_def gateway_new_def gateway_close_def gateway_stop_def split: option.split)

subsection \<open>The configuration of the bus\<close>

text \<open>The static \<open>_configuration\<close> of \<open>SharedMemoryEngine\<close> with its ready flag, as the processes of a
  vehicle set it before they build their protocol.\<close>

definition shm_configure :: "configuration \<Rightarrow> configuration option \<Rightarrow> configuration option" where
  "shm_configure cf old = Some cf"

definition shm_clear_configuration :: "configuration option \<Rightarrow> configuration option" where
  "shm_clear_configuration old = None"

text \<open>Only the gateway process opens a socket: it alone registers slot 0, as long as a vehicle has
  fewer than 65535 components.\<close>

lemma only_gateway_is_gateway:
  "is_gateway_process (shm_configure (gateway_configuration ctx) old)"
  "i < 65535 \<Longrightarrow> \<not> is_gateway_process (shm_configure (component_configuration i ctx v) old)"
  "\<not> is_gateway_process (shm_clear_configuration old)"
proof -
  show "\<not> is_gateway_process (shm_configure (component_configuration i ctx v) old)" if "i < 65535"
  proof -
    have "unat (of_nat (i + 1) :: u16) = i + 1" using that by (simp only: unat_of_nat) simp
    then show ?thesis by (simp add: is_gateway_process_def shm_configure_def component_configuration_def GATEWAY_SLOT_def)
  qed
qed (simp_all add: is_gateway_process_def shm_configure_def gateway_configuration_def shm_clear_configuration_def)

end
