(* ===== verification/Node.thy ===== *)
theory Node
  imports Vehicle
begin

section \<open>A process over its lifetime\<close>

text \<open>
  The two NICs, the protocol and its observers put together: a frame an engine hands to its NIC
  (\<open>src/network/nic.h\<close>, the handler of the constructor) goes through \<open>Protocol::update\<close>
  (\<open>src/channel/protocol.h\<close>), and a process is a sequence of such arrivals and of sends. No
  sequence uses up or duplicates a buffer.
\<close>

subsection \<open>Frames that arrive\<close>

text \<open>What the bus engine's reader does with a slot it read, and the socket engine's with a frame.\<close>

definition bus_receive ::
  "('g, 'n, 'r, 'x) env \<Rightarrow> ('o, 'g, 'n, 'r, 'x) handler
     \<Rightarrow> ('o \<Rightarrow> u16 \<Rightarrow> bufref \<Rightarrow> ('o, 'g, 'n, 'r, 'x) handler) \<Rightarrow> u8 list \<Rightarrow> ('o, 'g, 'n, 'r, 'x) handler"
where
  "bus_receive E h upd data p =
     (case nic_on_receive (bus_ops E)
             (\<lambda>_ prot i w. let p' = protocol_update E h upd (ShmBuf i) ((snd w)\<lparr>pr_shm := fst w\<rparr>)
                           in (pr_shm p', p'))
             data (pr_shm p, p) of
        (n, p') \<Rightarrow> p'\<lparr>pr_shm := n\<rparr>)"

definition sock_receive ::
  "('g, 'n, 'r, 'x) env \<Rightarrow> ('o, 'g, 'n, 'r, 'x) handler
     \<Rightarrow> ('o \<Rightarrow> u16 \<Rightarrow> bufref \<Rightarrow> ('o, 'g, 'n, 'r, 'x) handler) \<Rightarrow> u8 list \<Rightarrow> ('o, 'g, 'n, 'r, 'x) handler"
where
  "sock_receive E h upd data p =
     (case pr_sock p of
        None \<Rightarrow> p
      | Some n \<Rightarrow>
          (case nic_on_receive (sock_ops E)
                  (\<lambda>_ prot i w. let p' = protocol_update E h upd (SockBuf i) ((snd w)\<lparr>pr_sock := Some (fst w)\<rparr>)
                                in (case pr_sock p' of Some n' \<Rightarrow> n' | None \<Rightarrow> fst w, p'))
                  data (n, p) of
             (n', p') \<Rightarrow> p'\<lparr>pr_sock := Some n'\<rparr>))"

text \<open>The NIC's part: nothing is delivered, or one buffer, not in use before, with the frame in it.\<close>

lemma nic_receive_split:
  assumes pool: "pool_ok n"
  shows "\<exists>n' e'. (e' = e \<or> (\<exists>f m q. e' = snd (eng_should_drop ops f m q e)))
     \<and> pool_ok n' \<and> n_observers n' = n_observers n
     \<and> (in_use n' = in_use n \<and> nic_on_receive ops update data (n, e) = (n', e')
        \<or> (\<exists>i prot. i \<notin> in_use n \<and> in_use n' = insert i (in_use n) \<and> HEADER_SIZE \<le> length data
             \<and> frame_src (b_data (n_buffers n' ! i)) = frame_src data
             \<and> nic_on_receive ops update data (n, e) = nic_notify update prot i (n', e')))"
proof -
  obtain r n1 where ab: "alloc_buf n = (r, n1)" by (cases "alloc_buf n")
  show ?thesis
  proof (cases r)
    case None
    then have "n1 = n" using ab by (auto simp: alloc_buf_def split: list.splits)
    then show ?thesis using None ab pool by (intro exI [of _ n] exI [of _ e]) (simp add: nic_on_receive_def)
  next
    case (Some i)
    let ?sz = "min (length data) FRAME_SIZE"
    let ?n2 = "upd_buffer i (\<lambda>b. b\<lparr>b_data := memcpy_at 0 (take ?sz data) (b_data b)\<rparr>) n1"
    let ?f = "b_data (n_buffers ?n2 ! i)"
    let ?n3 = "upd_buffer i (\<lambda>b. b\<lparr>b_size := ?sz - HEADER_SIZE\<rparr>) (count_rx ?sz ?n2)"
    have n2: "pool_ok ?n2" "in_use ?n2 = insert i (in_use n)" "i \<notin> in_use n" "i < BUFFER_SIZE"
      "n_observers ?n2 = n_observers n" "?f = memcpy_at 0 (take ?sz data) (b_data (n_buffers n ! i))"
      by (rule received_buffer [OF pool ab [unfolded Some]])+
    have fr: "frame_ok (b_data (n_buffers n ! i))" using pool_buffer [OF pool n2(4)] by simp
    obtain d e1 where d: "eng_should_drop ops ?f (n_address ?n2) (read_quadrant ?n2 (payload ?f)) e = (d, e1)"
      by (cases "eng_should_drop ops ?f (n_address ?n2) (read_quadrant ?n2 (payload ?f)) e")
    have e1: "e1 = snd (eng_should_drop ops ?f (n_address ?n2) (read_quadrant ?n2 (payload ?f)) e)" using d by simp
    have "pool_ok (count_rx ?sz ?n2)" using n2(1) by simp
    then have n3: "pool_ok ?n3" using n2(4)
      by (rule pool_ok_upd) (auto simp: frame_consts)
    have src: "frame_src (b_data (n_buffers ?n3 ! i)) = frame_src data" if "HEADER_SIZE \<le> length data"
    proof -
      have "i < length (n_buffers (count_rx ?sz ?n2))" using n2(1,4) by (simp add: pool_ok_def)
      then have "b_data (n_buffers ?n3 ! i) = ?f" by (simp add: upd_buffer_def)
      then show ?thesis using that fr n2(6)
        by (auto simp: frame_src_def slice_def memcpy_at_def frame_ok_def frame_consts min_def take_append drop_take)
    qed
    have res: "nic_on_receive ops update data (n, e) =
        (if ?sz < HEADER_SIZE then (nic_free i ?n2, e)
         else if d then (nic_free i ?n2, e1) else nic_notify update (frame_type ?f) i (?n3, e1))"
      unfolding nic_on_receive_def by (simp only: prod.case ab Some option.case Let_def d) (simp split: bool.splits)
    have fre: "pool_ok (nic_free i ?n2)" "in_use (nic_free i ?n2) = in_use n"
      using nic_free_ok [OF n2(1), of i] n2(2,3) by auto
    show ?thesis
    proof (cases "?sz < HEADER_SIZE \<or> d")
      case True
      then show ?thesis unfolding res using fre n2(5) e1
        by (intro exI [of _ "nic_free i ?n2"] exI [of _ "if ?sz < HEADER_SIZE then e else e1"]) auto
    next
      case False
      then have hs: "HEADER_SIZE \<le> length data" by (auto simp: frame_consts)
      have "in_use ?n3 = insert i (in_use n)" "n_observers ?n3 = n_observers n" using n2(2,5) by simp_all
      then show ?thesis unfolding res using False n3 n2(3) e1 hs src [OF hs]
        by (intro exI [of _ ?n3] exI [of _ e1]) auto
    qed
  qed
qed

definition single :: "(unit, u16) observers \<Rightarrow> bool" where
  "single obs \<longleftrightarrow> (\<forall>prot. length (targets_of prot obs) \<le> 1)"

lemma notify_single:
  "single (n_observers n) \<Longrightarrow>
     nic_notify update prot i (n, e) = (nic_free i n, e) \<or> (\<exists>ob. nic_notify update prot i (n, e) = update ob prot i (n, e))"
proof -
  assume s: "single (n_observers n)"
  show ?thesis
  proof (cases "targets_of prot (n_observers n)")
    case (Cons ob obs)
    then have "obs = []" using s by (auto simp: single_def dest: spec [of _ prot])
    then show ?thesis using Cons by (auto simp: nic_notify_def cdo_notify_targets)
  qed (simp add: nic_notify_def cdo_notify_targets)
qed

text \<open>A complete frame for a component process: it ends in a buffer that holds it, with the observer.\<close>

lemma memcpy_prefix: "length d \<le> length f \<Longrightarrow> take (length d) (memcpy_at 0 d f) = d"
  by (simp add: memcpy_at_def)

lemma frame_type_prefix:
  "frame_ok f \<Longrightarrow> HEADER_SIZE \<le> length d \<Longrightarrow> frame_type (memcpy_at 0 d f) = frame_type d"
  by (simp add: frame_type_def memcpy_at_def frame_ok_def frame_consts nth_append)

text \<open>
  A frame of the protocol at a NIC with a free buffer: the engine decides, and the frame is either
  dropped or in a buffer that was free, for the NIC's observer.
\<close>

definition same_nic :: "'o nic \<Rightarrow> 'o nic \<Rightarrow> bool" where
  "same_nic n m \<longleftrightarrow> n_observers m = n_observers n \<and> n_address m = n_address n \<and> n_spatial m = n_spatial n
     \<and> n_last_quadrant m = n_last_quadrant n"

lemma nic_frame_cases:
  fixes n :: "'o nic"
  assumes pool: "pool_ok n" "in_use n \<noteq> {..<BUFFER_SIZE}" and fb: "data_frame sp dp k ts data bytes"
    and rule: "\<And>f. frame_ok f \<Longrightarrow> take (length bytes) f = bytes \<Longrightarrow>
      eng_should_drop ops f (n_address n) (read_quadrant n (payload f)) e = (dr, e')"
  shows "\<exists>i m l. i \<notin> in_use n \<and> in_use m = insert i (in_use n) \<and> pool_ok m \<and> same_nic n m
     \<and> (\<forall>j \<in> in_use n. n_buffers m ! j = n_buffers n ! j) \<and> frame_ok (b_data (n_buffers m ! i))
     \<and> take (length bytes) (b_data (n_buffers m ! i)) = bytes \<and> b_size (n_buffers m ! i) = length bytes - HEADER_SIZE
     \<and> pool_ok l \<and> in_use l = in_use n \<and> n_observers l = n_observers n
     \<and> nic_on_receive ops update bytes (n, e) = (if dr then (l, e') else nic_notify update PROTO i (m, e'))"
proof -
  obtain i n1 where ab: "alloc_buf n = (Some i, n1)"
    using alloc_buf_None [OF pool(1)] pool(2) by (cases "alloc_buf n"; cases "fst (alloc_buf n)") auto
  have l: "min (length bytes) FRAME_SIZE = length bytes" "HEADER_SIZE \<le> length bytes" "length bytes \<le> FRAME_SIZE"
    "frame_type bytes = PROTO" using fb by (simp_all add: data_frame_def)
  let ?n2 = "upd_buffer i (\<lambda>b. b\<lparr>b_data := memcpy_at 0 bytes (b_data b)\<rparr>) n1"
  let ?f = "b_data (n_buffers ?n2 ! i)"
  let ?n3 = "upd_buffer i (\<lambda>b. b\<lparr>b_size := length bytes - HEADER_SIZE\<rparr>) (count_rx (length bytes) ?n2)"
  have "take (min (length bytes) FRAME_SIZE) bytes = bytes" using l(1) by simp
  then have n2: "pool_ok ?n2" "in_use ?n2 = insert i (in_use n)" "i \<notin> in_use n" "i < BUFFER_SIZE"
    "?f = memcpy_at 0 bytes (b_data (n_buffers n ! i))" "n_observers ?n2 = n_observers n"
    "n_address ?n2 = n_address n" "n_spatial ?n2 = n_spatial n"
    using received_buffer(1,2,5-8) [OF pool(1) ab, of bytes] received_buffer(3,4) [OF pool(1) ab] by simp_all
  have lq: "n_last_quadrant ?n3 = n_last_quadrant n" "n_address ?n3 = n_address n1" "n_spatial ?n3 = n_spatial n1"
    using ab by (auto simp: alloc_buf_def count_rx_def upd_buffer_def split: list.splits if_splits)
  have fr: "frame_ok (b_data (n_buffers n ! i))" using pool_buffer [OF pool(1) n2(4)] by simp
  have il: "i < length (n_buffers ?n2)" using n2(1,4) by (simp add: pool_ok_def)
  then have b: "b_data (n_buffers ?n3 ! i) = ?f" "b_size (n_buffers ?n3 ! i) = length bytes - HEADER_SIZE"
    by (simp_all add: upd_buffer_def)
  have f: "take (length bytes) ?f = bytes" "frame_ok ?f" "frame_type ?f = PROTO"
    using memcpy_prefix frame_type_prefix [OF fr l(2)] l(3,4) fr n2(5)
    by (simp_all add: frame_ok_def memcpy_at_def)
  have n3: "pool_ok ?n3"
    by (rule pool_ok_upd [OF _ n2(4)]) (use n2(1) l(3) in \<open>auto simp: frame_consts\<close>)
  have "read_quadrant ?n2 (payload ?f) = read_quadrant n (payload ?f)" using n2(8) by (simp add: read_quadrant_def)
  then have drop: "eng_should_drop ops ?f (n_address ?n2) (read_quadrant ?n2 (payload ?f)) e = (dr, e')"
    using rule [OF f(2,1)] n2(7) by simp
  have "nic_on_receive ops update bytes (n, e) = (if dr then (nic_free i ?n2, e') else nic_notify update PROTO i (?n3, e'))"
    unfolding nic_on_receive_def using l(2) f(3) drop by (simp add: ab Let_def l(1) split: bool.splits)
  moreover have "pool_ok (nic_free i ?n2)" "in_use (nic_free i ?n2) = in_use n" "n_observers (nic_free i ?n2) = n_observers n"
    using nic_free_ok [OF n2(1), of i] n2(2,3,6) by auto
  moreover have "in_use ?n3 = insert i (in_use n)" "same_nic n ?n3" using n2(2,6-8) lq by (simp_all add: same_nic_def)
  moreover have "\<forall>j \<in> in_use n. n_buffers ?n3 ! j = n_buffers n ! j"
    using n2(3) alloc_buf_Some(5) [OF pool(1) ab]
    by (auto simp: upd_buffer_def count_rx_def intro!: nth_list_update_neq)
  ultimately show ?thesis using n2(3) n3 f(1,2) b
    by (intro exI [of _ i] exI [of _ ?n3] exI [of _ "nic_free i ?n2"]) simp
qed

lemma nic_frame_arrives:
  fixes n :: "'o nic"
  assumes "pool_ok n" and "in_use n \<noteq> {..<BUFFER_SIZE}" and "targets_of PROTO (n_observers n) = [ob]"
    and "data_frame sp dp k ts data bytes"
    and "\<And>f. frame_ok f \<Longrightarrow> take (length bytes) f = bytes \<Longrightarrow>
      eng_should_drop ops f (n_address n) (read_quadrant n (payload f)) e = (False, e')"
  shows "\<exists>i m. i \<notin> in_use n \<and> in_use m = insert i (in_use n) \<and> pool_ok m \<and> same_nic n m
     \<and> (\<forall>j \<in> in_use n. n_buffers m ! j = n_buffers n ! j) \<and> frame_ok (b_data (n_buffers m ! i))
     \<and> take (length bytes) (b_data (n_buffers m ! i)) = bytes \<and> b_size (n_buffers m ! i) = length bytes - HEADER_SIZE
     \<and> nic_on_receive ops update bytes (n, e) = update ob PROTO i (m, e')"
proof -
  obtain i m where "i \<notin> in_use n" "in_use m = insert i (in_use n)" "pool_ok m" "same_nic n m"
    "\<forall>j \<in> in_use n. n_buffers m ! j = n_buffers n ! j" "frame_ok (b_data (n_buffers m ! i))"
    "take (length bytes) (b_data (n_buffers m ! i)) = bytes" "b_size (n_buffers m ! i) = length bytes - HEADER_SIZE"
    "nic_on_receive ops update bytes (n, e) = nic_notify update PROTO i (m, e')"
    using nic_frame_cases [OF assms(1,2,4,5), of update] by auto
  moreover from this have "nic_notify update PROTO i (m, e') = update ob PROTO i (m, e')"
    using assms(3) by (simp add: same_nic_def nic_notify_def cdo_notify_targets)
  ultimately show ?thesis by (intro exI [of _ i] exI [of _ m]) simp
qed

text \<open>
  A frame of the protocol from the bus ends in \<open>update\<close>, in a buffer that was free and holds exactly
  its bytes; the buffers in use and everything outside the bus NIC are unchanged. One from the
  network does when its sender is another station and not known to be in another quadrant.
\<close>

lemma bus_frame_arrives:
  assumes "chan_ok p" and "in_use (pr_shm p) \<noteq> {..<BUFFER_SIZE}" and "targets_of PROTO (n_observers (pr_shm p)) = [()]"
    and "data_frame sp dp k ts data bytes"
  shows "\<exists>i n. i \<notin> in_use (pr_shm p) \<and> in_use n = insert i (in_use (pr_shm p)) \<and> pool_ok n \<and> n_observers n = n_observers (pr_shm p)
     \<and> (\<forall>j \<in> in_use (pr_shm p). n_buffers n ! j = n_buffers (pr_shm p) ! j)
     \<and> holds_frame bytes (ShmBuf i) (p\<lparr>pr_shm := n\<rparr>)
     \<and> bus_receive E h upd bytes p = protocol_update E h upd (ShmBuf i) (p\<lparr>pr_shm := n\<rparr>)"
proof -
  have pool: "pool_ok (pr_shm p)" "pr_instance p" using assms(1) by (simp_all add: chan_ok_def)
  let ?u = "\<lambda>(_ :: unit) (prot :: u16) i w. let p' = protocol_update E h upd (ShmBuf i) ((snd w)\<lparr>pr_shm := fst w\<rparr>) in (pr_shm p', p')"
  have drop: "eng_should_drop (bus_ops E) f m q p = (False, p)" for f m q
    by (simp add: bus_ops_def lift_ops_def shm_should_drop_def)
  obtain i m where m: "i \<notin> in_use (pr_shm p)" "in_use m = insert i (in_use (pr_shm p))" "pool_ok m \<and> same_nic (pr_shm p) m"
    "\<forall>j \<in> in_use (pr_shm p). n_buffers m ! j = n_buffers (pr_shm p) ! j" "frame_ok (b_data (n_buffers m ! i))"
    "take (length bytes) (b_data (n_buffers m ! i)) = bytes" "b_size (n_buffers m ! i) = length bytes - HEADER_SIZE"
    and r: "nic_on_receive (bus_ops E) ?u bytes (pr_shm p, p) = ?u () PROTO i (m, p)"
    using nic_frame_arrives [OF pool(1) assms(2-4) drop, of ?u] by blast
  have "holds_frame bytes (ShmBuf i) (p\<lparr>pr_shm := m\<rparr>)"
    using m(5-7) pool(2) by (simp add: holds_frame_def buffer_at_def)
  moreover have "bus_receive E h upd bytes p = protocol_update E h upd (ShmBuf i) (p\<lparr>pr_shm := m\<rparr>)"
    unfolding bus_receive_def r by (simp add: Let_def)
  ultimately show ?thesis using m(1-4) unfolding same_nic_def by blast
qed

lemma sock_rule:
  assumes fb: "data_frame sp dp k ts data bytes" and src: "frame_src bytes \<noteq> n_address n" and sp: "n_spatial n"
    and gps: "en_gps E (r_gps (pr_raw p)) = (my, g)" and f: "frame_ok f" "take (length bytes) f = bytes"
  shows "eng_should_drop (sock_ops E) f (n_address n) (read_quadrant n (payload f)) p
      = (other_quadrant my (hdr_quadrant (drop HEADER_SIZE bytes)), p\<lparr>pr_raw := (pr_raw p)\<lparr>r_gps := g\<rparr>\<rparr>)"
proof -
  let ?k = "HEADER_LEN + length data"
  have len: "length bytes = HEADER_SIZE + ?k" using fb by (simp add: data_frame_def)
  have "take ?k (payload f) = drop HEADER_SIZE (take (length bytes) f)" unfolding len by (simp add: payload_def drop_take)
  then have "take ?k (payload f) = take ?k (drop HEADER_SIZE bytes)" using f(2) len by simp
  from header_of_prefix(4) [OF this] have "hdr_quadrant (payload f) = hdr_quadrant (drop HEADER_SIZE bytes)" .
  moreover have "frame_src f = frame_src bytes" using take_header_fields(2) [of ?k f] f(2) len by simp
  ultimately show ?thesis
    using src sp gps
    by (auto simp: sock_ops_def lift_ops_def raw_should_drop_def raw_current_quadrant_def read_quadrant_def other_quadrant_def)
qed

lemma sock_frame_arrives:
  assumes "chan_ok p" and n: "pr_sock p = Some n" "in_use n \<noteq> {..<BUFFER_SIZE}" "targets_of PROTO (n_observers n) = [()]" "n_spatial n"
    and fb: "data_frame sp dp k ts data bytes" and src: "frame_src bytes \<noteq> n_address n"
    and quad: "\<not> other_quadrant (fst (en_gps E (r_gps (pr_raw p)))) (hdr_quadrant (drop HEADER_SIZE bytes))"
  shows "\<exists>i m e. i \<notin> in_use n \<and> in_use m = insert i (in_use n) \<and> pool_ok m \<and> same_nic n m \<and> (\<forall>j \<in> in_use n. n_buffers m ! j = n_buffers n ! j)
     \<and> holds_frame bytes (SockBuf i) (p\<lparr>pr_raw := e, pr_sock := Some m\<rparr>)
     \<and> (pr_sock (protocol_update E h upd (SockBuf i) (p\<lparr>pr_raw := e, pr_sock := Some m\<rparr>)) \<noteq> None \<longrightarrow>
          sock_receive E h upd bytes p = protocol_update E h upd (SockBuf i) (p\<lparr>pr_raw := e, pr_sock := Some m\<rparr>))"
proof -
  have pool: "pool_ok n" "pr_instance p" using assms(1) n(1) by (simp_all add: chan_ok_def sock_ok_def)
  let ?u = "\<lambda>(_ :: unit) (prot :: u16) i w. let p' = protocol_update E h upd (SockBuf i) ((snd w)\<lparr>pr_sock := Some (fst w)\<rparr>)
      in (case pr_sock p' of Some n' \<Rightarrow> n' | None \<Rightarrow> fst w, p')"
  obtain my g where gps: "en_gps E (r_gps (pr_raw p)) = (my, g)" by (cases "en_gps E (r_gps (pr_raw p))")
  let ?e = "(pr_raw p)\<lparr>r_gps := g\<rparr>"
  have drop: "eng_should_drop (sock_ops E) f (n_address n) (read_quadrant n (payload f)) p = (False, p\<lparr>pr_raw := ?e\<rparr>)"
    if "frame_ok f" "take (length bytes) f = bytes" for f
    using sock_rule [OF fb src n(4) gps that] quad gps by simp
  obtain i m where m: "i \<notin> in_use n" "in_use m = insert i (in_use n)" "pool_ok m" "same_nic n m"
    "\<forall>j \<in> in_use n. n_buffers m ! j = n_buffers n ! j" "frame_ok (b_data (n_buffers m ! i))"
    "take (length bytes) (b_data (n_buffers m ! i)) = bytes" "b_size (n_buffers m ! i) = length bytes - HEADER_SIZE"
    and r: "nic_on_receive (sock_ops E) ?u bytes (n, p) = ?u () PROTO i (m, p\<lparr>pr_raw := ?e\<rparr>)"
    using nic_frame_arrives [OF pool(1) n(2,3) fb drop, of ?u] by blast
  let ?q = "p\<lparr>pr_raw := ?e, pr_sock := Some m\<rparr>"
  have "holds_frame bytes (SockBuf i) ?q" using m(6-8) pool(2) by (simp add: holds_frame_def buffer_at_def)
  moreover have "sock_receive E h upd bytes p = protocol_update E h upd (SockBuf i) ?q"
    if "pr_sock (protocol_update E h upd (SockBuf i) ?q) \<noteq> None"
    unfolding sock_receive_def n(1) option.case r using that by (auto simp: Let_def)
  ultimately show ?thesis using m(1-5) by blast
qed

text \<open>A frame of another quadrant only moves the GPS: no buffer is kept and \<open>update\<close> does not run.\<close>

lemma sock_frame_filtered:
  assumes "chan_ok p" and n: "pr_sock p = Some n" "in_use n \<noteq> {..<BUFFER_SIZE}" "n_spatial n"
    and fb: "data_frame sp dp k ts data bytes" and src: "frame_src bytes \<noteq> n_address n"
    and quad: "other_quadrant (fst (en_gps E (r_gps (pr_raw p)))) (hdr_quadrant (drop HEADER_SIZE bytes))"
  shows "\<exists>e m. sock_receive E h upd bytes p = p\<lparr>pr_raw := e, pr_sock := Some m\<rparr> \<and> pool_ok m \<and> in_use m = in_use n"
proof -
  have pool: "pool_ok n" using assms(1) n(1) by (simp add: chan_ok_def sock_ok_def)
  let ?u = "\<lambda>(_ :: unit) (prot :: u16) i w. let p' = protocol_update E h upd (SockBuf i) ((snd w)\<lparr>pr_sock := Some (fst w)\<rparr>)
      in (case pr_sock p' of Some n' \<Rightarrow> n' | None \<Rightarrow> fst w, p')"
  obtain my g where gps: "en_gps E (r_gps (pr_raw p)) = (my, g)" by (cases "en_gps E (r_gps (pr_raw p))")
  let ?e = "(pr_raw p)\<lparr>r_gps := g\<rparr>"
  have drop: "eng_should_drop (sock_ops E) f (n_address n) (read_quadrant n (payload f)) p = (True, p\<lparr>pr_raw := ?e\<rparr>)"
    if "frame_ok f" "take (length bytes) f = bytes" for f
    using sock_rule [OF fb src n(3) gps that] quad gps by simp
  obtain m where m: "pool_ok m" "in_use m = in_use n" "nic_on_receive (sock_ops E) ?u bytes (n, p) = (m, p\<lparr>pr_raw := ?e\<rparr>)"
    using nic_frame_cases [OF pool n(2) fb drop, of ?u] by auto
  have "sock_receive E h upd bytes p = p\<lparr>pr_raw := ?e, pr_sock := Some m\<rparr>"
    unfolding sock_receive_def n(1) option.case m(3) by simp
  then show ?thesis using m(1,2) by blast
qed

text \<open>The fields of a frame, read in the buffer that holds it.\<close>

lemma held_frame_fields:
  assumes "holds_frame bytes b q" and "data_frame sp dp k ts data bytes"
  shows "HEADER_LEN \<le> b_size (buffer_at b q)" "hdr_dst_port (payload (b_data (buffer_at b q))) = dp"
    "hdr_kind (payload (b_data (buffer_at b q))) = kind_byte k" "frame_src (b_data (buffer_at b q)) = frame_src bytes"
    "frame_dst (b_data (buffer_at b q)) = frame_dst bytes" "HEADER_SIZE + b_size (buffer_at b q) = length bytes"
    "take (b_size (buffer_at b q)) (payload (b_data (buffer_at b q))) = drop HEADER_SIZE bytes"
proof -
  let ?f = "b_data (buffer_at b q)" and ?k = "HEADER_LEN + length data"
  have hf: "take (length bytes) ?f = bytes" "b_size (buffer_at b q) = length bytes - HEADER_SIZE"
    using assms(1) by (simp_all add: holds_frame_def)
  have len: "length bytes = HEADER_SIZE + ?k" using assms(2) by (simp add: data_frame_def)
  have "take ?k (payload ?f) = drop HEADER_SIZE (take (length bytes) ?f)"
    unfolding len by (simp add: payload_def drop_take)
  then have pl: "take ?k (payload ?f) = drop HEADER_SIZE bytes" using hf(1) by simp
  then have "take ?k (payload ?f) = take ?k (drop HEADER_SIZE bytes)" using len by simp
  note get = header_of_prefix [OF this]
  show "HEADER_LEN \<le> b_size (buffer_at b q)" "HEADER_SIZE + b_size (buffer_at b q) = length bytes" using hf(2) len by simp_all
  show "take (b_size (buffer_at b q)) (payload ?f) = drop HEADER_SIZE bytes" using pl hf(2) len by simp
  show "hdr_dst_port (payload ?f) = dp" "hdr_kind (payload ?f) = kind_byte k"
    using get assms(2) by (simp_all add: data_frame_def)
  show "frame_src ?f = frame_src bytes" "frame_dst ?f = frame_dst bytes"
    using take_header_fields [of ?k ?f] hf(1) len by simp_all
qed

lemma component_update:
  assumes "pr_sock p = None" and "holds_frame bytes (ShmBuf i) p" and "data_frame sp dp k ts data bytes"
    and "targets_of dp (pr_observed p) = [ob]"
  shows "protocol_update E h upd (ShmBuf i) p = upd ob dp (ShmBuf i) p"
  using held_frame_fields [OF assms(2,3)] assms(1,4)
  by (simp add: protocol_update_def Let_def forward_to_socket_def notify_or_free_def co_notify_targets)

subsection \<open>From the producer's process to the consumer's\<close>

text \<open>
  A component process with its communicator and its SmartData: the environment of the protocol
  holds them beside the clocks, without the channel, which is the protocol itself. \<open>host\<close> is any process
  with a communicator: its observers may be SmartData or, in the roadside unit, the broker.
\<close>

type_synonym ('g, 'n, 'r, 'x) node = "(unit, 'g, 'n, 'r, 'x \<times> (bufref, unit) process) proto"

definition with_channel :: "'v \<Rightarrow> ('s, 'b, 'w, 'c) communicator \<Rightarrow> ('s, 'b, 'v, 'c) communicator" where
  "with_channel w c =
     \<lparr>cm_address = cm_address c, cm_subscribed = cm_subscribed c, cm_observers = cm_observers c, cm_queue = cm_queue c,
      cm_heap = cm_heap c, cm_stamp = cm_stamp c, cm_channel = w, cm_clients = cm_clients c\<rparr>"

type_synonym ('s, 'c, 'g, 'n, 'r, 'x) host = "(unit, 'g, 'n, 'r, 'x \<times> ('s, bufref, unit, 'c) communicator) proto"

definition opened ::
  "('s, 'c, 'g, 'n, 'r, 'x) host \<Rightarrow> ('s, bufref, ('s, 'c, 'g, 'n, 'r, 'x) host, 'c) communicator" where
  "opened p = with_channel p (snd (pr_env p))"

definition packed ::
  "('s, bufref, ('s, 'c, 'g, 'n, 'r, 'x) host, 'c) communicator \<Rightarrow> ('s, 'c, 'g, 'n, 'r, 'x) host" where
  "packed c = (cm_channel c)\<lparr>pr_env := (fst (pr_env (cm_channel c)), with_channel () c)\<rparr>"

text \<open>\<open>Communicator::update\<close>, called by the protocol; \<open>SmartData::respond\<close> and \<open>send_interest\<close> of SmartData \<open>i\<close>.\<close>

definition node_update ::
  "('g, 'n, 'r, 'x \<times> (bufref, unit) process) env \<Rightarrow> (unit, 'g, 'n, 'r, 'x \<times> (bufref, unit) process) handler
     \<Rightarrow> int \<Rightarrow> int \<Rightarrow> u8 \<times> int \<Rightarrow> u16 \<Rightarrow> bufref \<Rightarrow> ('g, 'n, 'r, 'x) node \<Rightarrow> ('g, 'n, 'r, 'x) node"
where
  "node_update E h n n' junk port b p =
     packed (comm_update (protocol_channel E h ()) (smart_update n n') junk port b (opened p))"

definition node_respond ::
  "('g, 'n, 'r, 'x \<times> (bufref, unit) process) env \<Rightarrow> (unit, 'g, 'n, 'r, 'x \<times> (bufref, unit) process) handler
     \<Rightarrow> int \<Rightarrow> u64 \<Rightarrow> nat \<Rightarrow> ('g, 'n, 'r, 'x) node \<Rightarrow> ('g, 'n, 'r, 'x) node"
where
  "node_respond E h now v i p = packed (respond (protocol_channel E h ()) now v i (opened p))"

definition node_interest ::
  "('g, 'n, 'r, 'x \<times> (bufref, unit) process) env \<Rightarrow> (unit, 'g, 'n, 'r, 'x \<times> (bufref, unit) process) handler
     \<Rightarrow> int \<Rightarrow> nat \<Rightarrow> ('g, 'n, 'r, 'x) node \<Rightarrow> ('g, 'n, 'r, 'x) node"
where
  "node_interest E h now i p = packed (send_interest (protocol_channel E h ()) now False i (opened p))"

definition node_receive ::
  "('g, 'n, 'r, 'x \<times> (bufref, unit) process) env \<Rightarrow> (unit, 'g, 'n, 'r, 'x \<times> (bufref, unit) process) handler
     \<Rightarrow> int \<Rightarrow> int \<Rightarrow> u8 \<times> int \<Rightarrow> u8 list \<Rightarrow> ('g, 'n, 'r, 'x) node \<Rightarrow> ('g, 'n, 'r, 'x) node"
where
  "node_receive E h n n' junk bytes p = bus_receive E h (\<lambda>_. node_update E h n n' junk) bytes p"

text \<open>SmartData \<open>j\<close> of a process that listens for broadcasts, its only observer.\<close>

definition node_smart :: "nat \<Rightarrow> ('g, 'n, 'r, 'x) node \<Rightarrow> smart_data" where
  "node_smart j p = smart_at j (snd (pr_env p))"

definition listens :: "nat \<Rightarrow> ('g, 'n, 'r, 'x) node \<Rightarrow> bool" where
  "listens j p \<longleftrightarrow> chan_ok p \<and> pr_sock p = None \<and> in_use (pr_shm p) \<noteq> {..<BUFFER_SIZE}
     \<and> targets_of PROTO (n_observers (pr_shm p)) = [()] \<and> targets_of (a_port logical_broadcast) (pr_observed p) = [()]
     \<and> targets_of broadcast_condition (cm_observers (snd (pr_env p))) = [j] \<and> j < length (cm_clients (snd (pr_env p)))"

lemma with_channel_simps [simp]:
  "cm_channel (with_channel w c) = w" "cm_observers (with_channel w c) = cm_observers c"
  "cm_clients (with_channel w c) = cm_clients c" "cm_stamp (with_channel w c) = cm_stamp c"
  "smart_at j (with_channel w c') = smart_at j c'"
  by (simp_all add: with_channel_def)

lemma opened_simps [simp]:
  "cm_channel (opened p) = p" "cm_stamp (opened p) = cm_stamp (snd (pr_env p))" "smart_at j (opened q) = node_smart j q"
  by (simp_all add: opened_def node_smart_def)

lemma packed_simps [simp]:
  "node_smart j (packed c') = smart_at j c'" "pr_shm_eng (packed c) = pr_shm_eng (cm_channel c)"
  by (simp_all add: packed_def node_smart_def)

lemma frame_reaches_smart:
  assumes r: "listens j r" and bytes: "data_frame sp (a_port logical_broadcast) k ts data bytes"
  shows "\<exists>b q. holds_frame bytes b q \<and> pr_env q = pr_env r
     \<and> node_receive E h n n' junk bytes r
       = packed (comm_update (protocol_channel E h ()) (smart_update n n') junk broadcast_condition b (opened q))"
proof -
  have p: "chan_ok r" "in_use (pr_shm r) \<noteq> {..<BUFFER_SIZE}" "targets_of PROTO (n_observers (pr_shm r)) = [()]"
    "pr_sock r = None" "targets_of (a_port logical_broadcast) (pr_observed r) = [()]"
    using r by (simp_all add: listens_def)
  obtain i m where m: "holds_frame bytes (ShmBuf i) (r\<lparr>pr_shm := m\<rparr>)"
    "bus_receive E h (\<lambda>_. node_update E h n n' junk) bytes r
       = protocol_update E h (\<lambda>_. node_update E h n n' junk) (ShmBuf i) (r\<lparr>pr_shm := m\<rparr>)"
    using bus_frame_arrives [OF p(1-3) bytes, of E h "\<lambda>_. node_update E h n n' junk"] by blast
  have "protocol_update E h (\<lambda>_. node_update E h n n' junk) (ShmBuf i) (r\<lparr>pr_shm := m\<rparr>)
      = node_update E h n n' junk (a_port logical_broadcast) (ShmBuf i) (r\<lparr>pr_shm := m\<rparr>)"
    by (rule component_update [OF _ m(1) bytes]) (simp_all add: p(4,5))
  then show ?thesis
    using m by (intro exI [of _ "ShmBuf i"] exI [of _ "r\<lparr>pr_shm := m\<rparr>"])
       (simp add: node_receive_def node_update_def broadcast_condition_def)
qed

lemma listening_smart:
  assumes "listens j r" and "pr_env q = pr_env r"
  shows "targets_of broadcast_condition (cm_observers (opened q)) = [j]" "j < length (cm_clients (opened q))"
    "node_smart j q = node_smart j r"
  using assms by (simp_all add: listens_def opened_def node_smart_def)

text \<open>What a consumer of the unit, or a producer of it, makes of a frame with a response or an interest.\<close>

lemma node_reads_response:
  assumes "listens j r" and "data_frame sp (a_port logical_broadcast) k ts (response_bytes v s) bytes"
    and "sd_role (node_smart j r) = CONSUMER" and "sd_unit (node_smart j r) = sd_unit s"
  shows "smart_value (node_smart j (node_receive E h n n' junk bytes r)) = v"
proof -
  obtain b q where q: "holds_frame bytes b q" "pr_env q = pr_env r"
    and e: "node_receive E h n n' junk bytes r
      = packed (comm_update (protocol_channel E h ()) (smart_update n n') junk broadcast_condition b (opened q))"
    using frame_reaches_smart [OF assms(1,2)] by blast
  show ?thesis unfolding e
    using response_received [OF assms(2), of b "opened q" j E h "()" n n' junk] q(1) listening_smart [OF assms(1) q(2)] assms(3,4)
    by simp
qed

lemma node_enters_interest:
  assumes "listens j r" and "data_frame sp (a_port logical_broadcast) k ts (interest_bytes False s) bytes"
    and "sd_role (node_smart j r) = PRODUCER" and "sd_unit (node_smart j r) = sd_unit s"
    and "sd_cache (node_smart j r) = Some t" and "distinct (map b_key (bc_bindings t))" and "sd_period_us s \<noteq> 0"
  shows "\<exists>t'. sd_cache (node_smart j (node_receive E h n n' junk bytes r)) = Some t'
     \<and> interests t' (sd_unit s, \<lparr>a_paddr = frame_src bytes, a_port = sp\<rparr>)
       = Some (sd_period_us s, expiry_for n (sd_period_us s) t')"
proof -
  obtain b q where q: "holds_frame bytes b q" "pr_env q = pr_env r"
    and e: "node_receive E h n n' junk bytes r
      = packed (comm_update (protocol_channel E h ()) (smart_update n n') junk broadcast_condition b (opened q))"
    using frame_reaches_smart [OF assms(1,2)] by blast
  show ?thesis unfolding e
    using interest_received [OF assms(2), of b "opened q" j t E h "()" n n' junk] q(1) listening_smart [OF assms(1) q(2)]
      assms(3-7) by simp
qed

text \<open>The frame a process writes for a response or an interest.\<close>

lemma node_writes:
  assumes "can_send p" and "in_i64 (stamp_of now (cm_stamp (snd (pr_env p))))"
    and "stamp_of now (cm_stamp (snd (pr_env p))) \<noteq> 0"
  shows "\<exists>bytes. writes_to_bus E bytes p (node_respond E h now v i p)
     \<and> data_frame (a_port (cm_address (snd (pr_env p)))) (a_port logical_broadcast) DATA
         (stamp_of now (cm_stamp (snd (pr_env p)))) (response_bytes v (node_smart i p)) bytes
     \<and> frame_src bytes = n_address (pr_shm p) \<and> frame_dst bytes = a_paddr logical_broadcast"
    and "\<exists>bytes. writes_to_bus E bytes p (node_interest E h now i p)
     \<and> data_frame (a_port (cm_address (snd (pr_env p)))) (a_port logical_broadcast) DATA
         (stamp_of now (cm_stamp (snd (pr_env p)))) (interest_bytes False (node_smart i p)) bytes
     \<and> frame_src bytes = n_address (pr_shm p) \<and> frame_dst bytes = a_paddr logical_broadcast"
proof -
  have o: "can_send (cm_channel (opened p))" "in_i64 (stamp_of now (cm_stamp (opened p)))" "stamp_of now (cm_stamp (opened p)) \<noteq> 0"
    "cm_address (opened p) = cm_address (snd (pr_env p))"
    using assms by (simp_all add: opened_def with_channel_def)
  have l: "length (response_bytes v (node_smart i p)) \<le> MESSAGE_MAX_SIZE"
    "length (interest_bytes False (node_smart i p)) \<le> MESSAGE_MAX_SIZE"
    by (simp_all add: response_length interest_length)
  show "\<exists>bytes. writes_to_bus E bytes p (node_respond E h now v i p)
     \<and> data_frame (a_port (cm_address (snd (pr_env p)))) (a_port logical_broadcast) DATA
         (stamp_of now (cm_stamp (snd (pr_env p)))) (response_bytes v (node_smart i p)) bytes
     \<and> frame_src bytes = n_address (pr_shm p) \<and> frame_dst bytes = a_paddr logical_broadcast"
    using datum_sent [OF o(1-3) l(1), where E = E and h = h and ob = "()"] o(4)
    by (simp add: node_respond_def respond_def writes_to_bus_def)
  show "\<exists>bytes. writes_to_bus E bytes p (node_interest E h now i p)
     \<and> data_frame (a_port (cm_address (snd (pr_env p)))) (a_port logical_broadcast) DATA
         (stamp_of now (cm_stamp (snd (pr_env p)))) (interest_bytes False (node_smart i p)) bytes
     \<and> frame_src bytes = n_address (pr_shm p) \<and> frame_dst bytes = a_paddr logical_broadcast"
    using datum_sent [OF o(1-3) l(2), where E = E and h = h and ob = "()"] o(4)
    by (simp add: node_interest_def send_interest_def writes_to_bus_def)
qed

text \<open>The whole path of a reading inside a vehicle: the frame a producer's process writes to the
  bus when it responds, handed by the bus reader to a process that listens, makes the value
  read from the consumer of that unit there the value that was sent.\<close>

theorem reading_crosses_vehicle:
  assumes "can_send p" and "in_i64 (stamp_of now (cm_stamp (snd (pr_env p))))"
    and "stamp_of now (cm_stamp (snd (pr_env p))) \<noteq> 0"
  shows "\<exists>bytes. writes_to_bus E bytes p (node_respond E h now v i p)
     \<and> (\<forall>r j junk. listens j r \<and> sd_role (node_smart j r) = CONSUMER \<and> sd_unit (node_smart j r) = sd_unit (node_smart i p)
          \<longrightarrow> smart_value (node_smart j (node_receive E h n n' junk bytes r)) = v)"
  using node_writes(1) [OF assms, of E h v i] node_reads_response by blast

text \<open>The same for an interest: the frame a consumer's process writes when it announces its
  unit, handed by the bus reader to a process that listens, enters the table of the producer
  of that unit there, under the MAC of the announcing process's bus NIC and its port, with its
  period.\<close>

theorem interest_crosses_vehicle:
  assumes "can_send p" and "in_i64 (stamp_of now (cm_stamp (snd (pr_env p))))"
    and "stamp_of now (cm_stamp (snd (pr_env p))) \<noteq> 0" and "sd_period_us (node_smart i p) \<noteq> 0"
  shows "\<exists>bytes. writes_to_bus E bytes p (node_interest E h now i p)
     \<and> (\<forall>r j junk t. listens j r \<and> sd_role (node_smart j r) = PRODUCER \<and> sd_unit (node_smart j r) = sd_unit (node_smart i p)
          \<and> sd_cache (node_smart j r) = Some t \<and> distinct (map b_key (bc_bindings t)) \<longrightarrow>
          (\<exists>t'. sd_cache (node_smart j (node_receive E h n n' junk bytes r)) = Some t'
             \<and> interests t' (sd_unit (node_smart i p), sender_address (opened p))
               = Some (sd_period_us (node_smart i p), expiry_for n (sd_period_us (node_smart i p)) t')))"
proof -
  obtain bytes where b: "writes_to_bus E bytes p (node_interest E h now i p)"
    "data_frame (a_port (cm_address (snd (pr_env p)))) (a_port logical_broadcast) DATA
       (stamp_of now (cm_stamp (snd (pr_env p)))) (interest_bytes False (node_smart i p)) bytes"
    "frame_src bytes = n_address (pr_shm p)"
    using node_writes(2) [OF assms(1-3), of E h i] by blast
  have "sender_address (opened p) = \<lparr>a_paddr = frame_src bytes, a_port = a_port (cm_address (snd (pr_env p)))\<rparr>"
    by (simp add: sender_address_def b(3)) (simp add: opened_def with_channel_def)
  then show ?thesis using b(1) node_enters_interest [OF _ b(2) _ _ _ _ assms(4)] by (intro exI [of _ bytes]) auto
qed

subsection \<open>What every operation of a process keeps\<close>

definition wired :: "('o, 'g, 'n, 'r, 'x) proto \<Rightarrow> bool" where
  "wired p \<longleftrightarrow> chan_ok p \<and> single (n_observers (pr_shm p)) \<and> (\<forall>n. pr_sock p = Some n \<longrightarrow> single (n_observers n))
     \<and> (\<forall>port. length (targets_of port (pr_observed p)) \<le> 1)"

definition keeps_buffers :: "('o, 'g, 'n, 'r, 'x) proto \<Rightarrow> ('o, 'g, 'n, 'r, 'x) proto \<Rightarrow> bool" where
  "keeps_buffers p q \<longleftrightarrow> chan_ok q \<and> usage q = usage p \<and> wiring q = wiring p"

lemma wiring_wired: "wiring q = wiring p \<Longrightarrow> chan_ok q \<Longrightarrow> wired p \<Longrightarrow> wired q"
  by (cases "pr_sock p"; cases "pr_sock q") (auto simp: wired_def wiring_def)

text \<open>
  What a frame that arrives comes to: no buffer more is in use, or one is, which was free, and it is the
  last in the process's queue \<open>f\<close>.
\<close>

definition received ::
  "('x \<Rightarrow> bufref list) \<Rightarrow> ('o, 'g, 'n, 'r, 'x) proto \<Rightarrow> ('o, 'g, 'n, 'r, 'x) proto \<Rightarrow> bool" where
  "received f p q \<longleftrightarrow> chan_ok q \<and> wiring q = wiring p
     \<and> (usage q = usage p \<and> f (pr_env q) = f (pr_env p)
        \<or> (\<exists>b. \<not> held b p \<and> held b q \<and> without b (usage q) = usage p \<and> f (pr_env q) = f (pr_env p) @ [b]))"

lemma settled_received:
  assumes "settled f b p q" and "held b p" and "\<not> held b p0" and "without b (usage p) = usage p0"
    and "wiring p = wiring p0" and "f (pr_env p) = f (pr_env p0)"
  shows "received f p0 q"
  using assms held_same [of q p b] by (auto simp: settled_def received_def)

lemma bus_receive_keeps:
  assumes p: "wired p" and upd: "takes_over f upd" and E: "leaves f E"
  shows "received f p (bus_receive E (on_quadrant_change d E) upd data p)"
proof -
  let ?u = "\<lambda>(_ :: unit) (prot :: u16) i w. let p' = protocol_update E (on_quadrant_change d E) upd (ShmBuf i) ((snd w)\<lparr>pr_shm := fst w\<rparr>)
      in (pr_shm p', p')"
  have ok: "chan_ok p" "pool_ok (pr_shm p)" "single (n_observers (pr_shm p))"
    using p by (simp_all add: wired_def chan_ok_def)
  from nic_receive_split [OF ok(2), of p "bus_ops E" ?u data]
  obtain n' e' where e': "e' = p \<or> (\<exists>f m q. e' = snd (eng_should_drop (bus_ops E) f m q p))"
    and n': "pool_ok n'" "n_observers n' = n_observers (pr_shm p)"
    and c: "in_use n' = in_use (pr_shm p) \<and> nic_on_receive (bus_ops E) ?u data (pr_shm p, p) = (n', e')
        \<or> (\<exists>i prot. i \<notin> in_use (pr_shm p) \<and> in_use n' = insert i (in_use (pr_shm p))
             \<and> nic_on_receive (bus_ops E) ?u data (pr_shm p, p) = nic_notify ?u prot i (n', e'))" by blast
  have ep: "e' = p" using e' by (auto simp: bus_ops_def lift_ops_def shm_should_drop_def)
  have q: "chan_ok (p\<lparr>pr_shm := n'\<rparr>)" "wiring (p\<lparr>pr_shm := n'\<rparr>) = wiring p"
      "f (pr_env (p\<lparr>pr_shm := n'\<rparr>)) = f (pr_env p)"
    using ok(1) n' by (simp_all add: chan_ok_def sock_ok_def wiring_def)
  show ?thesis
    using c unfolding ep
  proof (elim disjE exE conjE)
    assume "in_use n' = in_use (pr_shm p)" "nic_on_receive (bus_ops E) ?u data (pr_shm p, p) = (n', p)"
    then show ?thesis using q by (simp add: bus_receive_def received_def usage_def)
  next
    fix i prot
    assume i: "i \<notin> in_use (pr_shm p)" "in_use n' = insert i (in_use (pr_shm p))"
      and r: "nic_on_receive (bus_ops E) ?u data (pr_shm p, p) = nic_notify ?u prot i (n', p)"
    have us: "without (ShmBuf i) (usage (p\<lparr>pr_shm := n'\<rparr>)) = usage p" "held (ShmBuf i) (p\<lparr>pr_shm := n'\<rparr>)"
      "\<not> held (ShmBuf i) p"
      using i by (auto simp: without_def usage_def held_def)
    have one: "\<forall>port. length (targets_of port (pr_observed (p\<lparr>pr_shm := n'\<rparr>))) \<le> 1" using p by (simp add: wired_def)
    have "single (n_observers n')" using n'(2) ok(3) by simp
    from notify_single [OF this, of ?u prot i p] show ?thesis
    proof (elim disjE exE)
      assume f: "nic_notify ?u prot i (n', p) = (nic_free i n', p)"
      have "bus_receive E (on_quadrant_change d E) upd data p = free_buffer (ShmBuf i) (p\<lparr>pr_shm := n'\<rparr>)"
        using ok(1) by (simp add: bus_receive_def r f free_buffer_def chan_ok_def)
      then show ?thesis using settled_received [OF freed_settled [OF q(1) us(2)] us(2,3,1) q(2,3)] by simp
    next
      fix ob
      assume f: "nic_notify ?u prot i (n', p) = ?u ob prot i (n', p)"
      have "bus_receive E (on_quadrant_change d E) upd data p
          = protocol_update E (on_quadrant_change d E) upd (ShmBuf i) (p\<lparr>pr_shm := n'\<rparr>)"
        unfolding bus_receive_def r f by (simp add: Let_def)
      then show ?thesis
        using settled_received [OF update_accounts [OF q(1) us(2) upd E one] us(2,3,1) q(2,3), of d] by simp
    qed
  qed
qed

lemma drop_keeps: "eng_should_drop (sock_ops E) f m q p = (dr, p') \<Longrightarrow> \<exists>e. p' = p\<lparr>pr_raw := e\<rparr>"
  by (auto simp: sock_ops_def lift_ops_def split: prod.splits)

lemma raw_keeps [simp]:
  "chan_ok (p\<lparr>pr_raw := e\<rparr>) = chan_ok p" "usage (p\<lparr>pr_raw := e\<rparr>) = usage p" "wiring (p\<lparr>pr_raw := e\<rparr>) = wiring p"
  by (simp_all add: chan_ok_def sock_ok_def usage_def wiring_def)

lemma sock_receive_keeps:
  assumes p: "wired p" and upd: "takes_over f upd" and E: "leaves f E" and src: "frame_src data \<noteq> INTERNAL"
  shows "received f p (sock_receive E (on_quadrant_change d E) upd data p)"
proof (cases "pr_sock p")
  case None
  then show ?thesis using p by (simp add: sock_receive_def received_def wired_def)
next
  case (Some n)
  let ?u = "\<lambda>(_ :: unit) (prot :: u16) i w. let p' = protocol_update E (on_quadrant_change d E) upd (SockBuf i) ((snd w)\<lparr>pr_sock := Some (fst w)\<rparr>)
      in (case pr_sock p' of Some n' \<Rightarrow> n' | None \<Rightarrow> fst w, p')"
  have ok: "chan_ok p" "pool_ok n" "single (n_observers n)"
    using p Some by (simp_all add: wired_def chan_ok_def sock_ok_def)
  from nic_receive_split [OF ok(2), of p "sock_ops E" ?u data]
  obtain n' e' where e': "e' = p \<or> (\<exists>f m q. e' = snd (eng_should_drop (sock_ops E) f m q p))"
    and n': "pool_ok n'" "n_observers n' = n_observers n"
    and c: "in_use n' = in_use n \<and> nic_on_receive (sock_ops E) ?u data (n, p) = (n', e')
        \<or> (\<exists>i prot. i \<notin> in_use n \<and> in_use n' = insert i (in_use n)
             \<and> frame_src (b_data (n_buffers n' ! i)) = frame_src data
             \<and> nic_on_receive (sock_ops E) ?u data (n, p) = nic_notify ?u prot i (n', e'))" by blast
  obtain e where e: "e' = p\<lparr>pr_raw := e\<rparr>"
  proof (cases "e' = p")
    case True
    then show ?thesis using that [of "pr_raw p"] by simp
  next
    case False
    then obtain f m q where "e' = snd (eng_should_drop (sock_ops E) f m q p)" using e' by blast
    then have "eng_should_drop (sock_ops E) f m q p = (fst (eng_should_drop (sock_ops E) f m q p), e')" by simp
    then show ?thesis using drop_keeps that by blast
  qed
  let ?q = "e'\<lparr>pr_sock := Some n'\<rparr>"
  have q: "chan_ok ?q" "wiring ?q = wiring p" "pr_sock ?q = Some n'" "usage ?q = (in_use (pr_shm p), Some (in_use n'))"
      "f (pr_env ?q) = f (pr_env p)"
    using ok(1) n' Some by (simp_all add: e chan_ok_def sock_ok_def wiring_def usage_def)
  have up: "usage p = (in_use (pr_shm p), Some (in_use n))" using Some by (simp add: usage_def)
  show ?thesis
    using c
  proof (elim disjE exE conjE)
    assume i: "in_use n' = in_use n" "nic_on_receive (sock_ops E) ?u data (n, p) = (n', e')"
    have "sock_receive E (on_quadrant_change d E) upd data p = ?q"
      unfolding sock_receive_def Some option.case i(2) by simp
    then show ?thesis using q up i(1) by (simp add: received_def)
  next
    fix i prot
    assume i: "i \<notin> in_use n" "in_use n' = insert i (in_use n)" "frame_src (b_data (n_buffers n' ! i)) = frame_src data"
      and r: "nic_on_receive (sock_ops E) ?u data (n, p) = nic_notify ?u prot i (n', e')"
    have us: "without (SockBuf i) (usage ?q) = usage p" "held (SockBuf i) ?q" "\<not> held (SockBuf i) p"
      using i(1,2) q(3,4) up Some by (auto simp: without_def held_def)
    have one: "\<forall>port. length (targets_of port (pr_observed ?q)) \<le> 1" using p by (simp add: wired_def e)
    have ext: "frame_src (b_data (buffer_at (SockBuf i) ?q)) \<noteq> INTERNAL \<or> (\<exists>j. SockBuf i = ShmBuf j)"
      using i(3) src by (simp add: buffer_at_def)
    have "single (n_observers n')" using n'(2) ok(3) by simp
    from notify_single [OF this, of ?u prot i e'] show ?thesis
    proof (elim disjE exE)
      assume f: "nic_notify ?u prot i (n', e') = (nic_free i n', e')"
      have "sock_receive E (on_quadrant_change d E) upd data p = free_buffer (SockBuf i) ?q"
        using q(1) unfolding sock_receive_def Some option.case r f by (simp add: free_buffer_def chan_ok_def)
      then show ?thesis using settled_received [OF freed_settled [OF q(1) us(2)] us(2,3,1) q(2,5)] by simp
    next
      fix ob
      assume f: "nic_notify ?u prot i (n', e') = ?u ob prot i (n', e')"
      note acc = update_accounts [OF q(1) us(2) upd E one ext, of d]
      let ?p' = "protocol_update E (on_quadrant_change d E) upd (SockBuf i) ?q"
      have "snd (usage ?p') \<noteq> None" using acc us(1) q(4) up by (auto simp: settled_def)
      then obtain m where m: "pr_sock ?p' = Some m" by (auto simp: usage_def)
      have "sock_receive E (on_quadrant_change d E) upd data p = ?p'"
        unfolding sock_receive_def Some option.case r f using m by (simp add: Let_def)
      then show ?thesis using settled_received [OF acc us(2,3,1) q(2,5)] by simp
    qed
  qed
qed

lemma send_via_bus_keeps:
  assumes p: "chan_ok p" and dst: "mac_ok (a_paddr dst)"
    and send: "send_via_bus E src dst data ts kind p = (r, tx, p')"
  shows "keeps_buffers p p'"
proof -
  have pool: "pool_ok (pr_shm p)" using p by (simp add: chan_ok_def)
  obtain a n1 where al: "nic_alloc (a_paddr dst) PROTO (HEADER_LEN + length data) (pr_shm p) = (a, n1)"
    by (cases "nic_alloc (a_paddr dst) PROTO (HEADER_LEN + length data) (pr_shm p)")
  note n1 = nic_alloc_pool [OF pool dst al]
  have ob: "n_observers n1 = n_observers (pr_shm p)" using nic_alloc_keeps [OF pool dst al] by blast
  show ?thesis
  proof (cases a)
    case None
    then show ?thesis using send p al n1 ob
      by (auto simp: send_via_bus_def keeps_buffers_def wiring_def chan_ok_def usage_def sock_ok_def)
  next
    case i: (Some i)
    obtain now x where now: "en_now E (pr_env p) = (now, x)" by (cases "en_now E (pr_env p)")
    let ?n2 = "upd_buffer i (fill_buffer src dst kind data (if ts \<noteq> 0 then ts else now)) n1"
    have i': "i \<notin> in_use (pr_shm p)" "i < BUFFER_SIZE" "HEADER_LEN + length data \<le> MTU" using n1(3) [OF i] by auto
    have n2: "pool_ok ?n2" by (rule filled_pool [OF n1(1) i'(2,3)])
    obtain r' q where sd: "bus_send E i (p\<lparr>pr_shm := ?n2, pr_env := x\<rparr>) = (r', q)"
      by (cases "bus_send E i (p\<lparr>pr_shm := ?n2, pr_env := x\<rparr>)")
    have "i \<in> in_use ?n2" using n1(2) i by simp
    then have "pool_ok (pr_shm q) \<and> in_use (pr_shm q) = in_use (pr_shm p) \<and> pr_sock q = pr_sock p
       \<and> pr_instance q = pr_instance p \<and> pr_observed q = pr_observed p \<and> pr_sptp q = pr_sptp p
       \<and> n_observers (pr_shm q) = n_observers (pr_shm p)"
      using bus_send_accounts [OF _ _ sd] n2 n1(2) i i'(1) ob by simp
    moreover have "p' = q" using send al i now sd by (simp add: send_via_bus_def Let_def)
    ultimately show ?thesis using p by (simp add: keeps_buffers_def wiring_def chan_ok_def usage_def sock_ok_def)
  qed
qed

lemma send_keeps:
  assumes p: "chan_ok p" and dst: "mac_ok (a_paddr dst)"
    and send: "protocol_send E (on_quadrant_change d E) src dst data ts kind p = (r, tx, p')"
  shows "keeps_buffers p p'"
proof (cases "pr_sock p \<noteq> None \<and> \<not> is_internal dst")
  case True
  have "sock_ok p" using p by (simp add: chan_ok_def)
  then have "net_step (\<lambda>s. s) p p'" using on_change.protocol_send_net [OF _ dst _ _ send] True by blast
  then show ?thesis using net_step_usage p by (auto simp: keeps_buffers_def)
next
  case False
  then have "send_via_bus E src dst data ts kind p = (r, tx, p')"
    using send p by (auto simp: protocol_send_def chan_ok_def)
  then show ?thesis by (rule send_via_bus_keeps [OF p dst])
qed

subsection \<open>A new process\<close>

lemma spatial_pool [simp]:
  "pool_ok (setup_quadrant n) = pool_ok n" "in_use (setup_quadrant n) = in_use n"
  "n_observers (setup_quadrant n) = n_observers n"
  by (simp_all add: setup_quadrant_def pool_ok_def in_use_def)

lemma new_protocol_wired:
  fixes obs :: "('o, u16) observers"
  assumes "length bufs = BUFFER_SIZE" and "\<forall>b \<in> set bufs. frame_ok (b_data b) \<and> b_size b \<le> MTU"
    and "length bufs' = BUFFER_SIZE" and "\<forall>b \<in> set bufs'. frame_ok (b_data b) \<and> b_size b \<le> MTU"
    and "mac_ok mac" and "\<forall>port. length (targets_of port obs) \<le> 1"
  shows "wired (new_protocol attached ring bufs bufs' mac raw obs x conf)"
    and "usage (new_protocol attached ring bufs bufs' mac raw obs x conf)
      = ({}, if is_gateway_process conf then Some {} else None)"
proof -
  have m: "mac_ok shm_address" by (simp add: shm_address_def mac_ok_def)
  have a: "pool_ok (nic_init shm_address bufs :: unit nic)" "in_use (nic_init shm_address bufs :: unit nic) = {}"
    by (rule pool_ok_init [OF m assms(1,2)])+
  have b: "pool_ok (nic_init mac bufs' :: unit nic)" "in_use (nic_init mac bufs' :: unit nic) = {}"
    by (rule pool_ok_init [OF assms(5,3,4)])+
  have s: "single (n_observers (nic_attach () PROTO (nic_init mac' bs)))" for mac' bs
    by (simp add: single_def nic_attach_def cdo_attach_def nic_init_def)
  show "wired (new_protocol attached ring bufs bufs' mac raw obs x conf)"
    using a(1) b(1) s assms(6)
    by (simp add: wired_def new_protocol_def protocol_init_def chan_ok_def sock_ok_def)
      (simp add: nic_attach_def)
  show "usage (new_protocol attached ring bufs bufs' mac raw obs x conf)
      = ({}, if is_gateway_process conf then Some {} else None)"
    using a(2) b(2) by (simp add: usage_def new_protocol_def protocol_init_def nic_attach_def)
qed

subsection \<open>Two component processes\<close>

definition node_env :: "(nat, u8 list list, (u8 list \<times> u16 \<times> u16) list, nat \<times> (bufref, unit) process) env" where
  "node_env = \<lparr>en_sendto = (\<lambda>bs net. (int (length bs), net @ [bs])), en_gps = (\<lambda>g. (2, g)),
     en_bus = (\<lambda>bs wr fl r. (int (length bs), r @ [(bs, wr, fl)])), en_now = (\<lambda>(x, c). (int x, x + 1, c)),
     en_clocks = (\<lambda>x. (demo_clocks, x)), en_settime = (\<lambda>_ x. x), en_presence = (\<lambda>_ x. x)\<rparr>"

text \<open>The process of slot 1 with one SmartData, constructed as the code does.\<close>

definition demo_node :: "smart_data \<Rightarrow> (nat, u8 list list, (u8 list \<times> u16 \<times> u16) list, nat) node" where
  "demo_node sd = new_protocol True [] blank_buffers blank_buffers demo_mac
     \<lparr>r_sockfd = 3, r_ifindex = 2, r_gps = 0, r_net = []\<rparr> [((), a_port logical_broadcast)]
     (0, smart_attach 0 \<lparr>cm_address = \<lparr>a_paddr = INTERNAL, a_port = 257\<rparr>, cm_subscribed = True, cm_observers = [],
        cm_queue = \<lparr>q_sem = 0, q_data = []\<rparr>, cm_heap = \<lparr>h_cells = [], h_deleted = []\<rparr>, cm_stamp = 0, cm_channel = (), cm_clients = [sd]\<rparr>)
     (Some \<lparr>cf_context = \<lparr>shmid = 7, semid = 9\<rparr>, cf_slot = 1, cf_port = 257\<rparr>)"

lemma demo_node_ok: "listens 0 (demo_node sd)" "can_send (demo_node sd)" "node_smart 0 (demo_node sd) = sd"
  "cm_stamp (snd (pr_env (demo_node sd))) = 0"
proof -
  have b: "length blank_buffers = BUFFER_SIZE" "\<forall>b \<in> set blank_buffers. frame_ok (b_data b) \<and> b_size b \<le> MTU"
    by (simp_all add: blank_buffers_def frame_ok_def)
  have one: "\<forall>port. length (targets_of port [((), a_port logical_broadcast)]) \<le> 1" by (simp add: targets_of_def)
  have "wired (demo_node sd)" unfolding demo_node_def by (rule new_protocol_wired(1) [OF b b macs(2) one])
  then have ok: "chan_ok (demo_node sd)" by (simp add: wired_def)
  have "usage (demo_node sd) = ({}, None)"
    unfolding demo_node_def by (subst new_protocol_wired(2) [OF b b macs(2) one])
      (simp add: is_gateway_process_def GATEWAY_SLOT_def)
  then have u: "in_use (pr_shm (demo_node sd)) = {}" "pr_sock (demo_node sd) = None"
    by (auto simp: usage_def split: option.splits)
  have "{} \<noteq> {..<BUFFER_SIZE}" by (rule not_sym) (simp add: buffer_consts lessThan_empty_iff)
  then have f: "in_use (pr_shm (demo_node sd)) \<noteq> {..<BUFFER_SIZE}" using u(1) by simp
  have x: "pr_env (demo_node sd) = (0, smart_attach 0 \<lparr>cm_address = \<lparr>a_paddr = INTERNAL, a_port = 257\<rparr>, cm_subscribed = True,
        cm_observers = [], cm_queue = \<lparr>q_sem = 0, q_data = []\<rparr>, cm_heap = \<lparr>h_cells = [], h_deleted = []\<rparr>, cm_stamp = 0,
        cm_channel = (), cm_clients = [sd]\<rparr>)"
    "pr_observed (demo_node sd) = [((), a_port logical_broadcast)]"
    "targets_of PROTO (n_observers (pr_shm (demo_node sd))) = [()]" "\<not> n_spatial (pr_shm (demo_node sd))"
    "pr_shm_eng (demo_node sd) = \<lparr>sp_attached = True, sp_slot = 1, sp_ring = []\<rparr>"
    by (simp_all add: demo_node_def new_protocol_def protocol_init_def nic_attach_def cdo_attach_def nic_init_def targets_of_def)
  show "node_smart 0 (demo_node sd) = sd" "cm_stamp (snd (pr_env (demo_node sd))) = 0"
    by (simp_all add: node_smart_def x(1) smart_attach_def)
  show "listens 0 (demo_node sd)"
    using ok u f x(3) by (simp add: listens_def x(1,2) smart_attach_def co_attach_def targets_of_def)
  show "can_send (demo_node sd)"
    using ok u f x(4) by (simp add: can_send_def chan_ok_def x(5) GATEWAY_SLOT_def)
qed

lemma reading_crosses_vehicle_witness:
  "\<exists>bytes. writes_to_bus node_env bytes (demo_node demo_producer) (node_respond node_env (\<lambda>p. p) 7 42 0 (demo_node demo_producer))
     \<and> smart_value (node_smart 0 (node_receive node_env (\<lambda>p. p) 8 9 (0, 0) bytes (demo_node (smart_blank SPEED)))) = 42"
proof -
  have st: "in_i64 (stamp_of 7 (cm_stamp (snd (pr_env (demo_node sd)))))" "stamp_of 7 (cm_stamp (snd (pr_env (demo_node sd)))) \<noteq> 0" for sd
    by (simp_all add: demo_node_ok stamp_of_def in_i64_def)
  have u: "sd_role (smart_blank SPEED) = CONSUMER" "sd_unit (smart_blank SPEED) = SPEED" "sd_unit demo_producer = SPEED"
    by (simp_all add: smart_blank_def demo_producer_def)
  show ?thesis
    using reading_crosses_vehicle [OF demo_node_ok(2) [of demo_producer] st, where E = node_env and h = "\<lambda>p. p" and v = 42
        and i = 0 and n = 8 and n' = 9] demo_node_ok(1,3) u by metis
qed

lemma interest_crosses_vehicle_witness:
  "\<exists>bytes t'. writes_to_bus node_env bytes (demo_node ((smart_blank SPEED)\<lparr>sd_period_us := 100\<rparr>))
       (node_interest node_env (\<lambda>p. p) 7 0 (demo_node ((smart_blank SPEED)\<lparr>sd_period_us := 100\<rparr>)))
     \<and> sd_cache (node_smart 0 (node_receive node_env (\<lambda>p. p) 8 9 (0, 0) bytes (demo_node demo_producer))) = Some t'
     \<and> interests t' (SPEED, sender_address (opened (demo_node ((smart_blank SPEED)\<lparr>sd_period_us := 100\<rparr>))))
         = Some (100, expiry_for 8 100 t')"
proof -
  let ?c = "(smart_blank SPEED)\<lparr>sd_period_us := 100\<rparr>"
  have st: "in_i64 (stamp_of 7 (cm_stamp (snd (pr_env (demo_node sd)))))" "stamp_of 7 (cm_stamp (snd (pr_env (demo_node sd)))) \<noteq> 0" for sd
    by (simp_all add: demo_node_ok stamp_of_def in_i64_def)
  have p: "sd_period_us (node_smart 0 (demo_node ?c)) \<noteq> 0" by (simp add: demo_node_ok)
  obtain t where u: "sd_role demo_producer = PRODUCER" "sd_unit demo_producer = sd_unit ?c" "sd_cache demo_producer = Some t"
    "distinct (map b_key (bc_bindings t))"
    by (simp add: smart_blank_def demo_producer_def binding_cache_init_def)
  obtain bytes where w: "writes_to_bus node_env bytes (demo_node ?c) (node_interest node_env (\<lambda>p. p) 7 0 (demo_node ?c))"
    and r: "\<forall>r j junk t. listens j r \<and> sd_role (node_smart j r) = PRODUCER \<and> sd_unit (node_smart j r) = sd_unit (node_smart 0 (demo_node ?c))
          \<and> sd_cache (node_smart j r) = Some t \<and> distinct (map b_key (bc_bindings t)) \<longrightarrow>
          (\<exists>t'. sd_cache (node_smart j (node_receive node_env (\<lambda>p. p) 8 9 junk bytes r)) = Some t'
             \<and> interests t' (sd_unit (node_smart 0 (demo_node ?c)), sender_address (opened (demo_node ?c)))
               = Some (sd_period_us (node_smart 0 (demo_node ?c)), expiry_for 8 (sd_period_us (node_smart 0 (demo_node ?c))) t'))"
    using interest_crosses_vehicle [OF demo_node_ok(2) st p, where E = node_env and h = "\<lambda>p. p" and n = 8 and n' = 9] by blast
  show ?thesis
    using w r [rule_format, of 0 "demo_node demo_producer" t "(0, 0)"] u demo_node_ok(1,3)
    by (intro exI [of _ bytes]) (simp add: smart_blank_def)
qed

end
