(* ===== verification/Journey.thy ===== *)
theory Journey
  imports Node
begin

section \<open>From one vehicle to another\<close>

text \<open>
  The gateway processes of two vehicles (\<open>src/channel/protocol.h\<close>, \<open>update\<close>, reached from the two
  NICs) between the process that sends and the one that receives: what leaves the first vehicle,
  what the second writes to its bus, and the two paths put together.
\<close>

subsection \<open>A gateway that relays\<close>

text \<open>
  Both NICs with a free buffer and observed by the protocol, the bus joined under the gateway's
  slot, and no communicator in the process.
\<close>

definition relays :: "('o, 'g, 'n, 'r, 'x) proto \<Rightarrow> bool" where
  "relays p \<longleftrightarrow> chan_ok p \<and> in_use (pr_shm p) \<noteq> {..<BUFFER_SIZE} \<and> \<not> n_spatial (pr_shm p)
     \<and> targets_of PROTO (n_observers (pr_shm p)) = [()]
     \<and> (case pr_sock p of None \<Rightarrow> False
        | Some n \<Rightarrow> in_use n \<noteq> {..<BUFFER_SIZE} \<and> n_spatial n \<and> targets_of PROTO (n_observers n) = [()])
     \<and> sp_attached (pr_shm_eng p) \<and> sp_slot (pr_shm_eng p) = unat GATEWAY_SLOT
     \<and> a_paddr (pr_address p) = shm_address \<and> \<not> has_observer (a_port logical_broadcast) (pr_observed p)"

definition station :: "('o, 'g, 'n, 'r, 'x) proto \<Rightarrow> mac" where
  "station p = (case pr_sock p of Some n \<Rightarrow> n_address n | None \<Rightarrow> a_paddr (pr_address p))"

definition quadrant_of :: "('g, 'n, 'r, 'x) env \<Rightarrow> ('o, 'g, 'n, 'r, 'x) proto \<Rightarrow> u8" where
  "quadrant_of E p = fst (en_gps E (r_gps (pr_raw p)))"

text \<open>\<open>out\<close> is the last frame handed to the socket on the way to \<open>p'\<close>.\<close>

definition sends_to_network ::
  "('g, 'n, 'r, 'x) env \<Rightarrow> u8 list \<Rightarrow> ('o, 'g, 'n, 'r, 'x) proto \<Rightarrow> bool" where
  "sends_to_network E out p' \<longleftrightarrow> (\<exists>net r. raw_send (en_sendto E) out ((pr_raw p')\<lparr>r_net := net\<rparr>) = (r, pr_raw p'))"

text \<open>The gateway's writing of a frame to its bus.\<close>

definition relays_to_bus ::
  "('g, 'n, 'r, 'x) env \<Rightarrow> u8 list \<Rightarrow> ('o, 'g, 'n, 'r, 'x) proto \<Rightarrow> ('o, 'g, 'n, 'r, 'x) proto \<Rightarrow> bool"
where
  "relays_to_bus E bytes p p' \<longleftrightarrow> pr_shm_eng p' = (pr_shm_eng p)\<lparr>sp_ring := snd (en_bus E bytes
     GATEWAY_WRITER DELIVER_TO_COMPONENTS (sp_ring (pr_shm_eng p)))\<rparr>"

lemma gateway_sends_out:
  fixes E :: "('g, 'n, 'r, 'x) env" and p :: "('o, 'g, 'n, 'r, 'x) proto"
  assumes g: "relays p" and fr: "data_frame sp (a_port logical_broadcast) k ts data bytes"
    and own: "frame_src bytes = shm_address" "frame_dst bytes = BROADCAST"
  shows "\<exists>out. sends_to_network E out (bus_receive E (on_quadrant_change d E) upd bytes p)
     \<and> data_frame sp (a_port logical_broadcast) k ts data out
     \<and> hdr_quadrant (drop HEADER_SIZE out) = quadrant_of E p \<and> frame_src out = station p"
proof -
  obtain n where n: "pr_sock p = Some n" "in_use n \<noteq> {..<BUFFER_SIZE}" "n_spatial n"
    using g by (auto simp: relays_def split: option.splits)
  have p: "chan_ok p" "in_use (pr_shm p) \<noteq> {..<BUFFER_SIZE}" "targets_of PROTO (n_observers (pr_shm p)) = [()]"
    "a_paddr (pr_address p) = shm_address" "\<not> has_observer (a_port logical_broadcast) (pr_observed p)"
    using g by (simp_all add: relays_def)
  obtain i m where m: "i \<notin> in_use (pr_shm p)" "in_use m = insert i (in_use (pr_shm p))" "pool_ok m"
    "holds_frame bytes (ShmBuf i) (p\<lparr>pr_shm := m\<rparr>)"
    and rc: "bus_receive E (on_quadrant_change d E) upd bytes p
      = protocol_update E (on_quadrant_change d E) upd (ShmBuf i) (p\<lparr>pr_shm := m\<rparr>)"
    using bus_frame_arrives [OF p(1-3) fr, of E "on_quadrant_change d E" upd] by blast
  let ?q = "p\<lparr>pr_shm := m\<rparr>" and ?b = "n_buffers m ! i"
  have bq: "buffer_at (ShmBuf i) ?q = ?b" by (simp add: buffer_at_def)
  note h = held_frame_fields [OF m(4) fr, unfolded bq]
  obtain g' where gps: "en_gps E (r_gps (pr_raw ?q)) = (quadrant_of E p, g')"
    by (cases "en_gps E (r_gps (pr_raw p))") (simp add: quadrant_of_def)
  have ok: "sock_ok ?q" "pr_instance ?q" "pool_ok (pr_shm ?q)" "i \<in> in_use (pr_shm ?q)" "pr_sock ?q = Some n"
    using p(1) m(2,3) n(1) by (simp_all add: chan_ok_def sock_ok_def)
  have b: "b_data (n_buffers (pr_shm ?q) ! i) = b_data ?b" "b_size (n_buffers (pr_shm ?q) ! i) = b_size ?b" by simp_all
  have own': "frame_src (b_data ?b) = a_paddr (pr_address ?q)" "frame_dst (b_data ?b) = BROADCAST"
    "\<not> has_observer (hdr_dst_port (payload (b_data ?b))) (pr_observed ?q)"
    using h own p(4,5) by simp_all
  obtain out net r where o: "raw_send (en_sendto E) out ((pr_raw (bus_receive E (on_quadrant_change d E) upd bytes p))\<lparr>r_net := net\<rparr>)
      = (r, pr_raw (bus_receive E (on_quadrant_change d E) upd bytes p))"
    "length out = HEADER_SIZE + b_size ?b" "frame_src out = n_address n" "frame_type out = PROTO"
    "drop HEADER_SIZE out = take (b_size ?b) (set_quadrant (quadrant_of E p) (payload (b_data ?b)))"
    using bus_broadcast_result [OF ok(1-5) n(2,3) b h(1) own' gps, of d upd] unfolding rc by blast
  have "drop HEADER_SIZE out = set_quadrant (quadrant_of E p) (drop HEADER_SIZE bytes)"
    using o(5) h(7) by (simp add: take_set_quadrant)
  moreover have "length out = length bytes" using o(2) h(6) by simp
  ultimately have "data_frame sp (a_port logical_broadcast) k ts data out"
    "hdr_quadrant (drop HEADER_SIZE out) = quadrant_of E p"
    using data_frame_forwarded [OF fr _ o(4)] by simp_all
  then show ?thesis using o(1,3) n(1) unfolding sends_to_network_def by (intro exI [of _ out]) (auto simp: station_def)
qed

lemma gateway_lets_in:
  fixes E :: "('g, 'n, 'r, 'x) env" and p :: "('o, 'g, 'n, 'r, 'x) proto"
  assumes g: "relays p" and fr: "data_frame sp (a_port logical_broadcast) DATA ts data bytes"
    and src: "frame_src bytes \<noteq> station p"
    and quad: "\<not> other_quadrant (quadrant_of E p) (hdr_quadrant (drop HEADER_SIZE bytes))"
  shows "relays_to_bus E bytes p (sock_receive E h upd bytes p)"
proof -
  obtain n where n: "pr_sock p = Some n" "in_use n \<noteq> {..<BUFFER_SIZE}" "targets_of PROTO (n_observers n) = [()]" "n_spatial n"
    using g by (auto simp: relays_def split: option.splits)
  have p: "chan_ok p" "in_use (pr_shm p) \<noteq> {..<BUFFER_SIZE}" "\<not> n_spatial (pr_shm p)"
    "sp_attached (pr_shm_eng p)" "sp_slot (pr_shm_eng p) = unat GATEWAY_SLOT"
    "\<not> has_observer (a_port logical_broadcast) (pr_observed p)"
    using g by (simp_all add: relays_def)
  have s: "frame_src bytes \<noteq> n_address n" using src n(1) by (simp add: station_def)
  obtain i m e where m: "i \<notin> in_use n" "in_use m = insert i (in_use n)" "pool_ok m"
    "holds_frame bytes (SockBuf i) (p\<lparr>pr_raw := e, pr_sock := Some m\<rparr>)"
    and rc: "pr_sock (protocol_update E h upd (SockBuf i) (p\<lparr>pr_raw := e, pr_sock := Some m\<rparr>)) \<noteq> None \<longrightarrow>
      sock_receive E h upd bytes p = protocol_update E h upd (SockBuf i) (p\<lparr>pr_raw := e, pr_sock := Some m\<rparr>)"
    using sock_frame_arrives [OF p(1) n fr s quad [unfolded quadrant_of_def], of h upd] by blast
  let ?q = "p\<lparr>pr_raw := e, pr_sock := Some m\<rparr>" and ?b = "n_buffers m ! i"
  have bq: "buffer_at (SockBuf i) ?q = ?b" by (simp add: buffer_at_def)
  note h = held_frame_fields [OF m(4) fr, unfolded bq]
  have all: "take (HEADER_SIZE + b_size ?b) (b_data ?b) = bytes"
    using m(4) h(6) by (simp add: holds_frame_def bq)
  have k: "kind_of_byte (hdr_kind (payload (b_data ?b))) = None"
    unfolding h(3) by (simp add: kind_of_byte_def)
  have shm: "pool_ok (pr_shm ?q)" "in_use (pr_shm ?q) \<noteq> {..<BUFFER_SIZE}" "\<not> n_spatial (pr_shm ?q)"
    "sp_attached (pr_shm_eng ?q)" "sp_slot (pr_shm_eng ?q) = unat GATEWAY_SLOT" "pr_instance ?q" "pr_sock ?q = Some m" "i \<in> in_use m"
    using p m(2) by (simp_all add: chan_ok_def)
  have none: "\<not> has_observer (hdr_dst_port (payload (b_data ?b))) (pr_observed ?q)" using p(6) h(2) by simp
  obtain m' where "protocol_update E h upd (SockBuf i) ?q
      = ?q\<lparr>pr_shm := m', pr_shm_eng := (pr_shm_eng ?q)\<lparr>sp_ring := snd (en_bus E bytes
             GATEWAY_WRITER DELIVER_TO_COMPONENTS (sp_ring (pr_shm_eng ?q)))\<rparr>, pr_sock := Some (nic_free i m)\<rparr>"
    using network_frame_result [OF shm(1-7) m(3) shm(8) h(1) k none, of E h upd] unfolding all by blast
  then show ?thesis using rc by (simp add: relays_to_bus_def)
qed

lemma gateway_keeps_out:
  fixes E :: "('g, 'n, 'r, 'x) env" and p :: "('o, 'g, 'n, 'r, 'x) proto"
  assumes g: "relays p" and fr: "data_frame sp (a_port logical_broadcast) DATA ts data bytes"
    and src: "frame_src bytes \<noteq> station p"
    and quad: "other_quadrant (quadrant_of E p) (hdr_quadrant (drop HEADER_SIZE bytes))"
  shows "pr_shm_eng (sock_receive E h upd bytes p) = pr_shm_eng p" "usage (sock_receive E h upd bytes p) = usage p"
proof -
  obtain n where n: "pr_sock p = Some n" "in_use n \<noteq> {..<BUFFER_SIZE}" "n_spatial n"
    using g by (auto simp: relays_def split: option.splits)
  have "chan_ok p" "frame_src bytes \<noteq> n_address n" using g src n(1) by (simp_all add: relays_def station_def)
  then obtain e m where "sock_receive E h upd bytes p = p\<lparr>pr_raw := e, pr_sock := Some m\<rparr>" "in_use m = in_use n"
    using sock_frame_filtered [OF _ n fr _ quad [unfolded quadrant_of_def], of h upd] by blast
  then show "pr_shm_eng (sock_receive E h upd bytes p) = pr_shm_eng p" "usage (sock_receive E h upd bytes p) = usage p"
    using n(1) by (simp_all add: usage_def)
qed

text \<open>What \<open>Protocol\<close>'s constructor builds in a vehicle's gateway process relays.\<close>

lemma new_gateway_relays:
  fixes raw :: "('g, 'n) raw_engine" and ring :: 'r and x :: 'x and ctx
  assumes "length bufs = BUFFER_SIZE" and "\<forall>b \<in> set bufs. frame_ok (b_data b) \<and> b_size b \<le> MTU"
    and "length bufs' = BUFFER_SIZE" and "\<forall>b \<in> set bufs'. frame_ok (b_data b) \<and> b_size b \<le> MTU"
    and "mac_ok mac"
  defines "p \<equiv> new_protocol True ring bufs bufs' mac raw ([] :: ('o, u16) observers) x (Some (gateway_configuration ctx))"
  shows "relays p" "station p = mac" "quadrant_of E p = fst (en_gps E (r_gps raw))"
proof -
  have one: "\<forall>port. length (targets_of port ([] :: ('o, u16) observers)) \<le> 1" by simp
  have g: "is_gateway_process (Some (gateway_configuration ctx))"
    by (simp add: is_gateway_process_def gateway_configuration_def)
  have "wired p" unfolding p_def by (rule new_protocol_wired(1) [OF assms(1-5) one])
  moreover have "usage p = ({}, Some {})"
    unfolding p_def by (subst new_protocol_wired(2) [OF assms(1-5) one]) (simp add: g)
  ultimately have ok: "chan_ok p" "in_use (pr_shm p) = {}" "\<exists>n. pr_sock p = Some n \<and> in_use n = {}"
    by (auto simp: wired_def usage_def)
  have ne: "{} \<noteq> {..<BUFFER_SIZE}" by (rule not_sym) (simp add: buffer_consts lessThan_empty_iff)
  have sock: "pr_sock p = Some (setup_quadrant (nic_attach () PROTO (nic_init mac bufs')))"
    using g by (simp add: p_def new_protocol_def protocol_init_def)
  have f: "n_spatial (setup_quadrant (nic_attach () PROTO (nic_init mac bufs')))"
    "targets_of PROTO (n_observers (setup_quadrant (nic_attach () PROTO (nic_init mac bufs')))) = [()]"
    "n_address (setup_quadrant (nic_attach () PROTO (nic_init mac bufs' :: unit nic))) = mac"
    by (simp_all add: setup_quadrant_def nic_attach_def cdo_attach_def nic_init_def)
  have b: "\<not> n_spatial (pr_shm p)" "targets_of PROTO (n_observers (pr_shm p)) = [()]" "sp_attached (pr_shm_eng p)"
    "sp_slot (pr_shm_eng p) = unat GATEWAY_SLOT" "a_paddr (pr_address p) = shm_address" "pr_observed p = []" "pr_raw p = raw"
    by (simp_all add: p_def new_protocol_def protocol_init_def nic_attach_def cdo_attach_def nic_init_def gateway_configuration_def)
  show "relays p" using ok ne sock f(1,2) b(1-6) by (simp add: relays_def)
  show "station p = mac" using sock f(3) by (simp add: station_def)
  show "quadrant_of E p = fst (en_gps E (r_gps raw))" using b(7) by (simp add: quadrant_of_def)
qed

subsection \<open>The whole path\<close>

text \<open>What happens to a component's broadcast between its bus and the bus of another vehicle.\<close>

lemma frame_between_vehicles:
  fixes ga :: "('o1, 'g1, 'n1, 'r1, 'x1) proto" and gb :: "('o2, 'g2, 'n2, 'r2, 'x2) proto"
  assumes "relays ga" and "relays gb" and "station ga \<noteq> station gb"
    and "data_frame sp (a_port logical_broadcast) DATA ts data bytes"
    and "frame_src bytes = shm_address" and "frame_dst bytes = a_paddr logical_broadcast"
  shows "\<exists>out. sends_to_network G out (bus_receive G (on_quadrant_change d G) upd bytes ga)
     \<and> data_frame sp (a_port logical_broadcast) DATA ts data out \<and> frame_src out = station ga
     \<and> (if other_quadrant (quadrant_of F gb) (quadrant_of G ga)
        then pr_shm_eng (sock_receive F h' upd' out gb) = pr_shm_eng gb \<and> usage (sock_receive F h' upd' out gb) = usage gb
        else relays_to_bus F out gb (sock_receive F h' upd' out gb))"
proof -
  have dst: "frame_dst bytes = BROADCAST"
    using assms(6) by (simp add: logical_broadcast_def physical_broadcast_def)
  obtain out where o: "sends_to_network G out (bus_receive G (on_quadrant_change d G) upd bytes ga)"
    "data_frame sp (a_port logical_broadcast) DATA ts data out"
    "hdr_quadrant (drop HEADER_SIZE out) = quadrant_of G ga" "frame_src out = station ga"
    using gateway_sends_out [OF assms(1,4,5) dst] by blast
  have src: "frame_src out \<noteq> station gb" using o(4) assms(3) by simp
  show ?thesis
    using gateway_keeps_out [OF assms(2) o(2) src, of F h' upd'] gateway_lets_in [OF assms(2) o(2) src, of F h' upd'] o
    by (intro exI [of _ out]) simp
qed

text \<open>C6. A reading of a producer in one vehicle and the consumers of its unit in another: the frame
  the producer's process writes to its bus leaves the vehicle through its gateway with the data
  unchanged; the gateway of the other vehicle writes it to the other bus exactly when the two
  are not known to be in different quadrants, and otherwise leaves that bus and its buffers as they
  were; and any process that is given that frame by its bus reads the value that was sent.\<close>

theorem reading_crosses_network:
  fixes ga :: "('o1, 'g1, 'n1, 'r1, 'x1) proto" and gb :: "('o2, 'g2, 'n2, 'r2, 'x2) proto"
  assumes "can_send p" and "in_i64 (stamp_of now (cm_stamp (snd (pr_env p))))"
    and "stamp_of now (cm_stamp (snd (pr_env p))) \<noteq> 0" and "n_address (pr_shm p) = shm_address"
    and "relays ga" and "relays gb" and "station ga \<noteq> station gb"
  shows "\<exists>bytes out. writes_to_bus E bytes p (node_respond E h now v i p)
     \<and> sends_to_network G out (bus_receive G (on_quadrant_change d G) upd bytes ga)
     \<and> (if other_quadrant (quadrant_of F gb) (quadrant_of G ga)
        then pr_shm_eng (sock_receive F h' upd' out gb) = pr_shm_eng gb \<and> usage (sock_receive F h' upd' out gb) = usage gb
        else relays_to_bus F out gb (sock_receive F h' upd' out gb))
     \<and> (\<forall>r j junk. listens j r \<and> sd_role (node_smart j r) = CONSUMER \<and> sd_unit (node_smart j r) = sd_unit (node_smart i p)
          \<longrightarrow> smart_value (node_smart j (node_receive H h'' n n' junk out r)) = v)"
proof -
  let ?sp = "a_port (cm_address (snd (pr_env p)))" and ?ts = "stamp_of now (cm_stamp (snd (pr_env p)))"
  obtain bytes where b: "writes_to_bus E bytes p (node_respond E h now v i p)"
    "data_frame ?sp (a_port logical_broadcast) DATA ?ts (response_bytes v (node_smart i p)) bytes"
    "frame_src bytes = n_address (pr_shm p)" "frame_dst bytes = a_paddr logical_broadcast"
    using node_writes(1) [OF assms(1-3), of E h v i] by blast
  obtain out where o: "sends_to_network G out (bus_receive G (on_quadrant_change d G) upd bytes ga)"
    "data_frame ?sp (a_port logical_broadcast) DATA ?ts (response_bytes v (node_smart i p)) out"
    "if other_quadrant (quadrant_of F gb) (quadrant_of G ga)
     then pr_shm_eng (sock_receive F h' upd' out gb) = pr_shm_eng gb \<and> usage (sock_receive F h' upd' out gb) = usage gb
     else relays_to_bus F out gb (sock_receive F h' upd' out gb)"
    using frame_between_vehicles [OF assms(5-7) b(2) b(3) [unfolded assms(4)] b(4)] by blast
  have "smart_value (node_smart j (node_receive H h'' n n' junk out r)) = v"
    if "listens j r" "sd_role (node_smart j r) = CONSUMER" "sd_unit (node_smart j r) = sd_unit (node_smart i p)" for r j junk
    by (rule node_reads_response [OF that(1) o(2) that(2,3)])
  then show ?thesis using b(1) o(1,3) by (intro exI [of _ bytes] exI [of _ out]) blast
qed

text \<open>C7. An interest announced in one vehicle enters the table of the producer of its unit in another, under
  the MAC of the announcing vehicle's gateway and the port of the announcing component, by the same
  path and under the same condition on the quadrants.\<close>

theorem interest_crosses_network:
  fixes ga :: "('o1, 'g1, 'n1, 'r1, 'x1) proto" and gb :: "('o2, 'g2, 'n2, 'r2, 'x2) proto"
  assumes "can_send p" and "in_i64 (stamp_of now (cm_stamp (snd (pr_env p))))"
    and "stamp_of now (cm_stamp (snd (pr_env p))) \<noteq> 0" and "n_address (pr_shm p) = shm_address"
    and "sd_period_us (node_smart i p) \<noteq> 0" and "relays ga" and "relays gb" and "station ga \<noteq> station gb"
  shows "\<exists>bytes out. writes_to_bus E bytes p (node_interest E h now i p)
     \<and> sends_to_network G out (bus_receive G (on_quadrant_change d G) upd bytes ga)
     \<and> (if other_quadrant (quadrant_of F gb) (quadrant_of G ga)
        then pr_shm_eng (sock_receive F h' upd' out gb) = pr_shm_eng gb \<and> usage (sock_receive F h' upd' out gb) = usage gb
        else relays_to_bus F out gb (sock_receive F h' upd' out gb))
     \<and> (\<forall>r j junk t. listens j r \<and> sd_role (node_smart j r) = PRODUCER \<and> sd_unit (node_smart j r) = sd_unit (node_smart i p)
          \<and> sd_cache (node_smart j r) = Some t \<and> distinct (map b_key (bc_bindings t)) \<longrightarrow>
          (\<exists>t'. sd_cache (node_smart j (node_receive H h'' n n' junk out r)) = Some t'
             \<and> interests t' (sd_unit (node_smart i p), \<lparr>a_paddr = station ga, a_port = a_port (cm_address (snd (pr_env p)))\<rparr>)
               = Some (sd_period_us (node_smart i p), expiry_for n (sd_period_us (node_smart i p)) t')))"
proof -
  let ?sp = "a_port (cm_address (snd (pr_env p)))" and ?ts = "stamp_of now (cm_stamp (snd (pr_env p)))"
  obtain bytes where b: "writes_to_bus E bytes p (node_interest E h now i p)"
    "data_frame ?sp (a_port logical_broadcast) DATA ?ts (interest_bytes False (node_smart i p)) bytes"
    "frame_src bytes = n_address (pr_shm p)" "frame_dst bytes = a_paddr logical_broadcast"
    using node_writes(2) [OF assms(1-3), of E h i] by blast
  obtain out where o: "sends_to_network G out (bus_receive G (on_quadrant_change d G) upd bytes ga)"
    "data_frame ?sp (a_port logical_broadcast) DATA ?ts (interest_bytes False (node_smart i p)) out"
    "frame_src out = station ga"
    "if other_quadrant (quadrant_of F gb) (quadrant_of G ga)
     then pr_shm_eng (sock_receive F h' upd' out gb) = pr_shm_eng gb \<and> usage (sock_receive F h' upd' out gb) = usage gb
     else relays_to_bus F out gb (sock_receive F h' upd' out gb)"
    using frame_between_vehicles [OF assms(6-8) b(2) b(3) [unfolded assms(4)] b(4)] by blast
  have "\<exists>t'. sd_cache (node_smart j (node_receive H h'' n n' junk out r)) = Some t'
      \<and> interests t' (sd_unit (node_smart i p), \<lparr>a_paddr = station ga, a_port = ?sp\<rparr>)
        = Some (sd_period_us (node_smart i p), expiry_for n (sd_period_us (node_smart i p)) t')"
    if "listens j r" "sd_role (node_smart j r) = PRODUCER" "sd_unit (node_smart j r) = sd_unit (node_smart i p)"
      "sd_cache (node_smart j r) = Some t" "distinct (map b_key (bc_bindings t))" for r j junk t
    using node_enters_interest [OF that(1) o(2) that(2-5) assms(5)] unfolding o(3) by blast
  then show ?thesis using b(1) o(1,4) by (intro exI [of _ bytes] exI [of _ out]) blast
qed

subsection \<open>Two concrete vehicles\<close>

definition demo_relay :: "mac \<Rightarrow> (nat, nat, u8 list list, (u8 list \<times> u16 \<times> u16) list, nat) proto" where
  "demo_relay mac = new_protocol True [] blank_buffers blank_buffers mac
     \<lparr>r_sockfd = 3, r_ifindex = 2, r_gps = 0, r_net = []\<rparr> [] 0 (Some (gateway_configuration \<lparr>shmid = 7, semid = 9\<rparr>))"

lemma demo_relays:
  assumes "mac_ok mac"
  shows "relays (demo_relay mac)" "station (demo_relay mac) = mac" "quadrant_of demo_env (demo_relay mac) = 2"
proof -
  have b: "length blank_buffers = BUFFER_SIZE" "\<forall>b \<in> set blank_buffers. frame_ok (b_data b) \<and> b_size b \<le> MTU"
    by (simp_all add: blank_buffers_def frame_ok_def)
  show "relays (demo_relay mac)" "station (demo_relay mac) = mac"
    unfolding demo_relay_def by (rule new_gateway_relays [OF b b assms])+
  show "quadrant_of demo_env (demo_relay mac) = 2"
    unfolding demo_relay_def by (subst new_gateway_relays(3) [OF b b assms]) (simp add: demo_env_def)
qed

lemma demo_node_address: "n_address (pr_shm (demo_node sd)) = shm_address"
  by (simp add: demo_node_def new_protocol_def protocol_init_def nic_attach_def nic_init_def)

lemma demo_stamp: "in_i64 (stamp_of 7 (cm_stamp (snd (pr_env (demo_node sd)))))"
  "stamp_of 7 (cm_stamp (snd (pr_env (demo_node sd)))) \<noteq> 0"
  by (simp_all add: demo_node_ok stamp_of_def in_i64_def)

lemma same_quadrant: "\<not> other_quadrant 2 2" by (simp add: other_quadrant_def)

lemma reading_crosses_network_witness:
  "\<exists>bytes out. writes_to_bus node_env bytes (demo_node demo_producer) (node_respond node_env (\<lambda>p. p) 7 42 0 (demo_node demo_producer))
     \<and> sends_to_network demo_env out (bus_receive demo_env (on_quadrant_change 1 demo_env) (\<lambda>_ _ _ p. p) bytes (demo_relay demo_mac))
     \<and> relays_to_bus demo_env out (demo_relay other_mac) (sock_receive demo_env (\<lambda>p. p) (\<lambda>_ _ _ p. p) out (demo_relay other_mac))
     \<and> smart_value (node_smart 0 (node_receive node_env (\<lambda>p. p) 8 9 (0, 0) out (demo_node (smart_blank SPEED)))) = 42"
proof -
  have u: "sd_role (smart_blank SPEED) = CONSUMER" "sd_unit (smart_blank SPEED) = SPEED" "sd_unit demo_producer = SPEED"
    by (simp_all add: smart_blank_def demo_producer_def)
  have st: "station (demo_relay demo_mac) \<noteq> station (demo_relay other_mac)"
    by (simp add: demo_relays macs) (simp add: demo_mac_def other_mac_def)
  note t = reading_crosses_network [OF demo_node_ok(2) demo_stamp demo_node_address demo_relays(1) [OF macs(2)]
      demo_relays(1) [OF macs(4)] st, where E = node_env and h = "\<lambda>p. p" and v = 42 and i = 0 and n = 8 and n' = 9
      and G = demo_env and F = demo_env and H = node_env and d = 1 and upd = "\<lambda>_ _ _ p. p" and upd' = "\<lambda>_ _ _ p. p"
      and h' = "\<lambda>p. p" and h'' = "\<lambda>p. p" and sd3 = demo_producer]
  show ?thesis
    using t demo_node_ok(1,3) u by (simp add: demo_relays macs same_quadrant) metis
qed

lemma interest_crosses_network_witness:
  "\<exists>bytes out t'. writes_to_bus node_env bytes (demo_node ((smart_blank SPEED)\<lparr>sd_period_us := 100\<rparr>))
       (node_interest node_env (\<lambda>p. p) 7 0 (demo_node ((smart_blank SPEED)\<lparr>sd_period_us := 100\<rparr>)))
     \<and> sends_to_network demo_env out (bus_receive demo_env (on_quadrant_change 1 demo_env) (\<lambda>_ _ _ p. p) bytes (demo_relay demo_mac))
     \<and> relays_to_bus demo_env out (demo_relay other_mac) (sock_receive demo_env (\<lambda>p. p) (\<lambda>_ _ _ p. p) out (demo_relay other_mac))
     \<and> sd_cache (node_smart 0 (node_receive node_env (\<lambda>p. p) 8 9 (0, 0) out (demo_node demo_producer))) = Some t'
     \<and> interests t' (SPEED, \<lparr>a_paddr = demo_mac, a_port = 257\<rparr>) = Some (100, expiry_for 8 100 t')"
proof -
  let ?c = "(smart_blank SPEED)\<lparr>sd_period_us := 100\<rparr>"
  have per: "sd_period_us (node_smart 0 (demo_node ?c)) \<noteq> 0" by (simp add: demo_node_ok)
  obtain t where u: "sd_role demo_producer = PRODUCER" "sd_unit demo_producer = sd_unit ?c" "sd_cache demo_producer = Some t"
    "distinct (map b_key (bc_bindings t))"
    by (simp add: smart_blank_def demo_producer_def binding_cache_init_def)
  have st: "station (demo_relay demo_mac) \<noteq> station (demo_relay other_mac)"
    by (simp add: demo_relays macs) (simp add: demo_mac_def other_mac_def)
  have port: "a_port (cm_address (snd (pr_env (demo_node ?c)))) = 257"
    by (simp add: demo_node_def new_protocol_def protocol_init_def smart_attach_def)
  obtain bytes out where
    "writes_to_bus node_env bytes (demo_node ?c) (node_interest node_env (\<lambda>p. p) 7 0 (demo_node ?c))"
    "sends_to_network demo_env out (bus_receive demo_env (on_quadrant_change 1 demo_env) (\<lambda>_ _ _ p. p) bytes (demo_relay demo_mac))"
    "relays_to_bus demo_env out (demo_relay other_mac) (sock_receive demo_env (\<lambda>p. p) (\<lambda>_ _ _ p. p) out (demo_relay other_mac))"
    and r: "\<forall>r j junk t. listens j r \<and> sd_role (node_smart j r) = PRODUCER \<and> sd_unit (node_smart j r) = sd_unit (node_smart 0 (demo_node ?c))
          \<and> sd_cache (node_smart j r) = Some t \<and> distinct (map b_key (bc_bindings t)) \<longrightarrow>
          (\<exists>t'. sd_cache (node_smart j (node_receive node_env (\<lambda>p. p) 8 9 junk out r)) = Some t'
             \<and> interests t' (sd_unit (node_smart 0 (demo_node ?c)),
                 \<lparr>a_paddr = station (demo_relay demo_mac), a_port = a_port (cm_address (snd (pr_env (demo_node ?c))))\<rparr>)
               = Some (sd_period_us (node_smart 0 (demo_node ?c)), expiry_for 8 (sd_period_us (node_smart 0 (demo_node ?c))) t'))"
    using interest_crosses_network [OF demo_node_ok(2) demo_stamp demo_node_address per demo_relays(1) [OF macs(2)]
      demo_relays(1) [OF macs(4)] st, where E = node_env and h = "\<lambda>p. p" and n = 8 and n' = 9
      and G = demo_env and F = demo_env and H = node_env and d = 1 and upd = "\<lambda>_ _ _ p. p" and upd' = "\<lambda>_ _ _ p. p"
      and h' = "\<lambda>p. p" and h'' = "\<lambda>p. p"]
    unfolding demo_relays(3) [OF macs(2)] demo_relays(3) [OF macs(4)] if_not_P [OF same_quadrant] by blast
  then show ?thesis
    using r [rule_format, of 0 "demo_node demo_producer" t "(0, 0)"] u demo_node_ok(1,3) port
    by (intro exI [of _ bytes] exI [of _ out]) (simp add: demo_relays macs smart_blank_def)
qed

end
