(* ===== verification/Sync_Journey.thy ===== *)
theory Sync_Journey
  imports Journey
begin

section \<open>Clock synchronisation between two vehicles\<close>

text \<open>
  The exchange of \<open>src/channel/sptp_protocol.h\<close> as it runs through the gateways of two vehicles
  (\<open>src/channel/protocol.h\<close>, \<open>src/network/nic.h\<close>): the request a slave's gateway hands to its raw
  socket, what the master's gateway makes of that frame, the reply, and what the slave's gateway
  makes of the reply.
\<close>

subsection \<open>A frame handed to the socket\<close>

text \<open>Between two states of the engine exactly the frames \<open>outs\<close> were handed to \<open>sendto\<close>, in this order; the GPS may
  have been asked in between.\<close>

primrec handed :: "('g, 'n, 'r, 'x) env \<Rightarrow> u8 list list \<Rightarrow> ('g, 'n) raw_engine \<Rightarrow> ('g, 'n) raw_engine \<Rightarrow> bool" where
  "handed E [] e e' = (\<exists>g. e' = e\<lparr>r_gps := g\<rparr>)"
| "handed E (out # outs) e e' = (\<exists>g r e1. raw_send (en_sendto E) out (e\<lparr>r_gps := g\<rparr>) = (r, e1) \<and> handed E outs e1 e')"

lemma handed_one: "raw_send (en_sendto E) out (e\<lparr>r_gps := g\<rparr>) = (r, e') \<Longrightarrow> handed E [out] e e'"
proof -
  assume "raw_send (en_sendto E) out (e\<lparr>r_gps := g\<rparr>) = (r, e')"
  moreover have "e' = e'\<lparr>r_gps := r_gps e'\<rparr>" by simp
  ultimately show ?thesis unfolding handed.simps by blast
qed

text \<open>When the quadrant is the one last seen, the handler is not called and only the NIC changes.\<close>

lemma sock_send_quiet:
  assumes "pr_sock p = Some n" and "en_gps E (r_gps (pr_raw p)) = (q, g)" and "\<not> fst (detect_quadrant_change q n)"
    and "sock_send E h i p = (r, p')"
  shows "pr_sptp p' = pr_sptp p" "pr_env p' = pr_env p" "(pr_raw p')\<lparr>r_net := r_net (pr_raw p)\<rparr> = (pr_raw p)\<lparr>r_gps := g\<rparr>"
    and "\<exists>n'. pr_sock p' = Some n' \<and> n_last_quadrant n' \<in> {n_last_quadrant n, q}"
proof -
  have cq: "raw_current_quadrant (en_gps E) (pr_raw p) = (q, (pr_raw p)\<lparr>r_gps := g\<rparr>)"
    using assms(2) by (simp add: raw_current_quadrant_def)
  have "\<not> fst (detect_quadrant_change q (write_quadrant q i n))"
    using assms(3) by (auto simp: detect_quadrant_change_def write_quadrant_def Let_def split: if_splits)
  then obtain n2 where d: "detect_quadrant_change q (write_quadrant q i n) = (False, n2)"
    by (cases "detect_quadrant_change q (write_quadrant q i n)") simp
  then have lq: "n_last_quadrant n2 \<in> {n_last_quadrant n, q}"
    by (auto simp: detect_quadrant_change_def write_quadrant_def upd_buffer_def Let_def split: if_splits)
  let ?b = "n_buffers n2 ! i" and ?e = "(pr_raw p)\<lparr>r_gps := g\<rparr>"
  obtain r' e' where sd: "raw_send (en_sendto E) (take (HEADER_SIZE + b_size ?b) (b_data ?b)) ?e = (r', e')"
    by (cases "raw_send (en_sendto E) (take (HEADER_SIZE + b_size ?b) (b_data ?b)) ?e")
  have p': "p' = p\<lparr>pr_raw := e', pr_sock := Some (nic_free i (count_tx r' n2))\<rparr>"
    using assms(1,4) sd by (auto simp: sock_send_def nic_send_def sock_ops_def lift_ops_def cq d Let_def)
  show "pr_sptp p' = pr_sptp p" "pr_env p' = pr_env p" by (simp_all add: p')
  show "(pr_raw p')\<lparr>r_net := r_net (pr_raw p)\<rparr> = (pr_raw p)\<lparr>r_gps := g\<rparr>"
    using raw_send_inputs [OF sd] by (simp add: p')
  show "\<exists>n'. pr_sock p' = Some n' \<and> n_last_quadrant n' \<in> {n_last_quadrant n, q}"
    using lq by (simp add: p' nic_free_def count_tx_def)
qed

lemma send_via_socket_result:
  fixes E :: "('g, 'n, 'r, 'x) env" and p :: "('o, 'g, 'n, 'r, 'x) proto" and data :: "u8 list"
  assumes ok: "sock_ok p" and n: "pr_sock p = Some n" "in_use n \<noteq> {..<BUFFER_SIZE}" "n_spatial n"
    and quiet: "\<not> fst (detect_quadrant_change (fst (en_gps E (r_gps (pr_raw p)))) n)"
    and dst: "mac_ok (a_paddr dst)" and len: "HEADER_LEN + length data \<le> MTU"
    and now: "en_now E (pr_env p) = (now, x)" and stamp: "in_i64 (if ts \<noteq> 0 then ts else now)"
  shows "\<exists>r p' out. send_via_socket E (on_quadrant_change d E) src dst data ts kind p = (r, now, p')
     \<and> sends_to_network E out p' \<and> data_frame (a_port src) (a_port dst) kind (if ts \<noteq> 0 then ts else now) data out
     \<and> frame_src out = n_address n \<and> frame_dst out = a_paddr dst
     \<and> hdr_quadrant (drop HEADER_SIZE out) = quadrant_of E p
     \<and> net_step (\<lambda>s. s) p p' \<and> pr_sptp p' = pr_sptp p \<and> pr_env p' = x \<and> handed E [out] (pr_raw p) (pr_raw p')
     \<and> (\<exists>n'. pr_sock p' = Some n' \<and> n_last_quadrant n' \<in> {n_last_quadrant n, quadrant_of E p})"
proof -
  have pool: "pool_ok n" using ok n(1) by (simp add: sock_ok_def)
  obtain a n1 where al: "nic_alloc (a_paddr dst) PROTO (HEADER_LEN + length data) n = (a, n1)"
    by (cases "nic_alloc (a_paddr dst) PROTO (HEADER_LEN + length data) n")
  note full = nic_alloc_full [OF pool dst al]
  have "a \<noteq> None" using full len n(2) by auto
  then obtain i where i: "a = Some i" by auto
  have f: "pool_ok n1" "i \<notin> in_use n" "in_use n1 = insert i (in_use n)"
    "b_size (n_buffers n1 ! i) = HEADER_LEN + length data" "frame_dst (b_data (n_buffers n1 ! i)) = a_paddr dst"
    "frame_src (b_data (n_buffers n1 ! i)) = n_address n" "frame_type (b_data (n_buffers n1 ! i)) = PROTO"
    using full i by auto
  have ib: "i < BUFFER_SIZE" using nic_alloc_pool(3) [OF pool dst al i] by blast
  have len1: "i < length (n_buffers n1)" using f(1) ib by (simp add: pool_ok_def)
  have fr1: "frame_ok (b_data (n_buffers n1 ! i))" using pool_buffer [OF f(1) ib] by simp
  define stamp where "stamp = (if ts \<noteq> 0 then ts else now)"
  define old where "old = payload (b_data (n_buffers n1 ! i))"
  define pkt where "pkt = fill_packet (a_port src) (a_port dst) kind data stamp old"
  have lo: "length old = MTU" unfolding old_def using fr1 by simp
  have lp: "length pkt = MTU" unfolding pkt_def using lo len by (subst length_fill) (simp_all add: header_consts)
  define n2 where "n2 = upd_buffer i (fill_buffer src dst kind data stamp) n1"
  have sp1: "n_spatial n1" "n_last_quadrant n1 = n_last_quadrant n"
    using nic_alloc_keeps [OF pool dst al] n(3) al
    by (auto simp: nic_alloc_def alloc_buf_def split: if_splits list.splits)
  have n2: "pool_ok n2" "in_use n2 = insert i (in_use n)" "n_spatial n2" "n_last_quadrant n2 = n_last_quadrant n"
    using filled_pool [OF f(1) ib len] f(3) sp1 by (simp_all add: n2_def)
  have b2: "n_buffers n2 ! i = \<lparr>b_data = set_payload pkt (b_data (n_buffers n1 ! i)), b_size = HEADER_LEN + length data\<rparr>"
    using len1 f(4) by (cases "n_buffers n1 ! i") (simp add: n2_def upd_buffer_def fill_buffer_def pkt_def old_def)
  let ?p = "p\<lparr>pr_sock := Some n2, pr_env := x\<rparr>"
  obtain g where gps: "en_gps E (r_gps (pr_raw ?p)) = (quadrant_of E p, g)"
    by (cases "en_gps E (r_gps (pr_raw p))") (simp add: quadrant_of_def)
  have q2: "\<not> fst (detect_quadrant_change (quadrant_of E p) n2)"
    using quiet n2(4) by (auto simp: detect_quadrant_change_def quadrant_of_def Let_def split: if_splits)
  obtain r p' where sd: "sock_send E (on_quadrant_change d E) i ?p = (r, p')"
    by (cases "sock_send E (on_quadrant_change d E) i ?p")
  have i2: "i \<in> in_use n2" using n2(2) by simp
  have s: "pr_sock ?p = Some n2" by simp
  note keep = sock_send_quiet [OF s gps q2 sd]
  obtain net where snd: "raw_send (en_sendto E) (sent_frame (quadrant_of E p) n2 i) ((pr_raw p')\<lparr>r_net := net\<rparr>) = (r, pr_raw p')"
    using on_change.sock_send_full(2) [OF s n2(1) i2 sd gps] by blast
  have "raw_send (en_sendto E) (sent_frame (quadrant_of E p) n2 i) ((pr_raw p')\<lparr>r_net := r_net (pr_raw ?p)\<rparr>) = (r, pr_raw p')"
    using on_change.sock_send_full(2) [OF s n2(1) i2 sd gps] q2 by blast
  then have raw: "raw_send (en_sendto E) (sent_frame (quadrant_of E p) n2 i) ((pr_raw p)\<lparr>r_gps := g\<rparr>) = (r, pr_raw p')"
    unfolding keep(3) by simp
  define out where "out = sent_frame (quadrant_of E p) n2 i"
  note sp = set_payload_fields [OF fr1 lp]
  have lq: "length (set_quadrant (quadrant_of E p) pkt) = MTU" using lp by simp
  have o: "out = take (HEADER_SIZE + (HEADER_LEN + length data)) (set_payload (set_quadrant (quadrant_of E p) pkt) (set_payload pkt (b_data (n_buffers n1 ! i))))"
    using n2(3) b2 sp(4) by (simp add: out_def sent_frame_def Let_def)
  note sq = set_payload_fields [OF sp(5) lq]
  have ad: "frame_dst out = a_paddr dst" "frame_src out = n_address n" "frame_type out = PROTO"
    unfolding o using sq sp f(5-7) by (simp_all only: take_header_fields)
  have dr: "drop HEADER_SIZE out = take (HEADER_LEN + length data) (set_quadrant (quadrant_of E p) pkt)"
    unfolding o by (rule drop_header_set_payload [OF sp(5)])
  have lout: "length out = HEADER_SIZE + HEADER_LEN + length data"
    unfolding o using sq(5) len by (simp add: frame_ok_def frame_consts header_consts)
  have sv: "send_via_socket E (on_quadrant_change d E) src dst data ts kind p = (r, now, p')"
    using n(1) al i now sd by (simp add: send_via_socket_def Let_def n2_def stamp_def)
  note st = on_change.send_via_socket_net [OF ok dst sv]
  have fits: "DATA_OFF + length data \<le> length old" using lo len by (simp add: header_consts)
  note fp = fill_packet_fields [OF fits stamp [folded stamp_def], of "a_port src" "a_port dst" kind, folded pkt_def]
  have "take (HEADER_LEN + length data) (drop HEADER_SIZE out) = take (HEADER_LEN + length data) (set_quadrant (quadrant_of E p) pkt)"
    unfolding dr by simp
  note hp = header_of_prefix [OF this]
  have "data_frame (a_port src) (a_port dst) kind stamp data out" "hdr_quadrant (drop HEADER_SIZE out) = quadrant_of E p"
    using hp fp lp lout ad(3) len by (simp_all add: data_frame_def frame_consts header_consts)
  moreover have "sends_to_network E out p'" unfolding sends_to_network_def using snd out_def by blast
  moreover have "handed E [out] (pr_raw p) (pr_raw p')" using handed_one [OF raw] by (simp add: out_def)
  ultimately show ?thesis using ad st keep(1,2,4) sv unfolding stamp_def n2(4) by fastforce
qed

text \<open>The same from within the synchronisation object, whose state \<open>s\<close> the sending leaves alone.\<close>

lemma sptp_send_result:
  fixes E :: "('g, 'n, 'r, 'x) env" and p :: "('o, 'g, 'n, 'r, 'x) proto" and data :: "u8 list"
  assumes ok: "sock_ok p" "pr_instance p" "pr_sptp p \<noteq> None" and n: "pr_sock p = Some n" "in_use n \<noteq> {..<BUFFER_SIZE}" "n_spatial n"
    and quiet: "\<not> fst (detect_quadrant_change (fst (en_gps E (r_gps (pr_raw p)))) n)"
    and dst: "mac_ok (a_paddr dst)" "\<not> is_internal dst" and len: "HEADER_LEN + length data \<le> MTU"
    and now: "en_now E (pr_env p) = (now, x)" "in_i64 now"
  shows "\<exists>p' out. sptp_send E (on_quadrant_change d E) src dst data 0 kind (s, p) = (now, s, p')
     \<and> sends_to_network E out p' \<and> data_frame (a_port src) (a_port dst) kind now data out
     \<and> frame_src out = n_address n \<and> frame_dst out = a_paddr dst
     \<and> hdr_quadrant (drop HEADER_SIZE out) = quadrant_of E p
     \<and> net_step (\<lambda>s. s) p p' \<and> pr_sptp p' = Some s \<and> pr_env p' = x"
proof -
  let ?p = "p\<lparr>pr_sptp := Some s\<rparr>"
  have q: "sock_ok ?p" "pr_sock ?p = Some n" "\<not> fst (detect_quadrant_change (fst (en_gps E (r_gps (pr_raw ?p)))) n)"
    "en_now E (pr_env ?p) = (now, x)" "in_i64 (if (0 :: int) \<noteq> 0 then 0 else now)"
    using ok(1) n(1) quiet now by (simp_all add: sock_ok_def)
  obtain r p' out where o: "send_via_socket E (on_quadrant_change d E) src dst data 0 kind ?p = (r, now, p')"
    "sends_to_network E out p'" "data_frame (a_port src) (a_port dst) kind (if (0 :: int) \<noteq> 0 then 0 else now) data out"
    "frame_src out = n_address n" "frame_dst out = a_paddr dst" "hdr_quadrant (drop HEADER_SIZE out) = quadrant_of E ?p"
    "net_step (\<lambda>s. s) ?p p'" "pr_sptp p' = pr_sptp ?p" "pr_env p' = x"
    using send_via_socket_result [OF q(1,2) n(2,3) q(3) dst(1) len q(4,5), of d src kind] by blast
  have "sptp_send E (on_quadrant_change d E) src dst data 0 kind (s, p) = (now, s, p')"
    using ok(2) n(1) dst(2) o(1,8) by (simp add: sptp_send_def protocol_send_def)
  moreover have "net_step (\<lambda>s. s) p p'" using o(7) ok(3) by simp
  moreover have "quadrant_of E ?p = quadrant_of E p" by (simp add: quadrant_of_def)
  ultimately show ?thesis using o(2-6,8,9) by (intro exI [of _ p'] exI [of _ out]) simp
qed

subsection \<open>The gateways of the two vehicles\<close>

text \<open>
  A gateway on the network: a free buffer on its socket NIC, observed by the protocol, under a MAC of
  its own; \<open>parked E p\<close>: its GPS answers one quadrant, the one the NIC saw last.
\<close>

definition on_network :: "('o, 'g, 'n, 'r, 'x) proto \<Rightarrow> bool" where
  "on_network p \<longleftrightarrow> chan_ok p
     \<and> (case pr_sock p of None \<Rightarrow> False
        | Some n \<Rightarrow> card (in_use n) + 2 \<le> BUFFER_SIZE \<and> n_spatial n \<and> targets_of PROTO (n_observers n) = [()]
            \<and> mac_ok (n_address n) \<and> n_address n \<noteq> INTERNAL)"

definition parked :: "('g, 'n, 'r, 'x) env \<Rightarrow> ('o, 'g, 'n, 'r, 'x) proto \<Rightarrow> bool" where
  "parked E p \<longleftrightarrow> (\<forall>g. fst (en_gps E g) = quadrant_of E p)
     \<and> (case pr_sock p of None \<Rightarrow> True | Some n \<Rightarrow> n_last_quadrant n \<in> {QUADRANT_NONE, quadrant_of E p})"

lemma room:
  assumes "card (in_use n) + 2 \<le> BUFFER_SIZE"
  shows "in_use n \<noteq> {..<BUFFER_SIZE}" "insert i (in_use n) \<noteq> {..<BUFFER_SIZE}"
proof -
  have "card (insert i (in_use n)) \<le> Suc (card (in_use n))" by (rule card_insert_le_m1) simp_all
  then have "card (in_use n) \<noteq> BUFFER_SIZE" "card (insert i (in_use n)) \<noteq> BUFFER_SIZE" using assms by linarith+
  then show "in_use n \<noteq> {..<BUFFER_SIZE}" "insert i (in_use n) \<noteq> {..<BUFFER_SIZE}" by force+
qed

text \<open>One wake-up of the watchdog thread of \<open>SPTP_Protocol::start\<close> in the gateway process.\<close>

definition gateway_watchdog ::
  "('g, 'n, 'r, 'x) env \<Rightarrow> ('o, 'g, 'n, 'r, 'x) handler \<Rightarrow> int \<Rightarrow> int \<Rightarrow> ('o, 'g, 'n, 'r, 'x) handler"
where
  "gateway_watchdog E h steady early p =
     (case pr_sptp p of
        None \<Rightarrow> p
      | Some s \<Rightarrow> (case watchdog_tick (sptp_send E h) steady early (s, p) of
                     (s', p') \<Rightarrow> p'\<lparr>pr_sptp := Some s'\<rparr>))"

definition asked :: "int \<Rightarrow> sptp \<Rightarrow> sptp" where
  "asked t2 s = s\<lparr>s_next_seq := s_next_seq s + 1, s_pending_t2 := t2, s_pending_seq := s_next_seq s\<rparr>"

lemma request_length: "length (enc_request seq) = REQUEST_LEN" "length (enc_sync sp) = SYNC_LEN"
  by (rule request_wire.enc_size, rule sync_wire.enc_size)

lemma gateway_asks:
  fixes E :: "('g, 'n, 'r, 'x) env" and p :: "('o, 'g, 'n, 'r, 'x) proto"
  assumes g: "on_network p" "parked E p" and s: "pr_sptp p = Some s" "s_running s" "\<not> s_first_sync_done s \<or> silent s steady"
    and now: "en_now E (pr_env p) = (now, x)" "in_i64 now" "now \<noteq> 0"
  shows "\<exists>out. sends_to_network E out (gateway_watchdog E (on_quadrant_change d E) steady early p)
     \<and> data_frame (a_port (s_own_addr s)) PORT_GATEWAY SPTP_REQUEST_SYNC now (enc_request (s_next_seq s)) out
     \<and> frame_src out = station p \<and> hdr_quadrant (drop HEADER_SIZE out) = quadrant_of E p
     \<and> pr_sptp (gateway_watchdog E (on_quadrant_change d E) steady early p) = Some (asked now s)
     \<and> net_step (\<lambda>s. s) p (gateway_watchdog E (on_quadrant_change d E) steady early p)"
proof -
  obtain n where n: "pr_sock p = Some n" "card (in_use n) + 2 \<le> BUFFER_SIZE" "n_spatial n"
    using g(1) by (auto simp: on_network_def split: option.splits)
  have ok: "sock_ok p" "pr_instance p" "pr_sptp p \<noteq> None" using g(1) s(1) by (simp_all add: on_network_def chan_ok_def)
  have q: "\<not> fst (detect_quadrant_change (fst (en_gps E (r_gps (pr_raw p)))) n)"
    using g(2) n(1) by (auto simp: parked_def detect_quadrant_change_def Let_def)
  have dst: "mac_ok (a_paddr (physical_broadcast PORT_GATEWAY))" "\<not> is_internal (physical_broadcast PORT_GATEWAY)"
    by (simp_all add: physical_broadcast_def is_internal_def)
  have len: "HEADER_LEN + length (enc_request (s_next_seq s)) \<le> MTU"
    by (simp add: request_length wire_lens header_consts frame_consts)
  let ?s1 = "s\<lparr>s_next_seq := s_next_seq s + 1, s_pending_t2 := early, s_pending_seq := s_next_seq s\<rparr>"
  obtain p' out where o: "sptp_send E (on_quadrant_change d E) (s_own_addr ?s1) (physical_broadcast PORT_GATEWAY)
      (enc_request (s_next_seq s)) 0 SPTP_REQUEST_SYNC (?s1, p) = (now, ?s1, p')"
    "sends_to_network E out p'" "data_frame (a_port (s_own_addr ?s1)) (a_port (physical_broadcast PORT_GATEWAY))
        SPTP_REQUEST_SYNC now (enc_request (s_next_seq s)) out"
    "frame_src out = n_address n" "hdr_quadrant (drop HEADER_SIZE out) = quadrant_of E p" "net_step (\<lambda>s. s) p p'" "pr_sptp p' = Some ?s1"
    using sptp_send_result [OF ok n(1) room(1) [OF n(2)] n(3) q dst len now(1,2), of d "s_own_addr ?s1" SPTP_REQUEST_SYNC ?s1] by blast
  have "gateway_watchdog E (on_quadrant_change d E) steady early p = p'\<lparr>pr_sptp := Some (asked now s)\<rparr>"
    using s o(1) now(3) by (simp add: gateway_watchdog_def watchdog_tick_def send_sync_request_def asked_def Let_def)
  then show ?thesis using o(2-7) n(1)
    by (intro exI [of _ out]) (simp add: sends_to_network_def station_def physical_broadcast_def)
qed

text \<open>A frame from another station that is not from another quadrant reaches the protocol in a free buffer.\<close>

lemma gateway_gets:
  fixes E :: "('g, 'n, 'r, 'x) env" and p :: "('o, 'g, 'n, 'r, 'x) proto"
  assumes g: "on_network p" and fr: "data_frame sp dp k ts data bytes" and k: "k \<in> {SPTP_SYNC, SPTP_REQUEST_SYNC}"
    and src: "frame_src bytes \<noteq> station p" "frame_src bytes \<noteq> INTERNAL"
    and quad: "\<not> other_quadrant (quadrant_of E p) (hdr_quadrant (drop HEADER_SIZE bytes))"
  shows "\<exists>n i m e. pr_sock p = Some n \<and> i \<notin> in_use n \<and> in_use m = insert i (in_use n) \<and> pool_ok m
     \<and> same_nic n m \<and> holds_frame bytes (SockBuf i) (p\<lparr>pr_raw := e, pr_sock := Some m\<rparr>)
     \<and> sock_receive E (on_quadrant_change d E) upd bytes p
       = free_buffer (SockBuf i) (sptp_deliver E (on_quadrant_change d E) k (SockBuf i) (p\<lparr>pr_raw := e, pr_sock := Some m\<rparr>))"
proof -
  obtain n where n: "pr_sock p = Some n" "card (in_use n) + 2 \<le> BUFFER_SIZE" "targets_of PROTO (n_observers n) = [()]" "n_spatial n"
    using g by (auto simp: on_network_def split: option.splits)
  have ok: "chan_ok p" using g by (simp add: on_network_def)
  have s: "frame_src bytes \<noteq> n_address n" using src(1) n(1) by (simp add: station_def)
  obtain i m e where m: "i \<notin> in_use n" "in_use m = insert i (in_use n)" "pool_ok m" "same_nic n m"
    "holds_frame bytes (SockBuf i) (p\<lparr>pr_raw := e, pr_sock := Some m\<rparr>)"
    and rc: "pr_sock (protocol_update E (on_quadrant_change d E) upd (SockBuf i) (p\<lparr>pr_raw := e, pr_sock := Some m\<rparr>)) \<noteq> None \<longrightarrow>
      sock_receive E (on_quadrant_change d E) upd bytes p
        = protocol_update E (on_quadrant_change d E) upd (SockBuf i) (p\<lparr>pr_raw := e, pr_sock := Some m\<rparr>)"
    using sock_frame_arrives [OF ok n(1) room(1) [OF n(2)] n(3,4) fr s quad [unfolded quadrant_of_def], of "on_quadrant_change d E" upd] by blast
  let ?q = "p\<lparr>pr_raw := e, pr_sock := Some m\<rparr>"
  have bq: "buffer_at (SockBuf i) ?q = n_buffers m ! i" by (simp add: buffer_at_def)
  note h = held_frame_fields [OF m(5) fr, unfolded bq]
  have kb: "kind_of_byte (hdr_kind (payload (b_data (n_buffers m ! i)))) = Some k"
    unfolding h(3) using k by (auto simp: kind_of_byte_def)
  have q: "sock_ok ?q" "pr_instance ?q" "pr_sock ?q = Some m" "i \<in> in_use m" "frame_src (b_data (n_buffers m ! i)) \<noteq> INTERNAL"
    using ok n(1) m(2,3) h(4) src(2) by (simp_all add: chan_ok_def sock_ok_def)
  have "pr_sock (protocol_update E (on_quadrant_change d E) upd (SockBuf i) ?q) \<noteq> None"
    using on_change.sock_kept [OF sptp_update_net [OF q(1-4) h(1) kb q(5), of E d upd]] q(3) by simp
  then have "sock_receive E (on_quadrant_change d E) upd bytes p
      = protocol_update E (on_quadrant_change d E) upd (SockBuf i) ?q" using rc by blast
  also have "\<dots> = free_buffer (SockBuf i) (sptp_deliver E (on_quadrant_change d E) k (SockBuf i) ?q)"
    using h(1) kb by (simp add: protocol_update_def bq Let_def)
  finally show ?thesis using n(1) m by blast
qed

lemma deliver_fields:
  assumes "holds_frame bytes b q" and "data_frame sp dp k ts data bytes" and "pr_sptp q = Some s"
    and "en_clocks E (pr_env q) = (ks, x)"
  shows "sptp_deliver E h kind b q
     = (case sptp_on_receive (sptp_send E h) (Some (\<lambda>a w. (fst w, on_presence E a (snd w)))) kind
              \<lparr>a_paddr = frame_src bytes, a_port = sp\<rparr> ts data ks (s, q\<lparr>pr_env := x\<rparr>) of
          ((s', p'), jump) \<Rightarrow> p'\<lparr>pr_sptp := Some s',
             pr_env := (case jump of None \<Rightarrow> pr_env p' | Some t \<Rightarrow> en_settime E t (pr_env p'))\<rparr>)"
proof -
  let ?f = "b_data (buffer_at b q)" and ?k = "HEADER_LEN + length data"
  note h = held_frame_fields [OF assms(1,2)]
  have len: "length bytes = HEADER_SIZE + ?k" using assms(2) by (simp add: data_frame_def)
  have sz: "b_size (buffer_at b q) = ?k" using h(6) len by simp
  have "take ?k (payload ?f) = take ?k (drop HEADER_SIZE bytes)" using h(7) sz len by simp
  note get = header_of_prefix [OF this]
  have "take (length data) (pkt_data (payload ?f)) = data" using get(6) assms(2) by (simp add: data_frame_def)
  moreover have "(if HEADER_LEN < ?k then ?k - HEADER_LEN else 0) = length data" by simp
  ultimately show ?thesis
    using assms(2-4) get h(4) sz by (simp add: sptp_deliver_def Let_def data_frame_def)
qed

lemma free_buffer_fields [simp]:
  "pr_sptp (free_buffer b p) = pr_sptp p" "pr_env (free_buffer b p) = pr_env p" "pr_raw (free_buffer b p) = pr_raw p"
  by (simp_all add: free_buffer_def split: bufref.split option.split)

text \<open>The master answers a request with its sequence number, the arrival in the payload and the departure in the header.\<close>

lemma master_replies:
  fixes E :: "('g, 'n, 'r, 'x) env" and p :: "('o, 'g, 'n, 'r, 'x) proto"
  assumes g: "on_network p" "parked E p" and s: "pr_sptp p = Some s" "s_is_master s"
    and fr: "data_frame sp dp SPTP_REQUEST_SYNC ts (enc_request seq) bytes"
    and src: "frame_src bytes \<noteq> station p" "frame_src bytes \<noteq> INTERNAL" "mac_ok (frame_src bytes)"
    and quad: "\<not> other_quadrant (quadrant_of E p) (hdr_quadrant (drop HEADER_SIZE bytes))"
    and clk: "en_clocks E (pr_env p) = (ks, x)" and now: "en_now E x = (now, x')" "in_i64 now"
  shows "\<exists>out. sends_to_network E out (sock_receive E (on_quadrant_change d E) upd bytes p)
     \<and> data_frame (a_port (s_own_addr s)) sp SPTP_SYNC now (enc_sync \<lparr>sp_seq_id = seq, sp_t2_prime = word_of_int (k_now ks)\<rparr>) out
     \<and> frame_src out = station p \<and> frame_dst out = frame_src bytes \<and> hdr_quadrant (drop HEADER_SIZE out) = quadrant_of E p
     \<and> pr_sptp (sock_receive E (on_quadrant_change d E) upd bytes p) = Some s"
proof -
  obtain n i m e where n: "pr_sock p = Some n" "i \<notin> in_use n" "in_use m = insert i (in_use n)" "pool_ok m" "same_nic n m"
    "holds_frame bytes (SockBuf i) (p\<lparr>pr_raw := e, pr_sock := Some m\<rparr>)"
    and rc: "sock_receive E (on_quadrant_change d E) upd bytes p = free_buffer (SockBuf i)
        (sptp_deliver E (on_quadrant_change d E) SPTP_REQUEST_SYNC (SockBuf i) (p\<lparr>pr_raw := e, pr_sock := Some m\<rparr>))"
    using gateway_gets [OF g(1) fr _ src(1,2) quad, of d upd] by blast
  let ?q = "p\<lparr>pr_raw := e, pr_sock := Some m\<rparr>" and ?to = "\<lparr>a_paddr = frame_src bytes, a_port = sp\<rparr>"
  let ?pl = "enc_sync \<lparr>sp_seq_id = seq, sp_t2_prime = word_of_int (k_now ks)\<rparr>"
  let ?x = "?q\<lparr>pr_env := x\<rparr>"
  have nn: "card (in_use n) + 2 \<le> BUFFER_SIZE" "n_spatial n" using g(1) n(1) by (simp_all add: on_network_def)
  have ok: "sock_ok ?x" "pr_instance ?x" "pr_sptp ?x \<noteq> None" "pr_sock ?x = Some m" "in_use m \<noteq> {..<BUFFER_SIZE}" "n_spatial m"
    using g(1) s(1) n nn(2) room(2) [OF nn(1), of i] by (simp_all add: on_network_def chan_ok_def sock_ok_def same_nic_def)
  have gq: "fst (en_gps E a) = quadrant_of E p" for a using g(2) by (simp add: parked_def)
  have quiet: "\<not> fst (detect_quadrant_change (fst (en_gps E (r_gps (pr_raw ?x)))) m)"
    using g(2) n(1,5) unfolding gq by (auto simp: parked_def same_nic_def detect_quadrant_change_def Let_def)
  have dst: "mac_ok (a_paddr ?to)" "\<not> is_internal ?to" using src(2,3) by (simp_all add: is_internal_def)
  have len: "HEADER_LEN + length ?pl \<le> MTU" by (simp add: request_length wire_lens header_consts frame_consts)
  have nw: "en_now E (pr_env ?x) = (now, x')" using now(1) by simp
  obtain p' out where o: "sptp_send E (on_quadrant_change d E) (s_own_addr s) ?to ?pl 0 SPTP_SYNC (s, ?x) = (now, s, p')"
    "sends_to_network E out p'" "data_frame (a_port (s_own_addr s)) sp SPTP_SYNC now ?pl out"
    "frame_src out = n_address m" "frame_dst out = frame_src bytes" "hdr_quadrant (drop HEADER_SIZE out) = quadrant_of E ?x"
    using sptp_send_result [OF ok quiet dst len nw now(2), of d "s_own_addr s" SPTP_SYNC s] by auto
  have dec: "dec_request (enc_request seq) = seq" by (rule request_wire.dec_enc_exact)
  have "sptp_deliver E (on_quadrant_change d E) SPTP_REQUEST_SYNC (SockBuf i) ?q
      = (on_presence E ?to p')\<lparr>pr_sptp := Some s\<rparr>"
    using deliver_fields [OF n(6) fr, of s E ks x "on_quadrant_change d E" SPTP_REQUEST_SYNC] s clk o(1)
    by (simp add: sptp_on_receive_def request_length send_sync_reply_def dec)
  then have r: "sock_receive E (on_quadrant_change d E) upd bytes p
      = free_buffer (SockBuf i) ((on_presence E ?to p')\<lparr>pr_sptp := Some s\<rparr>)" using rc by simp
  have "sends_to_network E out (sock_receive E (on_quadrant_change d E) upd bytes p)"
    using o(2) unfolding r sends_to_network_def by (simp add: on_presence_def)
  moreover have "quadrant_of E ?x = quadrant_of E p" using gq by (simp add: quadrant_of_def)
  ultimately show ?thesis using o(3-6) n(1,5) r by (intro exI [of _ out]) (simp add: station_def same_nic_def)
qed

text \<open>A slave's gateway passes a SYNC on to its synchronisation object and sets the clock it answers.\<close>

lemma slave_receives:
  fixes E :: "('g, 'n, 'r, 'x) env" and p :: "('o, 'g, 'n, 'r, 'x) proto"
  assumes g: "on_network p" and s: "pr_sptp p = Some s" "\<not> s_is_master s"
    and fr: "data_frame sp dp SPTP_SYNC ts (enc_sync y) bytes" and src: "frame_src bytes \<noteq> station p" "frame_src bytes \<noteq> INTERNAL"
    and quad: "\<not> other_quadrant (quadrant_of E p) (hdr_quadrant (drop HEADER_SIZE bytes))"
    and clk: "en_clocks E (pr_env p) = (ks, x)" and sync: "slave_sync ks ts (enc_sync y) s = (s', jump)"
  shows "pr_sptp (sock_receive E (on_quadrant_change d E) upd bytes p) = Some s'"
    and "pr_env (sock_receive E (on_quadrant_change d E) upd bytes p) = (case jump of None \<Rightarrow> x | Some t \<Rightarrow> en_settime E t x)"
proof -
  obtain n i m e where n: "pr_sock p = Some n" "holds_frame bytes (SockBuf i) (p\<lparr>pr_raw := e, pr_sock := Some m\<rparr>)"
    and rc: "sock_receive E (on_quadrant_change d E) upd bytes p = free_buffer (SockBuf i)
        (sptp_deliver E (on_quadrant_change d E) SPTP_SYNC (SockBuf i) (p\<lparr>pr_raw := e, pr_sock := Some m\<rparr>))"
    using gateway_gets [OF g fr _ src quad, of d upd] by blast
  have "sptp_deliver E (on_quadrant_change d E) SPTP_SYNC (SockBuf i) (p\<lparr>pr_raw := e, pr_sock := Some m\<rparr>)
      = p\<lparr>pr_raw := e, pr_sock := Some m, pr_sptp := Some s', pr_env := (case jump of None \<Rightarrow> x | Some t \<Rightarrow> en_settime E t x)\<rparr>"
    using deliver_fields [OF n(2) fr, of s E ks x "on_quadrant_change d E" SPTP_SYNC] s clk sync
    by (cases jump) (simp_all add: sptp_on_receive_def request_length)
  then show "pr_sptp (sock_receive E (on_quadrant_change d E) upd bytes p) = Some s'"
    "pr_env (sock_receive E (on_quadrant_change d E) upd bytes p) = (case jump of None \<Rightarrow> x | Some t \<Rightarrow> en_settime E t x)"
    using rc by simp_all
qed

subsection \<open>The whole exchange\<close>

lemma other_quadrant_sym: "other_quadrant a b \<longleftrightarrow> other_quadrant b a"
  by (auto simp: other_quadrant_def)

text \<open>C8. The synchronisation of two vehicles, frame by frame: the watchdog of a slave's gateway hands a request
  to its socket; the gateway of the master in the same quadrant hands a reply to its own when it
  gets that frame; and when the slave's gateway, whatever it did in between, gets the reply while the
  request is pending, its clock, \<open>\<theta>\<close> ahead, ends with an error of at most half the difference of the
  delays \<open>d1\<close> and \<open>d2\<close> if it is set, was within 100 us (and that half) if it is left alone, and an
  apparent error of 1 s or more is refused.\<close>

theorem synchronisation_crosses_network:
  fixes ps :: "('o1, 'g1, 'n1, 'r1, 'x1) proto" and pm :: "('o2, 'g2, 'n2, 'r2, 'x2) proto" and a d1 b d2 \<theta> :: int
  assumes slave: "on_network ps" "parked S ps" "pr_sptp ps = Some s" "\<not> s_is_master s" "s_running s"
      "\<not> s_first_sync_done s \<or> silent s steady"
    and master: "on_network pm" "parked M pm" "pr_sptp pm = Some m" "s_is_master m"
    and apart: "station ps \<noteq> station pm" and near: "\<not> other_quadrant (quadrant_of M pm) (quadrant_of S ps)"
    and small: "\<bar>a\<bar> < 2 ^ 58" "\<bar>d1\<bar> < 2 ^ 58" "\<bar>b\<bar> < 2 ^ 58" "\<bar>d2\<bar> < 2 ^ 58" "\<bar>\<theta>\<bar> < 2 ^ 58" and pos: "a + \<theta> \<noteq> 0"
    and leaves: "en_now S (pr_env ps) = (a + \<theta>, x)"
    and answers: "en_clocks M (pr_env pm) = (ks, y)" "k_now ks = a + d1" "en_now M y = (b, y')"
  shows "\<exists>req rep. sends_to_network S req (gateway_watchdog S (on_quadrant_change d S) steady early ps)
     \<and> sends_to_network M rep (sock_receive M (on_quadrant_change d' M) upd req pm)
     \<and> (\<forall>(ps' :: ('o1, 'g1, 'n1, 'r1, 'x1) proto) k z. on_network ps' \<and> station ps' = station ps \<and> quadrant_of S ps' = quadrant_of S ps
          \<and> pr_sptp ps' = pr_sptp (gateway_watchdog S (on_quadrant_change d S) steady early ps)
          \<and> en_clocks S (pr_env ps') = (k, z) \<and> k_now k = b + d2 + \<theta>
          \<and> timespec_ok (k_realtime k) \<and> 1 \<le> tv_sec (k_realtime k) \<and> tv_sec (k_realtime k) < 2 ^ 32 \<longrightarrow>
          (\<exists>s2 jump. pr_sptp (sock_receive S (on_quadrant_change d S) upd' rep ps') = Some s2
             \<and> pr_env (sock_receive S (on_quadrant_change d S) upd' rep ps') = (case jump of None \<Rightarrow> z | Some t \<Rightarrow> en_settime S t z)
             \<and> (case jump of
                  Some ts \<Rightarrow> \<bar>2 * (\<theta> + now_ns ts - now_ns (k_realtime k)) - (d1 - d2)\<bar> \<le> 1
                | None \<Rightarrow> s_first_sync_done s2 \<and> s_sync_count s2 = s_sync_count s + 1
                            \<and> \<bar>2 * \<theta> - (d1 - d2)\<bar> \<le> 2 * MIN_OFFSET_NS + 1
                        \<or> s_sync_count s2 = s_sync_count s \<and> \<bar>2 * \<theta> - (d1 - d2)\<bar> \<ge> 2 * MAX_OFFSET_NS - 1)))"
proof -
  let ?w = "gateway_watchdog S (on_quadrant_change d S) steady early ps"
  have i64: "in_i64 (a + \<theta>)" "in_i64 b" using small by (simp_all add: in_i64_def abs_less_iff)
  have mac: "mac_ok (station ps)" "station ps \<noteq> INTERNAL" "station pm \<noteq> INTERNAL"
    using slave(1) master(1) by (auto simp: on_network_def station_def split: option.splits)
  obtain req where q: "sends_to_network S req ?w"
    "data_frame (a_port (s_own_addr s)) PORT_GATEWAY SPTP_REQUEST_SYNC (a + \<theta>) (enc_request (s_next_seq s)) req"
    "frame_src req = station ps" "hdr_quadrant (drop HEADER_SIZE req) = quadrant_of S ps" "pr_sptp ?w = Some (asked (a + \<theta>) s)"
    using gateway_asks [OF slave(1-3,5,6) leaves i64(1) pos, of d early] by blast
  obtain rep where r: "sends_to_network M rep (sock_receive M (on_quadrant_change d' M) upd req pm)"
    "data_frame (a_port (s_own_addr m)) (a_port (s_own_addr s)) SPTP_SYNC b
       (enc_sync \<lparr>sp_seq_id = s_next_seq s, sp_t2_prime = word_of_int (k_now ks)\<rparr>) rep"
    "frame_src rep = station pm" "hdr_quadrant (drop HEADER_SIZE rep) = quadrant_of M pm"
    using master_replies [OF master q(2), of ks y b y' d' upd] q(3,4) mac apart near answers(1,3) i64(2) by auto
  have "\<exists>s2 jump. pr_sptp (sock_receive S (on_quadrant_change d S) upd' rep ps') = Some s2
       \<and> pr_env (sock_receive S (on_quadrant_change d S) upd' rep ps') = (case jump of None \<Rightarrow> z | Some t \<Rightarrow> en_settime S t z)
       \<and> (case jump of
            Some ts \<Rightarrow> \<bar>2 * (\<theta> + now_ns ts - now_ns (k_realtime k)) - (d1 - d2)\<bar> \<le> 1
          | None \<Rightarrow> s_first_sync_done s2 \<and> s_sync_count s2 = s_sync_count s + 1
                      \<and> \<bar>2 * \<theta> - (d1 - d2)\<bar> \<le> 2 * MIN_OFFSET_NS + 1
                  \<or> s_sync_count s2 = s_sync_count s \<and> \<bar>2 * \<theta> - (d1 - d2)\<bar> \<ge> 2 * MAX_OFFSET_NS - 1)"
    if c: "on_network ps'" "station ps' = station ps" "quadrant_of S ps' = quadrant_of S ps" "pr_sptp ps' = pr_sptp ?w"
      "en_clocks S (pr_env ps') = (k, z)" "k_now k = b + d2 + \<theta>"
      "timespec_ok (k_realtime k)" "1 \<le> tv_sec (k_realtime k)" "tv_sec (k_realtime k) < 2 ^ 32" for ps' k z
  proof -
    have p: "pr_sptp ps' = Some (asked (a + \<theta>) s)" "\<not> s_is_master (asked (a + \<theta>) s)"
      "frame_src rep \<noteq> station ps'" "frame_src rep \<noteq> INTERNAL"
      "\<not> other_quadrant (quadrant_of S ps') (hdr_quadrant (drop HEADER_SIZE rep))"
      using c(2-4) q(5) slave(4) r(3,4) apart mac(3) near other_quadrant_sym by (auto simp: asked_def)
    obtain s2 jump where sl: "slave_sync k b (enc_sync \<lparr>sp_seq_id = s_next_seq s, sp_t2_prime = word_of_int (a + d1)\<rparr>) (asked (a + \<theta>) s)
        = (s2, jump)" by (metis prod.exhaust)
    have f: "s_pending_t2 (asked (a + \<theta>) s) = a + \<theta>" "s_pending_seq (asked (a + \<theta>) s) = s_next_seq s"
      "s_sync_count (asked (a + \<theta>) s) = s_sync_count s" by (simp_all add: asked_def)
    note acc = reply_accuracy [OF pos small c(7-9,6) f(1,2) sl, unfolded f(3)]
    note rcv = slave_receives [OF c(1) p(1,2) r(2) p(3-5) c(5), unfolded answers(2), OF sl, of d upd']
    show ?thesis by (intro exI [of _ s2] exI [of _ jump] conjI rcv acc)
  qed
  then show ?thesis using q(1) r(1) by (intro exI [of _ req] exI [of _ rep]) blast
qed

subsection \<open>Two concrete gateways\<close>

text \<open>What the constructor builds, with the synchronisation enabled, is on the network.\<close>

lemma new_gateway_on_network:
  fixes raw :: "('g, 'n) raw_engine" and ring :: 'r and x :: 'x and ctx and s :: sptp
  assumes "length bufs = BUFFER_SIZE" and "\<forall>b \<in> set bufs. frame_ok (b_data b) \<and> b_size b \<le> MTU"
    and "length bufs' = BUFFER_SIZE" and "\<forall>b \<in> set bufs'. frame_ok (b_data b) \<and> b_size b \<le> MTU"
    and "mac_ok mac" and "mac \<noteq> INTERNAL" and gps: "\<forall>g. fst (en_gps E g) = c"
  defines "p \<equiv> (new_protocol True ring bufs bufs' mac raw ([] :: ('o, u16) observers) x (Some (gateway_configuration ctx)))\<lparr>pr_sptp := Some s\<rparr>"
  shows "on_network p" "station p = mac" "quadrant_of E p = c" "parked E p"
proof -
  let ?p = "new_protocol True ring bufs bufs' mac raw ([] :: ('o, u16) observers) x (Some (gateway_configuration ctx))"
  have one: "\<forall>port. length (targets_of port ([] :: ('o, u16) observers)) \<le> 1" by simp
  have g: "is_gateway_process (Some (gateway_configuration ctx))"
    by (simp add: is_gateway_process_def gateway_configuration_def)
  have "relays ?p" by (rule new_gateway_relays(1) [OF assms(1-5)])
  then have ok: "chan_ok ?p" by (simp add: relays_def)
  have "usage ?p = ({}, Some {})" by (subst new_protocol_wired(2) [OF assms(1-5) one]) (simp add: g)
  then obtain n where n: "pr_sock ?p = Some n" "in_use n = {}" by (auto simp: usage_def)
  have sock: "pr_sock ?p = Some (setup_quadrant (nic_attach () PROTO (nic_init mac bufs')))"
    using g by (simp add: new_protocol_def protocol_init_def)
  then have f: "n_spatial n" "targets_of PROTO (n_observers n) = [()]" "n_address n = mac" "n_last_quadrant n = QUADRANT_NONE"
    using n(1) by (auto simp: setup_quadrant_def nic_attach_def cdo_attach_def nic_init_def)
  show "on_network p"
    using ok n f assms(5,6) by (simp add: p_def on_network_def chan_ok_def sock_ok_def BUFFER_SIZE_def SEND_BUFFERS_def RECEIVE_BUFFERS_def)
  show "station p = mac" using n(1) f(3) by (simp add: p_def station_def)
  show q: "quadrant_of E p = c" using gps by (simp add: quadrant_of_def)
  show "parked E p" using q gps n(1) f(4) by (simp add: p_def parked_def)
qed

text \<open>The slave asks at 5 ms and gets the answer at 9 ms by its clock; the master gets the request at 2 ms and answers at 3 ms.\<close>

definition slave_env :: "(nat, u8 list list, (u8 list \<times> u16 \<times> u16) list, timespec list) env" where
  "slave_env = \<lparr>en_sendto = (\<lambda>bs net. (int (length bs), net @ [bs])), en_gps = (\<lambda>g. (2, g)),
     en_bus = (\<lambda>bs wr fl r. (int (length bs), r @ [(bs, wr, fl)])), en_now = (\<lambda>x. (5000000, x)),
     en_clocks = (\<lambda>x. (demo_clocks, x)), en_settime = (\<lambda>t x. x @ [t]), en_presence = (\<lambda>_ x. x)\<rparr>"

definition master_env :: "(nat, u8 list list, (u8 list \<times> u16 \<times> u16) list, timespec list) env" where
  "master_env = slave_env\<lparr>en_now := (\<lambda>x. (3000000, x)), en_clocks := (\<lambda>x. (demo_clocks\<lparr>k_now := 2000000\<rparr>, x))\<rparr>"

lemma sync_env_simps:
  "en_now slave_env y = (5000000, y)" "en_clocks slave_env y = (demo_clocks, y)" "en_settime slave_env t y = y @ [t]"
  "en_now master_env y = (3000000, y)" "en_clocks master_env y = (demo_clocks\<lparr>k_now := 2000000\<rparr>, y)"
  by (simp_all add: slave_env_def master_env_def)

definition demo_station :: "mac \<Rightarrow> sptp \<Rightarrow> (nat, nat, u8 list list, (u8 list \<times> u16 \<times> u16) list, timespec list) proto" where
  "demo_station mac s = (new_protocol True [] blank_buffers blank_buffers mac
     \<lparr>r_sockfd = 3, r_ifindex = 2, r_gps = 0, r_net = []\<rparr> [] [] (Some (gateway_configuration \<lparr>shmid = 7, semid = 9\<rparr>)))\<lparr>pr_sptp := Some s\<rparr>"

lemma demo_stations:
  assumes "mac_ok mac" and "mac \<noteq> INTERNAL"
  shows "on_network (demo_station mac s)" "station (demo_station mac s) = mac"
    "quadrant_of slave_env (demo_station mac s) = 2" "quadrant_of master_env (demo_station mac s) = 2"
    "parked slave_env (demo_station mac s)" "parked master_env (demo_station mac s)"
    "pr_sptp (demo_station mac s) = Some s" "pr_env (demo_station mac s) = []"
proof -
  have b: "length blank_buffers = BUFFER_SIZE" "\<forall>b \<in> set blank_buffers. frame_ok (b_data b) \<and> b_size b \<le> MTU"
    by (simp_all add: blank_buffers_def frame_ok_def)
  have g: "\<forall>g. fst (en_gps slave_env g) = 2" "\<forall>g. fst (en_gps master_env g) = 2"
    by (simp_all add: slave_env_def master_env_def)
  show "on_network (demo_station mac s)" "station (demo_station mac s) = mac"
    "quadrant_of slave_env (demo_station mac s) = 2" "parked slave_env (demo_station mac s)"
    unfolding demo_station_def by (rule new_gateway_on_network [OF b b assms g(1)])+
  show "quadrant_of master_env (demo_station mac s) = 2" "parked master_env (demo_station mac s)"
    unfolding demo_station_def by (rule new_gateway_on_network [OF b b assms g(2)])+
  show "pr_sptp (demo_station mac s) = Some s" "pr_env (demo_station mac s) = []"
    by (simp_all add: demo_station_def new_protocol_def protocol_init_def)
qed

lemma synchronisation_crosses_network_witness:
  "\<exists>req rep t. sends_to_network slave_env req (gateway_watchdog slave_env (on_quadrant_change 1 slave_env) 0 0
        (demo_station demo_mac ((sptp_init null_address False None)\<lparr>s_running := True\<rparr>)))
     \<and> sends_to_network master_env rep (sock_receive master_env (on_quadrant_change 1 master_env) (\<lambda>_ _ _ p. p) req
        (demo_station other_mac (sptp_init null_address True None)))
     \<and> pr_env (sock_receive slave_env (on_quadrant_change 1 slave_env) (\<lambda>_ _ _ p. p) rep
         (demo_station demo_mac (asked 5000000 ((sptp_init null_address False None)\<lparr>s_running := True\<rparr>)))) = [t]
     \<and> \<bar>2 * (4000000 + now_ns t - 1000000500) - (1000000 - 2000000)\<bar> \<le> 1"
proof -
  let ?s = "(sptp_init null_address False None)\<lparr>s_running := True\<rparr>" and ?m = "sptp_init null_address True None"
  have mac: "demo_mac \<noteq> INTERNAL" "demo_mac \<noteq> other_mac" by (simp_all add: demo_mac_def other_mac_def INTERNAL_def)
  note ds = demo_stations [OF macs(2) mac(1)] and dm = demo_stations [OF macs(4,3)]
  have st: "\<not> s_is_master ?s" "s_running ?s" "\<not> s_first_sync_done ?s" "s_is_master ?m" by (simp_all add: sptp_init_def)
  let ?w = "gateway_watchdog slave_env (on_quadrant_change 1 slave_env) 0 0 (demo_station demo_mac ?s)"
  have e: "en_now slave_env (pr_env (demo_station demo_mac ?s)) = (1000000 + 4000000, [])" "in_i64 (1000000 + 4000000)"
    "(1000000 + 4000000 :: int) \<noteq> 0" "en_clocks master_env (pr_env (demo_station other_mac ?m)) = (demo_clocks\<lparr>k_now := 2000000\<rparr>, [])"
    "k_now (demo_clocks\<lparr>k_now := 2000000\<rparr>) = 1000000 + 1000000" "en_now master_env [] = (3000000, [])"
    "station (demo_station demo_mac ?s) \<noteq> station (demo_station other_mac ?m)"
    "\<not> other_quadrant (quadrant_of master_env (demo_station other_mac ?m)) (quadrant_of slave_env (demo_station demo_mac ?s))"
    using mac(2) same_quadrant by (simp_all add: ds(2,3,8) dm(2,4,8) sync_env_simps in_i64_def)
  have "pr_sptp ?w = Some (asked (1000000 + 4000000) ?s)"
    using gateway_asks [OF ds(1,5,7) st(2) disjI1 [OF st(3)] e(1-3), of 1 0] by blast
  then have w: "pr_sptp ?w = Some (asked 5000000 ?s)" by simp
  obtain req rep where q: "sends_to_network slave_env req ?w"
    "sends_to_network master_env rep (sock_receive master_env (on_quadrant_change 1 master_env) (\<lambda>_ _ _ p. p) req (demo_station other_mac ?m))"
    and r: "\<forall>(ps' :: (nat, nat, u8 list list, (u8 list \<times> u16 \<times> u16) list, timespec list) proto) k z. on_network ps' \<and> station ps' = station (demo_station demo_mac ?s)
          \<and> quadrant_of slave_env ps' = quadrant_of slave_env (demo_station demo_mac ?s)
          \<and> pr_sptp ps' = pr_sptp ?w \<and> en_clocks slave_env (pr_env ps') = (k, z) \<and> k_now k = 3000000 + 2000000 + 4000000
          \<and> timespec_ok (k_realtime k) \<and> 1 \<le> tv_sec (k_realtime k) \<and> tv_sec (k_realtime k) < 2 ^ 32 \<longrightarrow>
          (\<exists>s2 jump. pr_sptp (sock_receive slave_env (on_quadrant_change 1 slave_env) (\<lambda>_ _ _ p. p) rep ps') = Some s2
             \<and> pr_env (sock_receive slave_env (on_quadrant_change 1 slave_env) (\<lambda>_ _ _ p. p) rep ps')
                 = (case jump of None \<Rightarrow> z | Some t \<Rightarrow> en_settime slave_env t z)
             \<and> (case jump of
                  Some ts \<Rightarrow> \<bar>2 * (4000000 + now_ns ts - now_ns (k_realtime k)) - (1000000 - 2000000)\<bar> \<le> 1
                | None \<Rightarrow> s_first_sync_done s2 \<and> s_sync_count s2 = s_sync_count ?s + 1
                            \<and> \<bar>2 * 4000000 - (1000000 - 2000000)\<bar> \<le> 2 * MIN_OFFSET_NS + 1
                        \<or> s_sync_count s2 = s_sync_count ?s \<and> \<bar>2 * 4000000 - (1000000 - 2000000)\<bar> \<ge> 2 * MAX_OFFSET_NS - 1))"
    using synchronisation_crosses_network [OF ds(1,5,7) st(1,2) disjI1 [OF st(3)] dm(1,6,7) st(4) e(7,8) _ _ _ _ _ e(3,1,4,5,6),
        where ?d2.0 = 2000000 and d = 1 and early = 0 and d' = 1 and upd = "\<lambda>_ _ _ p. p" and upd' = "\<lambda>_ _ _ p. p"]
    by simp blast
  let ?r = "sock_receive slave_env (on_quadrant_change 1 slave_env) (\<lambda>_ _ _ p. p) rep (demo_station demo_mac (asked 5000000 ?s))"
  have k: "en_clocks slave_env [] = (demo_clocks, [])" "k_now demo_clocks = 9000000" "k_realtime demo_clocks = \<lparr>tv_sec = 1, tv_nsec = 500\<rparr>"
    "now_ns (k_realtime demo_clocks) = 1000000500"
    by (simp_all add: sync_env_simps demo_clocks_def now_ns_def i64_id in_i64_def)
  let ?P = "demo_station demo_mac (asked 5000000 ?s)"
  have c: "on_network ?P" "station ?P = station (demo_station demo_mac ?s)" "quadrant_of slave_env ?P = quadrant_of slave_env (demo_station demo_mac ?s)"
    "pr_sptp ?P = pr_sptp ?w" "en_clocks slave_env (pr_env ?P) = (demo_clocks, [])" "k_now demo_clocks = 3000000 + 2000000 + 4000000"
    "timespec_ok (k_realtime demo_clocks)" "1 \<le> tv_sec (k_realtime demo_clocks)" "tv_sec (k_realtime demo_clocks) < 2 ^ 32"
    unfolding w using k(1-3) by (simp_all add: demo_stations [OF macs(2) mac(1)] timespec_ok_def)
  obtain s2 :: sptp and jump where j: "pr_env ?r = (case jump of None \<Rightarrow> [] | Some t \<Rightarrow> en_settime slave_env t [])"
      "case jump of Some ts \<Rightarrow> \<bar>2 * (4000000 + now_ns ts - now_ns (k_realtime demo_clocks)) - (1000000 - 2000000)\<bar> \<le> 1
        | None \<Rightarrow> s_first_sync_done s2 \<and> s_sync_count s2 = s_sync_count ?s + 1
              \<and> \<bar>2 * 4000000 - (1000000 - 2000000 :: int)\<bar> \<le> 2 * MIN_OFFSET_NS + 1
            \<or> s_sync_count s2 = s_sync_count ?s \<and> \<bar>2 * 4000000 - (1000000 - 2000000 :: int)\<bar> \<ge> 2 * MAX_OFFSET_NS - 1"
      using r [rule_format, OF conjI [OF c(1) conjI [OF c(2) conjI [OF c(3) conjI [OF c(4) conjI [OF c(5) conjI [OF c(6)
        conjI [OF c(7) conjI [OF c(8,9)]]]]]]]]] by (elim exE conjE) (rule that)
  from j(2) obtain t where t: "jump = Some t" by (cases jump) (auto simp: sptp_consts)
  have "pr_env ?r = [t]" "\<bar>2 * (4000000 + now_ns t - 1000000500) - (1000000 - 2000000)\<bar> \<le> 1"
    using j k(4) by (simp_all add: t sync_env_simps)
  then show ?thesis using q by blast
qed

end
