(* ===== verification/Process_Life.thy ===== *)
theory Process_Life
  imports Node Sync_Journey
begin

section \<open>The buffers of a process, from its start on\<close>

text \<open>
  A process of a vehicle: \<open>Protocol\<close> with its NICs (\<open>src/channel/protocol.h\<close>,
  \<open>src/network/nic.h\<close>), its communicator (\<open>src/communication/communicator.h\<close>) and the SmartData attached
  to it (\<open>src/communication/smart_data/smart_data.h\<close>). Whatever happens to it, a buffer of its two pools
  is free, or it is in the queue of the communicator, where a frame waits for \<open>receive\<close> when no SmartData
  is attached for its port.
\<close>

subsection \<open>What can happen to a process\<close>

text \<open>
  \<open>beside E\<close>: the environment \<open>E\<close> of the clocks does not reach the communicator, which the process
  keeps beside them.
\<close>

definition beside :: "('g, 'n, 'r, 'x) env \<Rightarrow> ('g, 'n, 'r, 'x \<times> 'c) env" where
  "beside E = \<lparr>en_sendto = en_sendto E, en_gps = en_gps E, en_bus = en_bus E,
     en_now = (\<lambda>(x, c). case en_now E x of (t, x') \<Rightarrow> (t, x', c)),
     en_clocks = (\<lambda>(x, c). case en_clocks E x of (k, x') \<Rightarrow> (k, x', c)),
     en_settime = (\<lambda>t (x, c). (en_settime E t x, c)),
     en_presence = (\<lambda>a (x, c). (en_presence E a x, c))\<rparr>"

text \<open>
  Frames from the bus and the network (with the clock readings and the uninitialised bytes of the
  message they become), sends, a SmartData that is attached or detached, a call of \<open>receive\<close>, the
  start of the synchronisation, its end and a wake-up of its watchdog.
\<close>

datatype 'g node_event =
    Bus_Frame int int "u8 \<times> int" "u8 list"
  | Net_Frame int int "u8 \<times> int" "u8 list"
  | Send address address "u8 list" int
  | Attach nat
  | Detach nat
  | Read nat message
  | Sync_On "bool \<Rightarrow> 'g \<Rightarrow> 'g" "rat option" int int bool
  | Sync_Off
  | Watchdog int int

primrec node_step ::
  "('g, 'n, 'r, 'x \<times> (bufref, unit) process) env \<Rightarrow> nat \<Rightarrow> 'g node_event \<Rightarrow> ('g, 'n, 'r, 'x) node \<Rightarrow> ('g, 'n, 'r, 'x) node"
where
  "node_step E d (Bus_Frame n n' junk data) p =
     bus_receive E (on_quadrant_change d E) (\<lambda>_. node_update E (on_quadrant_change d E) n n' junk) data p"
| "node_step E d (Net_Frame n n' junk data) p =
     sock_receive E (on_quadrant_change d E) (\<lambda>_. node_update E (on_quadrant_change d E) n n' junk) data p"
| "node_step E d (Send src dst data ts) p =
     snd (snd (protocol_send E (on_quadrant_change d E) src dst data ts DATA p))"
| "node_step E d (Attach j) p = packed (smart_attach j (opened p))"
| "node_step E d (Detach j) p =
     packed ((opened p)\<lparr>cm_observers := co_detach j broadcast_condition (cm_observers (opened p))\<rparr>)"
| "node_step E d (Read sz m) p =
     (case comm_receive (protocol_channel E (on_quadrant_change d E) ()) sz m (opened p) of
        None \<Rightarrow> p
      | Some (_, _, c) \<Rightarrow> packed c)"
| "node_step E d (Sync_On set_fixed silence steady early master) p =
     enable_sync E (on_quadrant_change d E) set_fixed silence steady early master p"
| "node_step E d Sync_Off p = disable_sync p"
| "node_step E d (Watchdog steady early) p = gateway_watchdog E (on_quadrant_change d E) steady early p"

definition node_run ::
  "('g, 'n, 'r, 'x \<times> (bufref, unit) process) env \<Rightarrow> nat \<Rightarrow> 'g node_event list \<Rightarrow> ('g, 'n, 'r, 'x) node \<Rightarrow> ('g, 'n, 'r, 'x) node"
where
  "node_run E d evs p = fold (node_step E d) evs p"

text \<open>Frames from the network carry a station's address, addresses have six bytes.\<close>

definition event_ok :: "'g node_event \<Rightarrow> bool" where
  "event_ok ev = (case ev of Net_Frame _ _ _ data \<Rightarrow> frame_src data \<noteq> INTERNAL
     | Send _ dst _ _ \<Rightarrow> mac_ok (a_paddr dst) | _ \<Rightarrow> True)"

subsection \<open>The books\<close>

text \<open>The buffers in the communicator's queue.\<close>

definition queued :: "'x \<times> ('s, bufref, 'w, 'c) communicator \<Rightarrow> bufref list" where
  "queued y = q_data (cm_queue (snd y))"

text \<open>Both pools are well formed; a buffer is in use exactly when it is queued, and it is queued once.\<close>

definition books_ok :: "('g, 'n, 'r, 'x) node \<Rightarrow> bool" where
  "books_ok p \<longleftrightarrow> chan_ok p \<and> distinct (queued (pr_env p)) \<and> (\<forall>b. held b p \<longleftrightarrow> b \<in> set (queued (pr_env p)))"

lemma beside_leaves: "leaves queued (beside E)"
  by (simp add: leaves_def beside_def queued_def split: prod.split)

lemma packed_env [simp]:
  "queued (pr_env (packed c)) = q_data (cm_queue c)" "q_data (cm_queue (opened p)) = queued (pr_env p)" "cm_channel (opened p) = p"
  "usage (packed c) = usage (cm_channel c)" "wiring (packed c) = wiring (cm_channel c)"
  "chan_ok (packed c) = chan_ok (cm_channel c)" "held b (packed c) = held b (cm_channel c)"
  by (auto simp: packed_def opened_def queued_def with_channel_def usage_def wiring_def chan_ok_def sock_ok_def held_def
      split: bufref.split option.split)

lemma notified_smart:
  "cm_channel (fold (\<lambda>ob. smart_update n n' ob cond i) obs c) = cm_channel c
   \<and> cm_queue (fold (\<lambda>ob. smart_update n n' ob cond i) obs c) = cm_queue c"
proof (induction obs arbitrary: c)
  case (Cons ob obs)
  have "cm_channel (smart_update n n' ob cond i c) = cm_channel c \<and> cm_queue (smart_update n n' ob cond i c) = cm_queue c"
    by (simp add: smart_update_def upd_smart_def split: prod.split)
  then show ?case using Cons by simp
qed simp

text \<open>\<open>Communicator::update\<close> gives the buffer back after copying the message, or queues it.\<close>

lemma node_update_settles:
  fixes E :: "('g, 'n, 'r, 'x \<times> (bufref, unit) process) env"
  shows "takes_over queued (\<lambda>_. node_update E h n n' junk)"
  unfolding takes_over_def
proof (intro allI impI)
  fix ob :: unit and port b and p :: "('g, 'n, 'r, 'x) node"
  assume p: "chan_ok p \<and> held b p"
  define c where "c = opened p"
  have c: "cm_channel c = p" "q_data (cm_queue c) = queued (pr_env p)" by (simp_all add: c_def queued_def)
  show "settled queued b p (node_update E h n n' junk port b p)"
  proof (cases "has_observer port (cm_observers c)")
    case False
    then have "node_update E h n n' junk port b p = packed (c\<lparr>cm_queue := co_update b (cm_queue c)\<rparr>)"
      by (simp add: node_update_def comm_update_def c_def)
    then show ?thesis using p c by (simp add: settled_def co_update_def)
  next
    case True
    obtain sz got w where r: "ch_receive (protocol_channel E h ()) b MESSAGE_MAX_SIZE p = ((sz, got), w)"
      by (cases "ch_receive (protocol_channel E h ()) b MESSAGE_MAX_SIZE p") fastforce
    have w: "w = free_buffer b p"
      using r p by (auto simp: protocol_channel_def protocol_receive_def Let_def chan_ok_def split: if_splits)
    have "cm_channel (comm_update (protocol_channel E h ()) (smart_update n n') junk port b c) = w
       \<and> cm_queue (comm_update (protocol_channel E h ()) (smart_update n n') junk port b c) = cm_queue c"
      using True r
      by (auto simp: comm_update_def c notified_smart new_message_def co_notify_targets Let_def split: if_splits)
    then show ?thesis
      using free_buffer_accounts [of p b] p c unfolding node_update_def c_def [symmetric] w
      by (simp add: settled_def)
  qed
qed

lemma keeps_books:
  assumes "books_ok p" and "keeps_buffers p q" and "queued (pr_env q) = queued (pr_env p)"
  shows "books_ok q"
  using assms held_same [of q p] by (simp add: books_ok_def keeps_buffers_def)

lemma received_books:
  assumes "books_ok p" and "received queued p q"
  shows "books_ok q"
  using assms(2) unfolding received_def
proof (elim conjE disjE exE)
  assume "chan_ok q" "usage q = usage p" "queued (pr_env q) = queued (pr_env p)"
  then show ?thesis using assms(1) held_same [of q p] by (simp add: books_ok_def)
next
  fix b assume q: "chan_ok q" "\<not> held b p" "held b q" "without b (usage q) = usage p"
    "queued (pr_env q) = queued (pr_env p) @ [b]"
  have "held b' p = (held b' q \<and> b' \<noteq> b)" for b' using held_without [of p b q] q(4) by simp
  then show ?thesis using assms(1) q by (auto simp: books_ok_def)
qed

subsection \<open>The synchronisation\<close>

lemma sptp_field:
  "pr_sock p \<noteq> None \<Longrightarrow> chan_ok (p\<lparr>pr_sptp := s\<rparr>) = chan_ok (p\<lparr>pr_sptp := None\<rparr>)"
  "pr_sptp p \<noteq> None \<Longrightarrow> chan_ok (p\<lparr>pr_sptp := Some t\<rparr>) = chan_ok p"
  "chan_ok p \<Longrightarrow> chan_ok (p\<lparr>pr_sptp := None\<rparr>)"
  "keeps_buffers (p\<lparr>pr_sptp := s\<rparr>) q = keeps_buffers p q"
  by (auto simp: keeps_buffers_def usage_def wiring_def chan_ok_def sock_ok_def)

lemma keeps_sptp: "keeps_buffers p q \<Longrightarrow> pr_sock p \<noteq> None \<Longrightarrow> keeps_buffers p (q\<lparr>pr_sptp := s\<rparr>)"
  by (auto simp: keeps_buffers_def usage_def wiring_def chan_ok_def sock_ok_def)

lemma sptp_send_keeps:
  assumes p: "chan_ok p" "pr_sptp p \<noteq> None" and dst: "mac_ok (a_paddr dst)" and E: "leaves f E"
    and send: "sptp_send E (on_quadrant_change d E) src dst data ts kind (s, p) = (tx, s', p')"
  shows "keeps_buffers p p' \<and> f (pr_env p') = f (pr_env p)"
proof -
  obtain r tx' q where q: "protocol_send E (on_quadrant_change d E) src dst data ts kind (p\<lparr>pr_sptp := Some s\<rparr>) = (r, tx', q)"
    by (metis prod_cases3)
  have "q = p'" using q send by (simp add: sptp_send_def)
  moreover have "chan_ok (p\<lparr>pr_sptp := Some s\<rparr>)" using p by (simp add: sptp_field(2))
  from send_keeps [OF this dst q] have "keeps_buffers p q" by (simp add: sptp_field(4))
  ultimately show ?thesis using sptp_send_part [OF E quadrant_change_part [OF E] send] by simp
qed

lemma send_sync_request_keeps:
  assumes p: "chan_ok p" "pr_sptp p \<noteq> None" and E: "leaves f E"
    and send: "send_sync_request (sptp_send E (on_quadrant_change d E)) early (s, p) = (s', p')"
  shows "keeps_buffers p p' \<and> f (pr_env p') = f (pr_env p)"
proof -
  let ?s1 = "s\<lparr>s_next_seq := s_next_seq s + 1, s_pending_t2 := early, s_pending_seq := s_next_seq s\<rparr>"
  obtain tx s2 q where q: "sptp_send E (on_quadrant_change d E) (s_own_addr ?s1) (physical_broadcast PORT_GATEWAY)
      (enc_request (s_next_seq s)) 0 SPTP_REQUEST_SYNC (?s1, p) = (tx, s2, q)" by (cases "sptp_send E (on_quadrant_change d E) (s_own_addr ?s1) (physical_broadcast PORT_GATEWAY)
      (enc_request (s_next_seq s)) 0 SPTP_REQUEST_SYNC (?s1, p)" rule: prod_cases3)
  have "q = p'" using send q by (simp add: send_sync_request_def Let_def)
  then show ?thesis using sptp_send_keeps [OF p _ E q] by (simp add: physical_broadcast_def)
qed

lemma keeps_refl: "chan_ok p \<Longrightarrow> keeps_buffers p p"
  by (simp add: keeps_buffers_def)

lemma enable_sync_keeps:
  assumes p: "chan_ok p" and E: "leaves f E"
  shows "keeps_buffers p (enable_sync E (on_quadrant_change d E) set_fixed silence steady early master p)
     \<and> f (pr_env (enable_sync E (on_quadrant_change d E) set_fixed silence steady early master p)) = f (pr_env p)"
proof (cases "pr_sock p = None \<or> pr_sptp p \<noteq> None")
  case True
  then show ?thesis using keeps_refl [OF p] by (auto simp: enable_sync_def split: option.split)
next
  case False
  then obtain n where n: "pr_sock p = Some n" "pr_sptp p = None" by auto
  define s where "s = sptp_init \<lparr>a_paddr = n_address n, a_port = 0\<rparr> master silence"
  define p1 where "p1 = p\<lparr>pr_raw := (pr_raw p)\<lparr>r_gps := set_fixed master (r_gps (pr_raw p))\<rparr>, pr_sptp := Some s\<rparr>"
  obtain s' p' where st: "sptp_start (sptp_send E (on_quadrant_change d E)) steady early (s, p1) = (s', p')"
    by (cases "sptp_start (sptp_send E (on_quadrant_change d E)) steady early (s, p1)")
  have p1: "chan_ok p1" "pr_sptp p1 \<noteq> None" "pr_env p1 = pr_env p"
    using p n by (simp_all add: p1_def chan_ok_def sock_ok_def)
  have "keeps_buffers p1 p' \<and> f (pr_env p') = f (pr_env p1)"
    using st send_sync_request_keeps [OF p1(1,2) E] keeps_refl [OF p1(1)] by (auto simp: sptp_start_def split: if_splits)
  moreover have "keeps_buffers p1 p' = keeps_buffers p p'"
    by (simp add: p1_def keeps_buffers_def usage_def wiring_def)
  moreover have "enable_sync E (on_quadrant_change d E) set_fixed silence steady early master p = p'\<lparr>pr_sptp := Some s'\<rparr>"
    using n st by (simp add: enable_sync_def Let_def s_def p1_def)
  ultimately show ?thesis using p1(3) keeps_sptp [of p p'] n by simp
qed

lemma watchdog_keeps:
  assumes p: "chan_ok p" and E: "leaves f E"
  shows "keeps_buffers p (gateway_watchdog E (on_quadrant_change d E) steady early p)
     \<and> f (pr_env (gateway_watchdog E (on_quadrant_change d E) steady early p)) = f (pr_env p)"
proof (cases "pr_sptp p")
  case None
  then show ?thesis using keeps_refl [OF p] by (simp add: gateway_watchdog_def)
next
  case (Some s)
  obtain s' p' where st: "watchdog_tick (sptp_send E (on_quadrant_change d E)) steady early (s, p) = (s', p')"
    by (cases "watchdog_tick (sptp_send E (on_quadrant_change d E)) steady early (s, p)")
  have "keeps_buffers p p' \<and> f (pr_env p') = f (pr_env p)"
    using st send_sync_request_keeps [OF p _ E] Some keeps_refl [OF p] by (auto simp: watchdog_tick_def split: if_splits)
  moreover have "pr_sock p \<noteq> None" using p Some by (simp add: chan_ok_def sock_ok_def)
  ultimately show ?thesis using Some st keeps_sptp [of p p'] by (simp add: gateway_watchdog_def)
qed

subsection \<open>A life\<close>

text \<open>\<open>receive\<close> takes the first queued buffer, and gives it back after copying the message.\<close>

lemma read_books:
  assumes b: "books_ok p"
  shows "books_ok (node_step E d (Read sz m) p) \<and> wiring (node_step E d (Read sz m) p) = wiring p"
proof (cases "comm_receive (protocol_channel E (on_quadrant_change d E) ()) sz m (opened p)")
  case None
  then show ?thesis using b by simp
next
  case (Some r)
  obtain ok m' c where r: "r = (ok, m', c)" by (cases r)
  have ch: "chan_ok p" using b by (simp add: books_ok_def)
  show ?thesis
  proof (cases "queued (pr_env p)")
    case Nil
    then have "cm_channel c = p \<and> q_data (cm_queue c) = []"
      using Some r by (auto simp: comm_receive_def co_updated_def Let_def split: if_splits option.splits)
    then show ?thesis using b Some r Nil by (auto simp: books_ok_def)
  next
    case (Cons x xs)
    have h: "held x p" using b Cons by (simp add: books_ok_def)
    have "cm_channel c = free_buffer x p \<and> q_data (cm_queue c) = xs"
      using Some r Cons ch
      by (auto simp: comm_receive_def co_updated_def Let_def protocol_channel_def protocol_receive_def chan_ok_def
          split: if_splits option.splits prod.splits)
    moreover have f: "chan_ok (free_buffer x p)" "usage (free_buffer x p) = without x (usage p)"
      "wiring (free_buffer x p) = wiring p"
      using free_buffer_accounts [OF ch h] by simp_all
    moreover have "held y (free_buffer x p) = (held y p \<and> y \<noteq> x)" for y using held_without [OF f(2)] by simp
    ultimately show ?thesis using b Some r Cons by (auto simp: books_ok_def)
  qed
qed

lemma node_step_books:
  assumes w: "wired p" and b: "books_ok p" and ev: "event_ok ev"
  shows "books_ok (node_step (beside E) d ev p) \<and> wiring (node_step (beside E) d ev p) = wiring p"
proof -
  have ch: "chan_ok p" using w by (simp add: wired_def)
  note E = beside_leaves [of E]
  have rec: "books_ok q \<and> wiring q = wiring p" if "received queued p q" for q
    using received_books [OF b that] that by (simp add: received_def)
  have kp: "books_ok q \<and> wiring q = wiring p" if "keeps_buffers p q \<and> queued (pr_env q) = queued (pr_env p)" for q
    using keeps_books [OF b] that by (simp add: keeps_buffers_def)
  show ?thesis
  proof (cases ev)
    case (Bus_Frame n n' junk data)
    then show ?thesis using rec [OF bus_receive_keeps [OF w node_update_settles E]] by simp
  next
    case (Net_Frame n n' junk data)
    then show ?thesis using rec [OF sock_receive_keeps [OF w node_update_settles E]] ev by (simp add: event_ok_def)
  next
    case (Send src dst data ts)
    obtain r tx p' where sd: "protocol_send (beside E) (on_quadrant_change d (beside E)) src dst data ts DATA p = (r, tx, p')"
      by (cases "protocol_send (beside E) (on_quadrant_change d (beside E)) src dst data ts DATA p" rule: prod_cases3)
    have "keeps_buffers p p'" by (rule send_keeps [OF ch _ sd]) (use ev Send in \<open>simp add: event_ok_def\<close>)
    then show ?thesis
      using kp [of p'] protocol_send_part [OF E quadrant_change_part [OF E] sd] sd Send by simp
  next
    case (Attach j)
    then show ?thesis using b by (simp add: smart_attach_def books_ok_def)
  next
    case (Detach j)
    then show ?thesis using b by (simp add: books_ok_def)
  next
    case (Read sz m)
    then show ?thesis using read_books [OF b] by simp
  next
    case (Sync_On set_fixed silence steady early master)
    then show ?thesis using kp [OF enable_sync_keeps [OF ch E]] by simp
  next
    case Sync_Off
    have "keeps_buffers p (disable_sync p)"
      using ch by (simp add: disable_sync_def keeps_buffers_def sptp_field(3)) (simp add: usage_def wiring_def)
    then show ?thesis using kp [of "disable_sync p"] Sync_Off by (simp add: disable_sync_def)
  next
    case (Watchdog steady early)
    then show ?thesis using kp [OF watchdog_keeps [OF ch E]] by simp
  qed
qed

lemma node_run_books:
  "wired p \<Longrightarrow> books_ok p \<Longrightarrow> \<forall>ev \<in> set evs. event_ok ev \<Longrightarrow> books_ok (node_run (beside E) d evs p)"
proof (induction evs arbitrary: p)
  case (Cons ev evs)
  have s: "books_ok (node_step (beside E) d ev p) \<and> wiring (node_step (beside E) d ev p) = wiring p"
    by (rule node_step_books) (use Cons.prems in simp_all)
  have "wired (node_step (beside E) d ev p)"
    by (rule wiring_wired) (use s Cons.prems(1) in \<open>simp_all add: books_ok_def\<close>)
  then show ?case using Cons.IH s Cons.prems(3) by (simp add: node_run_def)
qed (simp add: node_run_def)

text \<open>C3. Any sequence of frames from the bus and the network (complete, truncated, too long, of another
  EtherType, filtered, forwarded, or for the synchronisation once it is enabled), of sends, successful or
  not, of SmartData attached and detached, of calls of \<open>receive\<close>, of starts and ends of the
  synchronisation and of wake-ups of its watchdog: after each, both pools of a process of a vehicle are well formed, and
  the buffers in use are exactly those in the queue of its communicator, each there once. None is lost,
  none is freed twice, and all are free when the queue is empty. (A communicator without a SmartData for
  the port queues every frame until \<open>receive\<close> is called. Every port has at most one observer, as it has
  when each component process makes one communicator; frames come from stations with an address that
  is not all zero.)\<close>

theorem process_keeps_buffers:
  fixes obs :: "(unit, u16) observers" and comm :: "(bufref, unit) process"
  assumes "length bufs = BUFFER_SIZE" and "\<forall>b \<in> set bufs. frame_ok (b_data b) \<and> b_size b \<le> MTU"
    and "length bufs' = BUFFER_SIZE" and "\<forall>b \<in> set bufs'. frame_ok (b_data b) \<and> b_size b \<le> MTU"
    and "mac_ok mac" and "\<forall>port. length (targets_of port obs) \<le> 1" and "q_data (cm_queue comm) = []"
    and "\<forall>ev \<in> set evs. event_ok ev"
    and "q = node_run (beside E) d evs (new_protocol attached ring bufs bufs' mac raw obs (x, comm) conf)"
  shows "chan_ok q \<and> distinct (queued (pr_env q)) \<and> (\<forall>b. held b q \<longleftrightarrow> b \<in> set (queued (pr_env q)))"
proof -
  note w = new_protocol_wired [OF assms(1-6), of attached ring raw "(x, comm)" conf]
  let ?p = "new_protocol attached ring bufs bufs' mac raw obs (x, comm) conf"
  have "queued (pr_env ?p) = []" using assms(7) by (simp add: new_protocol_def protocol_init_def queued_def)
  moreover have "\<not> held b ?p" for b using w(2) by (cases b) (auto simp: held_usage split: option.splits if_splits)
  moreover have "chan_ok ?p" using w(1) by (simp add: wired_def)
  ultimately have "books_ok ?p" by (simp add: books_ok_def)
  from node_run_books [OF w(1) this assms(8), of E d] show ?thesis unfolding assms(9) books_ok_def by blast
qed

text \<open>A gateway with synchronisation, in which a frame was queued, a SmartData attached and another frame arrived.\<close>

definition quiet_comm :: "(bufref, unit) process" where
  "quiet_comm = comm_init \<lparr>ch_send = (\<lambda>_ _ _ _ w. (0, w)), ch_receive = (\<lambda>_ _ w. ((-1, None), w)), ch_attach = (\<lambda>_ w. w),
     ch_detach = (\<lambda>_ w. w)\<rparr> null_address True \<lparr>h_cells = [], h_deleted = []\<rparr> 0 () [smart_blank SPEED]"

definition demo_life :: "nat node_event list" where
  "demo_life = [Sync_On (\<lambda>_ g. g) None 0 0 True, Bus_Frame 1 1 (0, 0) (demo_frame 0 INTERNAL), Attach 0,
     Bus_Frame 2 2 (0, 0) (demo_frame 0 INTERNAL), Net_Frame 3 3 (0, 0) (demo_frame 1 other_mac), Bus_Frame 4 4 (0, 0) [1, 2],
     Send null_address logical_broadcast [1, 2, 3] 5]"

lemma process_keeps_buffers_witness:
  "\<exists>q. q = node_run (beside demo_env) 2 demo_life
     (new_protocol True [] blank_buffers blank_buffers demo_mac \<lparr>r_sockfd = 3, r_ifindex = 2, r_gps = 0, r_net = []\<rparr>
        [((), 257)] (0, quiet_comm) (Some \<lparr>cf_context = \<lparr>shmid = 7, semid = 9\<rparr>, cf_slot = 0, cf_port = 0\<rparr>))
     \<and> chan_ok q \<and> (queued (pr_env q) = [] \<longrightarrow> \<not> held (ShmBuf 0) q)"
proof -
  have b: "length blank_buffers = BUFFER_SIZE" "\<forall>b \<in> set blank_buffers. frame_ok (b_data b) \<and> b_size b \<le> MTU"
    by (simp_all add: blank_buffers_def frame_ok_def)
  have "mac_ok (a_paddr logical_broadcast)" by (simp add: logical_broadcast_def physical_broadcast_def)
  then have ev: "\<forall>ev \<in> set demo_life. event_ok ev"
    using demo_frame_fields(3) [OF macs(1)] macs(3) by (simp add: demo_life_def event_ok_def)
  have c: "q_data (cm_queue quiet_comm) = []" by (simp add: quiet_comm_def comm_init_def Let_def)
  define q where "q = node_run (beside demo_env) 2 demo_life
     (new_protocol True [] blank_buffers blank_buffers demo_mac \<lparr>r_sockfd = 3, r_ifindex = 2, r_gps = 0, r_net = []\<rparr>
        [((), 257)] (0, quiet_comm) (Some \<lparr>cf_context = \<lparr>shmid = 7, semid = 9\<rparr>, cf_slot = 0, cf_port = 0\<rparr>))"
  have "chan_ok q \<and> distinct (queued (pr_env q)) \<and> (\<forall>b. held b q \<longleftrightarrow> b \<in> set (queued (pr_env q)))"
    by (rule process_keeps_buffers [OF b b macs(2) _ c ev q_def]) simp
  then show ?thesis unfolding q_def [symmetric] by auto
qed

end
