(* ===== verification/Stream_Refinement.thy ===== *)
theory Stream_Refinement
  imports Node Shm_Progress
begin

section \<open>A process and the frames its bus gives it\<close>

text \<open>
  What a component process makes of any sequence of broadcast frames, as one refinement: bus NIC,
  \<open>Protocol::update\<close>, \<open>Communicator::update\<close> and \<open>SmartData::update\<close> together
  (\<open>src/network/nic.h\<close>, \<open>src/channel/protocol.h\<close>, \<open>src/communication/\<close>) do to the SmartData what
  handling the decoded messages one by one does. With the theorems about the ring it follows what
  a consumer reads when the bus of a vehicle has come to rest.
\<close>

subsection \<open>Frames as messages\<close>

definition message_in :: "u8 list \<Rightarrow> message" where
  "message_in bytes =
     (let pkt = drop HEADER_SIZE bytes
      in arrived \<lparr>a_paddr = frame_src bytes, a_port = hdr_src_port pkt\<rparr> (hdr_quadrant pkt) (hdr_timestamp pkt)
           (take (length bytes - HEADER_SIZE - HEADER_LEN) (pkt_data pkt)))"

text \<open>A frame of the protocol to the broadcast port with at least one and at most \<open>MAX_SIZE\<close> bytes of data.\<close>

definition broadcast_frame :: "u8 list \<Rightarrow> bool" where
  "broadcast_frame bytes \<longleftrightarrow> HEADER_SIZE + HEADER_LEN < length bytes
     \<and> length bytes \<le> HEADER_SIZE + HEADER_LEN + MESSAGE_MAX_SIZE \<and> frame_type bytes = PROTO
     \<and> hdr_dst_port (drop HEADER_SIZE bytes) = a_port logical_broadcast
     \<and> hdr_kind (drop HEADER_SIZE bytes) \<in> kind_byte ` {DATA, SPTP_SYNC, SPTP_REQUEST_SYNC}"

lemma broadcast_data_frame:
  assumes "broadcast_frame bytes"
  obtains k where "data_frame (hdr_src_port (drop HEADER_SIZE bytes)) (a_port logical_broadcast) k
      (hdr_timestamp (drop HEADER_SIZE bytes)) (take (length bytes - HEADER_SIZE - HEADER_LEN) (pkt_data (drop HEADER_SIZE bytes))) bytes"
    "0 < length (take (length bytes - HEADER_SIZE - HEADER_LEN) (pkt_data (drop HEADER_SIZE bytes)))"
    "length (take (length bytes - HEADER_SIZE - HEADER_LEN) (pkt_data (drop HEADER_SIZE bytes))) \<le> MESSAGE_MAX_SIZE"
proof -
  let ?n = "length bytes - HEADER_SIZE - HEADER_LEN"
  have l: "length (take ?n (pkt_data (drop HEADER_SIZE bytes))) = ?n"
    by (simp add: pkt_data_def header_consts)
  obtain k where "hdr_kind (drop HEADER_SIZE bytes) = kind_byte k"
    using assms unfolding broadcast_frame_def by blast
  then have "data_frame (hdr_src_port (drop HEADER_SIZE bytes)) (a_port logical_broadcast) k
      (hdr_timestamp (drop HEADER_SIZE bytes)) (take ?n (pkt_data (drop HEADER_SIZE bytes))) bytes"
    using assms unfolding data_frame_def l by (simp add: broadcast_frame_def frame_consts header_consts MESSAGE_MAX_SIZE_def)
  moreover have "0 < ?n" "?n \<le> MESSAGE_MAX_SIZE" using assms unfolding broadcast_frame_def by linarith+
  ultimately show ?thesis using that [of k] unfolding l by blast
qed

lemma handle_queue:
  "snd (smart_handle t t' m (sd\<lparr>sd_queue := q\<rparr>)) = (snd (smart_handle t t' m sd))\<lparr>sd_queue := q\<rparr>"
  by (auto simp: smart_handle_def on_interest_message_def on_response_message_def Let_def split: option.splits)

lemma run_queue: "smart_run ms (sd\<lparr>sd_queue := q\<rparr>) = (smart_run ms sd)\<lparr>sd_queue := q\<rparr>"
  by (induction ms arbitrary: sd) (auto simp: smart_run_def handle_queue)

subsection \<open>One frame\<close>

lemma smart_update_rest:
  "cm_observers (smart_update t t' j cond k c) = cm_observers c" "cm_channel (smart_update t t' j cond k c) = cm_channel c"
  "length (cm_clients (smart_update t t' j cond k c)) = length (cm_clients c)"
  by (simp_all add: smart_update_def upd_smart_def split: prod.split)

lemma node_receive_state:
  assumes r: "listens j r" and bytes: "broadcast_frame bytes"
  shows "listens j (node_receive E h t t junk bytes r)" "usage (node_receive E h t t junk bytes r) = usage r"
    and "\<exists>q. node_smart j (node_receive E h t t junk bytes r)
         = (snd (smart_handle t t (message_in bytes) (node_smart j r)))\<lparr>sd_queue := q\<rparr>"
proof -
  let ?d = "take (length bytes - HEADER_SIZE - HEADER_LEN) (pkt_data (drop HEADER_SIZE bytes))"
  let ?sp = "hdr_src_port (drop HEADER_SIZE bytes)" and ?ts = "hdr_timestamp (drop HEADER_SIZE bytes)"
  obtain k where fr: "data_frame ?sp (a_port logical_broadcast) k ?ts ?d bytes"
    and d: "0 < length ?d" "length ?d \<le> MESSAGE_MAX_SIZE"
    using broadcast_data_frame [OF bytes] by blast
  have p: "chan_ok r" "in_use (pr_shm r) \<noteq> {..<BUFFER_SIZE}" "targets_of PROTO (n_observers (pr_shm r)) = [()]"
    "pr_sock r = None" "targets_of (a_port logical_broadcast) (pr_observed r) = [()]"
    "targets_of broadcast_condition (cm_observers (snd (pr_env r))) = [j]" "j < length (cm_clients (snd (pr_env r)))"
    using r by (simp_all add: listens_def)
  obtain i m where m: "i \<notin> in_use (pr_shm r)" "in_use m = insert i (in_use (pr_shm r))" "pool_ok m"
    "n_observers m = n_observers (pr_shm r)" "holds_frame bytes (ShmBuf i) (r\<lparr>pr_shm := m\<rparr>)"
    and rc: "bus_receive E h (\<lambda>_. node_update E h t t junk) bytes r
       = protocol_update E h (\<lambda>_. node_update E h t t junk) (ShmBuf i) (r\<lparr>pr_shm := m\<rparr>)"
    using bus_frame_arrives [OF p(1-3) fr, of E h "\<lambda>_. node_update E h t t junk"] by blast
  let ?q = "r\<lparr>pr_shm := m\<rparr>"
  have "protocol_update E h (\<lambda>_. node_update E h t t junk) (ShmBuf i) ?q
      = node_update E h t t junk (a_port logical_broadcast) (ShmBuf i) ?q"
    by (rule component_update [OF _ m(5) fr]) (simp_all add: p(4,5))
  then have e: "node_receive E h t t junk bytes r = packed (comm_update (protocol_channel E h ()) (smart_update t t) junk
      broadcast_condition (ShmBuf i) (opened ?q))"
    unfolding node_receive_def rc by (simp add: node_update_def broadcast_condition_def)
  let ?c = "opened ?q"
  have o: "cm_channel ?c = ?q" "cm_observers ?c = cm_observers (snd (pr_env r))" "cm_clients ?c = cm_clients (snd (pr_env r))"
    by (simp_all add: opened_def)
  have seen: "has_observer broadcast_condition (cm_observers ?c)" using p(6) o(2) by (simp add: has_observer_targets)
  let ?from = "\<lparr>a_paddr = frame_src bytes, a_port = ?sp\<rparr>"
  let ?msg = "arrived ?from (hdr_quadrant (drop HEADER_SIZE bytes)) ?ts ?d"
  let ?c1 = "?c\<lparr>cm_channel := free_buffer (ShmBuf i) (cm_channel ?c),
      cm_heap := (cm_heap ?c)\<lparr>h_cells := h_cells (cm_heap ?c) @ [?msg]\<rparr>\<rparr>"
  have hf: "holds_frame bytes (ShmBuf i) (cm_channel ?c)" unfolding o(1) by (rule m(5))
  have ne: "?d \<noteq> []" using d(1) by auto
  have cu: "comm_update (protocol_channel E h ()) (smart_update t t) junk broadcast_condition (ShmBuf i) ?c
      = smart_update t t j broadcast_condition (length (h_cells (cm_heap ?c))) ?c1"
    unfolding message_received [OF fr ne d(2) hf seen] using p(6) o(2) by (simp add: co_notify_targets)
  note n = e [unfolded cu]
  have ch: "free_buffer (ShmBuf i) (cm_channel ?c) = r\<lparr>pr_shm := nic_free i m\<rparr>"
    using p(1) o(1) by (simp add: free_buffer_def chan_ok_def)
  have im: "i \<in> in_use m" "in_use m - {i} = in_use (pr_shm r)" using m(1,2) by auto
  have pool: "pool_ok (nic_free i m)" "in_use (nic_free i m) = in_use (pr_shm r)"
    using nic_free_ok [OF m(3) im(1)] im(2) by simp_all
  have obs: "n_observers (nic_free i m) = n_observers (pr_shm r)" using m(4) by simp
  have st: "pr_shm (node_receive E h t t junk bytes r) = nic_free i m"
    "pr_sock (node_receive E h t t junk bytes r) = None"
    "pr_observed (node_receive E h t t junk bytes r) = pr_observed r"
    "pr_instance (node_receive E h t t junk bytes r) = pr_instance r"
    "cm_observers (snd (pr_env (node_receive E h t t junk bytes r))) = cm_observers (snd (pr_env r))"
    "length (cm_clients (snd (pr_env (node_receive E h t t junk bytes r)))) = length (cm_clients (snd (pr_env r)))"
    "pr_sptp (node_receive E h t t junk bytes r) = pr_sptp r"
    unfolding n packed_def using ch p(4) o(2,3) by (simp_all add: smart_update_rest)
  show "usage (node_receive E h t t junk bytes r) = usage r"
    unfolding usage_def st(1,2) using pool(2) p(4) by simp
  show "listens j (node_receive E h t t junk bytes r)"
    using st pool obs p by (simp add: listens_def chan_ok_def sock_ok_def)
  have "h_cells (cm_heap ?c1) ! length (h_cells (cm_heap ?c)) = ?msg" "j < length (cm_clients ?c1)" "smart_at j ?c1 = node_smart j r"
    using p(7) o(3) by (simp_all add: node_smart_def)
  then have "smart_at j (smart_update t t j broadcast_condition (length (h_cells (cm_heap ?c))) ?c1)
      = (case smart_handle t t ?msg (node_smart j r) of
          (keep, sd) \<Rightarrow> if keep then sd\<lparr>sd_queue := co_update (length (h_cells (cm_heap ?c))) (sd_queue sd)\<rparr> else sd)"
    by (subst smart_update_at) simp_all
  moreover have "message_in bytes = ?msg" by (simp add: message_in_def Let_def)
  ultimately have at: "node_smart j (node_receive E h t t junk bytes r)
      = (case smart_handle t t (message_in bytes) (node_smart j r) of
          (keep, sd) \<Rightarrow> if keep then sd\<lparr>sd_queue := co_update (length (h_cells (cm_heap ?c))) (sd_queue sd)\<rparr> else sd)"
    unfolding n packed_simps by simp
  obtain keep sd where h: "smart_handle t t (message_in bytes) (node_smart j r) = (keep, sd)"
    by (cases "smart_handle t t (message_in bytes) (node_smart j r)")
  show "\<exists>q. node_smart j (node_receive E h t t junk bytes r)
         = (snd (smart_handle t t (message_in bytes) (node_smart j r)))\<lparr>sd_queue := q\<rparr>"
    unfolding at h prod.case
    by (rule exI [of _ "if keep then co_update (length (h_cells (cm_heap ?c))) (sd_queue sd) else sd_queue sd"]) simp
qed

subsection \<open>A sequence of frames\<close>

text \<open>The frames a process is given, each with the clock when it comes.\<close>

definition node_stream ::
  "('g, 'n, 'r, 'x \<times> (bufref, unit) process) env \<Rightarrow> (unit, 'g, 'n, 'r, 'x \<times> (bufref, unit) process) handler
     \<Rightarrow> u8 \<times> int \<Rightarrow> (int \<times> u8 list) list \<Rightarrow> ('g, 'n, 'r, 'x) node \<Rightarrow> ('g, 'n, 'r, 'x) node"
where
  "node_stream E h junk ins r = fold (\<lambda>(t, bytes). node_receive E h t t junk bytes) ins r"

lemma node_stream_state:
  assumes "listens j r" and "\<forall>x \<in> set ins. broadcast_frame (snd x)"
  shows "listens j (node_stream E h junk ins r) \<and> usage (node_stream E h junk ins r) = usage r
     \<and> (\<exists>q. node_smart j (node_stream E h junk ins r)
         = (smart_run (map (\<lambda>(t, bytes). (t, message_in bytes)) ins) (node_smart j r))\<lparr>sd_queue := q\<rparr>)"
  using assms
proof (induction ins arbitrary: r)
  case Nil
  then show ?case
    by (intro conjI exI [of _ "sd_queue (node_smart j r)"]) (simp_all add: node_stream_def smart_run_def)
next
  case (Cons x ins)
  obtain t bytes where x: "x = (t, bytes)" by (cases x)
  have b: "broadcast_frame bytes" using Cons.prems(2) x by simp
  let ?r = "node_receive E h t t junk bytes r"
  note s = node_receive_state [OF Cons.prems(1) b, of E h t junk]
  obtain q0 where q0: "node_smart j ?r = (snd (smart_handle t t (message_in bytes) (node_smart j r)))\<lparr>sd_queue := q0\<rparr>"
    using s(3) by blast
  have "node_stream E h junk (x # ins) r = node_stream E h junk ins ?r" by (simp add: node_stream_def x)
  moreover have "listens j (node_stream E h junk ins ?r) \<and> usage (node_stream E h junk ins ?r) = usage ?r
     \<and> (\<exists>q. node_smart j (node_stream E h junk ins ?r)
         = (smart_run (map (\<lambda>(t, bytes). (t, message_in bytes)) ins) (node_smart j ?r))\<lparr>sd_queue := q\<rparr>)"
    using Cons.IH [OF s(1)] Cons.prems(2) by simp
  ultimately show ?case using s(2) unfolding q0 run_queue by (simp add: smart_run_def x)
qed

text \<open>C10. A component process is its SmartData: after any sequence of broadcast frames from the bus the
  process listens as before, has every buffer it had, and its SmartData is, up to the messages it
  queued, what handling the decoded messages one after the other makes of it.\<close>

theorem process_refines_smart:
  assumes "listens j r" and "\<forall>x \<in> set ins. broadcast_frame (snd x)"
  shows "listens j (node_stream E h junk ins r) \<and> usage (node_stream E h junk ins r) = usage r
     \<and> (\<exists>q. node_smart j (node_stream E h junk ins r)
         = (smart_run (map (\<lambda>(t, bytes). (t, message_in bytes)) ins) (node_smart j r))\<lparr>sd_queue := q\<rparr>)"
  by (rule node_stream_state [OF assms])

subsection \<open>The bus at rest\<close>

text \<open>The last reading of unit \<open>u\<close> among frames: what the last response of the unit that carries a value says.\<close>

definition last_reading :: "unit_code \<Rightarrow> u8 list list \<Rightarrow> u64 option" where
  "last_reading u frames =
     (let ms = filter (\<lambda>m. is_response u m \<and> RESPONSE_LEN \<le> unat (m_size m)) (map message_in frames)
      in if ms = [] then None else Some (rm_value (dec_response (m_payload (last ms)))))"

lemma values_in_frames:
  assumes "length ts = length frames"
  shows "map snd (values_in u (map (\<lambda>(t, bytes). (t, message_in bytes)) (zip ts frames)))
    = filter (\<lambda>m. is_response u m \<and> RESPONSE_LEN \<le> unat (m_size m)) (map message_in frames)"
  using assms by (induction ts frames rule: list_induct2) (simp_all add: values_in_def responses_in_def)

lemma consumer_reads_stream:
  assumes "listens j r" and "sd_role (node_smart j r) = CONSUMER" and "\<forall>f \<in> set frames. broadcast_frame f"
    and "length ts = length frames"
  shows "smart_value (node_smart j (node_stream E h junk (zip ts frames) r))
    = (case last_reading (sd_unit (node_smart j r)) frames of None \<Rightarrow> smart_value (node_smart j r) | Some v \<Rightarrow> v)"
proof -
  let ?ms = "map (\<lambda>(t, bytes). (t, message_in bytes)) (zip ts frames)" and ?sd = "node_smart j r"
  have fr: "\<forall>x \<in> set (zip ts frames). broadcast_frame (snd x)"
    using assms(3) set_zip_rightD [of _ _ ts frames] by fastforce
  obtain q where "node_smart j (node_stream E h junk (zip ts frames) r) = (smart_run ?ms ?sd)\<lparr>sd_queue := q\<rparr>"
    using node_stream_state [OF assms(1) fr] by blast
  then have "smart_value (node_smart j (node_stream E h junk (zip ts frames) r)) = smart_value (smart_run ?ms ?sd)"
    by (simp add: smart_value_def)
  also have "\<dots> = (if values_in (sd_unit ?sd) ?ms = [] then smart_value ?sd
      else rm_value (dec_response (m_payload (snd (last (values_in (sd_unit ?sd) ?ms))))))"
    using consumer_run [OF assms(2)] by blast
  also have "\<dots> = (case last_reading (sd_unit ?sd) frames of None \<Rightarrow> smart_value ?sd | Some v \<Rightarrow> v)"
    unfolding last_reading_def Let_def values_in_frames [OF assms(4), symmetric] by (simp add: last_map)
  finally show ?thesis .
qed

lemma drained_delivered:
  assumes run: "bus_run ls (bus_start ports m) = Some b" and "length ports < MAX_COMPONENTS"
    and "length ls < 2 ^ 63" and "quiet b" and "on_time i b" and "reader_on i b"
  shows "bus_delivered b ! i = map bs_frame (filter (wants_slot i) (bus_history b))"
proof -
  have inv: "bus_inv b" by (rule bus_reached_inv [OF assms(1-3)])
  note q = quiet_read [OF assms(4) inv assms(5,6)]
  have "rseq b i = length (bus_history b)" using q inv by (simp add: bus_inv_def ring_ok_def)
  moreover have "bus_delivered b ! i @ carried (bus_readers b ! i)
     = map bs_frame (filter (wants_slot i) (take (rseq b i) (bus_history b)))"
    using inv assms(5) by (simp add: bus_inv_def delivered_ok_def)
  ultimately show ?thesis using q by simp
qed

text \<open>C11. A process that joined the bus of its vehicle before the first frame was written, and whose reader
  runs, has a consumer \<open>SmartData\<close> that listens from the moment its process has been given \<open>k\<close> frames on.
  When the bus has come to rest (no thread can take a step; in whatever interleaving the processes wrote,
  read, joined and closed), and the frames meant for the process are well-formed broadcasts, the consumer
  read as a variable holds the value of the last response of its unit among the frames meant for its
  process that were written after the first \<open>k\<close>, or its old value when there was none. A consumer whose
  process joined late is given no such stream, \<open>late_join_overruns\<close>.\<close>

theorem consumer_reads_bus:
  assumes "bus_run ls (bus_start ports m) = Some b" and "length ports < MAX_COMPONENTS"
    and "length ls < 2 ^ 63" and "quiet b" and "on_time i b" and "reader_on i b"
    and "\<forall>s \<in> set (bus_history b). wants_slot i s \<longrightarrow> broadcast_frame (bs_frame s)"
    and "listens j r" and "sd_role (node_smart j r) = CONSUMER" and "length ts = length (drop k (bus_delivered b ! i))"
  shows "smart_value (node_smart j (node_stream E h junk (zip ts (drop k (bus_delivered b ! i))) r))
    = (case last_reading (sd_unit (node_smart j r)) (drop k (map bs_frame (filter (wants_slot i) (bus_history b)))) of
         None \<Rightarrow> smart_value (node_smart j r) | Some v \<Rightarrow> v)"
proof -
  note d = drained_delivered [OF assms(1-6)]
  have "\<forall>f \<in> set (bus_delivered b ! i). broadcast_frame f" using assms(7) by (auto simp: d)
  then have "\<forall>f \<in> set (drop k (bus_delivered b ! i)). broadcast_frame f" by (auto dest: in_set_dropD)
  from consumer_reads_stream [OF assms(8,9) this assms(10), of E h junk] show ?thesis by (simp add: d)
qed

subsection \<open>A concrete bus\<close>

text \<open>Both processes of a vehicle join, the gateway writes one frame, and both read it.\<close>

definition one_frame_run :: "u8 list \<Rightarrow> label list" where
  "one_frame_run F = [Join 0, Join 1] @ [Send 0 0 F, Writer 0, Writer 0, Writer 0, Writer 0, Writer 0, Writer 0]
     @ [Reader 0, Reader 0, Reader 0, Reader 0, Reader 0, Reader 0, Reader 0, Reader 0]
     @ [Reader 1, Reader 1, Reader 1, Reader 1, Reader 1, Reader 1, Reader 1, Reader 1]"

lemma one_frame_result:
  assumes "0 < length F" "length F \<le> FRAME_SIZE"
  shows "\<exists>b. bus_run (one_frame_run F) (bus_start [5] 1) = Some b \<and> bus_sems b = [1, 100, 0, 0]
   \<and> bus_writers b = [WIdle] \<and> bus_readers b = [RWait, RWait] \<and> bus_running b = [True, True]
   \<and> bus_late b = [False, False]
   \<and> map bs_frame (bus_history b) = [F] \<and> bus_delivered b = [[F], [F]]"
proof (rule demo_start [of 1])
  fix r assume r: "bus_run [Join 0, Join 1] (bus_start [5] 1) = Some \<lparr>bus_region = r,
     bus_sems = [1, 100, 0, 0], bus_writers = replicate 1 WIdle,
     bus_readers = [RHead, RHead], bus_running = [True, True], bus_woken = [False, False],
     bus_late = [False, False], bus_history = [], bus_delivered = [[], []]\<rparr>"
    "component_count r = 2" "next_write_seq r = 0" "length (slots r) = 100"
    "\<And>k. k < 100 \<Longrightarrow> bs_frame (slots r ! k) = replicate FRAME_SIZE 0 \<and> bs_flags (slots r ! k) = 0"
    "length (components r) = 100" "\<And>i. i < 2 \<Longrightarrow> c_read_seq (components r ! i) = 0"
  show ?thesis using assms
    by (simp only: one_frame_run_def run_append r(1) option.case) (simp add: run_simps r(2-) GATEWAY_WRITER_def)
qed

lemma one_frame_rest:
  assumes "bus_sems b = [1, 100, 0, 0]" "bus_writers b = [WIdle]" "bus_readers b = [RWait, RWait]" "bus_running b = [True, True]"
  shows "quiet b" "reader_on 1 b"
  using assms by (auto simp: quiet_def reader_on_def internal_def bus_step_def writer_step_def reader_step_def sem_simps
      less_Suc_eq nth_Cons' split: label.splits)

lemma response_reading:
  assumes "data_frame sp (a_port logical_broadcast) DATA ts (response_bytes v sd) bytes"
  shows "broadcast_frame bytes" "last_reading (sd_unit sd) [bytes] = Some v"
proof -
  note f = assms [unfolded data_frame_def response_length(1)]
  show "broadcast_frame bytes"
    unfolding broadcast_frame_def using f response_length(2,3) by simp
  have "take (length bytes - HEADER_SIZE - HEADER_LEN) (pkt_data (drop HEADER_SIZE bytes)) = response_bytes v sd"
    using f by simp
  then obtain a q where m: "message_in bytes = arrived a q (hdr_timestamp (drop HEADER_SIZE bytes)) (response_bytes v sd)"
    by (simp add: message_in_def Let_def)
  note a = arrived_response [where v = v and u = "sd_unit sd", folded response_bytes_def]
  show "last_reading (sd_unit sd) [bytes] = Some v"
    unfolding last_reading_def m using a by (simp add: m)
qed

lemma demo_reading_frame:
  obtains bytes where "writes_to_bus node_env bytes (demo_node demo_producer) (node_respond node_env (\<lambda>p. p) 7 42 0 (demo_node demo_producer))"
    "broadcast_frame bytes" "last_reading SPEED [bytes] = Some 42"
proof -
  have st: "in_i64 (stamp_of 7 (cm_stamp (snd (pr_env (demo_node demo_producer)))))"
    "stamp_of 7 (cm_stamp (snd (pr_env (demo_node demo_producer)))) \<noteq> 0"
    by (simp_all add: demo_node_ok stamp_of_def in_i64_def)
  obtain bytes sp ts where w: "writes_to_bus node_env bytes (demo_node demo_producer) (node_respond node_env (\<lambda>p. p) 7 42 0 (demo_node demo_producer))"
    "data_frame sp (a_port logical_broadcast) DATA ts (response_bytes 42 demo_producer) bytes"
    using node_writes(1) [OF demo_node_ok(2) st, of node_env "\<lambda>p. p" 42 0] unfolding demo_node_ok(3) by blast
  have "sd_unit demo_producer = SPEED" by (simp add: demo_producer_def smart_blank_def)
  then show ?thesis using that w(1) response_reading [OF w(2)] by simp
qed

lemma process_refines_smart_witness:
  "\<exists>bytes q. listens 0 (node_stream node_env (\<lambda>p. p) (0, 0) [(8, bytes)] (demo_node (smart_blank SPEED)))
     \<and> usage (node_stream node_env (\<lambda>p. p) (0, 0) [(8, bytes)] (demo_node (smart_blank SPEED)))
         = usage (demo_node (smart_blank SPEED))
     \<and> node_smart 0 (node_stream node_env (\<lambda>p. p) (0, 0) [(8, bytes)] (demo_node (smart_blank SPEED)))
         = (smart_run [(8, message_in bytes)] (smart_blank SPEED))\<lparr>sd_queue := q\<rparr>"
proof -
  obtain bytes where "broadcast_frame bytes"
    by (rule demo_reading_frame)
  then show ?thesis
    using process_refines_smart [OF demo_node_ok(1) [of "smart_blank SPEED"], of "[(8, bytes)]" node_env "\<lambda>p. p" "(0, 0)"]
    by (intro exI [of _ bytes]) (simp add: demo_node_ok(3))
qed

lemma consumer_reads_bus_witness:
  "\<exists>F b. writes_to_bus node_env F (demo_node demo_producer) (node_respond node_env (\<lambda>p. p) 7 42 0 (demo_node demo_producer))
     \<and> bus_run (one_frame_run F) (bus_start [5] 1) = Some b
     \<and> smart_value (node_smart 0 (node_stream node_env (\<lambda>p. p) (0, 0) (zip [8] (bus_delivered b ! 1)) (demo_node (smart_blank SPEED)))) = 42"
proof -
  obtain F where wr: "writes_to_bus node_env F (demo_node demo_producer) (node_respond node_env (\<lambda>p. p) 7 42 0 (demo_node demo_producer))"
    and F: "broadcast_frame F" "last_reading SPEED [F] = Some 42"
    by (rule demo_reading_frame)
  have len: "0 < length F" "length F \<le> FRAME_SIZE"
    using F(1) by (auto simp: broadcast_frame_def frame_consts header_consts MESSAGE_MAX_SIZE_def)
  obtain b where b: "bus_run (one_frame_run F) (bus_start [5] 1) = Some b" "bus_sems b = [1, 100, 0, 0]"
    "bus_writers b = [WIdle]" "bus_readers b = [RWait, RWait]" "bus_running b = [True, True]" "bus_late b = [False, False]"
    "map bs_frame (bus_history b) = [F]" "bus_delivered b = [[F], [F]]"
    using one_frame_result [OF len] by (elim exE conjE) (rule that)
  note q = one_frame_rest [OF b(2-5)]
  have r: "sd_role (smart_blank SPEED) = CONSUMER" "sd_unit (smart_blank SPEED) = SPEED" by (simp_all add: smart_blank_def)
  obtain s where s: "bus_history b = [s]" "bs_frame s = F" using b(7) by (auto simp: map_eq_Cons_conv)
  have run: "length [5 :: u16] < MAX_COMPONENTS" "length (one_frame_run F) < 2 ^ 63"
    by (simp_all add: MAX_COMPONENTS_def one_frame_run_def)
  have i: "on_time 1 b" "\<forall>s \<in> set (bus_history b). wants_slot 1 s \<longrightarrow> broadcast_frame (bs_frame s)"
    "length [8] = length (drop 0 (bus_delivered b ! 1))"
    using b(4,6,8) s F(1) by (simp_all add: on_time_def)
  have "bus_delivered b ! 1 = map bs_frame (filter (wants_slot 1) (bus_history b))"
    by (rule drained_delivered [OF b(1) run q(1) i(1) q(2)])
  then have "length (filter (wants_slot 1) (bus_history b)) = 1"
    unfolding b(8) by (metis length_map length_Cons list.size(3) nth_Cons_Suc nth_Cons_0 One_nat_def)
  then have w: "wants_slot 1 s" unfolding s(1) by (simp split: if_splits)
  have n: "sd_role (node_smart 0 (demo_node (smart_blank SPEED))) = CONSUMER" by (simp add: demo_node_ok r)
  show ?thesis
    using consumer_reads_bus [OF b(1) run q(1) i(1) q(2) i(2) demo_node_ok(1) n i(3), of node_env "\<lambda>p. p" "(0, 0)"] b(1) F(2) wr
    by (intro exI [of _ F] exI [of _ b]) (simp add: w [simplified] s demo_node_ok r)
qed

end
