(* ===== verification/Rsu.thy ===== *)
theory Rsu
  imports Endpoint Vehicle "HOL-Library.Char_ord"
begin

section \<open>The roadside unit\<close>

text \<open>
  \<open>src/application/rsu.cpp\<close>: the period of the interest broker is read from the kernel's command
  line; the gateway process of the unit starts the protocol as master and runs the broker on a
  communicator of its own until it is killed. \<open>fgets\<close>, \<open>strtok\<close> and \<open>sscanf\<close> are written out as
  the C library defines them for these calls.
\<close>

subsection \<open>The command line\<close>

definition NEWLINE :: char where "NEWLINE = CHR 0x0A"
definition SPACE :: char where "SPACE = CHR 0x20"

definition is_digit :: "char \<Rightarrow> bool" where
  "is_digit c \<longleftrightarrow> 48 \<le> (of_char c :: nat) \<and> (of_char c :: nat) \<le> 57"

definition is_space :: "char \<Rightarrow> bool" where
  "is_space c \<longleftrightarrow> 9 \<le> (of_char c :: nat) \<and> (of_char c :: nat) \<le> 13 \<or> c = SPACE"

definition dec_value :: "string \<Rightarrow> nat" where
  "dec_value ds = foldl (\<lambda>a c. a * 10 + (of_char c - 48)) 0 ds"

text \<open>\<open>%llu\<close>: leading white space, a sign, and the longest run of digits; too large a value saturates.\<close>

definition scan_ull :: "string \<Rightarrow> u64 option" where
  "scan_ull s =
     (let s1 = dropWhile is_space s;
          (neg, s2) = (case s1 of [] \<Rightarrow> (False, []) | c # r \<Rightarrow>
             if c = CHR ''-'' then (True, r) else if c = CHR ''+'' then (False, r) else (False, s1));
          ds = takeWhile is_digit s2
      in if ds = [] then None
         else let n = dec_value ds in
           Some (if n \<ge> 2 ^ 64 then - 1 else if neg then - of_nat n else of_nat n))"

definition REPEAT_KEY :: string where "REPEAT_KEY = ''so2.rsu_repeat_us=''"

definition scan_repeat :: "string \<Rightarrow> u64 option" where
  "scan_repeat tok =
     (if take (length REPEAT_KEY) tok = REPEAT_KEY then scan_ull (drop (length REPEAT_KEY) tok) else None)"

text \<open>\<open>strtok(line, \" \")\<close> until it returns \<open>nullptr\<close>.\<close>

function strtok :: "string \<Rightarrow> string list" where
  "strtok s =
     (let s1 = dropWhile (\<lambda>c. c = SPACE) s in
      if s1 = [] then []
      else takeWhile (\<lambda>c. c \<noteq> SPACE) s1 # strtok (dropWhile (\<lambda>c. c \<noteq> SPACE) s1))"
  by auto

termination
proof (relation "measure length")
  fix s s1 :: string
  assume s1: "s1 = dropWhile (\<lambda>c. c = SPACE) s" "s1 \<noteq> []"
  have "hd s1 \<noteq> SPACE" using hd_dropWhile [of "\<lambda>c. c = SPACE" s] s1 by simp
  then have "length (dropWhile (\<lambda>c. c \<noteq> SPACE) s1) < length s1" using s1(2)
    by (cases s1) (auto simp: le_imp_less_Suc length_dropWhile_le)
  also have "length s1 \<le> length s" using s1(1) length_dropWhile_le by blast
  finally show "(dropWhile (\<lambda>c. c \<noteq> SPACE) s1, s) \<in> measure length" by simp
qed simp

declare strtok.simps [simp del]

text \<open>\<open>fgets\<close> into a buffer of \<open>n\<close> bytes, and the C string the buffer then holds.\<close>

definition fgets :: "nat \<Rightarrow> string \<Rightarrow> string option" where
  "fgets n s =
     (if s = [] then None
      else let l = takeWhile (\<lambda>c. c \<noteq> NEWLINE) s;
               l' = (if length l < length s then l @ [NEWLINE] else l)
           in Some (take (n - 1) l'))"

definition c_string :: "string \<Rightarrow> string" where
  "c_string s = takeWhile (\<lambda>c. c \<noteq> CHR 0x00) s"

fun first_match :: "string list \<Rightarrow> u64" where
  "first_match [] = 0"
| "first_match (tok # toks) = (case scan_repeat tok of Some v \<Rightarrow> v | None \<Rightarrow> first_match toks)"

text \<open>\<open>file\<close> is \<open>/proc/cmdline\<close>, \<open>None\<close> when it cannot be opened.\<close>

definition read_rsu_repeat_us :: "string option \<Rightarrow> u64" where
  "read_rsu_repeat_us file =
     (case file of
        None \<Rightarrow> 0
      | Some s \<Rightarrow> (case fgets 4096 s of None \<Rightarrow> 0 | Some line \<Rightarrow> first_match (strtok (c_string line))))"

definition rsu_repeat_us :: "string option \<Rightarrow> u64" where
  "rsu_repeat_us file = (let r = read_rsu_repeat_us file in if r = 0 then 1500000 else r)"

subsection \<open>Reading back a period\<close>

text \<open>Decimal digits of a number, as the command line writes it.\<close>

fun dec_digits :: "nat \<Rightarrow> string" where
  "dec_digits n = (if n < 10 then [char_of (48 + n)] else dec_digits (n div 10) @ [char_of (48 + n mod 10)])"

declare dec_digits.simps [simp del]

lemma digit_char [simp]: "d < 10 \<Longrightarrow> of_char (char_of (48 + d) :: char) = (48 + d :: nat)"
  by (simp add: of_char_of)

lemma dec_digits_ok: "dec_digits n \<noteq> [] \<and> (\<forall>c \<in> set (dec_digits n). is_digit c) \<and> dec_value (dec_digits n) = n"
proof (induction n rule: dec_digits.induct)
  case (1 n)
  show ?case
  proof (cases "n < 10")
    case True
    then show ?thesis by (subst dec_digits.simps) (auto simp: dec_digits.simps [of n] is_digit_def dec_value_def)
  next
    case False
    then show ?thesis using 1
      by (subst (1 2 3) dec_digits.simps) (auto simp: is_digit_def dec_value_def)
  qed
qed

lemma digit_plain: "is_digit c \<Longrightarrow> c \<noteq> SPACE \<and> c \<noteq> NEWLINE \<and> c \<noteq> CHR 0x00 \<and> \<not> is_space c \<and> c \<noteq> CHR ''-'' \<and> c \<noteq> CHR ''+''"
  by (auto simp: is_digit_def SPACE_def NEWLINE_def is_space_def)

lemma scan_digits:
  assumes "n < 2 ^ 64" and "rest \<noteq> [] \<longrightarrow> \<not> is_digit (hd rest)"
  shows "scan_ull (dec_digits n @ rest) = Some (of_nat n)"
proof -
  note d = dec_digits_ok [of n]
  obtain c ds where c: "dec_digits n = c # ds" using d by (cases "dec_digits n") auto
  have p: "is_digit c" using d c by simp
  have "takeWhile is_digit (dec_digits n @ rest) = dec_digits n"
    using d assms(2) by (cases rest) (simp_all add: takeWhile_append)
  then show ?thesis using digit_plain [OF p] assms(1) d c by (simp add: scan_ull_def)
qed

text \<open>A word of the command line: no separators, and not the key's.\<close>

definition plain_word :: "string \<Rightarrow> bool" where
  "plain_word t \<longleftrightarrow> t \<noteq> [] \<and> (\<forall>c \<in> set t. c \<noteq> SPACE \<and> c \<noteq> NEWLINE \<and> c \<noteq> CHR 0x00)"

definition spaced :: "string list \<Rightarrow> string" where
  "spaced ts = concat (map (\<lambda>t. t @ [SPACE]) ts)"

lemma strtok_word:
  assumes "plain_word t"
  shows "strtok (t @ r) = (t @ takeWhile (\<lambda>c. c \<noteq> SPACE) r) # strtok (dropWhile (\<lambda>c. c \<noteq> SPACE) r)"
proof -
  obtain c t' where t: "t = c # t'" using assms by (cases t) (auto simp: plain_word_def)
  have p: "\<forall>c \<in> set t. c \<noteq> SPACE" using assms by (auto simp: plain_word_def)
  show ?thesis
    by (subst strtok.simps) (use p t in \<open>simp add: takeWhile_append dropWhile_append Let_def\<close>)
qed

lemma strtok_spaced: "\<forall>t \<in> set ts. plain_word t \<Longrightarrow> strtok (spaced ts @ s) = ts @ strtok s"
proof (induction ts)
  case (Cons t ts)
  have sp: "strtok (SPACE # x) = strtok x" for x by (subst (1 2) strtok.simps) simp
  have "strtok (spaced (t # ts) @ s) = strtok (t @ SPACE # spaced ts @ s)" by (simp add: spaced_def)
  also have "\<dots> = t # strtok (spaced ts @ s)"
    using strtok_word [of t "SPACE # spaced ts @ s"] Cons.prems sp by simp
  finally show ?case using Cons by simp
qed (simp add: spaced_def)

lemma first_match_skip: "\<forall>t \<in> set ts. scan_repeat t = None \<Longrightarrow> first_match (ts @ us) = first_match us"
  by (induction ts) simp_all

lemma fgets_prefix:
  assumes "\<forall>c \<in> set pre. c \<noteq> NEWLINE" and "pre \<noteq> []" and "length pre < n"
  shows "\<exists>r. fgets n (pre @ rest) = Some (pre @ r) \<and> (r = [] \<or> rest \<noteq> [] \<and> hd r = hd rest)"
proof -
  let ?l = "takeWhile (\<lambda>c. c \<noteq> NEWLINE) rest"
  have "takeWhile (\<lambda>c. c \<noteq> NEWLINE) (pre @ rest) = pre @ ?l" using assms(1) by (simp add: takeWhile_append)
  then obtain x where x: "fgets n (pre @ rest) = Some (take (n - 1) (pre @ x))"
    "x = ?l @ (if length ?l < length rest then [NEWLINE] else [])"
    using assms(2) by (simp add: fgets_def Let_def)
  have "hd x = hd rest" if "x \<noteq> []"
    using that x(2) by (cases rest) (auto split: if_splits)
  moreover have "rest \<noteq> []" if "x \<noteq> []" using that x(2) by auto
  moreover have "take (n - 1) (pre @ x) = pre @ take (n - 1 - length pre) x" using assms(3) by simp
  ultimately show ?thesis using x(1)
    by (intro exI [of _ "take (n - 1 - length pre) x"]) (cases x; cases "n - 1 - length pre"; simp)
qed

text \<open>A period written in decimal as a word \<open>so2.rsu_repeat_us=n\<close> of the kernel's command line,
  after words of other options and within the first 4095 characters, is the period of the
  broker; zero selects the default of 1.5 s.\<close>

theorem repeat_us_from_cmdline:
  assumes "\<forall>t \<in> set ts. plain_word t \<and> scan_repeat t = None" and "n < 2 ^ 64"
    and "rest = [] \<or> hd rest = SPACE \<or> hd rest = NEWLINE"
    and "length (spaced ts @ REPEAT_KEY @ dec_digits n) < 4096"
  shows "rsu_repeat_us (Some (spaced ts @ REPEAT_KEY @ dec_digits n @ rest)) = (if n = 0 then 1500000 else of_nat n)"
proof -
  let ?pre = "spaced ts @ REPEAT_KEY @ dec_digits n"
  note d = dec_digits_ok [of n]
  have key: "plain_word (REPEAT_KEY @ dec_digits n)" "\<forall>c \<in> set REPEAT_KEY. c \<noteq> NEWLINE \<and> c \<noteq> CHR 0x00"
    using d digit_plain by (auto simp: plain_word_def REPEAT_KEY_def SPACE_def NEWLINE_def)
  have sp: "\<forall>c \<in> set (spaced ts). c \<noteq> NEWLINE \<and> c \<noteq> CHR 0x00"
    using assms(1) by (auto simp: spaced_def plain_word_def SPACE_def NEWLINE_def)
  have pre: "\<forall>c \<in> set ?pre. c \<noteq> NEWLINE" "\<forall>c \<in> set ?pre. c \<noteq> CHR 0x00" "?pre \<noteq> []"
    using sp key(2) d digit_plain by auto
  obtain r where r: "fgets 4096 (?pre @ rest) = Some (?pre @ r)" "r = [] \<or> rest \<noteq> [] \<and> hd r = hd rest"
    using fgets_prefix [OF pre(1,3) assms(4), of rest] by blast
  let ?r = "c_string r"
  have cs: "c_string (?pre @ r) = ?pre @ ?r" using pre(2) unfolding c_string_def by (simp add: takeWhile_append)
  let ?u = "takeWhile (\<lambda>c. c \<noteq> SPACE) ?r"
  have hd: "r \<noteq> [] \<longrightarrow> hd r = SPACE \<or> hd r = NEWLINE" using r(2) assms(3) by auto
  have u: "?u \<noteq> [] \<longrightarrow> \<not> is_digit (hd ?u)"
    using hd digit_plain [of NEWLINE] by (cases r) (auto simp: c_string_def split: if_splits)
  have "strtok (?pre @ ?r) = ts @ strtok ((REPEAT_KEY @ dec_digits n) @ ?r)"
    using strtok_spaced [of ts] assms(1) by simp
  also have "\<dots> = ts @ ((REPEAT_KEY @ dec_digits n) @ ?u) # strtok (dropWhile (\<lambda>c. c \<noteq> SPACE) ?r)"
    by (simp only: strtok_word [OF key(1)])
  finally have "first_match (strtok (c_string (?pre @ r))) = of_nat n"
    unfolding cs using first_match_skip [of ts] assms(1) scan_digits [OF assms(2) u]
    by (simp add: scan_repeat_def)
  then have "read_rsu_repeat_us (Some (?pre @ rest)) = of_nat n"
    using r(1) by (simp add: read_rsu_repeat_us_def)
  moreover have "(of_nat n :: u64) = 0 \<longleftrightarrow> n = 0" using assms(2) by (auto simp: word_of_nat_eq_0_iff dest: dvd_imp_le)
  ultimately show ?thesis by (simp add: rsu_repeat_us_def Let_def)
qed

lemma repeat_us_from_cmdline_witness:
  "rsu_repeat_us (Some ''quiet so2.rsu_repeat_us=250 so2.vm_id=1'') = 250"
proof -
  have "dec_digits 250 = ''250''" by code_simp
  then show ?thesis
    using repeat_us_from_cmdline [of "[''quiet'']" 250 "'' so2.vm_id=1''"]
    by (simp add: spaced_def plain_word_def scan_repeat_def REPEAT_KEY_def SPACE_def NEWLINE_def)
qed

subsection \<open>The process of the unit\<close>

definition rsu_initialize :: "'p gateway \<Rightarrow> 'p gateway" where
  "rsu_initialize g = g\<lparr>gw_master := True\<rparr>"

definition presence_handler :: "bool \<Rightarrow> ('o, 'g, 'n, 'r, 'x) handler" where
  "presence_handler present p = (if present then set_presence_handler p else p\<lparr>pr_presence := False\<rparr>)"

text \<open>
  The exit code with the objects removed, or the period and the state in which the process pauses
  for ever while the broker's thread ticks.
\<close>

definition rsu_gateway_process ::
  "(bufref, ('o, 'g, 'n, 'r, 'x) proto) channel_ops \<Rightarrow> (configuration option \<Rightarrow> ('o, 'g, 'n, 'r, 'x) proto)
     \<Rightarrow> (bool \<Rightarrow> ('o, 'g, 'n, 'r, 'x) handler) \<Rightarrow> ipc_answers \<Rightarrow> string option \<Rightarrow> heap \<Rightarrow> int
     \<Rightarrow> ('o, 'g, 'n, 'r, 'x) proto gateway
     \<Rightarrow> (int \<times> os_event list) + (u64 \<times> (bufref, ('o, 'g, 'n, 'r, 'x) proto) broker)"
where
  "rsu_gateway_process ops build sync a cmdline h stamp gw =
     (case create a None 0 of (ctx, bus, removed) \<Rightarrow>
        if shmid ctx < 0 \<or> semid ctx < 0 then Inl (1, map Removed removed)
        else let g = gateway_run build sync (gw\<lparr>gw_context := ctx\<rparr>) in
          case gw_protocol g of
            None \<Rightarrow> Inl (1, map Removed removed)
          | Some p \<Rightarrow> Inr (rsu_repeat_us cmdline, tracker_open presence_handler
              (comm_init ops (create_address PORT_GATEWAY p) True h stamp p tracker_init)))"

lemma gateway_sptp:
  "\<exists>s. pr_sptp (enable_sync E h set_fixed silence steady early m
       (new_protocol True ring bufs bufs' mac raw obs x (Some (gateway_configuration c)))) = Some s
     \<and> (m \<longrightarrow> s_is_master s)"
  by (auto simp: enable_sync_def new_protocol_def protocol_init_def is_gateway_process_def sptp_start_def
      gateway_configuration_def Let_def sptp_init_def split: prod.split)

text \<open>C32. Either some system call of \<open>create\<close> failed and the roadside unit exits with 1 after removing what
  it had obtained, or it ends up with a master of the clock synchronisation, its presence
  handler set, one broker attached to the communicator, and the communicator attached to the
  broadcast port: the branch for a missing protocol is never taken.\<close>

theorem rsu_runs_broker:
  fixes E :: "('g, 'n, 'r, 'x) env" and h :: "('o, 'g, 'n, 'r, 'x) handler"
  assumes "build = new_protocol True ring bufs bufs' mac raw obs x"
    and "sync = enable_sync E h set_fixed silence steady early" and "gw_protocol gw = None"
  shows "case rsu_gateway_process (protocol_channel E h ob) build sync a cmdline hp stamp (rsu_initialize gw) of
       Inl (code, tr) \<Rightarrow> code = 1 \<and> set (removals tr) = obtained a \<and> distinct (removals tr)
     | Inr (repeat_us, b) \<Rightarrow> repeat_us = rsu_repeat_us cmdline \<and> repeat_us \<noteq> 0
         \<and> (\<exists>s. pr_sptp (cm_channel b) = Some s \<and> s_is_master s) \<and> pr_presence (cm_channel b)
         \<and> targets_of broadcast_condition (cm_observers b) = [()]
         \<and> ob \<in> set (targets_of broadcast_condition (pr_observed (cm_channel b)))"
proof -
  obtain ctx bus removed where c: "create a None 0 = (ctx, bus, removed)" by (cases "create a None 0")
  have leak: "shmid ctx < 0 \<or> semid ctx < 0 \<Longrightarrow> set removed = obtained a \<and> distinct removed"
    using c by (auto simp: create_def obtained_def Let_def MAX_COMPONENTS_def split: if_splits)
  obtain s where s: "pr_sptp (sync True (build (Some (gateway_configuration ctx)))) = Some s" "s_is_master s"
    using gateway_sptp [of E h set_fixed silence steady early True ring bufs bufs' mac raw obs x ctx] assms(1,2) by auto
  have rep: "rsu_repeat_us cmdline \<noteq> 0" by (simp add: rsu_repeat_us_def Let_def)
  show ?thesis
  proof (cases "shmid ctx < 0 \<or> semid ctx < 0")
    case True
    then show ?thesis using c leak by (simp add: rsu_gateway_process_def)
  next
    case False
    let ?p = "sync True (build (Some (gateway_configuration ctx)))"
    let ?b = "comm_init (protocol_channel E h ob) (create_address PORT_GATEWAY ?p) True hp stamp ?p tracker_init
        :: (bufref, ('o, 'g, 'n, 'r, 'x) proto) broker"
    have "rsu_gateway_process (protocol_channel E h ob) build sync a cmdline hp stamp (rsu_initialize gw)
        = Inr (rsu_repeat_us cmdline, tracker_open presence_handler ?b)"
      using c False by (simp add: rsu_gateway_process_def gateway_run_def rsu_initialize_def Let_def)
    moreover have "pr_sptp (cm_channel ?b) = pr_sptp ?p" "cm_observers ?b = []"
      "ob \<in> set (targets_of broadcast_condition (pr_observed (cm_channel ?b)))"
      by (simp_all add: comm_init_def Let_def protocol_channel_def protocol_attach_def co_attach_def broadcast_condition_def)
    ultimately show ?thesis using s rep
      by (simp add: tracker_open_def presence_handler_def set_presence_handler_def co_attach_def)
  qed
qed

lemma rsu_runs_broker_witness:
  "\<exists>res. rsu_gateway_process (protocol_channel demo_env (\<lambda>p. p) (0 :: nat))
      (new_protocol True [] blank_buffers blank_buffers demo_mac \<lparr>r_sockfd = -1, r_ifindex = 0, r_gps = 0, r_net = []\<rparr> [] 0)
      (enable_sync demo_env (\<lambda>p. p) (\<lambda>_ g. g) None 0 0) \<lparr>a_shmget = 7, a_semget = 9, a_shmat = True, a_setall = False\<rparr>
      None \<lparr>h_cells = [], h_deleted = []\<rparr> 0 (rsu_initialize gateway_new) = res
     \<and> (case res of Inl (code, tr) \<Rightarrow> code = 1 \<and> set (removals tr) = {Shm 7, Sem 9} | Inr (repeat_us, _) \<Rightarrow> repeat_us \<noteq> 0)"
proof -
  let ?a = "\<lparr>a_shmget = 7, a_semget = 9, a_shmat = True, a_setall = False\<rparr>"
  let ?res = "rsu_gateway_process (protocol_channel demo_env (\<lambda>p. p) (0 :: nat))
      (new_protocol True [] blank_buffers blank_buffers demo_mac \<lparr>r_sockfd = -1, r_ifindex = 0, r_gps = 0, r_net = []\<rparr> [] 0)
      (enable_sync demo_env (\<lambda>p. p) (\<lambda>_ g. g) None 0 0) ?a None \<lparr>h_cells = [], h_deleted = []\<rparr> 0 (rsu_initialize gateway_new)"
  have n: "gw_protocol gateway_new = None" by (simp add: gateway_new_def)
  have o: "obtained ?a = {Shm 7, Sem 9}" by (simp add: obtained_def)
  note t = rsu_runs_broker [OF refl refl n, where E = demo_env and h = "\<lambda>p. p" and ob = "0 :: nat"
      and ring = "[]" and bufs = blank_buffers and bufs' = blank_buffers and mac = demo_mac
      and raw = "\<lparr>r_sockfd = -1, r_ifindex = 0, r_gps = 0, r_net = []\<rparr>" and obs = "[]" and x = 0
      and set_fixed = "\<lambda>_ g. g" and silence = None and steady = 0 and early = 0
      and a = ?a and cmdline = None and hp = "\<lparr>h_cells = [], h_deleted = []\<rparr>" and stamp = 0, unfolded o]
  show ?thesis
  proof (intro exI conjI)
    show "case ?res of Inl (code, tr) \<Rightarrow> code = 1 \<and> set (removals tr) = {Shm 7, Sem 9} | Inr (repeat_us, _) \<Rightarrow> repeat_us \<noteq> 0"
    proof (cases ?res)
      case (Inl y)
      then show ?thesis using t unfolding Inl by (cases y) simp
    next
      case (Inr y)
      then show ?thesis using t unfolding Inr by (cases y) simp
    qed
  qed (rule refl)
qed

subsection \<open>The process that waits\<close>

text \<open>\<open>RSU::run\<close>: the exit code, 1 for \<open>std::exit(1)\<close>, 0 when it returns; \<open>None\<close> when the gateway never ends.\<close>

definition rsu_run :: "int \<Rightarrow> wait_status option \<Rightarrow> int option" where
  "rsu_run gateway_pid gateway_status =
     (if gateway_pid < 0 then Some 1
      else case gateway_status of None \<Rightarrow> None | Some _ \<Rightarrow> Some 0)"

text \<open>A gateway process of the unit that fails is not reported, unlike that of a vehicle.\<close>

lemma rsu_run_hides_failure:
  assumes "0 < pid" and "child_failed st"
  shows "rsu_run pid (Some st) = Some 0 \<and> vehicle_run pid (Some st) = Some 1"
  using assms by (simp add: rsu_run_def vehicle_run_def)

end
