(* ===== verification/Rsu_Journey.thy ===== *)
theory Rsu_Journey
  imports Sync_Journey Rsu
begin

section \<open>An interest, repeated by the roadside unit\<close>

text \<open>
  The gateway process of the roadside unit (\<open>src/application/rsu.cpp\<close>) put together: protocol, communicator
  and broker (\<open>src/communication/smart_data/interest_tracker.h\<close>); what an interest that comes over the
  network does to the broker, and what a tick of the broker hands to the socket.
\<close>

subsection \<open>The process\<close>

type_synonym ('g, 'n, 'r, 'x) rsu = "(unit, tracker, 'g, 'n, 'r, 'x) host"

definition rsu_tracker :: "('g, 'n, 'r, 'x) rsu \<Rightarrow> tracker" where
  "rsu_tracker p = cm_clients (snd (pr_env p))"

text \<open>A frame from the network, with the clock the broker reads; and one call of the broker's job.\<close>

definition rsu_update ::
  "('g, 'n, 'r, 'x \<times> (unit, bufref, unit, tracker) communicator) env \<Rightarrow> (unit, 'g, 'n, 'r, 'x \<times> (unit, bufref, unit, tracker) communicator) handler
     \<Rightarrow> int \<Rightarrow> u8 \<times> int \<Rightarrow> u16 \<Rightarrow> bufref \<Rightarrow> ('g, 'n, 'r, 'x) rsu \<Rightarrow> ('g, 'n, 'r, 'x) rsu"
where
  "rsu_update E h n junk port b p =
     packed (comm_update (protocol_channel E h ()) (tracker_update n) junk port b (opened p))"

definition rsu_receive ::
  "('g, 'n, 'r, 'x \<times> (unit, bufref, unit, tracker) communicator) env \<Rightarrow> (unit, 'g, 'n, 'r, 'x \<times> (unit, bufref, unit, tracker) communicator) handler
     \<Rightarrow> int \<Rightarrow> u8 \<times> int \<Rightarrow> u8 list \<Rightarrow> ('g, 'n, 'r, 'x) rsu \<Rightarrow> ('g, 'n, 'r, 'x) rsu"
where
  "rsu_receive E h n junk bytes p = sock_receive E h (\<lambda>_. rsu_update E h n junk) bytes p"

definition rsu_tick ::
  "('g, 'n, 'r, 'x \<times> (unit, bufref, unit, tracker) communicator) env \<Rightarrow> (unit, 'g, 'n, 'r, 'x \<times> (unit, bufref, unit, tracker) communicator) handler
     \<Rightarrow> int \<Rightarrow> (nat \<Rightarrow> int) \<Rightarrow> ('g, 'n, 'r, 'x) rsu \<Rightarrow> ('g, 'n, 'r, 'x) rsu"
where
  "rsu_tick E h now clk p = packed (tracker_tick (protocol_channel E h ()) now clk (opened p))"

text \<open>The state the process pauses in: on the network and the bus, communicator and broker attached.\<close>

definition rsu_open :: "('g, 'n, 'r, 'x) rsu \<Rightarrow> bool" where
  "rsu_open p \<longleftrightarrow> on_network p \<and> in_use (pr_shm p) \<noteq> {..<BUFFER_SIZE} \<and> \<not> n_spatial (pr_shm p)
     \<and> sp_attached (pr_shm_eng p) \<and> sp_slot (pr_shm_eng p) = unat GATEWAY_SLOT
     \<and> targets_of (a_port logical_broadcast) (pr_observed p) = [()]
     \<and> targets_of broadcast_condition (cm_observers (snd (pr_env p))) = [()]"

subsection \<open>Hearing an interest\<close>

text \<open>A data frame whose port is observed in the gateway process: onto the bus, and to the observer.\<close>

lemma heard_frame_result:
  fixes E :: "('g, 'n, 'r, 'x) env" and p :: "('o, 'g, 'n, 'r, 'x) proto"
  assumes shm: "pool_ok (pr_shm p)" "in_use (pr_shm p) \<noteq> {..<BUFFER_SIZE}" "\<not> n_spatial (pr_shm p)"
    and gw: "sp_attached (pr_shm_eng p)" "sp_slot (pr_shm_eng p) = unat GATEWAY_SLOT"
    and n: "pr_sock p = Some n" "pool_ok n" "i \<in> in_use n"
    and hf: "holds_frame bytes (SockBuf i) p" and fr: "data_frame sp dp DATA ts data bytes"
    and obs: "targets_of dp (pr_observed p) = [ob]"
  shows "\<exists>m. protocol_update E h upd (SockBuf i) p = upd ob dp (SockBuf i) (p\<lparr>pr_shm := m,
          pr_shm_eng := (pr_shm_eng p)\<lparr>sp_ring := snd (en_bus E bytes GATEWAY_WRITER DELIVER_TO_COMPONENTS (sp_ring (pr_shm_eng p)))\<rparr>\<rparr>)"
proof -
  have buf: "buffer_at (SockBuf i) p = n_buffers n ! i" using n by (simp add: buffer_at_def)
  note f = held_frame_fields [OF hf fr, unfolded buf]
  have b: "frame_ok (b_data (n_buffers n ! i))" "b_size (n_buffers n ! i) \<le> MTU"
    using pool_buffer [OF n(2) in_use_bound [OF n(3)]] by simp_all
  have all: "take (HEADER_SIZE + b_size (n_buffers n ! i)) (b_data (n_buffers n ! i)) = bytes"
    using hf f(6) by (simp add: holds_frame_def buf)
  obtain m where m: "forward_to_bus E (n_buffers n ! i) p = p\<lparr>pr_shm := m,
      pr_shm_eng := (pr_shm_eng p)\<lparr>sp_ring := snd (en_bus E bytes GATEWAY_WRITER DELIVER_TO_COMPONENTS (sp_ring (pr_shm_eng p)))\<rparr>\<rparr>"
    using forward_to_bus_result [OF shm b gw, of E] unfolding all by blast
  have "kind_of_byte (hdr_kind (payload (b_data (n_buffers n ! i)))) = None" unfolding f(3) by (simp add: kind_of_byte_def)
  then show ?thesis using f(1,2) obs
    by (intro exI [of _ m]) (simp add: protocol_update_def buf Let_def m notify_or_free_def co_notify_targets)
qed

text \<open>The broker and an interest that a communicator unpacked for it.\<close>

lemma tracker_enters:
  "tracker_handle n (arrived a q ts (interest_bytes False s)) t
     = t\<lparr>it_presence := om_put (vehicle_of a) n (it_presence t),
         it_interests := record_entry (sd_unit s, a) (sd_period_us s) (it_interests t)\<rparr>"
proof -
  note i = arrived_interest [where p = "sd_period_us s" and u = "sd_unit s" and w = "if False then 1 else 0",
      folded interest_bytes_def, of a q ts]
  then show ?thesis by (simp add: tracker_handle_def is_interest_def Let_def)
qed

lemma broker_told:
  fixes r :: "(bufref, 'w) broker"
  assumes "targets_of cond (cm_observers r) = [()]"
    and "c = snd (co_notify cm_observers (tracker_update n) cond (length (h_cells (cm_heap r)))
      (r\<lparr>cm_channel := w, cm_heap := (cm_heap r)\<lparr>h_cells := h_cells (cm_heap r) @ [m]\<rparr>\<rparr>))"
  shows "cm_clients c = tracker_handle n m (cm_clients r)" "cm_channel c = w"
  using assms by (simp_all add: co_notify_targets tracker_update_def)

lemma rsu_hears:
  fixes E :: "('g, 'n, 'r, 'x \<times> (unit, bufref, unit, tracker) communicator) env" and p :: "('g, 'n, 'r, 'x) rsu"
  assumes g: "rsu_open p" and fr: "data_frame sp (a_port logical_broadcast) DATA ts (interest_bytes False s) bytes"
    and src: "frame_src bytes \<noteq> station p"
    and quad: "\<not> other_quadrant (quadrant_of E p) (hdr_quadrant (drop HEADER_SIZE bytes))"
  defines "a \<equiv> \<lparr>a_paddr = frame_src bytes, a_port = sp\<rparr>"
  shows "rsu_tracker (rsu_receive E h n junk bytes p) = (rsu_tracker p)\<lparr>it_presence := om_put (vehicle_of a) n (it_presence (rsu_tracker p)),
           it_interests := record_entry (sd_unit s, a) (sd_period_us s) (it_interests (rsu_tracker p))\<rparr>"
    and "relays_to_bus E bytes p (rsu_receive E h n junk bytes p)"
proof -
  have g': "on_network p" "in_use (pr_shm p) \<noteq> {..<BUFFER_SIZE}" "\<not> n_spatial (pr_shm p)" "sp_attached (pr_shm_eng p)"
    "sp_slot (pr_shm_eng p) = unat GATEWAY_SLOT" "targets_of (a_port logical_broadcast) (pr_observed p) = [()]"
    "targets_of broadcast_condition (cm_observers (snd (pr_env p))) = [()]"
    using g by (simp_all add: rsu_open_def)
  obtain k where k: "pr_sock p = Some k" "card (in_use k) + 2 \<le> BUFFER_SIZE" "targets_of PROTO (n_observers k) = [()]" "n_spatial k"
    using g'(1) by (auto simp: on_network_def split: option.splits)
  have ok: "chan_ok p" using g'(1) by (simp add: on_network_def)
  have sk: "frame_src bytes \<noteq> n_address k" using src k(1) by (simp add: station_def)
  let ?upd = "\<lambda>_. rsu_update E h n junk"
  obtain i m e where m: "i \<notin> in_use k" "in_use m = insert i (in_use k)" "pool_ok m"
    "holds_frame bytes (SockBuf i) (p\<lparr>pr_raw := e, pr_sock := Some m\<rparr>)"
    and rc: "pr_sock (protocol_update E h ?upd (SockBuf i) (p\<lparr>pr_raw := e, pr_sock := Some m\<rparr>)) \<noteq> None \<longrightarrow>
      sock_receive E h ?upd bytes p = protocol_update E h ?upd (SockBuf i) (p\<lparr>pr_raw := e, pr_sock := Some m\<rparr>)"
    using sock_frame_arrives [OF ok k(1) room(1) [OF k(2)] k(3,4) fr sk quad [unfolded quadrant_of_def], of h ?upd] by blast
  let ?q = "p\<lparr>pr_raw := e, pr_sock := Some m\<rparr>"
  have q: "pool_ok (pr_shm ?q)" "in_use (pr_shm ?q) \<noteq> {..<BUFFER_SIZE}" "\<not> n_spatial (pr_shm ?q)" "sp_attached (pr_shm_eng ?q)"
    "sp_slot (pr_shm_eng ?q) = unat GATEWAY_SLOT" "pr_sock ?q = Some m" "i \<in> in_use m" "targets_of (a_port logical_broadcast) (pr_observed ?q) = [()]"
    using ok g' m(2) by (simp_all add: chan_ok_def)
  obtain l where up: "protocol_update E h ?upd (SockBuf i) ?q = rsu_update E h n junk (a_port logical_broadcast) (SockBuf i) (?q\<lparr>pr_shm := l,
      pr_shm_eng := (pr_shm_eng ?q)\<lparr>sp_ring := snd (en_bus E bytes GATEWAY_WRITER DELIVER_TO_COMPONENTS (sp_ring (pr_shm_eng ?q)))\<rparr>\<rparr>)"
    using heard_frame_result [OF q(1-6) m(3) q(7) m(4) fr q(8), of E h ?upd] by blast
  let ?r = "?q\<lparr>pr_shm := l, pr_shm_eng := (pr_shm_eng ?q)\<lparr>sp_ring := snd (en_bus E bytes GATEWAY_WRITER DELIVER_TO_COMPONENTS (sp_ring (pr_shm_eng ?q)))\<rparr>\<rparr>"
  have hf: "holds_frame bytes (SockBuf i) (cm_channel (opened ?r))" using m(4) by (simp add: holds_frame_def buffer_at_def)
  have tg: "targets_of broadcast_condition (cm_observers (opened ?r)) = [()]" using g'(7) by (simp add: opened_def)
  have seen: "has_observer broadcast_condition (cm_observers (opened ?r))" using tg by (simp add: has_observer_targets)
  have ib: "interest_bytes False s \<noteq> []" "length (interest_bytes False s) \<le> MESSAGE_MAX_SIZE"
    using interest_length(2,3) interest_length(1) [of False s] by auto
  note u = message_received [OF fr ib hf seen, of E h "()" "tracker_update n" junk]
  let ?c = "comm_update (protocol_channel E h ()) (tracker_update n) junk broadcast_condition (SockBuf i) (opened ?r)"
  have c: "cm_channel ?c = free_buffer (SockBuf i) ?r"
    "cm_clients ?c = tracker_handle n (arrived a (hdr_quadrant (drop HEADER_SIZE bytes)) ts (interest_bytes False s)) (rsu_tracker p)"
    using broker_told [OF tg u] by (simp_all add: a_def rsu_tracker_def) (simp_all add: opened_def)
  have some: "pr_sock (free_buffer (SockBuf i) ?r) \<noteq> None" by (simp add: free_buffer_def)
  have e: "protocol_update E h ?upd (SockBuf i) ?q = packed ?c" unfolding up by (simp add: rsu_update_def broadcast_condition_def)
  then have "rsu_receive E h n junk bytes p = packed ?c"
    using rc some c(1) unfolding rsu_receive_def by (simp add: packed_def)
  moreover have "pr_shm_eng (free_buffer (SockBuf i) ?r) = pr_shm_eng ?r" by (simp add: free_buffer_def split: option.split)
  ultimately show "relays_to_bus E bytes p (rsu_receive E h n junk bytes p)"
    "rsu_tracker (rsu_receive E h n junk bytes p) = (rsu_tracker p)\<lparr>it_presence := om_put (vehicle_of a) n (it_presence (rsu_tracker p)),
       it_interests := record_entry (sd_unit s, a) (sd_period_us s) (it_interests (rsu_tracker p))\<rparr>"
    using c by (simp_all add: relays_to_bus_def packed_def rsu_tracker_def tracker_enters)
qed

subsection \<open>A tick\<close>

lemma handed_gps [simp]: "handed E outs (e\<lparr>r_gps := g\<rparr>) e' \<longleftrightarrow> handed E outs e e'"
  by (cases outs) simp_all

lemma handed_append: "handed E xs e e1 \<Longrightarrow> handed E ys e1 e2 \<Longrightarrow> handed E (xs @ ys) e e2"
  by (induction xs arbitrary: e) auto

text \<open>A broadcast of the gateway's own communicator leaves through the socket; the process can send the next.\<close>

definition broadcasts ::
  "('g, 'n, 'r, 'x) env \<Rightarrow> ('o, 'g, 'n, 'r, 'x) proto \<Rightarrow> u16 \<Rightarrow> message \<Rightarrow> u8 list \<Rightarrow> bool" where
  "broadcasts E p port m out \<longleftrightarrow> (\<exists>ts. data_frame port (a_port logical_broadcast) DATA ts (message_bytes m) out)
     \<and> frame_src out = station p \<and> hdr_quadrant (drop HEADER_SIZE out) = quadrant_of E p"

definition keeps_network :: "('g, 'n, 'r, 'x) env \<Rightarrow> ('o, 'g, 'n, 'r, 'x) proto \<Rightarrow> ('o, 'g, 'n, 'r, 'x) proto \<Rightarrow> bool" where
  "keeps_network E p p' \<longleftrightarrow> on_network p' \<and> parked E p' \<and> station p' = station p \<and> quadrant_of E p' = quadrant_of E p"

lemma network_kept:
  assumes p: "on_network p" "parked E p" and st: "net_step (\<lambda>s. s) p p'"
    and lq: "pr_sock p = Some n" "\<exists>n'. pr_sock p' = Some n' \<and> n_last_quadrant n' \<in> {n_last_quadrant n, quadrant_of E p}"
  shows "keeps_network E p p'"
proof -
  obtain n' where n': "pr_sock p' = Some n'" "n_last_quadrant n' \<in> {n_last_quadrant n, quadrant_of E p}" using lq(2) by blast
  have s: "pool_ok n'" "in_use n' = in_use n" "n_address n' = n_address n" "n_spatial n' = n_spatial n" "n_observers n' = n_observers n"
    using st lq(1) n'(1) by (simp_all add: net_step_def sock_step_def)
  have "chan_ok p'" using p(1) st s(1) n'(1) by (simp add: on_network_def chan_ok_def net_step_def same_bus_def sock_ok_def)
  moreover have q: "quadrant_of E p' = quadrant_of E p" using p(2) by (simp add: parked_def quadrant_of_def)
  moreover have "parked E p'" using p(2) q n' lq(1) by (auto simp: parked_def)
  ultimately show ?thesis using p(1) lq(1) n'(1) s by (simp add: keeps_network_def on_network_def station_def)
qed

lemma gateway_broadcasts:
  fixes E :: "('g, 'n, 'r, 'x) env" and c :: "('s, bufref, ('o, 'g, 'n, 'r, 'x) proto, 'y) communicator"
  assumes p: "on_network (cm_channel c)" "parked E (cm_channel c)"
    and len: "length (message_bytes m) \<le> MESSAGE_MAX_SIZE"
    and ts: "in_i64 (stamp_of now (cm_stamp c))" "stamp_of now (cm_stamp c) \<noteq> 0"
    and cs: "c' = snd (snd (comm_send (protocol_channel E (on_quadrant_change d E) ob) now m c))"
  shows "\<exists>out. handed E [out] (pr_raw (cm_channel c)) (pr_raw (cm_channel c'))
     \<and> broadcasts E (cm_channel c) (a_port (cm_address c)) m out"
    and "keeps_network E (cm_channel c) (cm_channel c')" "cm_address c' = cm_address c" "cm_stamp c' = stamp_of now (cm_stamp c)"
    and "cm_clients c' = cm_clients c"
proof -
  let ?p = "cm_channel c" and ?ts = "stamp_of now (cm_stamp c)"
  obtain n where n: "pr_sock ?p = Some n" "card (in_use n) + 2 \<le> BUFFER_SIZE" "n_spatial n"
    using p(1) by (auto simp: on_network_def split: option.splits)
  have ok: "sock_ok ?p" "pr_instance ?p" using p(1) by (simp_all add: on_network_def chan_ok_def)
  have q: "\<not> fst (detect_quadrant_change (fst (en_gps E (r_gps (pr_raw ?p)))) n)"
    using p(2) n(1) by (auto simp: parked_def detect_quadrant_change_def Let_def)
  have dst: "mac_ok (a_paddr logical_broadcast)" "\<not> is_internal logical_broadcast"
    by (simp_all add: logical_broadcast_def physical_broadcast_def is_internal_def)
  have fit: "HEADER_LEN + length (message_bytes m) \<le> MTU" using len by (simp add: header_consts MTU_def MESSAGE_MAX_SIZE_def)
  obtain rn x where now: "en_now E (pr_env ?p) = (rn, x)" by (cases "en_now E (pr_env ?p)")
  have st: "in_i64 (if ?ts \<noteq> 0 then ?ts else rn)" using ts by simp
  obtain r p' out where o: "send_via_socket E (on_quadrant_change d E) (cm_address c) logical_broadcast (message_bytes m) ?ts DATA ?p = (r, rn, p')"
    "data_frame (a_port (cm_address c)) (a_port logical_broadcast) DATA (if ?ts \<noteq> 0 then ?ts else rn) (message_bytes m) out"
    "frame_src out = n_address n" "hdr_quadrant (drop HEADER_SIZE out) = quadrant_of E ?p" "net_step (\<lambda>s. s) ?p p'"
    "handed E [out] (pr_raw ?p) (pr_raw p')" "\<exists>n'. pr_sock p' = Some n' \<and> n_last_quadrant n' \<in> {n_last_quadrant n, quadrant_of E ?p}"
    using send_via_socket_result [OF ok(1) n(1) room(1) [OF n(2)] n(3) q dst(1) fit now st, of d "cm_address c" DATA] by blast
  have "protocol_send E (on_quadrant_change d E) (cm_address c) logical_broadcast (message_bytes m) ?ts DATA ?p = (r, rn, p')"
    using ok(2) n(1) dst(2) o(1) by (simp add: protocol_send_def)
  then have c': "c' = c\<lparr>cm_stamp := ?ts, cm_channel := p'\<rparr>"
    by (simp add: cs comm_send_def monotonic_stamp_def protocol_channel_def message_bytes_def Let_def)
  show "\<exists>out. handed E [out] (pr_raw ?p) (pr_raw (cm_channel c')) \<and> broadcasts E ?p (a_port (cm_address c)) m out"
    using o(2-4,6) n(1) unfolding broadcasts_def by (intro exI [of _ out]) (auto simp: c' station_def)
  show "keeps_network E ?p (cm_channel c')" using network_kept [OF p o(5) n(1) o(7)] by (simp add: c')
  show "cm_address c' = cm_address c" "cm_stamp c' = stamp_of now (cm_stamp c)" "cm_clients c' = cm_clients c" by (simp_all add: c')
qed

text \<open>All messages of a list, one frame each and nothing else; \<open>L\<close> bounds the clock and the last stamp.\<close>

lemma gateway_broadcasts_all:
  fixes E :: "('g, 'n, 'r, 'x) env" and c :: "('s, bufref, ('o, 'g, 'n, 'r, 'x) proto, 'y) communicator"
  assumes "on_network (cm_channel c)" "parked E (cm_channel c)" "\<forall>x \<in> set xs. length (message_bytes (snd x)) \<le> MESSAGE_MAX_SIZE"
    and "0 \<le> cm_stamp c" "cm_stamp c \<le> L" "\<forall>x \<in> set xs. clk (fst x) \<le> L" "L + int (length xs) < 2 ^ 63"
    and "c' = fold (\<lambda>(i, m) c. snd (snd (comm_send (protocol_channel E (on_quadrant_change d E) ob) (clk i) m c))) xs c"
  shows "(\<exists>outs. handed E outs (pr_raw (cm_channel c)) (pr_raw (cm_channel c'))
       \<and> list_all2 (broadcasts E (cm_channel c) (a_port (cm_address c))) (map snd xs) outs)
     \<and> keeps_network E (cm_channel c) (cm_channel c') \<and> cm_clients c' = cm_clients c"
  using assms
proof (induction xs arbitrary: c L)
  case Nil
  have "handed E [] (pr_raw (cm_channel c)) (pr_raw (cm_channel c))" by (simp add: exI [of _ "r_gps (pr_raw (cm_channel c))"])
  then show ?case using Nil by (auto simp: keeps_network_def intro!: exI [of _ "[]"])
next
  case (Cons x xs)
  obtain i m where x: "x = (i, m)" by (cases x)
  define c1 where "c1 = snd (snd (comm_send (protocol_channel E (on_quadrant_change d E) ob) (clk i) m c))"
  have ts: "0 < stamp_of (clk i) (cm_stamp c)" "stamp_of (clk i) (cm_stamp c) \<le> L + 1"
    using Cons.prems(4-6) x by (auto simp: stamp_of_def)
  have r: "in_i64 (stamp_of (clk i) (cm_stamp c))" "stamp_of (clk i) (cm_stamp c) \<noteq> 0" "length (message_bytes m) \<le> MESSAGE_MAX_SIZE"
    using ts Cons.prems(3,7) x by (simp_all add: in_i64_def)
  note one = gateway_broadcasts [OF Cons.prems(1,2) r(3,1,2) c1_def]
  have k: "on_network (cm_channel c1)" "parked E (cm_channel c1)" "\<forall>x \<in> set xs. length (message_bytes (snd x)) \<le> MESSAGE_MAX_SIZE"
    "0 \<le> cm_stamp c1" "cm_stamp c1 \<le> L + 1" "\<forall>x \<in> set xs. clk (fst x) \<le> L + 1" "L + 1 + int (length xs) < 2 ^ 63"
    "c' = fold (\<lambda>(i, m) c. snd (snd (comm_send (protocol_channel E (on_quadrant_change d E) ob) (clk i) m c))) xs c1"
    using one(2,4) ts Cons.prems x by (auto simp: keeps_network_def c1_def)
  obtain out where o: "handed E [out] (pr_raw (cm_channel c)) (pr_raw (cm_channel c1))" "broadcasts E (cm_channel c) (a_port (cm_address c)) m out"
    using one(1) by blast
  from Cons.IH [OF k] obtain outs where os: "handed E outs (pr_raw (cm_channel c1)) (pr_raw (cm_channel c'))"
    "list_all2 (broadcasts E (cm_channel c1) (a_port (cm_address c1))) (map snd xs) outs"
    "keeps_network E (cm_channel c1) (cm_channel c')" "cm_clients c' = cm_clients c1" by blast
  have same: "broadcasts E (cm_channel c1) (a_port (cm_address c1)) = broadcasts E (cm_channel c) (a_port (cm_address c))"
    using one(2,3) by (simp add: broadcasts_def [abs_def] keeps_network_def)
  have "handed E (out # outs) (pr_raw (cm_channel c)) (pr_raw (cm_channel c'))" using handed_append [OF o(1) os(1)] by simp
  moreover have "list_all2 (broadcasts E (cm_channel c) (a_port (cm_address c))) (map snd (x # xs)) (out # outs)"
    using o(2) os(2) x same by simp
  moreover have "keeps_network E (cm_channel c) (cm_channel c')" using one(2) os(3) by (simp add: keeps_network_def)
  ultimately show ?case using os(4) one(5) by metis
qed

text \<open>The payload of an announcement.\<close>

lemma announcement_bytes:
  fixes u :: unit_code and p :: u64 and w :: bool
  defines "bs \<equiv> enc_interest \<lparr>im_header = \<lparr>sh_kind = INTEREST, sh_unit = u\<rparr>, im_period_us = p, im_disinterest = (if w then 1 else 0)\<rparr>"
  shows "message_bytes (announcement u p w) = bs" "length bs \<le> MESSAGE_MAX_SIZE"
proof -
  have "length bs = INTEREST_LEN" unfolding bs_def by (rule interest_wire.enc_size)
  then show l: "length bs \<le> MESSAGE_MAX_SIZE" by (simp add: wire_lens MESSAGE_MAX_SIZE_def)
  show "message_bytes (announcement u p w) = bs" using message_of_payload_bytes [OF l] by (simp add: announcement_def bs_def)
qed

definition tick_messages :: "unit_code list \<times> (unit_code \<times> u64) list \<times> tracker \<Rightarrow> message list" where
  "tick_messages r = map (\<lambda>u. announcement u 0 True) (fst r) @ map (\<lambda>kv. announcement (fst kv) (snd kv) False) (fst (snd r))"

text \<open>A tick hands exactly the announcements to the socket, in order, and leaves the process able to hear and tick again.\<close>

lemma rsu_ticks:
  fixes E :: "('g, 'n, 'r, 'x \<times> (unit, bufref, unit, tracker) communicator) env" and p :: "('g, 'n, 'r, 'x) rsu"
  assumes g: "rsu_open p" "parked E p" and tick: "broker_tick now (rsu_tracker p) = (stop, rep, t')"
    and ts: "0 \<le> cm_stamp (snd (pr_env p))" "cm_stamp (snd (pr_env p)) \<le> L" "\<forall>i. clk i \<le> L" "L + int (length stop + length rep) < 2 ^ 63"
  shows "\<exists>outs. handed E outs (pr_raw p) (pr_raw (rsu_tick E (on_quadrant_change d E) now clk p))
       \<and> list_all2 (broadcasts E p (a_port (cm_address (snd (pr_env p))))) (tick_messages (stop, rep, t')) outs"
    and "rsu_tracker (rsu_tick E (on_quadrant_change d E) now clk p) = t'"
proof -
  let ?ms = "tick_messages (stop, rep, t')"
  let ?xs = "zip [0..<length ?ms] ?ms" and ?c = "(opened p)\<lparr>cm_clients := t'\<rparr>"
  define c' where "c' = fold (\<lambda>(i, m) c. snd (snd (comm_send (protocol_channel E (on_quadrant_change d E) ()) (clk i) m c))) ?xs ?c"
  have t: "rsu_tick E (on_quadrant_change d E) now clk p = packed c'"
    using tick by (simp add: rsu_tick_def tracker_tick_def tick_messages_def rsu_tracker_def c'_def Let_def opened_def)
  have n: "length ?ms = length stop + length rep" by (simp add: tick_messages_def)
  have len: "length (message_bytes m) \<le> MESSAGE_MAX_SIZE" if m: "m \<in> set ?ms" for m
  proof -
    obtain u q w where "m = announcement u q w" using m by (auto simp: tick_messages_def)
    then show ?thesis using announcement_bytes [of u q w] by simp
  qed
  have c: "on_network (cm_channel ?c)" "parked E (cm_channel ?c)" "\<forall>x \<in> set ?xs. length (message_bytes (snd x)) \<le> MESSAGE_MAX_SIZE"
    "0 \<le> cm_stamp ?c" "cm_stamp ?c \<le> L" "\<forall>x \<in> set ?xs. clk (fst x) \<le> L" "L + int (length ?xs) < 2 ^ 63"
    using g ts len by (auto simp: rsu_open_def n dest!: set_zip_rightD)
  from gateway_broadcasts_all [OF c c'_def]
  have "(\<exists>outs. handed E outs (pr_raw p) (pr_raw (cm_channel c')) \<and> list_all2 (broadcasts E p (a_port (cm_address (opened p)))) ?ms outs)
      \<and> cm_clients c' = t'" by simp
  moreover have "cm_address (opened p) = cm_address (snd (pr_env p))" by (simp add: opened_def with_channel_def)
  ultimately show "\<exists>outs. handed E outs (pr_raw p) (pr_raw (rsu_tick E (on_quadrant_change d E) now clk p))
       \<and> list_all2 (broadcasts E p (a_port (cm_address (snd (pr_env p))))) ?ms outs"
    "rsu_tracker (rsu_tick E (on_quadrant_change d E) now clk p) = t'"
    unfolding t by (simp_all add: packed_def rsu_tracker_def)
qed

text \<open>The unit a frame of the broker is about; and those of a tick that are about one unit.\<close>

definition frame_unit :: "u8 list \<Rightarrow> unit_code" where
  "frame_unit out = sh_unit (dec_smart_header (pkt_data (drop HEADER_SIZE out)))"

lemma broadcast_unit: "broadcasts E p port (announcement u q w) out \<Longrightarrow> frame_unit out = u"
proof -
  let ?im = "\<lparr>im_header = \<lparr>sh_kind = INTEREST, sh_unit = u\<rparr>, im_period_us = q, im_disinterest = (if w then 1 else 0)\<rparr>"
  assume "broadcasts E p port (announcement u q w) out"
  then have "take (length (enc_interest ?im)) (pkt_data (drop HEADER_SIZE out)) = enc_interest ?im"
    by (auto simp: broadcasts_def data_frame_def announcement_bytes(1))
  then have "pkt_data (drop HEADER_SIZE out) = enc_interest ?im @ drop (length (enc_interest ?im)) (pkt_data (drop HEADER_SIZE out))"
    by (metis append_take_drop_id)
  then have "dec_smart_header (pkt_data (drop HEADER_SIZE out)) = im_header ?im"
    by (metis append.assoc dec_smart_header_append enc_interest_def)
  then show ?thesis by (simp add: frame_unit_def)
qed

lemma list_all2_filter_cong:
  "list_all2 P xs ys \<Longrightarrow> (\<And>x y. x \<in> set xs \<Longrightarrow> P x y \<Longrightarrow> f x = g y)
    \<Longrightarrow> list_all2 P (filter (\<lambda>x. f x = u) xs) (filter (\<lambda>y. g y = u) ys)"
  by (induction rule: list_all2_induct) auto

lemma filter_key: "distinct (map fst m) \<Longrightarrow> map_of m k = Some v \<Longrightarrow> filter (\<lambda>kv. fst kv = k) m = [(k, v)]"
proof (induction m)
  case (Cons kv m)
  show ?case
  proof (cases "fst kv = k")
    case True
    then have "filter (\<lambda>x. fst x = k) m = []" using Cons.prems(1) by (auto simp: filter_empty_conv intro: rev_image_eqI)
    then show ?thesis using True Cons.prems(2) by (cases kv) simp
  qed (use Cons in auto)
qed simp

lemma tick_frame:
  assumes tick: "broker_tick now t = (stop, rep, t')" and q: "map_of rep u = Some q"
    and outs: "list_all2 (broadcasts E p port) (tick_messages (stop, rep, t')) outs"
  obtains out where "filter (\<lambda>out. frame_unit out = u) outs = [out]" "broadcasts E p port (announcement u q False) out"
proof -
  let ?ann = "\<lambda>(u, q, w). announcement u q w"
  let ?us = "map (\<lambda>u. (u, 0, True)) stop @ map (\<lambda>kv. (fst kv, snd kv, False)) rep"
  have "tick_messages (stop, rep, t') = map ?ann ?us" by (simp add: tick_messages_def)
  then have "list_all2 (\<lambda>x. broadcasts E p port (?ann x)) ?us outs" using outs by (simp only: list_all2_map1)
  then have l: "list_all2 (\<lambda>x. broadcasts E p port (?ann x)) (filter (\<lambda>x. fst x = u) ?us) (filter (\<lambda>out. frame_unit out = u) outs)"
    by (rule list_all2_filter_cong) (auto dest: broadcast_unit)
  have rep: "distinct (map fst rep)" using om_ok_distinct [OF broker_tick_state(5) [OF tick]] by simp
  have "u \<in> fst ` set rep" using map_of_SomeD [OF q] by force
  then have "u \<notin> set stop" unfolding broker_tick_state(7) [OF tick] by simp
  then have "filter (\<lambda>x. fst x = u) (map (\<lambda>u. (u, 0 :: u64, True)) stop) = []" by (auto simp: filter_empty_conv)
  moreover have "filter (\<lambda>x. fst x = u) (map (\<lambda>kv. (fst kv, snd kv, False)) rep) = [(u, q, False)]"
    using filter_key [OF rep q] by (simp add: filter_map o_def)
  ultimately have "filter (\<lambda>x. fst x = u) ?us = [(u, q, False)]" by simp
  then obtain out where "filter (\<lambda>out. frame_unit out = u) outs = [out]" "broadcasts E p port (announcement u q False) out"
    using l by (auto simp: list_all2_Cons1)
  then show ?thesis by (rule that)
qed

subsection \<open>To the producers of another vehicle\<close>

text \<open>
  The announcement of a unit reaches the producers of that unit, with its period, under the address of the
  roadside unit.
\<close>

lemma announcement_reaches_producers:
  fixes E :: "('g, 'n, 'r, 'x) env" and p :: "('o, 'g, 'n, 'r, 'x) proto"
    and F :: "('g2, 'n2, 'r2, 'x2) env" and gb :: "('o2, 'g2, 'n2, 'r2, 'x2) proto"
  assumes out: "broadcasts E p port (announcement u q False) out" and q: "q \<noteq> 0" and gb: "relays gb" "station p \<noteq> station gb"
  shows "if other_quadrant (quadrant_of F gb) (quadrant_of E p)
        then pr_shm_eng (sock_receive F h upd out gb) = pr_shm_eng gb \<and> usage (sock_receive F h upd out gb) = usage gb
        else relays_to_bus F out gb (sock_receive F h upd out gb)"
    and "listens j v \<Longrightarrow> sd_role (node_smart j v) = PRODUCER \<Longrightarrow> sd_unit (node_smart j v) = u
      \<Longrightarrow> sd_cache (node_smart j v) = Some t \<Longrightarrow> distinct (map b_key (bc_bindings t)) \<Longrightarrow>
      \<exists>t'. sd_cache (node_smart j (node_receive H h' n n' junk out v)) = Some t'
         \<and> interests t' (u, \<lparr>a_paddr = station p, a_port = port\<rparr>) = Some (q, expiry_for n q t')"
proof -
  let ?s = "(smart_blank u)\<lparr>sd_period_us := q\<rparr>"
  have bytes: "message_bytes (announcement u q False) = interest_bytes False ?s"
    unfolding announcement_bytes(1) by (simp add: interest_bytes_def smart_blank_def)
  obtain st where fr: "data_frame port (a_port logical_broadcast) DATA st (interest_bytes False ?s) out"
    using out bytes by (auto simp: broadcasts_def)
  have src: "frame_src out = station p" "frame_src out \<noteq> station gb" "hdr_quadrant (drop HEADER_SIZE out) = quadrant_of E p"
    using out gb(2) by (simp_all add: broadcasts_def)
  have s: "sd_unit ?s = u" "sd_period_us ?s = q" "sd_period_us ?s \<noteq> 0" using q by (simp_all add: smart_blank_def)
  show "if other_quadrant (quadrant_of F gb) (quadrant_of E p)
        then pr_shm_eng (sock_receive F h upd out gb) = pr_shm_eng gb \<and> usage (sock_receive F h upd out gb) = usage gb
        else relays_to_bus F out gb (sock_receive F h upd out gb)"
    using gateway_keeps_out [OF gb(1) fr src(2), of F h upd] gateway_lets_in [OF gb(1) fr src(2), of F h upd]
    unfolding src(3) by simp
  show "\<exists>t'. sd_cache (node_smart j (node_receive H h' n n' junk out v)) = Some t'
      \<and> interests t' (u, \<lparr>a_paddr = station p, a_port = port\<rparr>) = Some (q, expiry_for n q t')"
    if "listens j v" "sd_role (node_smart j v) = PRODUCER" "sd_unit (node_smart j v) = u" "sd_cache (node_smart j v) = Some t"
      "distinct (map b_key (bc_bindings t))"
    using node_enters_interest [OF that(1) fr that(2) _ that(4,5) s(3)] that(3) unfolding s(1,2) src(1) by blast
qed

subsection \<open>What the broker keeps between the hearing and the tick\<close>

text \<open>
  Between the clock readings \<open>n\<close> and \<open>n'\<close> the broker hears anything and ticks any number of times; only the
  interest \<open>k\<close> is not withdrawn and not announced anew with a longer period than \<open>q\<close>, and no interest has
  the period 0.
\<close>

definition undisturbed :: "unit_code \<times> address \<Rightarrow> u64 \<Rightarrow> int \<Rightarrow> int \<Rightarrow> broker_op \<Rightarrow> bool" where
  "undisturbed k q n n' x = (case x of
     Hear (Heard t m) \<Rightarrow> n \<le> t \<and> (INTEREST_LEN \<le> unat (m_size m) \<and> sh_kind (dec_smart_header (m_payload m)) = INTEREST \<longrightarrow>
       (if im_disinterest (dec_interest (m_payload m)) \<noteq> 0 then (sh_unit (dec_smart_header (m_payload m)), m_address m) \<noteq> k
        else im_period_us (dec_interest (m_payload m)) \<noteq> 0
          \<and> ((sh_unit (dec_smart_header (m_payload m)), m_address m) = k \<longrightarrow> im_period_us (dec_interest (m_payload m)) \<le> q)))
   | Hear (Seen t a) \<Rightarrow> n \<le> t
   | Broker_Tick t \<Rightarrow> t \<le> n')"

abbreviation wanted :: "tracker \<Rightarrow> (unit_code \<times> address) \<rightharpoonup> u64" where
  "wanted t \<equiv> table e_key e_period_us (it_interests t)"

definition periods_set :: "tracker \<Rightarrow> bool" where
  "periods_set t \<longleftrightarrow> (\<forall>e \<in> set (it_interests t). e_period_us e \<noteq> 0)"

definition repeats :: "unit_code \<times> address \<Rightarrow> u64 \<Rightarrow> int \<Rightarrow> tracker \<Rightarrow> bool" where
  "repeats k q n t \<longleftrightarrow> tracker_ok t \<and> periods_set t \<and> (\<exists>p \<le> q. wanted t k = Some p)
     \<and> (\<exists>s \<ge> n. map_of (it_presence t) (vehicle_of (snd k)) = Some s)"

lemma periods_set_table: "distinct (map e_key (it_interests t)) \<Longrightarrow> periods_set t \<longleftrightarrow> (\<forall>k. wanted t k \<noteq> Some 0)"
  using table_mem [of e_key "it_interests t" e_period_us] by (auto simp: periods_set_def)

lemma repeats_iff:
  "repeats k q n t \<longleftrightarrow> tracker_ok t \<and> (\<forall>k. wanted t k \<noteq> Some 0) \<and> (\<exists>p \<le> q. wanted t k = Some p)
     \<and> (\<exists>s \<ge> n. map_of (it_presence t) (vehicle_of (snd k)) = Some s)"
  using periods_set_table [of t] by (auto simp: repeats_def tracker_ok_def)

lemma repeats_step:
  assumes r: "repeats k q n t" and x: "undisturbed k q n n' x" and n': "n' - n \<le> PRESENCE_LEASE_NS"
  shows "repeats k q n (broker_step x t)"
proof (cases x)
  case (Hear e)
  have ok: "tracker_ok (broker_hear e t)" using r by (simp add: repeats_def broker_hear_ok)
  show ?thesis
  proof (cases e)
    case (Seen t0 a)
    then show ?thesis using r x Hear ok
      by (auto simp: repeats_iff undisturbed_def tracker_presence_def)
  next
    case (Heard t0 m)
    let ?h = "dec_smart_header (m_payload m)" and ?im = "dec_interest (m_payload m)"
    have put: "wanted (t\<lparr>it_presence := pr, it_interests := record_entry kk pp (it_interests t)\<rparr>) = (wanted t)(kk \<mapsto> pp)" for pr kk pp
      using tracked.put_table by simp
    have del: "wanted (t\<lparr>it_interests := remove_entry kk (it_interests t)\<rparr>) = (wanted t)(kk := None)" for kk
      using tracked.del_table by simp
    have h: "broker_hear e t = (if INTEREST_LEN \<le> unat (m_size m) \<and> sh_kind ?h = INTEREST
        then (if im_disinterest ?im \<noteq> 0 then t\<lparr>it_interests := remove_entry (sh_unit ?h, m_address m) (it_interests t)\<rparr>
              else t\<lparr>it_presence := om_put (vehicle_of (m_address m)) t0 (it_presence t),
                     it_interests := record_entry (sh_unit ?h, m_address m) (im_period_us ?im) (it_interests t)\<rparr>)
        else t)" by (simp add: Heard tracker_handle_def Let_def)
    consider (none) "broker_hear e t = t"
      | (del) "broker_hear e t = t\<lparr>it_interests := remove_entry (sh_unit ?h, m_address m) (it_interests t)\<rparr>"
          "(sh_unit ?h, m_address m) \<noteq> k"
      | (put) "broker_hear e t = t\<lparr>it_presence := om_put (vehicle_of (m_address m)) t0 (it_presence t),
            it_interests := record_entry (sh_unit ?h, m_address m) (im_period_us ?im) (it_interests t)\<rparr>"
          "im_period_us ?im \<noteq> 0" "(sh_unit ?h, m_address m) = k \<longrightarrow> im_period_us ?im \<le> q" "n \<le> t0"
    proof (cases "INTEREST_LEN \<le> unat (m_size m) \<and> sh_kind ?h = INTEREST")
      case False
      then have "broker_hear e t = t" unfolding h by (simp only: if_False)
      then show ?thesis by (rule none)
    next
      case True
      have u: "n \<le> t0" "if im_disinterest ?im \<noteq> 0 then (sh_unit ?h, m_address m) \<noteq> k
          else im_period_us ?im \<noteq> 0 \<and> ((sh_unit ?h, m_address m) = k \<longrightarrow> im_period_us ?im \<le> q)"
        using x True by (simp_all add: undisturbed_def Hear Heard)
      show ?thesis
      proof (cases "im_disinterest ?im = 0")
        case True': True
        have "broker_hear e t = t\<lparr>it_presence := om_put (vehicle_of (m_address m)) t0 (it_presence t),
            it_interests := record_entry (sh_unit ?h, m_address m) (im_period_us ?im) (it_interests t)\<rparr>"
          unfolding h using True True' by simp
        then show ?thesis by (rule put) (use u True' in simp_all)
      next
        case False
        have "broker_hear e t = t\<lparr>it_interests := remove_entry (sh_unit ?h, m_address m) (it_interests t)\<rparr>"
          unfolding h using True False by simp
        then show ?thesis by (rule del) (use u False in simp_all)
      qed
    qed
    then show ?thesis
    proof cases
      case none
      then show ?thesis using r Hear by simp
    next
      case 2: del
      then show ?thesis using r ok unfolding Hear broker_step.simps repeats_iff 2(1) del by auto
    next
      case 3: put
      then show ?thesis using r ok unfolding Hear broker_step.simps repeats_iff 3(1) put by auto
    qed
  qed
next
  case (Broker_Tick now)
  obtain stop rep t' where k: "broker_tick now t = (stop, rep, t')" by (cases "broker_tick now t")
  have t: "tracker_ok t" "now \<le> n'" using r x Broker_Tick by (simp_all add: repeats_def undisturbed_def)
  have ok: "tracker_ok t'" using broker_tick_ok [OF t(1), of now] k by simp
  note st = broker_tick_state(1,2) [OF k] and ex = expire_presence_lease [OF t(1), of now]
  obtain s where s: "s \<ge> n" "map_of (it_presence t) (vehicle_of (snd k)) = Some s" using r by (auto simp: repeats_def)
  have "map_of (it_presence t') (vehicle_of (snd k)) = Some s" unfolding st ex(2) using s t(2) n' by simp
  moreover have "periods_set t'" using r unfolding repeats_def periods_set_def st ex(1) by auto
  moreover have "\<exists>p \<le> q. wanted t' k = Some p"
  proof -
    obtain p where p: "p \<le> q" "wanted t k = Some p" using r by (auto simp: repeats_def)
    have d: "distinct (map e_key (it_interests t))" "distinct (map e_key (it_interests t'))" using t(1) ok by (simp_all add: tracker_ok_def)
    obtain e where e: "e \<in> set (it_interests t)" "e_key e = k" "e_period_us e = p" using p(2) table_mem [OF d(1), of e_period_us k p] by auto
    then have "e \<in> set (it_interests t')" unfolding st ex(1) using s t(2) n' by auto
    then show ?thesis using e p(1) table_mem [OF d(2), of e_period_us k p] by blast
  qed
  ultimately show ?thesis using ok s(1) k by (auto simp: repeats_def Broker_Tick)
qed

lemma repeats_run:
  "repeats k q n t \<Longrightarrow> \<forall>x \<in> set xs. undisturbed k q n n' x \<Longrightarrow> n' - n \<le> PRESENCE_LEASE_NS \<Longrightarrow> repeats k q n (broker_run xs t)"
  unfolding broker_run_def by (induction xs arbitrary: t) (simp_all, blast intro: repeats_step)

text \<open>A tick within the lease repeats the unit, at that period or a shorter one.\<close>

lemma heard_is_repeated:
  assumes r: "repeats (u, a) q n t" and now: "now - n \<le> PRESENCE_LEASE_NS" and k: "broker_tick now t = (stop, rep, t')"
  shows "\<exists>q'. map_of rep u = Some q' \<and> q' \<noteq> 0 \<and> q' \<le> q"
proof -
  have "repeats (u, a) q n (broker_step (Broker_Tick now) t)"
    by (rule repeats_step [OF r _ now]) (simp add: undisturbed_def)
  then have r': "repeats (u, a) q n t'" using k by simp
  then have d: "distinct (map e_key (it_interests t'))" by (simp add: repeats_def tracker_ok_def)
  obtain p where p: "p \<le> q" "wanted t' (u, a) = Some p" using r' by (auto simp: repeats_def)
  obtain e where e: "e \<in> set (it_interests t')" "e_key e = (u, a)" "e_period_us e = p"
    using p(2) table_mem [OF d, of e_period_us "(u, a)" p] by auto
  let ?P = "e_period_us ` {e \<in> set (it_interests t'). e_unit e = u}"
  have "map_of rep u = Some (Min ?P)" using broker_tick_state(6) [OF k, of u] e(1,2) by auto
  moreover have pP: "p \<in> ?P" using e by auto
  have "finite ?P" by simp
  then have "Min ?P \<in> ?P" "Min ?P \<le> p" using pP Min_in by (blast, simp)
  moreover have "0 \<notin> ?P" using r' by (auto simp: repeats_def periods_set_def)
  ultimately show ?thesis using p(1) by (intro exI [of _ "Min ?P"]) force
qed

text \<open>A tick sends at most one message per unit code of 32 bits and list.\<close>

lemma length_units: "distinct (us :: unit_code list) \<Longrightarrow> length us \<le> 2 ^ 32"
proof -
  assume "distinct us"
  then have "length us = card (set us)" by (simp add: distinct_card)
  also have "\<dots> \<le> card (UNIV :: unit_code set)" by (rule card_mono) simp_all
  also have "\<dots> = 2 ^ 32" by (simp add: card_word)
  finally show ?thesis .
qed

lemma broker_run_active: "om_ok (it_active_units t) \<Longrightarrow> om_ok (it_active_units (broker_run xs t))"
  unfolding broker_run_def
proof (induction xs arbitrary: t)
  case (Cons x xs)
  have "om_ok (it_active_units (broker_step x t))"
  proof (cases x)
    case (Broker_Tick now)
    obtain s r t' where k: "broker_tick now t = (s, r, t')" by (cases "broker_tick now t")
    show ?thesis using broker_tick_state(3) [OF k] k Broker_Tick by simp
  qed (simp add: Cons.prems)
  then show ?case using Cons.IH by simp
qed simp

lemma tick_length:
  assumes k: "broker_tick now t = (stop, rep, t')" and t: "om_ok (it_active_units t)"
  shows "int (length stop + length rep) < 2 ^ 62"
proof -
  have "it_active_units (expire_presence now t) = it_active_units t" unfolding expire_presence_def expire_fold by simp
  then have "distinct stop" unfolding broker_tick_state(7) [OF k] using om_ok_distinct [OF t] by simp
  moreover have "distinct (map fst rep)" using om_ok_distinct [OF broker_tick_state(5) [OF k]] by simp
  ultimately have "length stop \<le> 2 ^ 32" "length rep \<le> 2 ^ 32" using length_units [of stop] length_units [of "map fst rep"] by simp_all
  then show ?thesis by simp
qed

text \<open>It is the state \<open>RSU::run_gateway_process\<close> ends in.\<close>

lemma open_fields:
  "on_network (p\<lparr>pr_observed := obs, pr_presence := pre, pr_raw := raw, pr_env := x\<rparr>) = on_network p"
  by (simp add: on_network_def chan_ok_def sock_ok_def)

lemma rsu_process_opens:
  fixes E :: "('g, 'n, 'r, 'x \<times> (unit, bufref, unit, tracker) communicator) env" and raw :: "('g, 'n) raw_engine"
  assumes run: "rsu_gateway_process (protocol_channel E h ()) (new_protocol True ring bufs bufs' mac raw [] x)
      (enable_sync E h set_fixed silence steady early) a cmdline hp stamp (rsu_initialize gw) = Inr (period, b)"
    and gw: "gw_protocol gw = None"
    and bufs: "length bufs = BUFFER_SIZE" "\<forall>b \<in> set bufs. frame_ok (b_data b) \<and> b_size b \<le> MTU"
      "length bufs' = BUFFER_SIZE" "\<forall>b \<in> set bufs'. frame_ok (b_data b) \<and> b_size b \<le> MTU" "mac_ok mac" "mac \<noteq> INTERNAL"
    and gps: "\<forall>g. fst (en_gps E g) = c"
  shows "rsu_open (packed b)" "rsu_tracker (packed b) = tracker_init" "station (packed b) = mac"
    "parked E (packed b)" "quadrant_of E (packed b) = c" "cm_stamp (snd (pr_env (packed b))) = stamp"
    "cm_address (snd (pr_env (packed b))) = \<lparr>a_paddr = shm_address, a_port = PORT_GATEWAY\<rparr>"
proof -
  obtain ctx bus removed where cr: "create a None 0 = (ctx, bus, removed)" by (cases "create a None 0")
  have ids: "\<not> (shmid ctx < 0 \<or> semid ctx < 0)" using run cr by (auto simp: rsu_gateway_process_def split: if_splits)
  let ?np = "new_protocol True ring bufs bufs' mac raw [] x (Some (gateway_configuration ctx)) :: ('g, 'n, 'r, 'x) rsu"
  define n where "n = setup_quadrant (nic_attach () PROTO (nic_init mac bufs' :: unit nic))"
  define s where "s = sptp_init \<lparr>a_paddr = n_address n, a_port = 0\<rparr> True silence"
  define raw' where "raw' = raw\<lparr>r_gps := set_fixed True (r_gps raw)\<rparr>"
  have np: "pr_sock ?np = Some n" "pr_sptp ?np = None" "pr_raw ?np = raw" "pr_address ?np = \<lparr>a_paddr = shm_address, a_port = 0\<rparr>"
    "pr_observed ?np = []" "sp_attached (pr_shm_eng ?np)" "sp_slot (pr_shm_eng ?np) = unat GATEWAY_SLOT" "\<not> n_spatial (pr_shm ?np)"
    by (simp_all add: new_protocol_def protocol_init_def is_gateway_process_def gateway_configuration_def n_def nic_attach_def cdo_attach_def
        nic_init_def)
  have one: "\<forall>port. length (targets_of port ([] :: (unit, u16) observers)) \<le> 1" by simp
  have "usage ?np = ({}, Some {})" by (subst new_protocol_wired(2) [OF bufs(1-5) one]) (simp add: is_gateway_process_def gateway_configuration_def)
  moreover have "{} \<noteq> {..<BUFFER_SIZE}" by (rule not_sym) (simp add: buffer_consts lessThan_empty_iff)
  ultimately have empty: "in_use (pr_shm ?np) \<noteq> {..<BUFFER_SIZE}" by (simp add: usage_def)
  have ms: "s_is_master s" by (simp add: s_def sptp_init_def)
  have sync: "enable_sync E h set_fixed silence steady early True ?np = ?np\<lparr>pr_raw := raw', pr_sptp := Some s\<rparr>"
    using ms np(1-3) by (simp add: enable_sync_def sptp_start_def raw'_def s_def Let_def)
  have b: "b = tracker_open presence_handler (comm_init (protocol_channel E h ()) \<lparr>a_paddr = shm_address, a_port = PORT_GATEWAY\<rparr> True hp stamp
      (?np\<lparr>pr_raw := raw', pr_sptp := Some s\<rparr>) tracker_init)"
    using run cr ids gw np(4) sync by (simp add: rsu_gateway_process_def gateway_run_def rsu_initialize_def create_address_def Let_def)
  let ?obs = "[((), PORT_GATEWAY), ((), a_port logical_broadcast)]"
  have ch: "cm_channel b = ?np\<lparr>pr_raw := raw', pr_sptp := Some s, pr_observed := ?obs, pr_presence := True\<rparr>"
    "cm_observers b = [((), broadcast_condition)]" "cm_clients b = tracker_init" "cm_stamp b = stamp"
    "cm_address b = \<lparr>a_paddr = shm_address, a_port = PORT_GATEWAY\<rparr>"
    using np(5) by (simp_all add: b tracker_open_def comm_init_def protocol_channel_def protocol_attach_def co_attach_def
        presence_handler_def set_presence_handler_def Let_def)
  have net: "on_network (?np\<lparr>pr_sptp := Some s\<rparr>)" "station (?np\<lparr>pr_sptp := Some s\<rparr>) = mac" "parked E (?np\<lparr>pr_sptp := Some s\<rparr>)"
    by (rule new_gateway_on_network [OF bufs gps])+
  define y where "y = (fst x, with_channel () b)"
  have pk: "packed b = (?np\<lparr>pr_sptp := Some s\<rparr>)\<lparr>pr_observed := ?obs, pr_presence := True, pr_raw := raw', pr_env := y\<rparr>"
    by (simp add: packed_def ch(1) y_def new_protocol_def protocol_init_def)
  have ports: "targets_of (a_port logical_broadcast) ?obs = [()]" "targets_of broadcast_condition [((), broadcast_condition)] = [()]"
    by (simp_all add: targets_of_def logical_broadcast_def physical_broadcast_def PORT_GATEWAY_def broadcast_port_def)
  have "on_network (packed b)" unfolding pk open_fields by (rule net(1))
  then show "rsu_open (packed b)" unfolding rsu_open_def using np(6-8) empty ports ch(2) by (simp add: pk y_def)
  show "rsu_tracker (packed b) = tracker_init" by (simp add: pk y_def rsu_tracker_def ch(3))
  show "station (packed b) = mac" using net(2) np(1) by (simp add: pk station_def)
  show q: "quadrant_of E (packed b) = c" using gps by (simp add: quadrant_of_def)
  show "parked E (packed b)" using net(3) np(1) q gps by (simp add: parked_def pk)
  show "cm_stamp (snd (pr_env (packed b))) = stamp" by (simp add: pk y_def ch(4))
  show "cm_address (snd (pr_env (packed b))) = \<lparr>a_paddr = shm_address, a_port = PORT_GATEWAY\<rparr>"
    by (simp add: pk y_def with_channel_def ch(5))
qed

text \<open>C9. The roadside unit carries an interest to producers that did not hear it: the frame of an announcing
  process leaves its vehicle and is entered by the broker of a unit in the same quadrant. When the broker
  ticks within four seconds of that, whatever it heard of others and however often it ticked since, it hands
  to the socket one frame per announcement of that tick and nothing else; exactly one of these frames is about
  the unit, so none withdraws it, and it is an interest with a period no longer than the announced one; the
  gateway of any vehicle not known to be in another quadrant writes that frame to its bus; and every producer
  of the unit there enters the interest under the address of the roadside unit. (Conditions: processes and
  gateways have a buffer free; the unit's clock, which nobody corrects as it is the master, is not set back
  meanwhile, and its readings and stamps are at most 2^62 ns; no interest the broker has or hears has the
  period 0; the announcing process neither withdraws the interest nor announces it with a longer period in
  between; the unit stays in one quadrant; no frame is lost between the sockets.)\<close>

theorem interest_repeated_by_rsu:
  fixes ga :: "('o1, 'g1, 'n1, 'r1, 'x1) proto" and gb :: "('o2, 'g2, 'n2, 'r2, 'x2) proto"
    and r :: "('g, 'n, 'r, 'x) rsu" and R :: "('g, 'n, 'r, 'x \<times> (unit, bufref, unit, tracker) communicator) env"
  assumes snd: "can_send p" "in_i64 (stamp_of now (cm_stamp (snd (pr_env p))))" "stamp_of now (cm_stamp (snd (pr_env p))) \<noteq> 0"
      "n_address (pr_shm p) = shm_address" "sd_period_us (node_smart i p) \<noteq> 0"
    and ga: "relays ga" and rsu: "rsu_open r" "station ga \<noteq> station r" "\<not> other_quadrant (quadrant_of R r) (quadrant_of G ga)"
      "rsu_tracker r = broker_run xs tracker_init" "periods_set (rsu_tracker r)"
    and gb: "relays gb"
    and key: "key = (sd_unit (node_smart i p), \<lparr>a_paddr = station ga, a_port = a_port (cm_address (snd (pr_env p)))\<rparr>)"
  shows "\<exists>bytes out. writes_to_bus E bytes p (node_interest E h now i p)
     \<and> sends_to_network G out (bus_receive G (on_quadrant_change d G) upd bytes ga)
     \<and> wanted (rsu_tracker (rsu_receive R hr n junk out r)) = (wanted (rsu_tracker r))(key \<mapsto> sd_period_us (node_smart i p))
     \<and> (\<forall>ys r' n' clk. rsu_tracker r' = broker_run ys (rsu_tracker (rsu_receive R hr n junk out r))
           \<and> (\<forall>y \<in> set ys. undisturbed key (sd_period_us (node_smart i p)) n n' y) \<and> n' - n \<le> PRESENCE_LEASE_NS
           \<and> rsu_open r' \<and> parked R r' \<and> station r' \<noteq> station gb
           \<and> 0 \<le> cm_stamp (snd (pr_env r')) \<and> cm_stamp (snd (pr_env r')) \<le> 2 ^ 62 \<and> (\<forall>i. clk i \<le> 2 ^ 62) \<longrightarrow>
         (\<exists>outs out' q. handed R outs (pr_raw r') (pr_raw (rsu_tick R (on_quadrant_change d' R) n' clk r'))
           \<and> list_all2 (broadcasts R r' (a_port (cm_address (snd (pr_env r'))))) (tick_messages (broker_tick n' (rsu_tracker r'))) outs
           \<and> filter (\<lambda>z. frame_unit z = sd_unit (node_smart i p)) outs = [out']
           \<and> broadcasts R r' (a_port (cm_address (snd (pr_env r')))) (announcement (sd_unit (node_smart i p)) q False) out'
           \<and> q \<noteq> 0 \<and> q \<le> sd_period_us (node_smart i p)
           \<and> (if other_quadrant (quadrant_of F gb) (quadrant_of R r')
              then pr_shm_eng (sock_receive F h' upd' out' gb) = pr_shm_eng gb \<and> usage (sock_receive F h' upd' out' gb) = usage gb
              else relays_to_bus F out' gb (sock_receive F h' upd' out' gb))
           \<and> (\<forall>v j junk' t. listens j v \<and> sd_role (node_smart j v) = PRODUCER \<and> sd_unit (node_smart j v) = sd_unit (node_smart i p)
                \<and> sd_cache (node_smart j v) = Some t \<and> distinct (map b_key (bc_bindings t)) \<longrightarrow>
                (\<exists>t'. sd_cache (node_smart j (node_receive H h'' k k' junk' out' v)) = Some t'
                   \<and> interests t' (sd_unit (node_smart i p), \<lparr>a_paddr = station r', a_port = a_port (cm_address (snd (pr_env r')))\<rparr>)
                     = Some (q, expiry_for k q t')))))"
proof -
  let ?s = "node_smart i p" and ?sp = "a_port (cm_address (snd (pr_env p)))"
  obtain bytes where b: "writes_to_bus E bytes p (node_interest E h now i p)"
    "data_frame ?sp (a_port logical_broadcast) DATA (stamp_of now (cm_stamp (snd (pr_env p)))) (interest_bytes False ?s) bytes"
    "frame_src bytes = n_address (pr_shm p)" "frame_dst bytes = a_paddr logical_broadcast"
    using node_writes(2) [OF snd(1-3), of E h i] by blast
  have dst: "frame_dst bytes = BROADCAST" using b(4) by (simp add: logical_broadcast_def physical_broadcast_def)
  obtain out where o: "sends_to_network G out (bus_receive G (on_quadrant_change d G) upd bytes ga)"
    "data_frame ?sp (a_port logical_broadcast) DATA (stamp_of now (cm_stamp (snd (pr_env p)))) (interest_bytes False ?s) out"
    "hdr_quadrant (drop HEADER_SIZE out) = quadrant_of G ga" "frame_src out = station ga"
    using gateway_sends_out [OF ga b(2) b(3) [unfolded snd(4)] dst] by blast
  have src: "frame_src out \<noteq> station r" "\<not> other_quadrant (quadrant_of R r) (hdr_quadrant (drop HEADER_SIZE out))"
    using o(3,4) rsu(2,3) by simp_all
  let ?t1 = "rsu_tracker (rsu_receive R hr n junk out r)"
  note heard = rsu_hears(1) [OF rsu(1) o(2) src, of hr n junk, unfolded o(4), folded key]
  have t1: "?t1 = broker_run (xs @ [Hear (Heard n (demo_wish (sd_unit ?s) (sd_period_us ?s) (snd key)))]) tracker_init"
    unfolding heard rsu(4) broker_run_snoc broker_step.simps broker_hear.simps demo_wish_handled by (simp add: key)
  have entry: "wanted ?t1 = (wanted (rsu_tracker r))(key \<mapsto> sd_period_us ?s)"
    unfolding heard using tracked.put_table key by simp
  have ok: "tracker_ok (rsu_tracker r)" "tracker_ok ?t1" unfolding rsu(4) t1 by (rule broker_run_ok [OF tracker_ok_init])+
  have rp: "repeats key (sd_period_us ?s) n ?t1"
    using ok snd(5) rsu(5) periods_set_table [of "rsu_tracker r"]
    unfolding repeats_iff entry by (auto simp: heard key tracker_ok_def)
  have act: "om_ok (it_active_units (broker_run ys ?t1))" for ys
    unfolding t1 by (intro broker_run_active) (simp add: tracker_init_def)
  show ?thesis
  proof (intro exI [of _ bytes] exI [of _ out] conjI allI impI, rule b(1), rule o(1), rule entry, goal_cases)
    case (1 ys r' n' clk)
    then have r: "rsu_open r'" "parked R r'" "station r' \<noteq> station gb" "rsu_tracker r' = broker_run ys ?t1"
      "\<forall>y \<in> set ys. undisturbed key (sd_period_us ?s) n n' y" "n' - n \<le> PRESENCE_LEASE_NS"
      "0 \<le> cm_stamp (snd (pr_env r'))" "cm_stamp (snd (pr_env r')) \<le> 2 ^ 62" "\<forall>i. clk i \<le> 2 ^ 62" by blast+
    obtain stop rep t' where k: "broker_tick n' (rsu_tracker r') = (stop, rep, t')" by (cases "broker_tick n' (rsu_tracker r')")
    have "repeats key (sd_period_us ?s) n (rsu_tracker r')" unfolding r(4) by (rule repeats_run [OF rp r(5,6)])
    then obtain q where q: "map_of rep (sd_unit ?s) = Some q" "q \<noteq> 0" "q \<le> sd_period_us ?s"
      using heard_is_repeated [OF _ r(6) k] unfolding key by blast
    have "int (length stop + length rep) < 2 ^ 62" using tick_length [OF k] act r(4) by simp
    then have len: "2 ^ 62 + int (length stop + length rep) < 2 ^ 63" by simp
    obtain outs where outs: "handed R outs (pr_raw r') (pr_raw (rsu_tick R (on_quadrant_change d' R) n' clk r'))"
      "list_all2 (broadcasts R r' (a_port (cm_address (snd (pr_env r'))))) (tick_messages (stop, rep, t')) outs"
      using rsu_ticks(1) [OF r(1,2) k r(7-9) len, of d'] by blast
    obtain out' where o': "filter (\<lambda>z. frame_unit z = sd_unit ?s) outs = [out']"
      "broadcasts R r' (a_port (cm_address (snd (pr_env r')))) (announcement (sd_unit ?s) q False) out'"
      by (rule tick_frame [OF k q(1) outs(2)])
    note reach = announcement_reaches_producers [OF o'(2) q(2) gb r(3)]
    show ?case unfolding k
      by (intro exI [of _ outs] exI [of _ out'] exI [of _ q] conjI allI impI outs o' q reach(1)) (blast intro: reach(2))
  qed
qed

subsection \<open>A concrete roadside unit\<close>

definition rsu_env :: "(nat, u8 list list, (u8 list \<times> u16 \<times> u16) list, nat \<times> (unit, bufref, unit, tracker) communicator) env" where
  "rsu_env = \<lparr>en_sendto = (\<lambda>bs net. (int (length bs), net @ [bs])), en_gps = (\<lambda>g. (2, g)),
     en_bus = (\<lambda>bs wr fl r. (int (length bs), r @ [(bs, wr, fl)])), en_now = (\<lambda>x. (5000000, x)),
     en_clocks = (\<lambda>x. (demo_clocks, x)), en_settime = (\<lambda>_ x. x), en_presence = (\<lambda>_ x. x)\<rparr>"

definition rsu_mac :: mac where "rsu_mac = [2, 0, 0, 0, 7, 7]"

definition demo_rsu_run :: "(int \<times> os_event list) + (u64 \<times> (bufref, (nat, u8 list list, (u8 list \<times> u16 \<times> u16) list, nat) rsu) broker)" where
  "demo_rsu_run = rsu_gateway_process (protocol_channel rsu_env (\<lambda>p. p) ())
     (new_protocol True [] blank_buffers blank_buffers rsu_mac \<lparr>r_sockfd = 3, r_ifindex = 2, r_gps = 0, r_net = []\<rparr> []
        (0, \<lparr>cm_address = null_address, cm_subscribed = False, cm_observers = [], cm_queue = \<lparr>q_sem = 0, q_data = []\<rparr>,
             cm_heap = \<lparr>h_cells = [], h_deleted = []\<rparr>, cm_stamp = 0, cm_channel = (), cm_clients = tracker_init\<rparr>))
     (enable_sync rsu_env (\<lambda>p. p) (\<lambda>_ g. g) None 0 0) \<lparr>a_shmget = 7, a_semget = 9, a_shmat = True, a_setall = True\<rparr>
     None \<lparr>h_cells = [], h_deleted = []\<rparr> 0 (rsu_initialize gateway_new)"

definition with_tracker :: "tracker \<Rightarrow> ('g, 'n, 'r, 'x) rsu \<Rightarrow> ('g, 'n, 'r, 'x) rsu" where
  "with_tracker t p = p\<lparr>pr_env := (fst (pr_env p), (snd (pr_env p))\<lparr>cm_clients := t\<rparr>)\<rparr>"

lemma with_tracker_keeps:
  "rsu_open (with_tracker t p) = rsu_open p" "parked E (with_tracker t p) = parked E p" "station (with_tracker t p) = station p"
  "rsu_tracker (with_tracker t p) = t" "cm_stamp (snd (pr_env (with_tracker t p))) = cm_stamp (snd (pr_env p))"
  "quadrant_of E (with_tracker t p) = quadrant_of E p" "cm_address (snd (pr_env (with_tracker t p))) = cm_address (snd (pr_env p))"
  by (simp_all add: with_tracker_def rsu_open_def on_network_def chan_ok_def sock_ok_def parked_def station_def rsu_tracker_def quadrant_of_def
      split: option.split)

lemma demo_rsu:
  obtains period b where "demo_rsu_run = Inr (period, b)" "rsu_open (packed b)" "rsu_tracker (packed b) = tracker_init" "station (packed b) = rsu_mac"
    "parked rsu_env (packed b)" "quadrant_of rsu_env (packed b) = 2" "cm_stamp (snd (pr_env (packed b))) = 0"
    "a_port (cm_address (snd (pr_env (packed b)))) = PORT_GATEWAY"
proof -
  have bufs: "length blank_buffers = BUFFER_SIZE" "\<forall>b \<in> set blank_buffers. frame_ok (b_data b) \<and> b_size b \<le> MTU"
    "mac_ok rsu_mac" "rsu_mac \<noteq> INTERNAL" "\<forall>g. fst (en_gps rsu_env g) = 2" "gw_protocol gateway_new = None"
    by (simp_all add: blank_buffers_def frame_ok_def rsu_mac_def mac_ok_def INTERNAL_def rsu_env_def gateway_new_def)
  obtain period b where run: "demo_rsu_run = Inr (period, b)"
    by (cases demo_rsu_run) (auto simp: demo_rsu_run_def rsu_gateway_process_def create_def gateway_run_def rsu_initialize_def MAX_COMPONENTS_def Let_def)
  note o = rsu_process_opens [OF run [unfolded demo_rsu_run_def] bufs(6,1,2,1-5)]
  show ?thesis using that [OF run o(1-6)] o(7) by simp
qed

text \<open>Between the interest and the repetition the broker hears of a synchronisation request and ticks once.\<close>

definition demo_between :: "broker_op list" where
  "demo_between = [Hear (Seen 1500000000 null_address), Broker_Tick 1500000000]"

lemma interest_repeated_by_rsu_witness:
  "\<exists>period b bytes out r' outs out' q t'. demo_rsu_run = Inr (period, b)
     \<and> writes_to_bus node_env bytes (demo_node ((smart_blank SPEED)\<lparr>sd_period_us := 100\<rparr>))
       (node_interest node_env (\<lambda>p. p) 7 0 (demo_node ((smart_blank SPEED)\<lparr>sd_period_us := 100\<rparr>)))
     \<and> sends_to_network demo_env out (bus_receive demo_env (on_quadrant_change 1 demo_env) (\<lambda>_ _ _ p. p) bytes (demo_relay demo_mac))
     \<and> r' = with_tracker (broker_run demo_between (rsu_tracker (rsu_receive rsu_env (\<lambda>p. p) 1000000000 (0, 0) out (packed b)))) (packed b)
     \<and> handed rsu_env outs (pr_raw r') (pr_raw (rsu_tick rsu_env (on_quadrant_change 1 rsu_env) 2000000000 (\<lambda>_. 2000000000) r'))
     \<and> filter (\<lambda>z. frame_unit z = SPEED) outs = [out'] \<and> q \<noteq> 0 \<and> q \<le> 100
     \<and> relays_to_bus demo_env out' (demo_relay other_mac) (sock_receive demo_env (\<lambda>p. p) (\<lambda>_ _ _ p. p) out' (demo_relay other_mac))
     \<and> sd_cache (node_smart 0 (node_receive node_env (\<lambda>p. p) 8 9 (0, 0) out' (demo_node demo_producer))) = Some t'
     \<and> interests t' (SPEED, \<lparr>a_paddr = rsu_mac, a_port = PORT_GATEWAY\<rparr>) = Some (q, expiry_for 8 q t')"
proof -
  let ?c = "(smart_blank SPEED)\<lparr>sd_period_us := 100\<rparr>"
  obtain period b where b: "demo_rsu_run = Inr (period, b)" "rsu_open (packed b)" "rsu_tracker (packed b) = tracker_init"
    "station (packed b) = rsu_mac" "parked rsu_env (packed b)" "quadrant_of rsu_env (packed b) = 2" "cm_stamp (snd (pr_env (packed b))) = 0"
    "a_port (cm_address (snd (pr_env (packed b)))) = PORT_GATEWAY" by (rule demo_rsu)
  have per: "sd_period_us (node_smart 0 (demo_node ?c)) \<noteq> 0" "sd_period_us (node_smart 0 (demo_node ?c)) = 100"
    "sd_unit (node_smart 0 (demo_node ?c)) = SPEED" by (simp_all add: demo_node_ok smart_blank_def)
  obtain t where u: "sd_role demo_producer = PRODUCER" "sd_unit demo_producer = SPEED" "sd_cache demo_producer = Some t"
    "distinct (map b_key (bc_bindings t))"
    by (simp add: smart_blank_def demo_producer_def binding_cache_init_def)
  have mac: "station (demo_relay demo_mac) \<noteq> station (packed b)" "rsu_mac \<noteq> station (demo_relay other_mac)"
    by (simp_all add: demo_relays macs b(4)) (simp_all add: demo_mac_def other_mac_def rsu_mac_def)
  have quad: "\<not> other_quadrant (quadrant_of rsu_env (packed b)) (quadrant_of demo_env (demo_relay demo_mac))"
    by (simp add: b(6) demo_relays macs same_quadrant)
  have tr: "rsu_tracker (packed b) = broker_run [] tracker_init" "periods_set (rsu_tracker (packed b))"
    by (simp_all add: b(3) broker_run_def periods_set_def) (simp add: tracker_init_def)
  have ys: "\<forall>y \<in> set demo_between. undisturbed k 100 1000000000 2000000000 y" for k
    by (simp add: demo_between_def undisturbed_def)
  note C9 = interest_repeated_by_rsu [OF demo_node_ok(2) demo_stamp demo_node_address per(1) demo_relays(1) [OF macs(2)] b(2) mac(1) quad tr
        demo_relays(1) [OF macs(4)] refl, where E = node_env and h = "\<lambda>p. p" and d = 1 and upd = "\<lambda>_ _ _ p. p"
        and hr = "\<lambda>p. p" and n = 1000000000 and junk = "(0, 0)" and d' = 1 and F = demo_env and h' = "\<lambda>p. p" and upd' = "\<lambda>_ _ _ p. p"
        and H = node_env and h'' = "\<lambda>p. p" and k = 8 and k' = 9]
  then show ?thesis
  proof (elim exE conjE, goal_cases)
    case (1 bytes out)
    define r' where "r' = with_tracker (broker_run demo_between (rsu_tracker (rsu_receive rsu_env (\<lambda>p. p) 1000000000 (0, 0) out (packed b)))) (packed b)"
    have r: "rsu_open r'" "parked rsu_env r'" "station r' = rsu_mac" "cm_stamp (snd (pr_env r')) = 0" "quadrant_of rsu_env r' = 2"
      "rsu_tracker r' = broker_run demo_between (rsu_tracker (rsu_receive rsu_env (\<lambda>p. p) 1000000000 (0, 0) out (packed b)))"
      "a_port (cm_address (snd (pr_env r'))) = PORT_GATEWAY"
      using b by (simp_all add: r'_def with_tracker_keeps)
    have "(2000000000 :: int) - 1000000000 \<le> PRESENCE_LEASE_NS" "\<forall>i :: nat. (2000000000 :: int) \<le> 2 ^ 62"
      by (simp_all add: PRESENCE_LEASE_NS_def)
    then obtain outs out' q where q: "handed rsu_env outs (pr_raw r') (pr_raw (rsu_tick rsu_env (on_quadrant_change 1 rsu_env) 2000000000 (\<lambda>_. 2000000000) r'))"
      "filter (\<lambda>z. frame_unit z = SPEED) outs = [out']" "q \<noteq> 0" "q \<le> 100"
      "relays_to_bus demo_env out' (demo_relay other_mac) (sock_receive demo_env (\<lambda>p. p) (\<lambda>_ _ _ p. p) out' (demo_relay other_mac))"
      and v: "\<forall>v j junk' t. listens j v \<and> sd_role (node_smart j v) = PRODUCER \<and> sd_unit (node_smart j v) = SPEED
              \<and> sd_cache (node_smart j v) = Some t \<and> distinct (map b_key (bc_bindings t)) \<longrightarrow>
              (\<exists>t'. sd_cache (node_smart j (node_receive node_env (\<lambda>p. p) 8 9 junk' out' v)) = Some t'
                 \<and> interests t' (SPEED, \<lparr>a_paddr = rsu_mac, a_port = PORT_GATEWAY\<rparr>) = Some (q, expiry_for 8 q t'))"
      using 1(4) [rule_format, of r' demo_between 2000000000 "\<lambda>_. 2000000000"] r(1,2,4,6) ys mac(2)
      unfolding per(2,3) r(3,5,7) demo_relays(3) [OF macs(4)] if_not_P [OF same_quadrant] by auto
    obtain t' where "sd_cache (node_smart 0 (node_receive node_env (\<lambda>p. p) 8 9 (0, 0) out' (demo_node demo_producer))) = Some t'"
      "interests t' (SPEED, \<lparr>a_paddr = rsu_mac, a_port = PORT_GATEWAY\<rparr>) = Some (q, expiry_for 8 q t')"
      using v [rule_format, of 0 "demo_node demo_producer" t "(0, 0)"] u demo_node_ok(1,3) by auto
    then show ?case using 1(1,2) q b(1) r'_def by blast
  qed
qed

end
